(* ===== verification/Prelude.thy ===== *)
theory Prelude
  imports Main "HOL-Library.AList"
begin

text \<open>
  Shared vocabulary of the development: Python dictionaries as insertion-ordered
  association lists, the result type of code that raises, and the collections of
  rewrite rules the component theories draw on.

  A Python \<open>dict\<close> iterates in insertion order and an assignment to a present key keeps
  the key's position.  Both facts are visible to the program (stable sorting of dictionary
  values, "last one wins" comprehensions), so a dictionary is an association list with
  distinct keys and not a bare partial function.
\<close>

named_theorems dict_simps \<open>lookup after a dictionary operation\<close>
named_theorems dict_wf_intros \<open>dictionary operations keep the keys distinct\<close>

type_synonym ('k, 'v) dict = "('k \<times> 'v) list"

text \<open>Fields that the modelled code carries along without ever looking inside are kept as
  their serialised text.\<close>

type_synonym opaque = string

abbreviation dict_get :: "('k, 'v) dict \<Rightarrow> 'k \<Rightarrow> 'v option" where
  "dict_get d k \<equiv> map_of d k"

abbreviation dict_keys :: "('k, 'v) dict \<Rightarrow> 'k list" where
  "dict_keys d \<equiv> map fst d"

abbreviation dict_values :: "('k, 'v) dict \<Rightarrow> 'v list" where
  "dict_values d \<equiv> map snd d"

definition dict_wf :: "('k, 'v) dict \<Rightarrow> bool" where
  "dict_wf d \<longleftrightarrow> distinct (dict_keys d)"

text \<open>\<open>k in d\<close>\<close>

definition dict_has :: "('k, 'v) dict \<Rightarrow> 'k \<Rightarrow> bool" where
  "dict_has d k \<longleftrightarrow> dict_get d k \<noteq> None"

text \<open>\<open>d[k] = v\<close> and \<open>{**d, k: v}\<close>\<close>

definition dict_set :: "'k \<Rightarrow> 'v \<Rightarrow> ('k, 'v) dict \<Rightarrow> ('k, 'v) dict" where
  "dict_set k v d = AList.update k v d"

text \<open>\<open>d.pop(k, None)\<close>\<close>

definition dict_pop :: "'k \<Rightarrow> ('k, 'v) dict \<Rightarrow> ('k, 'v) dict" where
  "dict_pop k d = filter (\<lambda>(k', v). k' \<noteq> k) d"

text \<open>\<open>{k: v for k, v in d.items() if P(k, v)}\<close>\<close>

definition dict_filter :: "('k \<Rightarrow> 'v \<Rightarrow> bool) \<Rightarrow> ('k, 'v) dict \<Rightarrow> ('k, 'v) dict" where
  "dict_filter P d = filter (\<lambda>(k, v). P k v) d"

text \<open>\<open>{k: f(v) for k, v in d.items()}\<close>\<close>

definition dict_map :: "('v \<Rightarrow> 'w) \<Rightarrow> ('k, 'v) dict \<Rightarrow> ('k, 'w) dict" where
  "dict_map f d = map (\<lambda>(k, v). (k, f v)) d"

text \<open>A dictionary comprehension over a list of pairs: a repeated key keeps its first position
  and its last value.\<close>

definition dict_of_pairs :: "('k \<times> 'v) list \<Rightarrow> ('k, 'v) dict" where
  "dict_of_pairs ps = foldl (\<lambda>d (k, v). dict_set k v d) [] ps"

lemma dict_get_set [simp, dict_simps]:
  "dict_get (dict_set k v d) k' = (if k' = k then Some v else dict_get d k')"
  by (simp add: dict_set_def update_conv)

lemma dict_get_filter_keys [dict_simps]:
  "dict_get (dict_filter (\<lambda>k v. P k) d) k' = (if P k' then dict_get d k' else None)"
  by (induction d) (auto simp: dict_filter_def)

lemma dict_get_filter [dict_simps]:
  "dict_wf d \<Longrightarrow> dict_get (dict_filter P d) k =
     (case dict_get d k of None \<Rightarrow> None | Some v \<Rightarrow> if P k v then Some v else None)"
proof (induction d)
  case Nil
  then show ?case by (simp add: dict_filter_def)
next
  case (Cons p d)
  have absent: "dict_get (dict_filter P d) k = None" if "k \<notin> set (dict_keys d)"
    using that by (force simp: dict_filter_def map_of_eq_None_iff)
  from Cons show ?case
    using absent by (cases p) (auto simp: dict_filter_def dict_wf_def split: option.splits)
qed

lemma dict_pop_filter: "dict_pop k d = dict_filter (\<lambda>k' v. k' \<noteq> k) d"
  by (simp add: dict_pop_def dict_filter_def)

lemma dict_get_pop [simp, dict_simps]:
  "dict_get (dict_pop k d) k' = (if k' = k then None else dict_get d k')"
  by (simp add: dict_pop_filter dict_get_filter_keys)

lemma dict_get_map [simp, dict_simps]:
  "dict_get (dict_map f d) k = map_option f (dict_get d k)"
  by (induction d) (auto simp: dict_map_def)

lemma dict_wf_Nil [simp, dict_wf_intros]: "dict_wf []"
  by (simp add: dict_wf_def)

lemma dict_wf_set [simp, dict_wf_intros]: "dict_wf d \<Longrightarrow> dict_wf (dict_set k v d)"
  by (simp add: dict_wf_def dict_set_def distinct_update)

lemma dict_wf_filter [simp, dict_wf_intros]: "dict_wf d \<Longrightarrow> dict_wf (dict_filter P d)"
  by (induction d) (auto simp: dict_wf_def dict_filter_def)

lemma dict_wf_pop [simp, dict_wf_intros]: "dict_wf d \<Longrightarrow> dict_wf (dict_pop k d)"
  by (simp add: dict_pop_filter)

lemma dict_keys_map [simp]: "dict_keys (dict_map f d) = dict_keys d"
  by (induction d) (auto simp: dict_map_def)

lemma dict_wf_map [simp, dict_wf_intros]: "dict_wf (dict_map f d) \<longleftrightarrow> dict_wf d"
  by (simp add: dict_wf_def)

lemma set_keys_dict_set: "set (dict_keys (dict_set k v d)) = insert k (set (dict_keys d))"
  by (simp add: dict_set_def dom_update)

lemma set_keys_dict_filter_subset: "set (dict_keys (dict_filter P d)) \<subseteq> set (dict_keys d)"
  by (auto simp: dict_filter_def)

lemma set_keys_dict_pop: "set (dict_keys (dict_pop k d)) = set (dict_keys d) - {k}"
  by (auto simp: dict_pop_def)

lemma dict_has_iff_keys: "dict_has d k \<longleftrightarrow> k \<in> set (dict_keys d)"
  by (force simp: dict_has_def map_of_eq_None_iff)

lemma dict_has_set [simp]: "dict_has (dict_set k v d) k' \<longleftrightarrow> k' = k \<or> dict_has d k'"
  by (simp add: dict_has_def)

lemma dict_has_pop [simp]: "dict_has (dict_pop k d) k' \<longleftrightarrow> k' \<noteq> k \<and> dict_has d k'"
  by (simp add: dict_has_def)

lemma length_dict_pop_less: "dict_get d k \<noteq> None \<Longrightarrow> length (dict_pop k d) < length d"
proof (induction d)
  case (Cons p d)
  then show ?case
    by (cases p) (auto simp: dict_pop_def less_Suc_eq_le split: if_splits)
qed simp

lemma dict_get_in_values: "dict_get d k = Some v \<Longrightarrow> v \<in> set (dict_values d)"
  by (force dest: map_of_SomeD)

lemma dict_values_get:
  "dict_wf d \<Longrightarrow> v \<in> set (dict_values d) \<Longrightarrow> \<exists>k. dict_get d k = Some v"
  by (force simp: dict_wf_def)

lemma dict_filter_True: "(\<And>k v. (k, v) \<in> set d \<Longrightarrow> P k v) \<Longrightarrow> dict_filter P d = d"
  by (induction d) (auto simp: dict_filter_def)

lemma length_dict_set: "length (dict_set k v d) = (if dict_has d k then length d else Suc (length d))"
  by (induction d) (auto simp: dict_set_def dict_has_def)

lemma dict_values_set_subset:
  "set (dict_values (dict_set k v d)) \<subseteq> insert v (set (dict_values d))"
  by (induction d) (auto simp: dict_set_def)

lemma set_dict_set_subset: "set (dict_set k v d) \<subseteq> insert (k, v) (set d)"
  by (induction d) (auto simp: dict_set_def)

lemma dict_set_new: "\<not> dict_has d k \<Longrightarrow> dict_set k v d = d @ [(k, v)]"
  by (induction d) (auto simp: dict_set_def dict_has_def)

lemma dict_of_pairs_distinct: "distinct (map fst ps) \<Longrightarrow> dict_of_pairs ps = ps"
proof -
  have "foldl (\<lambda>d (k, v). dict_set k v d) acc ps = acc @ ps" if "distinct (map fst (acc @ ps))" for acc
    using that
  proof (induction ps arbitrary: acc)
    case (Cons p ps)
    have "\<not> dict_has acc (fst p)" using Cons.prems by (auto simp: dict_has_iff_keys)
    then show ?case using Cons.IH [of "acc @ [p]"] Cons.prems by (cases p) (auto simp: dict_set_new)
  qed simp
  then show "distinct (map fst ps) \<Longrightarrow> dict_of_pairs ps = ps" by (simp add: dict_of_pairs_def)
qed

end
