(* ===== verification/Multiaddr.thy ===== *)
theory Multiaddr
  imports Prelude
begin

text \<open>
  \<^verbatim>\<open>src/skulk/shared/types/multiaddr.py\<close>: validated socket addresses.  The three regular
  expressions are written as scanners over the address text; each scanner consumes the longest
  match of its part of the pattern and returns the rest, \<open>None\<close> where the pattern fails.
  All parts are delimited by characters outside the class they repeat (a dot, a slash, the end),
  so the longest match is the only one a backtracking matcher could use.  Addresses are ASCII
  text.
\<close>

record multiaddr =
  address :: string

definition is_digit :: "char \<Rightarrow> bool" where
  "is_digit c \<longleftrightarrow> c \<in> set ''0123456789''"

definition is_hex_colon :: "char \<Rightarrow> bool" where
  "is_hex_colon c \<longleftrightarrow> c \<in> set ''0123456789abcdefABCDEF:''"

definition is_alpha :: "char \<Rightarrow> bool" where
  "is_alpha c \<longleftrightarrow> c \<in> set ''abcdefghijklmnopqrstuvwxyzABCDEFGHIJKLMNOPQRSTUVWXYZ''"

definition is_dns_char :: "char \<Rightarrow> bool" where
  "is_dns_char c \<longleftrightarrow> is_alpha c \<or> is_digit c \<or> c \<in> set ''.-''"

fun scan_literal :: "string \<Rightarrow> string \<Rightarrow> string option" where
  "scan_literal [] s = Some s"
| "scan_literal (c # cs) [] = None"
| "scan_literal (c # cs) (x # xs) = (if c = x then scan_literal cs xs else None)"

text \<open>\<open>[class]{lo,hi}\<close>, the consumed text and the rest; \<open>hi = None\<close> for \<open>+\<close>.\<close>

definition scan_class ::
  "(char \<Rightarrow> bool) \<Rightarrow> nat option \<Rightarrow> string \<Rightarrow> (string \<times> string) option" where
  "scan_class P hi s =
     (let run = takeWhile P s; got = (case hi of None \<Rightarrow> run | Some n \<Rightarrow> take n run)
      in if got = [] then None else Some (got, drop (length got) s))"

definition scan_octet_dot :: "string \<Rightarrow> (string \<times> string) option" where
  "scan_octet_dot s =
     (case scan_class is_digit (Some 3) s of
        None \<Rightarrow> None
      | Some (d, r) \<Rightarrow> (case scan_literal ''.'' r of None \<Rightarrow> None | Some r' \<Rightarrow> Some (d @ ''.'', r')))"

definition scan_quad :: "string \<Rightarrow> (string \<times> string) option" where
  "scan_quad s =
     (case scan_octet_dot s of None \<Rightarrow> None | Some (a, r1) \<Rightarrow>
      case scan_octet_dot r1 of None \<Rightarrow> None | Some (b, r2) \<Rightarrow>
      case scan_octet_dot r2 of None \<Rightarrow> None | Some (c, r3) \<Rightarrow>
      case scan_class is_digit (Some 3) r3 of None \<Rightarrow> None | Some (d, r4) \<Rightarrow>
        Some (a @ b @ c @ d, r4))"

text \<open>The optional \<open>(/tcp/(\d{1,5}))?\<close> and \<open>(/p2p/[A-Za-z0-9]+)?\<close> parts and the final \<open>$\<close>,
  which also accepts one trailing newline.\<close>

definition skip_tcp :: "string \<Rightarrow> string" where
  "skip_tcp s =
     (case scan_literal ''/tcp/'' s of None \<Rightarrow> s | Some r \<Rightarrow>
      (case scan_class is_digit (Some 5) r of None \<Rightarrow> s | Some (_, r') \<Rightarrow> r'))"

definition skip_p2p :: "string \<Rightarrow> string" where
  "skip_p2p s =
     (case scan_literal ''/p2p/'' s of None \<Rightarrow> s | Some r \<Rightarrow>
      (case scan_class (\<lambda>c. is_alpha c \<or> is_digit c) None r of None \<Rightarrow> s | Some (_, r') \<Rightarrow> r'))"

definition at_end :: "string \<Rightarrow> bool" where
  "at_end s \<longleftrightarrow> s = [] \<or> s = [CHR 0x0A]"

definition suffix_ok :: "string \<Rightarrow> bool" where
  "suffix_ok s \<longleftrightarrow> at_end (skip_p2p (skip_tcp s))"

definition scan_ip4 :: "string \<Rightarrow> (string \<times> string) option" where
  "scan_ip4 s = (case scan_literal ''/ip4/'' s of None \<Rightarrow> None | Some r \<Rightarrow> scan_quad r)"

definition scan_ip6 :: "string \<Rightarrow> (string \<times> string) option" where
  "scan_ip6 s =
     (case scan_literal ''/ip6/'' s of None \<Rightarrow> None | Some r \<Rightarrow> scan_class is_hex_colon None r)"

definition scan_dns :: "string \<Rightarrow> (string \<times> string) option" where
  "scan_dns s =
     (case scan_literal ''/dns'' s of None \<Rightarrow> None | Some r \<Rightarrow>
      (let r' = (case r of c # cs \<Rightarrow> if c \<in> set ''46'' then cs else r | [] \<Rightarrow> r)
       in case scan_literal ''/'' r' of None \<Rightarrow> None | Some h \<Rightarrow> scan_class is_dns_char None h))"

definition matches_whole :: "(string \<times> string) option \<Rightarrow> bool" where
  "matches_whole m = (case m of None \<Rightarrow> False | Some (_, rest) \<Rightarrow> suffix_ok rest)"

text \<open>\<open>validate_format\<close> accepts an address that one of the three patterns matches.\<close>

definition validate_format :: "string \<Rightarrow> bool" where
  "validate_format v \<longleftrightarrow>
     matches_whole (scan_ip4 v) \<or> matches_whole (scan_ip6 v) \<or> matches_whole (scan_dns v)"

text \<open>\<open>pattern.split("/")[1]\<close> of the first pattern that matches; \<open>None\<close> is the \<open>ValueError\<close>.\<close>

definition address_type :: "multiaddr \<Rightarrow> string option" where
  "address_type m =
     (if matches_whole (scan_ip4 (address m)) then Some ''ip4''
      else if matches_whole (scan_ip6 (address m)) then Some ''ip6''
      else if matches_whole (scan_dns (address m)) then Some ''dns[46]?''
      else None)"

definition ipv4_address :: "multiaddr \<Rightarrow> string option" where
  "ipv4_address m = map_option fst (scan_ip4 (address m))"

definition ipv6_address :: "multiaddr \<Rightarrow> string option" where
  "ipv6_address m = map_option fst (scan_ip6 (address m))"

definition ip_address :: "multiaddr \<Rightarrow> string option" where
  "ip_address m =
     (case address_type m of
        None \<Rightarrow> None
      | Some ty \<Rightarrow> if ty = ''ip4'' then ipv4_address m else ipv6_address m)"

text \<open>The first \<open>/tcp/\<close> followed by a digit, anywhere in the address (\<open>re.search\<close>).\<close>

fun digits_value :: "string \<Rightarrow> int \<Rightarrow> int" where
  "digits_value [] acc = acc"
| "digits_value (c # cs) acc = digits_value cs (10 * acc + int (of_char c - 48))"

fun port_of :: "string \<Rightarrow> int option" where
  "port_of [] = None"
| "port_of (c # cs) =
     (case scan_literal ''/tcp/'' (c # cs) of
        None \<Rightarrow> port_of cs
      | Some r \<Rightarrow> (case scan_class is_digit (Some 5) r of
                     None \<Rightarrow> port_of cs
                   | Some (d, _) \<Rightarrow> Some (digits_value d 0)))"

definition port :: "multiaddr \<Rightarrow> int option" where
  "port m = port_of (address m)"

section \<open>Properties\<close>

lemma scan_literal_Some: "scan_literal p s = Some r \<longleftrightarrow> s = p @ r"
  by (induction p s rule: scan_literal.induct) auto

lemma scan_class_Some: "scan_class P hi s = Some (got, rest) \<Longrightarrow> s = got @ rest \<and> got \<noteq> []"
proof -
  assume "scan_class P hi s = Some (got, rest)"
  moreover have "take n (takeWhile P s) @ drop (length (take n (takeWhile P s))) s = s" for n
    by (metis append_eq_conv_conj append_take_drop_id takeWhile_dropWhile_id append.assoc)
  moreover have "takeWhile P s @ drop (length (takeWhile P s)) s = s"
    by (metis append_eq_conv_conj takeWhile_dropWhile_id)
  ultimately show ?thesis
    by (auto simp: scan_class_def Let_def split: if_splits option.splits)
qed

lemma scan_octet_dot_Some: "scan_octet_dot s = Some (got, rest) \<Longrightarrow> s = got @ rest \<and> got \<noteq> []"
  by (auto simp: scan_octet_dot_def scan_literal_Some dest!: scan_class_Some split: option.splits)

lemma scan_quad_Some: "scan_quad s = Some (got, rest) \<Longrightarrow> s = got @ rest \<and> got \<noteq> []"
  by (auto simp: scan_quad_def dest!: scan_class_Some scan_octet_dot_Some split: option.splits)

lemma scan_ip4_prefix: "scan_ip4 s = Some (ip, tail) \<Longrightarrow> s = ''/ip4/'' @ ip @ tail \<and> ip \<noteq> []"
  by (auto simp: scan_ip4_def scan_literal_Some dest!: scan_quad_Some split: option.splits)

lemma scan_ip6_prefix: "scan_ip6 s = Some (ip, tail) \<Longrightarrow> s = ''/ip6/'' @ ip @ tail \<and> ip \<noteq> []"
  by (auto simp: scan_ip6_def scan_literal_Some dest!: scan_class_Some split: option.splits)

lemma scan_dns_prefix: "scan_dns s = Some (host, tail) \<Longrightarrow> \<exists>r. s = ''/dns'' @ r"
  by (auto simp: scan_dns_def scan_literal_Some split: option.splits)

text \<open>
  Total on addresses with a numeric host.  A validated address that starts with \<open>/ip4/\<close>
  or \<open>/ip6/\<close> always has an IP address, and that address is the text right after the prefix.
\<close>

theorem ip_address_of_numeric_host:
  assumes "validate_format (address m)"
    and "address m = ''/ip4/'' @ rest \<or> address m = ''/ip6/'' @ rest"
  shows "\<exists>ip tail. ip_address m = Some ip \<and> ip \<noteq> [] \<and> rest = ip @ tail"
  using assms
  by (auto simp: validate_format_def matches_whole_def ip_address_def address_type_def
      ipv4_address_def ipv6_address_def split: option.splits prod.splits
      dest!: scan_ip4_prefix scan_ip6_prefix scan_dns_prefix)

theorem ip_address_of_numeric_host_witness:
  "\<exists>ip tail. ip_address \<lparr>address = ''/ip4/10.0.0.1''\<rparr> = Some ip \<and> ip \<noteq> [] \<and>
     ''10.0.0.1'' = ip @ tail"
  by (rule ip_address_of_numeric_host) (code_simp, simp)

text \<open>
  DNS hosts have no IP address.  An address whose host is a name passes validation, but
  reading its \<open>ip_address\<close> raises: \<open>address_type\<close> is not \<open>ip4\<close>, so the IPv6 pattern is
  tried and cannot match.
\<close>

theorem ip_address_raises_on_dns:
  assumes "validate_format (address m)" and "address m = ''/dns'' @ rest"
  shows "ip_address m = None"
  using assms
  by (auto simp: validate_format_def matches_whole_def ip_address_def address_type_def
      ipv4_address_def ipv6_address_def split: option.splits prod.splits
      dest!: scan_ip4_prefix scan_ip6_prefix scan_dns_prefix)

theorem ip_address_raises_on_dns_witness:
  "ip_address \<lparr>address = ''/dns/node.local/tcp/4001''\<rparr> = None"
  by (rule ip_address_raises_on_dns [where rest = "''/node.local/tcp/4001''"]) (code_simp, simp)

end
