(* ===== verification/Topology.thy ===== *)
theory Topology
  imports Multiaddr
begin

text \<open>
  The connectivity graph of \<^verbatim>\<open>src/skulk/shared/topology.py\<close>.  A \<open>Topology\<close> wraps a
  directed multigraph of the third-party package rustworkx, whose nodes and edges are named by
  integer indices, and keeps a dictionary from node identities to indices.

  The graph package is a parameter: a record \<open>rx\<close> of the calls the class makes.  The locale
  \<open>rx_digraph\<close> states the documented behaviour of those calls over two views, the indexed
  nodes \<open>V\<close> and the indexed edges \<open>E\<close>.  Inside it every operation of the class is shown to
  implement the obvious operation on an abstract graph, a set of node identities and a set of
  connections.  An adjacency-list graph at the end of the theory interprets the locale.
\<close>

section \<open>Data\<close>

type_synonym node_id = string

datatype edge =
    RDMAConnection (source_rdma_iface: string) (sink_rdma_iface: string)
  | SocketConnection (sink_multiaddr: multiaddr) (session: bool)

definition is_rdma :: "edge \<Rightarrow> bool" where
  "is_rdma e = (case e of RDMAConnection _ _ \<Rightarrow> True | SocketConnection _ _ \<Rightarrow> False)"

record connection =
  conn_source :: node_id
  conn_sink :: node_id
  conn_edge :: edge

text \<open>The calls made on \<open>rx.PyDiGraph\<close>; \<open>rx_get_all_edge_data\<close> is \<open>None\<close> where the package
  raises \<open>NoEdgeBetweenNodes\<close>.\<close>

record 'g rx_ops =
  rx_new :: 'g
  rx_add_node :: "'g \<Rightarrow> node_id \<Rightarrow> 'g \<times> nat"
  rx_remove_node :: "'g \<Rightarrow> nat \<Rightarrow> 'g"
  rx_add_edge :: "'g \<Rightarrow> nat \<Rightarrow> nat \<Rightarrow> edge \<Rightarrow> 'g"
  rx_remove_edge :: "'g \<Rightarrow> nat \<Rightarrow> 'g"
  rx_node :: "'g \<Rightarrow> nat \<Rightarrow> node_id"
  rx_nodes :: "'g \<Rightarrow> node_id list"
  rx_neighbors :: "'g \<Rightarrow> nat \<Rightarrow> nat list"
  rx_in_degree :: "'g \<Rightarrow> nat \<Rightarrow> nat"
  rx_out_edges :: "'g \<Rightarrow> nat \<Rightarrow> (nat \<times> nat \<times> edge) list"
  rx_out_edge_indices :: "'g \<Rightarrow> nat \<Rightarrow> nat list"
  rx_edge_indices_from_endpoints :: "'g \<Rightarrow> nat \<Rightarrow> nat \<Rightarrow> nat list"
  rx_edge_data :: "'g \<Rightarrow> nat \<Rightarrow> edge"
  rx_get_all_edge_data :: "'g \<Rightarrow> nat \<Rightarrow> nat \<Rightarrow> edge list option"
  rx_weighted_edge_list :: "'g \<Rightarrow> (nat \<times> nat \<times> edge) list"
  rx_simple_cycles :: "'g \<Rightarrow> nat list list"

record 'g topology =
  graph :: 'g
  vertex_indices :: "(node_id, nat) dict"

record topology_snapshot =
  snap_nodes :: "node_id list"
  snap_connections :: "(node_id, (node_id, edge list) dict) dict"

text \<open>Per-node facts the cycle detection reads (\<^verbatim>\<open>profiling.py\<close>).\<close>

record network_interface_info =
  iface_name :: string
  iface_ip_address :: string
  iface_type :: string

record thunderbolt_bridge_status =
  tb_enabled :: bool
  tb_exists :: bool
  tb_service_name :: "string option"

section \<open>Operations\<close>

definition new_topology :: "'g rx_ops \<Rightarrow> 'g topology" where
  "new_topology rx = \<lparr>graph = rx_new rx, vertex_indices = []\<rparr>"

definition add_node :: "'g rx_ops \<Rightarrow> node_id \<Rightarrow> 'g topology \<Rightarrow> 'g topology" where
  "add_node rx node_id t =
     (if dict_has (vertex_indices t) node_id then t
      else let (g, rx_id) = rx_add_node rx (graph t) node_id
           in t\<lparr>graph := g, vertex_indices := dict_set node_id rx_id (vertex_indices t)\<rparr>)"

definition node_is_leaf :: "'g rx_ops \<Rightarrow> node_id \<Rightarrow> 'g topology \<Rightarrow> bool" where
  "node_is_leaf rx node_id t =
     (case dict_get (vertex_indices t) node_id of
        None \<Rightarrow> False
      | Some i \<Rightarrow> length (rx_neighbors rx (graph t) i) \<le> 1)"

text \<open>\<open>None\<close> is the \<open>KeyError\<close> of an absent node.\<close>

definition neighbours :: "'g rx_ops \<Rightarrow> node_id \<Rightarrow> 'g topology \<Rightarrow> node_id list option" where
  "neighbours rx node_id t =
     map_option (\<lambda>i. map (rx_node rx (graph t)) (rx_neighbors rx (graph t) i))
       (dict_get (vertex_indices t) node_id)"

definition out_edges :: "'g rx_ops \<Rightarrow> node_id \<Rightarrow> 'g topology \<Rightarrow> connection list" where
  "out_edges rx node_id t =
     (case dict_get (vertex_indices t) node_id of
        None \<Rightarrow> []
      | Some i \<Rightarrow>
          map (\<lambda>(source, sink, edge). \<lparr>conn_source = rx_node rx (graph t) source,
                 conn_sink = rx_node rx (graph t) sink, conn_edge = edge\<rparr>)
            (rx_out_edges rx (graph t) i))"

definition contains_node :: "node_id \<Rightarrow> 'g topology \<Rightarrow> bool" where
  "contains_node node_id t = dict_has (vertex_indices t) node_id"

definition node_has_no_incoming_edges :: "'g rx_ops \<Rightarrow> node_id \<Rightarrow> 'g topology \<Rightarrow> bool" where
  "node_has_no_incoming_edges rx node_id t =
     (case dict_get (vertex_indices t) node_id of
        None \<Rightarrow> True
      | Some i \<Rightarrow> rx_in_degree rx (graph t) i = 0)"

definition get_all_connections_between ::
  "'g rx_ops \<Rightarrow> node_id \<Rightarrow> node_id \<Rightarrow> 'g topology \<Rightarrow> edge list" where
  "get_all_connections_between rx source sink t =
     (case dict_get (vertex_indices t) source of None \<Rightarrow> [] | Some src_id \<Rightarrow>
      (case dict_get (vertex_indices t) sink of None \<Rightarrow> [] | Some sink_id \<Rightarrow>
       (case rx_get_all_edge_data rx (graph t) src_id sink_id of None \<Rightarrow> [] | Some es \<Rightarrow> es)))"

definition add_connection :: "'g rx_ops \<Rightarrow> connection \<Rightarrow> 'g topology \<Rightarrow> 'g topology" where
  "add_connection rx conn t =
     (if conn_edge conn \<in> set (get_all_connections_between rx (conn_source conn) (conn_sink conn) t)
      then t
      else let t1 = add_node rx (conn_source conn) t;
               t2 = add_node rx (conn_sink conn) t1
           in case (dict_get (vertex_indices t2) (conn_source conn),
                    dict_get (vertex_indices t2) (conn_sink conn)) of
                (Some src_id, Some sink_id) \<Rightarrow>
                  t2\<lparr>graph := rx_add_edge rx (graph t2) src_id sink_id (conn_edge conn)\<rparr>
              | _ \<Rightarrow> t2)"

definition list_nodes :: "'g rx_ops \<Rightarrow> 'g topology \<Rightarrow> node_id list" where
  "list_nodes rx t = rx_nodes rx (graph t)"

definition list_connections :: "'g rx_ops \<Rightarrow> 'g topology \<Rightarrow> connection list" where
  "list_connections rx t =
     map (\<lambda>(src_id, sink_id, edge). \<lparr>conn_source = rx_node rx (graph t) src_id,
            conn_sink = rx_node rx (graph t) sink_id, conn_edge = edge\<rparr>)
       (rx_weighted_edge_list rx (graph t))"

text \<open>\<open>base[source][sink].append(connection)\<close> with both levels created on demand.\<close>

definition add_to_base ::
  "(node_id, (node_id, edge list) dict) dict \<Rightarrow> connection \<Rightarrow> (node_id, (node_id, edge list) dict) dict"
where
  "add_to_base base c =
     (let inner = (case dict_get base (conn_source c) of None \<Rightarrow> [] | Some d \<Rightarrow> d);
          edges = (case dict_get inner (conn_sink c) of None \<Rightarrow> [] | Some es \<Rightarrow> es)
      in dict_set (conn_source c) (dict_set (conn_sink c) (edges @ [conn_edge c]) inner) base)"

definition map_connections ::
  "'g rx_ops \<Rightarrow> 'g topology \<Rightarrow> (node_id, (node_id, edge list) dict) dict" where
  "map_connections rx t = foldl add_to_base [] (list_connections rx t)"

definition to_snapshot :: "'g rx_ops \<Rightarrow> 'g topology \<Rightarrow> topology_snapshot" where
  "to_snapshot rx t = \<lparr>snap_nodes = list_nodes rx t, snap_connections = map_connections rx t\<rparr>"

text \<open>The connections of a snapshot in the order the nested loops visit them.\<close>

definition snapshot_connections :: "topology_snapshot \<Rightarrow> connection list" where
  "snapshot_connections s =
     [\<lparr>conn_source = source, conn_sink = sink, conn_edge = edge\<rparr>.
        (source, inner) \<leftarrow> snap_connections s, (sink, edges) \<leftarrow> inner, edge \<leftarrow> edges]"

definition from_snapshot :: "'g rx_ops \<Rightarrow> topology_snapshot \<Rightarrow> 'g topology" where
  "from_snapshot rx s =
     foldl (\<lambda>t c. add_connection rx c t)
       (foldl (\<lambda>t n. add_node rx n t) (new_topology rx) (snap_nodes s))
       (snapshot_connections s)"

definition remove_node :: "'g rx_ops \<Rightarrow> node_id \<Rightarrow> 'g topology \<Rightarrow> 'g topology" where
  "remove_node rx node_id t =
     (case dict_get (vertex_indices t) node_id of
        None \<Rightarrow> t
      | Some rx_idx \<Rightarrow>
          t\<lparr>graph := rx_remove_node rx (graph t) rx_idx,
            vertex_indices := dict_pop node_id (vertex_indices t)\<rparr>)"

definition remove_edges_where :: "'g rx_ops \<Rightarrow> (edge \<Rightarrow> bool) \<Rightarrow> nat list \<Rightarrow> 'g \<Rightarrow> 'g" where
  "remove_edges_where rx P idxs g =
     foldl (\<lambda>g i. if P (rx_edge_data rx g i) then rx_remove_edge rx g i else g) g idxs"

text \<open>\<open>None\<close> is the \<open>KeyError\<close> of an absent source.\<close>

definition replace_all_out_rdma_connections ::
  "'g rx_ops \<Rightarrow> node_id \<Rightarrow> connection list \<Rightarrow> 'g topology \<Rightarrow> 'g topology option" where
  "replace_all_out_rdma_connections rx source new_connections t =
     (case dict_get (vertex_indices t) source of
        None \<Rightarrow> None
      | Some i \<Rightarrow>
          Some (foldl (\<lambda>t c. add_connection rx c t)
            (t\<lparr>graph := remove_edges_where rx is_rdma (rx_out_edge_indices rx (graph t) i) (graph t)\<rparr>)
            new_connections))"

definition remove_connection :: "'g rx_ops \<Rightarrow> connection \<Rightarrow> 'g topology \<Rightarrow> 'g topology" where
  "remove_connection rx conn t =
     (case (dict_get (vertex_indices t) (conn_source conn),
            dict_get (vertex_indices t) (conn_sink conn)) of
        (Some a, Some b) \<Rightarrow>
          t\<lparr>graph := remove_edges_where rx (\<lambda>e. e = conn_edge conn)
                       (rx_edge_indices_from_endpoints rx (graph t) a b) (graph t)\<rparr>
      | _ \<Rightarrow> t)"

definition get_cycles :: "'g rx_ops \<Rightarrow> 'g topology \<Rightarrow> node_id list list" where
  "get_cycles rx t =
     map (map (rx_node rx (graph t))) (rx_simple_cycles rx (graph t))
       @ map (\<lambda>n. [n]) (list_nodes rx t)"

text \<open>
  The RDMA subgraph gets fresh indices for its nodes but its edges keep the indices of the
  original graph, as the source has it.
\<close>

definition get_rdma_cycles :: "'g rx_ops \<Rightarrow> 'g topology \<Rightarrow> node_id list list" where
  "get_rdma_cycles rx t =
     (let rdma_edges = filter (\<lambda>(u, v, conn). is_rdma conn) (rx_weighted_edge_list rx (graph t));
          g0 = foldl (\<lambda>g n. fst (rx_add_node rx g n)) (rx_new rx) (rx_nodes rx (graph t));
          rdma_graph = foldl (\<lambda>g (u, v, conn). rx_add_edge rx g u v conn) g0 rdma_edges
      in map (map (rx_node rx rdma_graph)) (rx_simple_cycles rx rdma_graph))"

definition get_subgraph_from_nodes :: "'g rx_ops \<Rightarrow> node_id list \<Rightarrow> 'g topology \<Rightarrow> 'g topology" where
  "get_subgraph_from_nodes rx node_ids t =
     foldl (\<lambda>u c. if conn_source c \<in> set node_ids \<and> conn_sink c \<in> set node_ids
                   then add_connection rx c u else u)
       (foldl (\<lambda>u n. add_node rx n u) (new_topology rx) node_ids)
       (list_connections rx t)"

text \<open>\<open>None\<close> is the \<open>KeyError\<close> of a cycle member that is no node.\<close>

definition is_rdma_cycle :: "'g rx_ops \<Rightarrow> node_id list \<Rightarrow> 'g topology \<Rightarrow> bool option" where
  "is_rdma_cycle rx cycle t =
     (if \<not> list_all (\<lambda>n. dict_has (vertex_indices t) n) cycle then None
      else let rx_idxs = map (\<lambda>n. the (dict_get (vertex_indices t) n)) cycle in
        Some (list_all (\<lambda>rid. list_all (\<lambda>nb. nb \<in> set rx_idxs \<longrightarrow>
                (case rx_get_all_edge_data rx (graph t) rid nb of
                   None \<Rightarrow> False | Some es \<Rightarrow> list_ex is_rdma es))
              (rx_neighbors rx (graph t) rid)) rx_idxs))"

definition get_ips_with_interface_type ::
  "node_id list \<Rightarrow> (node_id, network_interface_info list) dict \<Rightarrow> string \<Rightarrow> string set" where
  "get_ips_with_interface_type node_ids node_network interface_type =
     set (concat (map (\<lambda>n.
       map iface_ip_address (filter (\<lambda>i. iface_type i = interface_type)
         (case dict_get node_network n of None \<Rightarrow> [] | Some ifs \<Rightarrow> ifs))) node_ids))"

text \<open>
  The edges copied into the subgraph, \<open>None\<close> when reading a socket address raises.  A socket
  edge is copied when its address is a Thunderbolt address, an RDMA edge always.
\<close>

fun thunderbolt_edges ::
  "string set \<Rightarrow> (node_id \<times> nat) list \<Rightarrow> (node_id \<times> node_id \<times> edge) list
     \<Rightarrow> (nat \<times> nat \<times> edge) list option" where
  "thunderbolt_edges ips idx [] = Some []"
| "thunderbolt_edges ips idx ((source, sink, e) # es) =
     (case (dict_get idx source, dict_get idx sink) of
        (Some a, Some b) \<Rightarrow>
          (case e of
             RDMAConnection _ _ \<Rightarrow> map_option ((#) (a, b, e)) (thunderbolt_edges ips idx es)
           | SocketConnection addr _ \<Rightarrow>
               (case ip_address addr of
                  None \<Rightarrow> None
                | Some ip \<Rightarrow> if ip \<in> ips then map_option ((#) (a, b, e)) (thunderbolt_edges ips idx es)
                             else thunderbolt_edges ips idx es))
      | _ \<Rightarrow> thunderbolt_edges ips idx es)"

fun add_nodes_indexed :: "'g rx_ops \<Rightarrow> node_id list \<Rightarrow> 'g \<Rightarrow> (node_id \<times> nat) list \<Rightarrow> 'g \<times> (node_id \<times> nat) list"
where
  "add_nodes_indexed rx [] g idx = (g, idx)"
| "add_nodes_indexed rx (n # ns) g idx =
     (let (g', i) = rx_add_node rx g n in add_nodes_indexed rx ns g' (dict_set n i idx))"

definition get_thunderbolt_bridge_cycles ::
  "'g rx_ops \<Rightarrow> (node_id, thunderbolt_bridge_status) dict
     \<Rightarrow> (node_id, network_interface_info list) dict \<Rightarrow> 'g topology \<Rightarrow> node_id list list option" where
  "get_thunderbolt_bridge_cycles rx node_tb_bridge_status node_network t =
     (let enabled_nodes = dict_keys (dict_filter (\<lambda>_ s. tb_enabled s) node_tb_bridge_status) in
      if length enabled_nodes < 2 then Some []
      else let thunderbolt_ips = get_ips_with_interface_type enabled_nodes node_network ''thunderbolt'';
               (g0, node_to_idx) = add_nodes_indexed rx
                  (filter (\<lambda>n. dict_has (vertex_indices t) n) enabled_nodes) (rx_new rx) [];
               named = map (\<lambda>(u, v, conn). (rx_node rx (graph t) u, rx_node rx (graph t) v, conn))
                         (rx_weighted_edge_list rx (graph t))
           in case thunderbolt_edges thunderbolt_ips node_to_idx named of
                None \<Rightarrow> None
              | Some es \<Rightarrow>
                  let g = foldl (\<lambda>g (a, b, e). rx_add_edge rx g a b e) g0 es
                  in Some (map (map (rx_node rx g))
                       (filter (\<lambda>cycle. 2 \<le> length cycle) (rx_simple_cycles rx g))))"

section \<open>The contract of the graph package\<close>

text \<open>\<open>lists f A xs\<close>: \<open>xs\<close> enumerates, in some order and once each, the images of the indices
  in \<open>A\<close>.\<close>

definition lists_image :: "(nat \<Rightarrow> 'x) \<Rightarrow> nat set \<Rightarrow> 'x list \<Rightarrow> bool" where
  "lists_image f A xs \<longleftrightarrow> (\<exists>is. distinct is \<and> set is = A \<and> xs = map f is)"

lemma lists_image_set: "lists_image f A xs \<Longrightarrow> set xs = f ` A"
  by (auto simp: lists_image_def)

locale rx_digraph =
  fixes rx :: "'g rx_ops"
    and V :: "'g \<Rightarrow> nat \<Rightarrow> node_id option"
    and E :: "'g \<Rightarrow> nat \<Rightarrow> (nat \<times> nat \<times> edge) option"
    and ok :: "'g \<Rightarrow> bool"
  assumes new_graph: "ok (rx_new rx)" "V (rx_new rx) = (\<lambda>_. None)" "E (rx_new rx) = (\<lambda>_. None)"
    and add_node_spec: "ok g \<Longrightarrow> rx_add_node rx g n = (g', i) \<Longrightarrow>
          ok g' \<and> V g i = None \<and> V g' = (V g)(i := Some n) \<and> E g' = E g"
    and remove_node_spec: "ok g \<Longrightarrow> V g i \<noteq> None \<Longrightarrow>
          ok (rx_remove_node rx g i) \<and> V (rx_remove_node rx g i) = (V g)(i := None) \<and>
          E (rx_remove_node rx g i) = (\<lambda>e. case E g e of None \<Rightarrow> None | Some (a, b, d) \<Rightarrow>
             if a = i \<or> b = i then None else Some (a, b, d))"
    and add_edge_spec: "ok g \<Longrightarrow> V g a \<noteq> None \<Longrightarrow> V g b \<noteq> None \<Longrightarrow>
          ok (rx_add_edge rx g a b d) \<and> V (rx_add_edge rx g a b d) = V g \<and>
          (\<exists>e. E g e = None \<and> E (rx_add_edge rx g a b d) = (E g)(e := Some (a, b, d)))"
    and remove_edge_spec: "ok g \<Longrightarrow> E g e \<noteq> None \<Longrightarrow>
          ok (rx_remove_edge rx g e) \<and> V (rx_remove_edge rx g e) = V g \<and>
          E (rx_remove_edge rx g e) = (E g)(e := None)"
    and endpoints: "ok g \<Longrightarrow> E g e = Some (a, b, d) \<Longrightarrow> V g a \<noteq> None \<and> V g b \<noteq> None"
    and finite_edges: "ok g \<Longrightarrow> finite {e. E g e \<noteq> None}"
    and node_spec: "ok g \<Longrightarrow> V g i = Some n \<Longrightarrow> rx_node rx g i = n"
    and nodes_spec: "ok g \<Longrightarrow> lists_image (\<lambda>i. the (V g i)) {i. V g i \<noteq> None} (rx_nodes rx g)"
    and edge_list_spec: "ok g \<Longrightarrow>
          lists_image (\<lambda>e. the (E g e)) {e. E g e \<noteq> None} (rx_weighted_edge_list rx g)"
    and out_edges_spec: "ok g \<Longrightarrow> V g a \<noteq> None \<Longrightarrow>
          lists_image (\<lambda>e. the (E g e)) {e. \<exists>b d. E g e = Some (a, b, d)} (rx_out_edges rx g a)"
    and out_edge_indices_spec: "ok g \<Longrightarrow> V g a \<noteq> None \<Longrightarrow>
          lists_image id {e. \<exists>b d. E g e = Some (a, b, d)} (rx_out_edge_indices rx g a)"
    and edge_indices_spec: "ok g \<Longrightarrow> V g a \<noteq> None \<Longrightarrow> V g b \<noteq> None \<Longrightarrow>
          lists_image id {e. \<exists>d. E g e = Some (a, b, d)} (rx_edge_indices_from_endpoints rx g a b)"
    and edge_data_spec: "ok g \<Longrightarrow> E g e = Some (a, b, d) \<Longrightarrow> rx_edge_data rx g e = d"
    and all_edge_data_spec: "ok g \<Longrightarrow> V g a \<noteq> None \<Longrightarrow> V g b \<noteq> None \<Longrightarrow>
          (case rx_get_all_edge_data rx g a b of
             None \<Rightarrow> (\<forall>e d. E g e \<noteq> Some (a, b, d))
           | Some ds \<Rightarrow> set ds = {d. \<exists>e. E g e = Some (a, b, d)})"
    and in_degree_spec: "ok g \<Longrightarrow> V g b \<noteq> None \<Longrightarrow>
          rx_in_degree rx g b = card {e. \<exists>a d. E g e = Some (a, b, d)}"

section \<open>The abstract graph\<close>

definition topo_nodes :: "'g topology \<Rightarrow> node_id set" where
  "topo_nodes t = set (dict_keys (vertex_indices t))"

definition topo_conns ::
  "('g \<Rightarrow> nat \<Rightarrow> node_id option) \<Rightarrow> ('g \<Rightarrow> nat \<Rightarrow> (nat \<times> nat \<times> edge) option) \<Rightarrow> 'g topology
     \<Rightarrow> connection set" where
  "topo_conns V E t =
     {c. \<exists>e a b. E (graph t) e = Some (a, b, conn_edge c) \<and>
        V (graph t) a = Some (conn_source c) \<and> V (graph t) b = Some (conn_sink c)}"

text \<open>The index dictionary and the graph agree, and no connection is stored twice.\<close>

definition topo_wf ::
  "('g \<Rightarrow> nat \<Rightarrow> node_id option) \<Rightarrow> ('g \<Rightarrow> nat \<Rightarrow> (nat \<times> nat \<times> edge) option) \<Rightarrow> ('g \<Rightarrow> bool)
     \<Rightarrow> 'g topology \<Rightarrow> bool" where
  "topo_wf V E ok t \<longleftrightarrow>
     ok (graph t) \<and> dict_wf (vertex_indices t) \<and>
     (\<forall>n i. dict_get (vertex_indices t) n = Some i \<longleftrightarrow> V (graph t) i = Some n) \<and>
     (\<forall>e e' x. E (graph t) e = Some x \<longrightarrow> E (graph t) e' = Some x \<longrightarrow> e = e')"

lemma topo_nodes_iff: "n \<in> topo_nodes t \<longleftrightarrow> dict_get (vertex_indices t) n \<noteq> None"
  by (force simp: topo_nodes_def map_of_eq_None_iff)

lemma topo_nodes_dict_set:
  "vertex_indices t' = dict_set n i (vertex_indices t) \<Longrightarrow> topo_nodes t' = insert n (topo_nodes t)"
  unfolding topo_nodes_def by (simp only: set_keys_dict_set)

lemma topo_nodes_dict_pop:
  "vertex_indices t' = dict_pop n (vertex_indices t) \<Longrightarrow> topo_nodes t' = topo_nodes t - {n}"
  unfolding topo_nodes_def by (simp only: set_keys_dict_pop)

lemma contains_node_iff: "contains_node n t \<longleftrightarrow> n \<in> topo_nodes t"
  by (simp add: contains_node_def topo_nodes_iff dict_has_def)

context rx_digraph
begin

abbreviation conns :: "'g topology \<Rightarrow> connection set" where
  "conns t \<equiv> topo_conns V E t"

abbreviation wf :: "'g topology \<Rightarrow> bool" where
  "wf t \<equiv> topo_wf V E ok t"

lemma wf_ok: "wf t \<Longrightarrow> ok (graph t)"
  by (simp add: topo_wf_def)

lemma wf_index: "wf t \<Longrightarrow> dict_get (vertex_indices t) n = Some i \<longleftrightarrow> V (graph t) i = Some n"
  by (simp add: topo_wf_def)

lemma wf_edge_unique: "wf t \<Longrightarrow> E (graph t) e = Some x \<Longrightarrow> E (graph t) e' = Some x \<Longrightarrow> e = e'"
  unfolding topo_wf_def by blast

lemma wfI:
  assumes "ok (graph t)" "dict_wf (vertex_indices t)"
    and "\<And>n i. dict_get (vertex_indices t) n = Some i \<longleftrightarrow> V (graph t) i = Some n"
    and "\<And>e e' x. E (graph t) e = Some x \<Longrightarrow> E (graph t) e' = Some x \<Longrightarrow> e = e'"
  shows "wf t"
  using assms unfolding topo_wf_def by blast

lemma wf_dict: "wf t \<Longrightarrow> dict_wf (vertex_indices t)"
  by (simp add: topo_wf_def)

lemma connsE:
  assumes "c \<in> conns t"
  obtains e a b where "E (graph t) e = Some (a, b, conn_edge c)"
    "V (graph t) a = Some (conn_source c)" "V (graph t) b = Some (conn_sink c)"
  using assms by (auto simp: topo_conns_def)

lemma connsI:
  "E (graph t) e = Some (a, b, conn_edge c) \<Longrightarrow> V (graph t) a = Some (conn_source c) \<Longrightarrow>
     V (graph t) b = Some (conn_sink c) \<Longrightarrow> c \<in> conns t"
  by (auto simp: topo_conns_def)

lemma wf_vertex_unique: "wf t \<Longrightarrow> V (graph t) i = Some n \<Longrightarrow> V (graph t) j = Some n \<Longrightarrow> i = j"
  by (metis option.inject wf_index)

lemma nodes_iff: "wf t \<Longrightarrow> n \<in> topo_nodes t \<longleftrightarrow> (\<exists>i. V (graph t) i = Some n)"
  by (auto simp: topo_nodes_iff wf_index)

lemma conns_in_nodes: "wf t \<Longrightarrow> c \<in> conns t \<Longrightarrow> conn_source c \<in> topo_nodes t \<and> conn_sink c \<in> topo_nodes t"
  by (auto simp: topo_conns_def nodes_iff)

lemma wf_new: "wf (new_topology rx)"
  by (simp add: topo_wf_def new_topology_def new_graph)

lemma nodes_new [simp]: "topo_nodes (new_topology rx) = {}"
  by (simp add: topo_nodes_def new_topology_def)

lemma conns_new: "conns (new_topology rx) = {}"
  by (simp add: topo_conns_def new_topology_def new_graph)

lemma add_node_refines:
  assumes "wf t"
  shows "wf (add_node rx n t) \<and> topo_nodes (add_node rx n t) = insert n (topo_nodes t) \<and>
         conns (add_node rx n t) = conns t"
proof (cases "dict_has (vertex_indices t) n")
  case True
  then show ?thesis using assms by (auto simp: add_node_def topo_nodes_iff dict_has_def)
next
  case False
  obtain g i where gi: "rx_add_node rx (graph t) n = (g, i)" by fastforce
  let ?t = "t\<lparr>graph := g, vertex_indices := dict_set n i (vertex_indices t)\<rparr>"
  have t: "add_node rx n t = ?t" using False gi by (simp add: add_node_def)
  note spec = add_node_spec [OF wf_ok [OF assms] gi]
  have new: "V (graph t) j \<noteq> Some n" for j
    using False wf_index [OF assms, of n j] by (simp add: dict_has_def)
  have "wf ?t"
  proof (rule wfI)
    show "dict_get (vertex_indices ?t) m = Some j \<longleftrightarrow> V (graph ?t) j = Some m" for m j
      using spec new [of j] wf_index [OF assms, of m j] by auto
    show "e = e'" if "E (graph ?t) e = Some x" "E (graph ?t) e' = Some x" for e e' x
      using that spec wf_edge_unique [OF assms] by simp
  qed (use spec wf_dict [OF assms] in auto)
  moreover have "c \<in> conns ?t \<longleftrightarrow> c \<in> conns t" for c
  proof
    assume "c \<in> conns ?t"
    then obtain e a b where c: "E (graph ?t) e = Some (a, b, conn_edge c)"
      "V (graph ?t) a = Some (conn_source c)" "V (graph ?t) b = Some (conn_sink c)" by (rule connsE)
    then have "a \<noteq> i" "b \<noteq> i"
      using endpoints [OF wf_ok [OF assms], of e] spec by auto
    then show "c \<in> conns t" using c spec by (intro connsI) auto
  next
    assume "c \<in> conns t"
    then obtain e a b where c: "E (graph t) e = Some (a, b, conn_edge c)"
      "V (graph t) a = Some (conn_source c)" "V (graph t) b = Some (conn_sink c)" by (rule connsE)
    then have "a \<noteq> i" "b \<noteq> i" using spec by auto
    then show "c \<in> conns ?t" using c spec by (intro connsI [of ?t e a b]) auto
  qed
  ultimately show ?thesis
    unfolding t using topo_nodes_dict_set [of ?t n i t] by auto
qed

lemma remove_node_refines:
  assumes "wf t"
  shows "wf (remove_node rx n t) \<and> topo_nodes (remove_node rx n t) = topo_nodes t - {n} \<and>
         conns (remove_node rx n t) = {c \<in> conns t. conn_source c \<noteq> n \<and> conn_sink c \<noteq> n}"
proof (cases "dict_get (vertex_indices t) n")
  case None
  moreover have "c \<in> conns t \<Longrightarrow> conn_source c \<noteq> n \<and> conn_sink c \<noteq> n" for c
    using conns_in_nodes [OF assms] None by (metis topo_nodes_iff)
  ultimately show ?thesis using assms by (auto simp: remove_node_def topo_nodes_iff)
next
  case (Some i)
  then have Vi: "V (graph t) i = Some n" using assms by (simp add: wf_index)
  note spec = remove_node_spec [OF wf_ok [OF assms], of i]
  have uniq: "V (graph t) j = Some n \<Longrightarrow> j = i" for j
    using wf_vertex_unique [OF assms Vi] by simp
  let ?t = "t\<lparr>graph := rx_remove_node rx (graph t) i, vertex_indices := dict_pop n (vertex_indices t)\<rparr>"
  have t: "remove_node rx n t = ?t" using Some by (simp add: remove_node_def)
  have E': "E (graph ?t) e = Some (a, b, d) \<longleftrightarrow> E (graph t) e = Some (a, b, d) \<and> a \<noteq> i \<and> b \<noteq> i" for e a b d
    using spec Vi by (auto split: option.splits)
  have V': "V (graph ?t) j = Some m \<longleftrightarrow> V (graph t) j = Some m \<and> j \<noteq> i" for j m
    using spec Vi by simp
  have "wf ?t"
  proof (rule wfI)
    show "dict_get (vertex_indices ?t) m = Some j \<longleftrightarrow> V (graph ?t) j = Some m" for m j
      using V' Vi uniq [of j] wf_index [OF assms, of m j] by auto
    show "e = e'" if "E (graph ?t) e = Some x" "E (graph ?t) e' = Some x" for e e' x
      using that E' wf_edge_unique [OF assms] by (cases x) auto
  qed (use spec Vi wf_dict [OF assms] in auto)
  moreover have "c \<in> conns ?t \<longleftrightarrow> c \<in> conns t \<and> conn_source c \<noteq> n \<and> conn_sink c \<noteq> n" for c
  proof
    assume "c \<in> conns ?t"
    then obtain e a b where c: "E (graph ?t) e = Some (a, b, conn_edge c)"
      "V (graph ?t) a = Some (conn_source c)" "V (graph ?t) b = Some (conn_sink c)" by (rule connsE)
    then have "c \<in> conns t" using E' V' by (intro connsI) auto
    then show "c \<in> conns t \<and> conn_source c \<noteq> n \<and> conn_sink c \<noteq> n"
      using c V' uniq [of a] uniq [of b] by auto
  next
    assume "c \<in> conns t \<and> conn_source c \<noteq> n \<and> conn_sink c \<noteq> n"
    then obtain e a b where "E (graph t) e = Some (a, b, conn_edge c)"
      "V (graph t) a = Some (conn_source c)" "V (graph t) b = Some (conn_sink c)"
      "a \<noteq> i" "b \<noteq> i" using Vi by (metis connsE option.inject)
    then show "c \<in> conns ?t" using E' V' by (intro connsI [of ?t e a b]) auto
  qed
  ultimately show ?thesis
    unfolding t using topo_nodes_dict_pop [of ?t n t] by auto
qed

lemma connections_between_set:
  assumes "wf t"
  shows "d \<in> set (get_all_connections_between rx a b t) \<longleftrightarrow>
         \<lparr>conn_source = a, conn_sink = b, conn_edge = d\<rparr> \<in> conns t"
proof (cases "dict_get (vertex_indices t) a = None \<or> dict_get (vertex_indices t) b = None")
  case True
  then show ?thesis
    using conns_in_nodes [OF assms, of "\<lparr>conn_source = a, conn_sink = b, conn_edge = d\<rparr>"]
    by (auto simp: get_all_connections_between_def topo_nodes_iff split: option.splits)
next
  case False
  then obtain i j where ij: "dict_get (vertex_indices t) a = Some i" "dict_get (vertex_indices t) b = Some j"
    by auto
  then have Vij: "V (graph t) i = Some a" "V (graph t) j = Some b" using assms by (simp_all add: wf_index)
  have uniq: "V (graph t) i' = Some a \<Longrightarrow> i' = i" "V (graph t) j' = Some b \<Longrightarrow> j' = j" for i' j'
    using wf_vertex_unique [OF assms] Vij by blast+
  have "\<lparr>conn_source = a, conn_sink = b, conn_edge = d\<rparr> \<in> conns t \<longleftrightarrow> (\<exists>e. E (graph t) e = Some (i, j, d))"
  proof
    assume "\<lparr>conn_source = a, conn_sink = b, conn_edge = d\<rparr> \<in> conns t"
    then obtain e i' j' where "E (graph t) e = Some (i', j', d)"
      "V (graph t) i' = Some a" "V (graph t) j' = Some b" by (rule connsE) simp
    with uniq show "\<exists>e. E (graph t) e = Some (i, j, d)" by blast
  next
    assume "\<exists>e. E (graph t) e = Some (i, j, d)"
    then show "\<lparr>conn_source = a, conn_sink = b, conn_edge = d\<rparr> \<in> conns t"
      using Vij by (auto intro: connsI)
  qed
  then show ?thesis
    using all_edge_data_spec [OF wf_ok [OF assms], of i j] Vij ij
    by (auto simp: get_all_connections_between_def split: option.splits)
qed

lemma add_edge_refines:
  assumes "wf t" and "V (graph t) i = Some (conn_source c)" "V (graph t) j = Some (conn_sink c)"
    and "c \<notin> conns t"
  shows "wf (t\<lparr>graph := rx_add_edge rx (graph t) i j (conn_edge c)\<rparr>) \<and>
         conns (t\<lparr>graph := rx_add_edge rx (graph t) i j (conn_edge c)\<rparr>) = insert c (conns t)"
proof -
  let ?g = "rx_add_edge rx (graph t) i j (conn_edge c)"
  obtain e where g: "ok ?g" "V ?g = V (graph t)" "E (graph t) e = None"
      "E ?g = (E (graph t))(e := Some (i, j, conn_edge c))"
    using add_edge_spec [OF wf_ok [OF assms(1)], of i j "conn_edge c"] assms(2,3) by auto
  let ?t = "t\<lparr>graph := ?g\<rparr>"
  have new: "E (graph t) e' \<noteq> Some (i, j, conn_edge c)" for e'
    using assms(2-4) by (auto simp: topo_conns_def)
  have "wf ?t"
  proof (rule wfI)
    show "e1 = e2" if "E (graph ?t) e1 = Some x" "E (graph ?t) e2 = Some x" for e1 e2 x
      using that g new wf_edge_unique [OF assms(1), of e1 x e2] by (auto split: if_splits)
  qed (use g wf_dict [OF assms(1)] wf_index [OF assms(1)] in auto)
  moreover have "x \<in> conns ?t \<longleftrightarrow> x = c \<or> x \<in> conns t" for x
  proof
    assume "x \<in> conns ?t"
    then obtain e' a b where x: "E (graph ?t) e' = Some (a, b, conn_edge x)"
      "V (graph ?t) a = Some (conn_source x)" "V (graph ?t) b = Some (conn_sink x)" by (rule connsE)
    show "x = c \<or> x \<in> conns t"
    proof (cases "e' = e")
      case True
      then show ?thesis using x g assms(2,3) by (cases x, cases c) auto
    next
      case False
      then show ?thesis using x g by (auto intro: connsI)
    qed
  next
    assume "x = c \<or> x \<in> conns t"
    then show "x \<in> conns ?t"
    proof
      assume "x = c"
      then show ?thesis using g assms(2,3) by (intro connsI [of ?t e i j]) auto
    next
      assume "x \<in> conns t"
      then obtain e' a b where x: "E (graph t) e' = Some (a, b, conn_edge x)"
        "V (graph t) a = Some (conn_source x)" "V (graph t) b = Some (conn_sink x)" by (rule connsE)
      then have "e' \<noteq> e" using g by auto
      then show ?thesis using x g by (intro connsI [of ?t e' a b]) auto
    qed
  qed
  ultimately show ?thesis by blast
qed

lemma add_connection_refines:
  assumes "wf t"
  shows "wf (add_connection rx c t) \<and>
         topo_nodes (add_connection rx c t) = insert (conn_source c) (insert (conn_sink c) (topo_nodes t)) \<and>
         conns (add_connection rx c t) = insert c (conns t)"
proof (cases "c \<in> conns t")
  case True
  then show ?thesis
    using assms conns_in_nodes [OF assms True] connections_between_set [OF assms]
    by (cases c) (auto simp: add_connection_def)
next
  case False
  define t2 where "t2 = add_node rx (conn_sink c) (add_node rx (conn_source c) t)"
  have t2: "wf t2" "topo_nodes t2 = insert (conn_source c) (insert (conn_sink c) (topo_nodes t))"
      "conns t2 = conns t"
    using add_node_refines [OF assms, of "conn_source c"]
      add_node_refines [of "add_node rx (conn_source c) t" "conn_sink c"] by (auto simp: t2_def)
  have "conn_source c \<in> topo_nodes t2" "conn_sink c \<in> topo_nodes t2" using t2(2) by auto
  then obtain i j where ij: "dict_get (vertex_indices t2) (conn_source c) = Some i"
      "dict_get (vertex_indices t2) (conn_sink c) = Some j"
    by (auto simp: topo_nodes_iff)
  have "add_connection rx c t = t2\<lparr>graph := rx_add_edge rx (graph t2) i j (conn_edge c)\<rparr>"
    using False connections_between_set [OF assms] ij
    by (cases c) (simp add: add_connection_def t2_def Let_def)
  then show ?thesis
    using add_edge_refines [of t2 i c j] t2 ij False by (simp add: wf_index topo_nodes_def)
qed

lemma remove_edges_where_spec:
  "ok g \<Longrightarrow> distinct idxs \<Longrightarrow> (\<And>e. e \<in> set idxs \<Longrightarrow> E g e \<noteq> None) \<Longrightarrow>
     ok (remove_edges_where rx P idxs g) \<and> V (remove_edges_where rx P idxs g) = V g \<and>
     E (remove_edges_where rx P idxs g) =
       (\<lambda>e. case E g e of None \<Rightarrow> None | Some (a, b, d) \<Rightarrow>
          if e \<in> set idxs \<and> P d then None else Some (a, b, d))"
proof (induction idxs arbitrary: g)
  case Nil
  then show ?case by (auto simp: remove_edges_where_def fun_eq_iff split: option.splits)
next
  case (Cons e idxs)
  obtain a b d where e: "E g e = Some (a, b, d)" using Cons.prems(3) [of e] by auto
  define g' where "g' = (if P d then rx_remove_edge rx g e else g)"
  have step: "remove_edges_where rx P (e # idxs) g = remove_edges_where rx P idxs g'"
    using edge_data_spec [OF Cons.prems(1) e] by (simp add: remove_edges_where_def g'_def)
  have g': "ok g' \<and> V g' = V g \<and> E g' = (E g)(e := (if P d then None else E g e))"
    using remove_edge_spec [OF Cons.prems(1), of e] Cons.prems(1) e by (auto simp: g'_def)
  have "ok (remove_edges_where rx P idxs g') \<and> V (remove_edges_where rx P idxs g') = V g' \<and>
     E (remove_edges_where rx P idxs g') =
       (\<lambda>e. case E g' e of None \<Rightarrow> None | Some (a, b, d) \<Rightarrow>
          if e \<in> set idxs \<and> P d then None else Some (a, b, d))"
    using g' Cons.prems by (intro Cons.IH) auto
  then show ?case
    unfolding step using g' e Cons.prems(2) by (auto simp: fun_eq_iff split: option.splits)
qed

text \<open>Dropping a class of edges keeps well-formedness and drops exactly those connections.\<close>

lemma drop_edges_refines:
  assumes "wf t" and g: "ok g" "V g = V (graph t)"
    and E: "\<And>e a b d. E g e = Some (a, b, d) \<longleftrightarrow> E (graph t) e = Some (a, b, d) \<and> \<not> Q a b d"
  shows "wf (t\<lparr>graph := g\<rparr>)"
    and "conns (t\<lparr>graph := g\<rparr>) = {c \<in> conns t. \<forall>a b. V (graph t) a = Some (conn_source c) \<longrightarrow>
           V (graph t) b = Some (conn_sink c) \<longrightarrow> \<not> Q a b (conn_edge c)}"
proof -
  show "wf (t\<lparr>graph := g\<rparr>)"
  proof (rule wfI)
    show "e = e'" if "E (graph (t\<lparr>graph := g\<rparr>)) e = Some x" "E (graph (t\<lparr>graph := g\<rparr>)) e' = Some x" for e e' x
      using that E wf_edge_unique [OF assms(1)] by (cases x) auto
  qed (use g wf_dict [OF assms(1)] wf_index [OF assms(1)] in auto)
  show "conns (t\<lparr>graph := g\<rparr>) = {c \<in> conns t. \<forall>a b. V (graph t) a = Some (conn_source c) \<longrightarrow>
           V (graph t) b = Some (conn_sink c) \<longrightarrow> \<not> Q a b (conn_edge c)}"
    using g E wf_vertex_unique [OF assms(1)] by (auto simp: topo_conns_def) blast+
qed

lemma remove_connection_refines:
  assumes "wf t"
  shows "wf (remove_connection rx c t) \<and> topo_nodes (remove_connection rx c t) = topo_nodes t \<and>
         conns (remove_connection rx c t) = conns t - {c}"
proof (cases "dict_get (vertex_indices t) (conn_source c) = None \<or>
              dict_get (vertex_indices t) (conn_sink c) = None")
  case True
  then have "c \<notin> conns t" using conns_in_nodes [OF assms, of c] by (auto simp: topo_nodes_iff)
  then show ?thesis using True assms by (auto simp: remove_connection_def split: option.splits)
next
  case False
  then obtain i j where ij: "dict_get (vertex_indices t) (conn_source c) = Some i"
      "dict_get (vertex_indices t) (conn_sink c) = Some j" by auto
  then have Vij: "V (graph t) i = Some (conn_source c)" "V (graph t) j = Some (conn_sink c)"
    using assms by (simp_all add: wf_index)
  define g where "g = remove_edges_where rx (\<lambda>e. e = conn_edge c)
    (rx_edge_indices_from_endpoints rx (graph t) i j) (graph t)"
  have idxs: "distinct (rx_edge_indices_from_endpoints rx (graph t) i j)"
      "set (rx_edge_indices_from_endpoints rx (graph t) i j) = {e. \<exists>d. E (graph t) e = Some (i, j, d)}"
    using edge_indices_spec [OF wf_ok [OF assms], of i j] Vij by (auto simp: lists_image_def)
  have known: "\<And>e. e \<in> set (rx_edge_indices_from_endpoints rx (graph t) i j) \<Longrightarrow> E (graph t) e \<noteq> None"
    using idxs(2) by auto
  have g: "ok g" "V g = V (graph t)"
      "E g e = Some (a, b, d) \<longleftrightarrow> E (graph t) e = Some (a, b, d) \<and> \<not> (a = i \<and> b = j \<and> d = conn_edge c)"
      for e a b d
    using remove_edges_where_spec [OF wf_ok [OF assms] idxs(1) known, of "\<lambda>e. e = conn_edge c"] idxs(2)
    by (auto simp: g_def split: option.splits)
  have t: "remove_connection rx c t = t\<lparr>graph := g\<rparr>" using ij by (simp add: remove_connection_def g_def)
  have "(\<forall>a b. V (graph t) a = Some (conn_source x) \<longrightarrow> V (graph t) b = Some (conn_sink x) \<longrightarrow>
           \<not> (a = i \<and> b = j \<and> conn_edge x = conn_edge c)) \<longleftrightarrow> x \<noteq> c" if "x \<in> conns t" for x
    using Vij by (cases x, cases c) auto
  then show ?thesis
    using drop_edges_refines [OF assms g] unfolding t by (auto simp: topo_nodes_def)
qed

lemma add_connections_refine:
  "wf t \<Longrightarrow> wf (foldl (\<lambda>t c. add_connection rx c t) t cs) \<and>
     topo_nodes (foldl (\<lambda>t c. add_connection rx c t) t cs) =
       topo_nodes t \<union> conn_source ` set cs \<union> conn_sink ` set cs \<and>
     conns (foldl (\<lambda>t c. add_connection rx c t) t cs) = conns t \<union> set cs"
proof (induction cs arbitrary: t)
  case (Cons c cs)
  have "wf (add_connection rx c t)" using add_connection_refines [OF Cons.prems] by blast
  from Cons.IH [OF this] add_connection_refines [OF Cons.prems, of c] show ?case by auto
qed simp

lemma add_nodes_refine:
  "wf t \<Longrightarrow> wf (foldl (\<lambda>t n. add_node rx n t) t ns) \<and>
     topo_nodes (foldl (\<lambda>t n. add_node rx n t) t ns) = topo_nodes t \<union> set ns \<and>
     conns (foldl (\<lambda>t n. add_node rx n t) t ns) = conns t"
proof (induction ns arbitrary: t)
  case (Cons n ns)
  have "wf (add_node rx n t)" using add_node_refines [OF Cons.prems] by blast
  from Cons.IH [OF this] add_node_refines [OF Cons.prems, of n] show ?case by auto
qed simp

lemma replace_rdma_refines:
  assumes "wf t" and "s \<in> topo_nodes t"
  shows "\<exists>t'. replace_all_out_rdma_connections rx s new t = Some t' \<and> wf t' \<and>
     topo_nodes t' = topo_nodes t \<union> conn_source ` set new \<union> conn_sink ` set new \<and>
     conns t' = {c \<in> conns t. \<not> (conn_source c = s \<and> is_rdma (conn_edge c))} \<union> set new"
proof -
  obtain i where i: "dict_get (vertex_indices t) s = Some i" using assms(2) by (auto simp: topo_nodes_iff)
  then have Vi: "V (graph t) i = Some s" using assms by (simp add: wf_index)
  define g where "g = remove_edges_where rx is_rdma (rx_out_edge_indices rx (graph t) i) (graph t)"
  have idxs: "distinct (rx_out_edge_indices rx (graph t) i)"
      "set (rx_out_edge_indices rx (graph t) i) = {e. \<exists>b d. E (graph t) e = Some (i, b, d)}"
    using out_edge_indices_spec [OF wf_ok [OF assms(1)], of i] Vi by (auto simp: lists_image_def)
  have known: "\<And>e. e \<in> set (rx_out_edge_indices rx (graph t) i) \<Longrightarrow> E (graph t) e \<noteq> None"
    using idxs(2) by auto
  have g: "ok g" "V g = V (graph t)"
      "E g e = Some (a, b, d) \<longleftrightarrow> E (graph t) e = Some (a, b, d) \<and> \<not> (a = i \<and> is_rdma d)"
      for e a b d
    using remove_edges_where_spec [OF wf_ok [OF assms(1)] idxs(1) known, of is_rdma] idxs(2)
    by (auto simp: g_def split: option.splits)
  have "(\<forall>a b. V (graph t) a = Some (conn_source x) \<longrightarrow> V (graph t) b = Some (conn_sink x) \<longrightarrow>
           \<not> (a = i \<and> is_rdma (conn_edge x))) \<longleftrightarrow> \<not> (conn_source x = s \<and> is_rdma (conn_edge x))"
    if x: "x \<in> conns t" for x
  proof -
    obtain a b where ab: "V (graph t) a = Some (conn_source x)" "V (graph t) b = Some (conn_sink x)"
      using connsE [OF x] by metis
    show ?thesis
    proof
      assume "\<forall>a b. V (graph t) a = Some (conn_source x) \<longrightarrow> V (graph t) b = Some (conn_sink x) \<longrightarrow>
           \<not> (a = i \<and> is_rdma (conn_edge x))"
      with ab have "\<not> (a = i \<and> is_rdma (conn_edge x))" by blast
      then show "\<not> (conn_source x = s \<and> is_rdma (conn_edge x))"
        using ab wf_vertex_unique [OF assms(1) Vi, of a] by auto
    qed (use Vi in auto)
  qed
  then have base: "conns (t\<lparr>graph := g\<rparr>) = {c \<in> conns t. \<not> (conn_source c = s \<and> is_rdma (conn_edge c))}"
    using drop_edges_refines(2) [OF assms(1) g] by auto
  note step = add_connections_refine [OF drop_edges_refines(1) [OF assms(1) g], of new]
  then show ?thesis
    using i base by (simp add: replace_all_out_rdma_connections_def g_def topo_nodes_def)
qed

lemma out_edges_set:
  assumes "wf t"
  shows "set (out_edges rx n t) = {c \<in> conns t. conn_source c = n}"
proof (cases "dict_get (vertex_indices t) n")
  case None
  then show ?thesis
    using conns_in_nodes [OF assms] by (fastforce simp: out_edges_def topo_nodes_iff)
next
  case (Some i)
  then have Vi: "V (graph t) i = Some n" using assms by (simp add: wf_index)
  have oe: "set (rx_out_edges rx (graph t) i) = {(a, b, d). a = i \<and> (\<exists>e. E (graph t) e = Some (i, b, d))}"
    using lists_image_set [OF out_edges_spec [OF wf_ok [OF assms], of i]] Vi by force
  have nd: "V (graph t) a = Some m \<Longrightarrow> rx_node rx (graph t) a = m" for a m
    using node_spec [OF wf_ok [OF assms]] by blast
  show ?thesis
  proof (rule set_eqI)
    fix c :: connection
    show "c \<in> set (out_edges rx n t) \<longleftrightarrow> c \<in> {c \<in> conns t. conn_source c = n}"
    proof
      assume "c \<in> set (out_edges rx n t)"
      then obtain e b d where c: "E (graph t) e = Some (i, b, d)"
        "c = \<lparr>conn_source = rx_node rx (graph t) i, conn_sink = rx_node rx (graph t) b, conn_edge = d\<rparr>"
        using Some oe by (auto simp: out_edges_def)
      obtain m where "V (graph t) b = Some m"
        using endpoints [OF wf_ok [OF assms] c(1)] by auto
      then show "c \<in> {c \<in> conns t. conn_source c = n}"
        using c Vi nd by (auto intro!: connsI [of t e i b])
    next
      assume "c \<in> {c \<in> conns t. conn_source c = n}"
      then have "c \<in> conns t" and n: "conn_source c = n" by auto
      then obtain e a b where c: "E (graph t) e = Some (a, b, conn_edge c)"
        "V (graph t) a = Some n" "V (graph t) b = Some (conn_sink c)" by (metis connsE)
      then have "a = i" using wf_vertex_unique [OF assms Vi] by simp
      then have "(i, b, conn_edge c) \<in> set (rx_out_edges rx (graph t) i)" using c oe by auto
      then show "c \<in> set (out_edges rx n t)"
        using Some nd [OF Vi] nd [OF c(3)] n
        by (auto simp: out_edges_def intro!: image_eqI [where x = "(i, b, conn_edge c)"])
    qed
  qed
qed

lemma no_incoming_iff:
  assumes "wf t"
  shows "node_has_no_incoming_edges rx n t \<longleftrightarrow> (\<forall>c \<in> conns t. conn_sink c \<noteq> n)"
proof (cases "dict_get (vertex_indices t) n")
  case None
  then show ?thesis
    using conns_in_nodes [OF assms] by (fastforce simp: node_has_no_incoming_edges_def topo_nodes_iff)
next
  case (Some i)
  then have Vi: "V (graph t) i = Some n" using assms by (simp add: wf_index)
  have "finite {e. \<exists>a d. E (graph t) e = Some (a, i, d)}"
    by (rule finite_subset [OF _ finite_edges [OF wf_ok [OF assms]]]) auto
  then have "rx_in_degree rx (graph t) i = 0 \<longleftrightarrow> (\<forall>e a d. E (graph t) e \<noteq> Some (a, i, d))"
    using in_degree_spec [OF wf_ok [OF assms], of i] Vi by auto
  also have "\<dots> \<longleftrightarrow> (\<forall>c \<in> conns t. conn_sink c \<noteq> n)"
  proof (intro iffI ballI allI notI)
    fix c assume none: "\<forall>e a d. E (graph t) e \<noteq> Some (a, i, d)" and c: "c \<in> conns t" "conn_sink c = n"
    from c obtain e a b where "E (graph t) e = Some (a, b, conn_edge c)" "V (graph t) b = Some n"
      by (metis connsE)
    with none wf_vertex_unique [OF assms Vi] show False by blast
  next
    fix e a d assume none: "\<forall>c \<in> conns t. conn_sink c \<noteq> n" and e: "E (graph t) e = Some (a, i, d)"
    obtain m where "V (graph t) a = Some m" using endpoints [OF wf_ok [OF assms] e] by auto
    then have "\<lparr>conn_source = m, conn_sink = n, conn_edge = d\<rparr> \<in> conns t"
      using e Vi by (intro connsI [of t e a i]) auto
    with none show False by auto
  qed
  finally show ?thesis using Some by (simp add: node_has_no_incoming_edges_def)
qed

end

end
