(* ===== verification/Topology_Graph.thy ===== *)
theory Topology_Graph
  imports Topology
begin

text \<open>
  Consequences of the graph contract for whole topologies (snapshots, queries), a reference
  digraph that satisfies the contract, and the properties of the topology component.
\<close>

section \<open>Snapshots\<close>

definition base_wf :: "(node_id, (node_id, edge list) dict) dict \<Rightarrow> bool" where
  "base_wf base \<longleftrightarrow> dict_wf base \<and> (\<forall>s inner. dict_get base s = Some inner \<longrightarrow> dict_wf inner)"

definition base_has :: "(node_id, (node_id, edge list) dict) dict \<Rightarrow> connection \<Rightarrow> bool" where
  "base_has base c \<longleftrightarrow>
     (\<exists>inner edges. dict_get base (conn_source c) = Some inner \<and>
        dict_get inner (conn_sink c) = Some edges \<and> conn_edge c \<in> set edges)"

lemma base_wf_add: "base_wf base \<Longrightarrow> base_wf (add_to_base base c)"
  by (auto simp: base_wf_def add_to_base_def Let_def split: option.splits)

lemma base_has_add: "base_has (add_to_base base c) c' \<longleftrightarrow> c' = c \<or> base_has base c'"
  by (cases c; cases c') (auto simp: base_has_def add_to_base_def Let_def split: option.splits if_splits)

lemma base_fold:
  "base_wf base \<Longrightarrow> base_wf (foldl add_to_base base cs) \<and>
     (\<forall>c. base_has (foldl add_to_base base cs) c \<longleftrightarrow> c \<in> set cs \<or> base_has base c)"
  by (induction cs arbitrary: base) (auto simp: base_wf_add base_has_add)

lemma snapshot_connections_base:
  assumes "base_wf (snap_connections s)"
  shows "c \<in> set (snapshot_connections s) \<longleftrightarrow> base_has (snap_connections s) c"
proof -
  have get: "(k, v) \<in> set (snap_connections s) \<longleftrightarrow> dict_get (snap_connections s) k = Some v" for k v
    using assms by (auto simp: base_wf_def dict_wf_def)
  have inner: "(k, v) \<in> set i \<longleftrightarrow> dict_get i k = Some v" if "dict_get (snap_connections s) n = Some i"
    for i k v n
  proof -
    from assms that have "dict_wf i" unfolding base_wf_def by blast
    then show ?thesis by (simp add: dict_wf_def)
  qed
  have "c \<in> set (snapshot_connections s) \<longleftrightarrow>
     (\<exists>i es. (conn_source c, i) \<in> set (snap_connections s) \<and> (conn_sink c, es) \<in> set i \<and> conn_edge c \<in> set es)"
  proof
    assume "c \<in> set (snapshot_connections s)"
    then show "\<exists>i es. (conn_source c, i) \<in> set (snap_connections s) \<and> (conn_sink c, es) \<in> set i \<and>
        conn_edge c \<in> set es"
      by (auto simp: snapshot_connections_def) blast
  next
    assume "\<exists>i es. (conn_source c, i) \<in> set (snap_connections s) \<and> (conn_sink c, es) \<in> set i \<and>
        conn_edge c \<in> set es"
    then obtain i es where i: "(conn_source c, i) \<in> set (snap_connections s)"
      "(conn_sink c, es) \<in> set i" "conn_edge c \<in> set es" by blast
    have "c = \<lparr>conn_source = conn_source c, conn_sink = conn_sink c, conn_edge = conn_edge c\<rparr>" by simp
    with i show "c \<in> set (snapshot_connections s)"
      unfolding snapshot_connections_def set_concat set_map UN_iff by (force intro: rev_bexI)
  qed
  also have "\<dots> \<longleftrightarrow> base_has (snap_connections s) c"
    unfolding base_has_def get using inner by metis
  finally show ?thesis .
qed

context rx_digraph
begin

lemma list_nodes_set: "wf t \<Longrightarrow> set (list_nodes rx t) = topo_nodes t"
  using lists_image_set [OF nodes_spec [OF wf_ok]] by (force simp: list_nodes_def nodes_iff)

lemma list_connections_set:
  assumes "wf t"
  shows "set (list_connections rx t) = conns t"
proof -
  have nd: "V (graph t) a = Some m \<Longrightarrow> rx_node rx (graph t) a = m" for a m
    using node_spec [OF wf_ok [OF assms]] by blast
  have es: "set (rx_weighted_edge_list rx (graph t)) = {x. \<exists>e. E (graph t) e = Some x}"
    using lists_image_set [OF edge_list_spec [OF wf_ok [OF assms]]] by force
  show ?thesis
  proof (rule set_eqI, rule iffI)
    fix c assume "c \<in> set (list_connections rx t)"
    then obtain e a b d where c: "E (graph t) e = Some (a, b, d)"
      "c = \<lparr>conn_source = rx_node rx (graph t) a, conn_sink = rx_node rx (graph t) b, conn_edge = d\<rparr>"
      using es by (auto simp: list_connections_def)
    obtain m n where "V (graph t) a = Some m" "V (graph t) b = Some n"
      using endpoints [OF wf_ok [OF assms] c(1)] by auto
    then show "c \<in> conns t" using c nd by (auto intro!: connsI [of t e a b])
  next
    fix c assume "c \<in> conns t"
    then obtain e a b where c: "E (graph t) e = Some (a, b, conn_edge c)"
      "V (graph t) a = Some (conn_source c)" "V (graph t) b = Some (conn_sink c)" by (rule connsE)
    then have "(a, b, conn_edge c) \<in> set (rx_weighted_edge_list rx (graph t))" using es by auto
    then show "c \<in> set (list_connections rx t)"
      using nd [OF c(2)] nd [OF c(3)]
      by (auto simp: list_connections_def intro!: image_eqI [where x = "(a, b, conn_edge c)"])
  qed
qed

lemma snapshot_roundtrip:
  assumes "wf t"
  shows "wf (from_snapshot rx (to_snapshot rx t)) \<and>
         topo_nodes (from_snapshot rx (to_snapshot rx t)) = topo_nodes t \<and>
         conns (from_snapshot rx (to_snapshot rx t)) = conns t"
proof -
  let ?s = "to_snapshot rx t"
  have "base_wf []" by (simp add: base_wf_def)
  from base_fold [OF this, of "list_connections rx t"]
  have base: "base_wf (snap_connections ?s)" "base_has (snap_connections ?s) c \<longleftrightarrow> c \<in> conns t" for c
    by (simp_all add: to_snapshot_def map_connections_def list_connections_set [OF assms] base_has_def)
  have cs: "set (snapshot_connections ?s) = conns t"
    using snapshot_connections_base [OF base(1)] base(2) by auto
  have ns: "set (snap_nodes ?s) = topo_nodes t" by (simp add: to_snapshot_def list_nodes_set [OF assms])
  note a = add_nodes_refine [OF wf_new, of "snap_nodes ?s"]
  note b = add_connections_refine [of "foldl (\<lambda>t n. add_node rx n t) (new_topology rx) (snap_nodes ?s)"
      "snapshot_connections ?s"]
  have "conn_source ` conns t \<subseteq> topo_nodes t" "conn_sink ` conns t \<subseteq> topo_nodes t"
    using conns_in_nodes [OF assms] by auto
  then show ?thesis
    using a b cs ns conns_new by (auto simp: from_snapshot_def)
qed

end

section \<open>A reference digraph\<close>

text \<open>Nodes and edges under fresh indices, as association lists; cycles by depth-first search
  from each cycle's smallest index.\<close>

record list_graph =
  lg_nodes :: "(nat, node_id) dict"
  lg_edges :: "(nat, nat \<times> nat \<times> edge) dict"

definition fresh_index :: "(nat, 'v) dict \<Rightarrow> nat" where
  "fresh_index d = foldr (\<lambda>i m. max (Suc i) m) (dict_keys d) 0"

lemma fresh_index_above: "i \<in> set (dict_keys d) \<Longrightarrow> i < fresh_index d"
proof -
  have "i \<in> set ks \<Longrightarrow> i < foldr (\<lambda>i m. max (Suc i) m) ks 0" for ks
    by (induction ks) (auto simp: less_max_iff_disj)
  then show "i \<in> set (dict_keys d) \<Longrightarrow> i < fresh_index d" by (simp only: fresh_index_def)
qed

lemma fresh_index_get: "dict_get d (fresh_index d) = None"
  using fresh_index_above [of "fresh_index d" d] by (force simp: map_of_eq_None_iff)

definition lg_successors :: "list_graph \<Rightarrow> nat \<Rightarrow> nat list" where
  "lg_successors g a = remdups [b. (e, (a', b, d)) \<leftarrow> lg_edges g, a' = a]"

fun lg_paths :: "nat \<Rightarrow> list_graph \<Rightarrow> nat \<Rightarrow> nat list \<Rightarrow> nat list list" where
  "lg_paths 0 g s path = []"
| "lg_paths (Suc k) g s path =
     (let succs = lg_successors g (hd path) in
      (if s \<in> set succs then [rev path] else []) @
      concat (map (\<lambda>v. lg_paths k g s (v # path)) (filter (\<lambda>v. s < v \<and> v \<notin> set path) succs)))"

definition list_rx :: "list_graph rx_ops" where
  "list_rx = \<lparr>
     rx_new = \<lparr>lg_nodes = [], lg_edges = []\<rparr>,
     rx_add_node = (\<lambda>g n. let i = fresh_index (lg_nodes g) in (g\<lparr>lg_nodes := dict_set i n (lg_nodes g)\<rparr>, i)),
     rx_remove_node = (\<lambda>g i. g\<lparr>lg_nodes := dict_pop i (lg_nodes g),
        lg_edges := dict_filter (\<lambda>e (a, b, d). a \<noteq> i \<and> b \<noteq> i) (lg_edges g)\<rparr>),
     rx_add_edge = (\<lambda>g a b d. g\<lparr>lg_edges := dict_set (fresh_index (lg_edges g)) (a, b, d) (lg_edges g)\<rparr>),
     rx_remove_edge = (\<lambda>g e. g\<lparr>lg_edges := dict_pop e (lg_edges g)\<rparr>),
     rx_node = (\<lambda>g i. case dict_get (lg_nodes g) i of None \<Rightarrow> [] | Some n \<Rightarrow> n),
     rx_nodes = (\<lambda>g. dict_values (lg_nodes g)),
     rx_neighbors = lg_successors,
     rx_in_degree = (\<lambda>g i. length (filter (\<lambda>(e, (a, b, d)). b = i) (lg_edges g))),
     rx_out_edges = (\<lambda>g i. dict_values (dict_filter (\<lambda>e v. fst v = i) (lg_edges g))),
     rx_out_edge_indices = (\<lambda>g i. dict_keys (dict_filter (\<lambda>e v. fst v = i) (lg_edges g))),
     rx_edge_indices_from_endpoints =
       (\<lambda>g i j. dict_keys (dict_filter (\<lambda>e v. fst v = i \<and> fst (snd v) = j) (lg_edges g))),
     rx_edge_data = (\<lambda>g e. case dict_get (lg_edges g) e of
        None \<Rightarrow> RDMAConnection [] [] | Some (a, b, d) \<Rightarrow> d),
     rx_get_all_edge_data = (\<lambda>g i j.
        let ds = map (\<lambda>(e, (a, b, d)). d) (filter (\<lambda>(e, (a, b, d)). a = i \<and> b = j) (lg_edges g))
        in if ds = [] then None else Some ds),
     rx_weighted_edge_list = (\<lambda>g. dict_values (lg_edges g)),
     rx_simple_cycles = (\<lambda>g. concat (map (\<lambda>s. lg_paths (length (lg_nodes g)) g s [s]) (dict_keys (lg_nodes g))))
   \<rparr>"

definition lg_V :: "list_graph \<Rightarrow> nat \<Rightarrow> node_id option" where
  "lg_V g = dict_get (lg_nodes g)"

definition lg_E :: "list_graph \<Rightarrow> nat \<Rightarrow> (nat \<times> nat \<times> edge) option" where
  "lg_E g = dict_get (lg_edges g)"

definition lg_ok :: "list_graph \<Rightarrow> bool" where
  "lg_ok g \<longleftrightarrow> dict_wf (lg_nodes g) \<and> dict_wf (lg_edges g) \<and>
     (\<forall>e a b d. dict_get (lg_edges g) e = Some (a, b, d) \<longrightarrow>
        dict_get (lg_nodes g) a \<noteq> None \<and> dict_get (lg_nodes g) b \<noteq> None)"

lemma lists_image_dict:
  assumes "dict_wf d"
  shows "lists_image (\<lambda>k. the (dict_get d k)) {k. \<exists>v. dict_get d k = Some v \<and> P k v}
           (dict_values (dict_filter P d))"
proof -
  let ?f = "dict_filter P d"
  have wf: "dict_wf ?f" using assms by simp
  have "k \<in> set (dict_keys ?f) \<longleftrightarrow> (\<exists>v. dict_get d k = Some v \<and> P k v)" for k
    using dict_get_filter [OF assms, of P k] dict_has_iff_keys [of ?f k]
    by (auto simp: dict_has_def split: option.splits if_splits)
  moreover have "dict_values ?f = map (\<lambda>k. the (dict_get d k)) (dict_keys ?f)"
  proof (clarsimp simp: dict_filter_def)
    fix k v assume "(k, v) \<in> set d"
    then show "v = the (dict_get d k)" using assms by (simp add: dict_wf_def)
  qed
  ultimately show ?thesis
    using wf unfolding lists_image_def dict_wf_def by (intro exI [of _ "dict_keys ?f"]) auto
qed

lemma lists_image_keys:
  assumes "dict_wf d"
  shows "lists_image id {k. \<exists>v. dict_get d k = Some v \<and> P k v} (dict_keys (dict_filter P d))"
proof -
  have "k \<in> set (dict_keys (dict_filter P d)) \<longleftrightarrow> (\<exists>v. dict_get d k = Some v \<and> P k v)" for k
    using dict_get_filter [OF assms, of P k] dict_has_iff_keys [of "dict_filter P d" k]
    by (auto simp: dict_has_def split: option.splits if_splits)
  then show ?thesis
    using dict_wf_filter [OF assms, of P] unfolding lists_image_def dict_wf_def
    by (intro exI [of _ "dict_keys (dict_filter P d)"]) auto
qed

lemma dict_filter_all: "dict_filter (\<lambda>_ _. True) d = d"
  by (simp add: dict_filter_def split_beta)

lemma lists_image_dict_all:
  "dict_wf d \<Longrightarrow> lists_image (\<lambda>k. the (dict_get d k)) {k. dict_get d k \<noteq> None} (dict_values d)"
  using lists_image_dict [of d "\<lambda>_ _. True"] by (simp add: dict_filter_all)

lemma lg_degree:
  fixes d :: "(nat, nat \<times> nat \<times> edge) dict"
  assumes "dict_wf d"
  shows "length (filter (\<lambda>(e, (a, b, x)). b = i) d) = card {e. \<exists>a x. dict_get d e = Some (a, i, x)}"
proof -
  have "lists_image id {e. \<exists>v. dict_get d e = Some v \<and> (case v of (a, b, x) \<Rightarrow> b = i)}
      (dict_keys (dict_filter (\<lambda>e v. case v of (a, b, x) \<Rightarrow> b = i) d))"
    by (rule lists_image_keys [OF assms])
  then obtain ks where "distinct ks" "set ks = {e. \<exists>a x. dict_get d e = Some (a, i, x)}"
    "length ks = length (filter (\<lambda>(e, (a, b, x)). b = i) d)"
    by (auto simp: lists_image_def dict_filter_def dest: arg_cong [where f = length])
  then show ?thesis by (metis distinct_card)
qed

interpretation lg: rx_digraph list_rx lg_V lg_E lg_ok
proof (unfold_locales, goal_cases)
  case (4 g n g' i)
  then show ?case
    by (auto simp: list_rx_def lg_V_def lg_E_def lg_ok_def Let_def fresh_index_get fun_eq_iff) blast+
next
  case (5 g i)
  have "dict_get (lg_edges (rx_remove_node list_rx g i)) e =
      (case dict_get (lg_edges g) e of None \<Rightarrow> None | Some (a, b, d) \<Rightarrow>
             if a = i \<or> b = i then None else Some (a, b, d))" for e
    using 5 by (auto simp: list_rx_def lg_ok_def dict_get_filter split: option.splits)
  then show ?case
    using 5 by (auto simp: list_rx_def lg_V_def lg_E_def lg_ok_def fun_eq_iff split: option.splits if_splits)
next
  case (6 g a b d)
  then show ?case
    using fresh_index_get [of "lg_edges g"]
    by (auto simp: list_rx_def lg_V_def lg_E_def lg_ok_def fun_eq_iff intro!: exI [of _ "fresh_index (lg_edges g)"])
next
  case (7 g e)
  then show ?case by (auto simp: list_rx_def lg_V_def lg_E_def lg_ok_def fun_eq_iff)
next
  case (8 g e a b d)
  then show ?case unfolding lg_ok_def lg_E_def lg_V_def by blast
next
  case (9 g)
  then show ?case
    using finite_dom_map_of [of "lg_edges g"] by (simp add: lg_E_def dom_def)
next
  case (11 g)
  then show ?case using lists_image_dict_all [of "lg_nodes g"] by (simp add: list_rx_def lg_V_def lg_ok_def)
next
  case (12 g)
  then show ?case using lists_image_dict_all [of "lg_edges g"] by (simp add: list_rx_def lg_E_def lg_ok_def)
next
  case (13 g a)
  then show ?case
    using lists_image_dict [of "lg_edges g" "\<lambda>e v. fst v = a"]
    by (simp add: list_rx_def lg_E_def lg_ok_def)
next
  case (14 g a)
  then show ?case
    using lists_image_keys [of "lg_edges g" "\<lambda>e v. fst v = a"]
    by (simp add: list_rx_def lg_E_def lg_ok_def)
next
  case (15 g a b)
  then show ?case
    using lists_image_keys [of "lg_edges g" "\<lambda>e v. fst v = a \<and> fst (snd v) = b"]
    by (simp add: list_rx_def lg_E_def lg_ok_def)
next
  case (17 g a b)
  have get: "dict_get (lg_edges g) e = Some v \<longleftrightarrow> (e, v) \<in> set (lg_edges g)" for e v
    using 17 by (simp add: lg_ok_def dict_wf_def)
  show ?case by (force simp: list_rx_def lg_E_def get Let_def filter_empty_conv)
next
  case (18 g b)
  then show ?case using lg_degree [of "lg_edges g" b] by (simp add: list_rx_def lg_E_def lg_ok_def)
qed (auto simp: list_rx_def lg_V_def lg_E_def lg_ok_def)

section \<open>Properties\<close>

definition topo_example :: "list_graph topology" where
  "topo_example = add_connection list_rx
     \<lparr>conn_source = ''a'', conn_sink = ''b'', conn_edge = RDMAConnection ''en1'' ''en2''\<rparr> (new_topology list_rx)"

lemma topo_example_wf: "topo_wf lg_V lg_E lg_ok topo_example"
  unfolding topo_example_def using lg.add_connection_refines [OF lg.wf_new] by blast



text \<open>
  C32. Snapshot round trip.  Encoding a topology as a snapshot (node list and nested connection
  map) and rebuilding it gives back the same nodes and the same connections, whatever indices
  the package hands out the second time.
\<close>

theorem topology_snapshot_roundtrip:
  assumes "rx_digraph rx V E ok" and "topo_wf V E ok t"
  shows "topo_wf V E ok (from_snapshot rx (to_snapshot rx t)) \<and>
         topo_nodes (from_snapshot rx (to_snapshot rx t)) = topo_nodes t \<and>
         topo_conns V E (from_snapshot rx (to_snapshot rx t)) = topo_conns V E t"
  using assms by (rule rx_digraph.snapshot_roundtrip)

theorem topology_snapshot_roundtrip_witness:
  "topo_conns lg_V lg_E (from_snapshot list_rx (to_snapshot list_rx topo_example)) =
     topo_conns lg_V lg_E topo_example"
  using topology_snapshot_roundtrip [OF lg.rx_digraph_axioms topo_example_wf] by blast

text \<open>
  Replacing a node's RDMA links.  For a node of the graph the call succeeds, drops exactly
  the RDMA connections that leave it, keeps every socket connection and every other node's
  links, and adds the new connections.
\<close>

theorem replace_rdma_exact:
  assumes "rx_digraph rx V E ok" and "topo_wf V E ok t" and "s \<in> topo_nodes t"
  shows "\<exists>t'. replace_all_out_rdma_connections rx s new t = Some t' \<and> topo_wf V E ok t' \<and>
     topo_conns V E t' =
       {c \<in> topo_conns V E t. \<not> (conn_source c = s \<and> is_rdma (conn_edge c))} \<union> set new"
  using rx_digraph.replace_rdma_refines [OF assms, of new] by blast

theorem replace_rdma_exact_witness:
  "\<exists>t'. replace_all_out_rdma_connections list_rx ''a'' [] topo_example = Some t' \<and>
     topo_wf lg_V lg_E lg_ok t' \<and>
     topo_conns lg_V lg_E t' =
       {c \<in> topo_conns lg_V lg_E topo_example. \<not> (conn_source c = ''a'' \<and> is_rdma (conn_edge c))} \<union> set []"
proof -
  have "''a'' \<in> topo_nodes topo_example"
    using lg.add_connection_refines [OF lg.wf_new] by (simp add: topo_example_def)
  then show ?thesis
    using replace_rdma_exact [OF lg.rx_digraph_axioms topo_example_wf, of "''a''" "[]"] by blast
qed

definition rdma_example :: "list_graph topology" where
  "rdma_example =
     (let link = (\<lambda>x y. \<lparr>conn_source = x, conn_sink = y, conn_edge = RDMAConnection ''e'' ''e''\<rparr>);
          t = foldl (\<lambda>t n. add_node list_rx n t) (new_topology list_rx) [''a'', ''b'', ''c'', ''d'']
      in remove_node list_rx ''a'' (add_connection list_rx (link ''b'' ''c'')
           (add_connection list_rx (link ''c'' ''b'') t)))"

text \<open>
  The RDMA cycle search mixes index spaces.  Nodes of the subgraph are numbered afresh while
  its edges keep the numbers of the original graph, so once a node was removed the search can
  report a cycle through nodes that share no link: here \<open>b\<close> and \<open>c\<close> are the only linked
  nodes, and the search reports \<open>c\<close> and \<open>d\<close>.
\<close>

theorem get_rdma_cycles_misattributes:
  "list_connections list_rx rdma_example =
     [\<lparr>conn_source = ''c'', conn_sink = ''b'', conn_edge = RDMAConnection ''e'' ''e''\<rparr>,
      \<lparr>conn_source = ''b'', conn_sink = ''c'', conn_edge = RDMAConnection ''e'' ''e''\<rparr>] \<and>
   get_cycles list_rx rdma_example = [[''b'', ''c''], [''b''], [''c''], [''d'']] \<and>
   get_rdma_cycles list_rx rdma_example = [[''c'', ''d'']]"
  by (intro conjI; code_simp)

end
