(* ===== verification/Cluster_State.thy ===== *)
theory Cluster_State
  imports Topology "HOL-Library.List_Lexorder" "HOL-Library.Char_ord"
begin

text \<open>
  The replicated state of a cluster and the events that change it:
  \<^verbatim>\<open>src/skulk/shared/types/state.py\<close>, \<^verbatim>\<open>events.py\<close>, \<^verbatim>\<open>tasks.py\<close>,
  \<^verbatim>\<open>steward_actions.py\<close> and \<^verbatim>\<open>worker/*.py\<close>.

  Identifiers are strings.  Times are microseconds since the epoch.  A pydantic model becomes a
  record with the same fields; a field that no modelled code inspects (task parameters, the bulk
  of a model card, trace payloads) is kept as its serialised text.  A union of pydantic classes
  becomes a datatype with one constructor per class.
\<close>

type_synonym model_id = string
type_synonym runner_id = string
type_synonym instance_id = string
type_synonym task_id = string
type_synonym command_id = string
type_synonym event_id = string
type_synonym proposal_id = string
type_synonym datetime = int

record session_id =
  master_node_id :: node_id
  election_clock :: int

text \<open>Exceptions that modelled code can raise.\<close>

datatype py_error = AssertionError | ValueError | KeyError | TypeError | IndexError | ZeroDivisionError
  | PlacementError | PlacementInfoPendingError | PlacementNoCapableMachineError | PlacementModelCardIdentityError

text \<open>The subclasses of \<open>PlacementError\<close>, itself a subclass of \<open>ValueError\<close>.\<close>

definition is_placement_error :: "py_error \<Rightarrow> bool" where
  "is_placement_error e \<longleftrightarrow>
     e \<in> {PlacementError, PlacementInfoPendingError, PlacementNoCapableMachineError, PlacementModelCardIdentityError}"

section \<open>Model cards and shards\<close>

text \<open>Cache dimensions of a GGUF artifact, \<^verbatim>\<open>shared/models/gguf_memory.py\<close>, and the serving settings of
  llama-server, \<^verbatim>\<open>shared/models/llama_server_settings.py\<close>.\<close>

record gguf_cache_geometry =
  attention_layers :: nat
  recurrent_layers :: nat
  nextn_layers :: nat
  key_width :: nat
  value_width :: nat
  convolution_width :: nat
  recurrent_width :: nat

record llama_settings =
  parallel_slots :: nat
  speculation_enabled :: bool

datatype music_family = MiniMaxMusic3 | AceStep15

record model_card =
  card_model_id :: model_id
  registry_card_id :: "string option"
  card_family :: string
  card_context_length :: int
  card_tasks :: "string list"
  card_vision_model_type :: "string option"
  card_prompt_renderer :: "string option"
  card_output_parser :: "string option"
  card_tool_call_format :: "string option"
  storage_size :: int
  card_n_layers :: nat
  hidden_size :: nat
  supports_tensor :: bool
  num_key_value_heads :: "nat option"
  cache_geometry :: "gguf_cache_geometry option"
  gguf_file :: "string option"
  uses_cfg :: bool
  projector_size :: "int option"
  card_music :: "music_family option"
  served_spec_type :: "string option"
  served_spec_n_max :: "nat option"
  compatible_backends :: "string list"
  backend_preference :: "string list"
  max_pipeline_split_layer :: "nat option"
  card_rest :: opaque

record base_shard =
  shard_card :: model_card
  device_rank :: int
  world_size :: int
  resolved_backend :: "string option"
  resolved_engine_build :: "string option"
  llama_server_settings :: "llama_settings option"
  immediate_exception :: bool
  should_timeout :: "int option"
  start_layer :: nat
  end_layer :: nat
  n_layers :: nat

datatype shard_metadata =
    PipelineShardMetadata base_shard
  | CfgShardMetadata base_shard (cfg_rank: int) (cfg_world_size: int) (pipeline_rank: int)
      (pipeline_world_size: int)
  | TensorShardMetadata base_shard
  | RpcDonorShardMetadata base_shard

fun shard_base :: "shard_metadata \<Rightarrow> base_shard" where
  "shard_base (PipelineShardMetadata b) = b"
| "shard_base (CfgShardMetadata b _ _ _ _) = b"
| "shard_base (TensorShardMetadata b) = b"
| "shard_base (RpcDonorShardMetadata b) = b"

definition shard_model_id :: "shard_metadata \<Rightarrow> model_id" where
  "shard_model_id s = card_model_id (shard_card (shard_base s))"

section \<open>Runners and instances\<close>

datatype runner_status =
    RunnerIdle | RunnerConnecting | RunnerConnected
  | RunnerLoading (layers_loaded: int) (total_layers: int)
  | RunnerLoaded | RunnerWarmingUp | RunnerReady | RunnerRunning
  | RunnerShuttingDown | RunnerShutdown
  | RunnerFailed (runner_error_message: "string option")

record shard_assignments =
  sa_model_id :: model_id
  runner_to_shard :: "(runner_id, shard_metadata) dict"
  node_to_runner :: "(node_id, runner_id) dict"

text \<open>The validator of \<open>ShardAssignments\<close>: every assigned runner has a shard.\<close>

definition validate_runners_exist :: "shard_assignments \<Rightarrow> bool" where
  "validate_runners_exist sa =
     list_all (\<lambda>runner. dict_has (runner_to_shard sa) runner) (dict_values (node_to_runner sa))"

record base_instance =
  bi_instance_id :: instance_id
  bi_shard_assignments :: shard_assignments
  bi_context_token_limit :: "int option"
  bi_excluded_nodes :: "node_id list"
  bi_system_role :: "string option"
  bi_requested_context_tokens :: "int option"

record host =
  host_ip :: string
  host_port :: int

datatype instance_t =
    MlxRingInstance base_instance (hosts_by_node: "(node_id, host list) dict") (ephemeral_port: int)
  | MlxJacclInstance base_instance (jaccl_devices: "string option list list")
      (jaccl_coordinators: "(node_id, string) dict")
  | LlamaRpcInstance base_instance (driver_node: node_id) (donor_endpoints: "(node_id, string) dict")

fun instance_base :: "instance_t \<Rightarrow> base_instance" where
  "instance_base (MlxRingInstance b _ _) = b"
| "instance_base (MlxJacclInstance b _ _) = b"
| "instance_base (LlamaRpcInstance b _ _) = b"

abbreviation inst_id :: "instance_t \<Rightarrow> instance_id" where
  "inst_id i \<equiv> bi_instance_id (instance_base i)"

abbreviation inst_shards :: "instance_t \<Rightarrow> shard_assignments" where
  "inst_shards i \<equiv> bi_shard_assignments (instance_base i)"

definition instance_shard :: "instance_t \<Rightarrow> runner_id \<Rightarrow> shard_metadata option" where
  "instance_shard i runner = dict_get (runner_to_shard (inst_shards i)) runner"

record bound_instance =
  bound_to :: instance_t
  bound_runner_id :: runner_id
  bound_node_id :: node_id

record instance_failure =
  if_instance_id :: instance_id
  if_model_id :: model_id
  if_system_role :: "string option"
  if_error_code :: string
  if_error_message :: string
  if_affected_node_ids :: "node_id list"
  if_recorded_at :: datetime

definition INSTANCE_FAILURE_HISTORY_LIMIT :: nat where
  "INSTANCE_FAILURE_HISTORY_LIMIT = 64"

section \<open>Downloads\<close>

record base_download_progress =
  dp_node_id :: node_id
  dp_shard_metadata :: shard_metadata
  dp_model_directory :: string
  dp_attempt_id :: "string option"

record download_progress_data =
  data_total :: int
  data_downloaded :: int
  data_rest :: opaque

datatype download_progress =
    DownloadPending base_download_progress (dp_downloaded: int) (dp_pending_total: int)
  | DownloadCompleted base_download_progress (dp_total: int) (dp_read_only: bool)
  | DownloadFailed base_download_progress (dp_error_message: string)
  | DownloadOngoing base_download_progress (dp_progress: download_progress_data)

fun dp_base :: "download_progress \<Rightarrow> base_download_progress" where
  "dp_base (DownloadPending b _ _) = b"
| "dp_base (DownloadCompleted b _ _) = b"
| "dp_base (DownloadFailed b _) = b"
| "dp_base (DownloadOngoing b _) = b"

definition dp_model_id :: "download_progress \<Rightarrow> model_id" where
  "dp_model_id dp = shard_model_id (dp_shard_metadata (dp_base dp))"

fun is_completed :: "download_progress \<Rightarrow> bool" where
  "is_completed (DownloadCompleted _ _ _) = True"
| "is_completed _ = False"

fun is_terminal :: "download_progress \<Rightarrow> bool" where
  "is_terminal (DownloadCompleted _ _ _) = True"
| "is_terminal (DownloadFailed _ _) = True"
| "is_terminal _ = False"

section \<open>Tasks\<close>

datatype task_status = Pending | Running | Complete | TimedOut | Failed | Cancelled

record inference_params =
  inf_command_id :: command_id
  inf_owner_node :: "node_id option"
  inf_task_params :: opaque
  inf_trace_enabled :: bool

datatype task_kind =
    CreateRunner bound_instance
  | DownloadModel shard_metadata
  | InstallEngine (install_engine: string) (approximate_download_bytes: int)
  | ConnectToGroup
  | LoadModel
  | StartWarmup
  | TextGeneration inference_params (text_input_chunks: int)
  | CancelTask (cancelled_task_id: task_id) (cancel_runner_id: runner_id)
  | ImageGeneration inference_params
  | ImageEdits inference_params (edit_input_chunks: int)
  | VideoGeneration inference_params (video_input_chunks: int)
  | MusicGeneration inference_params
  | TextEmbedding inference_params
  | SpeechSynthesis inference_params (reference_audio_present: bool)
  | AudioTranscription inference_params (audio_input_chunks: int)
  | RealtimeAudioTranscription inference_params
  | Shutdown (shutdown_runner_id: runner_id)

record task =
  task_id :: task_id
  task_status :: task_status
  task_instance_id :: instance_id
  task_error_type :: "string option"
  task_error_message :: "string option"
  task_kind :: task_kind

section \<open>Steward proposals\<close>

datatype proposal_status =
  ProposalPending | ProposalApproved | ProposalDispatched | ProposalRejected | ProposalExpired | ProposalFailed

record steward_action_proposal =
  proposal_id :: proposal_id
  action :: opaque
  rationale :: string
  evidence :: "string list"
  expected_effect :: string
  created_at :: datetime
  expires_at :: datetime
  status :: proposal_status
  decided_at :: "datetime option"
  dispatched_at :: "datetime option"
  decided_by :: "string option"
  proposal_command_id :: "command_id option"
  outcome :: "string option"

definition five_minutes :: int where
  "five_minutes = 5 * 60 * 1000000"

definition steward_action_proposal_is_prunable :: "steward_action_proposal \<Rightarrow> datetime \<Rightarrow> bool" where
  "steward_action_proposal_is_prunable p as_of =
     (if status p \<in> {ProposalPending, ProposalApproved} then False
      else if status p \<noteq> ProposalDispatched then True
      else case (case dispatched_at p of Some d \<Rightarrow> Some d | None \<Rightarrow> decided_at p) of
             None \<Rightarrow> False
           | Some dispatch_started_at \<Rightarrow> dispatch_started_at + five_minutes < as_of)"

section \<open>Gathered node information\<close>

record thunderbolt_identifier =
  rdma_interface :: string
  domain_uuid :: string
  link_speed :: string

record thunderbolt_connection =
  source_uuid :: string
  sink_uuid :: string

datatype gathered_info =
    MactopMetrics opaque | MacmonMetrics opaque | LinuxGpuMetrics opaque | MemoryUsage opaque
  | NodeNetworkInterfaces "network_interface_info list"
  | MacThunderboltIdentifiers "thunderbolt_identifier list"
  | MacThunderboltConnections "thunderbolt_connection list"
  | RdmaCtlStatus opaque
  | ThunderboltBridgeInfo thunderbolt_bridge_status
  | NodeConfig opaque | MiscData opaque | StaticNodeInformation opaque | NodeResources opaque
  | NodeDiskUsage opaque | NodeCapabilities opaque | NodeCapabilityNodes opaque
  | NodePairingGateway opaque | NodeHeartbeat opaque

section \<open>State\<close>

record 'g state =
  instances :: "(instance_id, instance_t) dict"
  instance_failures :: "instance_failure list"
  steward_action_proposals :: "(proposal_id, steward_action_proposal) dict"
  runners :: "(runner_id, runner_status) dict"
  downloads :: "(node_id, download_progress list) dict"
  tasks :: "(task_id, task) dict"
  last_seen :: "(node_id, datetime) dict"
  topology :: "'g topology"
  tracing_enabled :: bool
  model_trust_approved_remote_code_identities :: "string list"
  last_event_applied_idx :: int
  node_network :: "(node_id, network_interface_info list) dict"
  node_thunderbolt :: "(node_id, thunderbolt_identifier list) dict"
  node_thunderbolt_bridge :: "(node_id, thunderbolt_bridge_status) dict"
  thunderbolt_bridge_cycles :: "node_id list list"

definition empty_state :: "'g rx_ops \<Rightarrow> 'g state" where
  "empty_state rx = \<lparr>instances = [], instance_failures = [], steward_action_proposals = [],
     runners = [], downloads = [], tasks = [], last_seen = [], topology = new_topology rx,
     tracing_enabled = False, model_trust_approved_remote_code_identities = [],
     last_event_applied_idx = -1, node_network = [], node_thunderbolt = [],
     node_thunderbolt_bridge = [], thunderbolt_bridge_cycles = []\<rparr>"

section \<open>Events\<close>

datatype 'g event_body =
    TestEvent
  | TaskCreated task_id task
  | TaskStatusUpdated task_id task_status
  | TaskFailed task_id string string
  | AudioCppPreparationRequested opaque
  | AudioCppPreparationCompleted opaque
  | TaskDeleted task_id
  | TaskAcknowledged task_id
  | InstanceCreated instance_t
  | InstanceFailureRecorded instance_failure
  | InstanceDeleted instance_id
  | RunnerStatusUpdated runner_id runner_status
  | NodeTimedOut node_id "opaque option"
  | NodeGatheredInfo node_id string gathered_info
  | NodeDownloadProgress download_progress
  | ChunkGenerated command_id opaque
  | InputChunkReceived command_id opaque
  | TopologyEdgeCreated connection
  | TopologyEdgeDeleted connection
  | TracesCollected task_id int opaque
  | TracesMerged task_id opaque
  | TracingStateChanged bool
  | ModelTrustApprovalChanged string bool
  | StewardActionProposalChanged steward_action_proposal
  | CustomModelCardAdded model_card "command_id option"
  | CustomModelCardDeleted model_id "command_id option"
  | StagedModelEvicted model_id
  | StateSnapshotHydrated "'g state"

record 'g event =
  event_id :: event_id
  event_body :: "'g event_body"

record 'g indexed_event =
  idx :: int
  event :: "'g event"

fun is_control_topology_info :: "gathered_info \<Rightarrow> bool" where
  "is_control_topology_info (NodeNetworkInterfaces _) = True"
| "is_control_topology_info (MacThunderboltIdentifiers _) = True"
| "is_control_topology_info (MacThunderboltConnections _) = True"
| "is_control_topology_info (ThunderboltBridgeInfo _) = True"
| "is_control_topology_info _ = False"

fun is_durable_download :: "download_progress \<Rightarrow> bool" where
  "is_durable_download (DownloadPending _ _ _) = True"
| "is_durable_download (DownloadCompleted _ _ _) = True"
| "is_durable_download (DownloadFailed _ _) = True"
| "is_durable_download _ = False"

fun is_persistable_control_event :: "'g event_body \<Rightarrow> bool" where
  "is_persistable_control_event (NodeGatheredInfo _ _ info) = is_control_topology_info info"
| "is_persistable_control_event (NodeDownloadProgress dp) = is_durable_download dp"
| "is_persistable_control_event TestEvent = True"
| "is_persistable_control_event (AudioCppPreparationRequested _) = True"
| "is_persistable_control_event (AudioCppPreparationCompleted _) = True"
| "is_persistable_control_event (TaskCreated _ _) = True"
| "is_persistable_control_event (TaskStatusUpdated _ _) = True"
| "is_persistable_control_event (TaskFailed _ _ _) = True"
| "is_persistable_control_event (TaskDeleted _) = True"
| "is_persistable_control_event (TaskAcknowledged _) = True"
| "is_persistable_control_event (InstanceCreated _) = True"
| "is_persistable_control_event (InstanceFailureRecorded _) = True"
| "is_persistable_control_event (InstanceDeleted _) = True"
| "is_persistable_control_event (RunnerStatusUpdated _ _) = True"
| "is_persistable_control_event (NodeTimedOut _ _) = True"
| "is_persistable_control_event (TopologyEdgeCreated _) = True"
| "is_persistable_control_event (TopologyEdgeDeleted _) = True"
| "is_persistable_control_event (TracingStateChanged _) = True"
| "is_persistable_control_event (ModelTrustApprovalChanged _ _) = True"
| "is_persistable_control_event (StewardActionProposalChanged _) = True"
| "is_persistable_control_event (CustomModelCardAdded _ _) = True"
| "is_persistable_control_event (CustomModelCardDeleted _ _) = True"
| "is_persistable_control_event (StagedModelEvicted _) = True"
| "is_persistable_control_event (StateSnapshotHydrated _) = True"
| "is_persistable_control_event _ = False"

text \<open>A small model card for the concrete examples of the development.\<close>

definition example_card :: model_card where
  "example_card = \<lparr>card_model_id = ''m'', registry_card_id = None, card_family = ''llama'',
     card_context_length = 4096, card_tasks = [''TextGeneration''], card_vision_model_type = None,
     card_prompt_renderer = None, card_output_parser = None, card_tool_call_format = None,
     storage_size = 1000, card_n_layers = 8, hidden_size = 64,
     supports_tensor = True, num_key_value_heads = None, cache_geometry = None, gguf_file = None, uses_cfg = False,
     projector_size = None, card_music = None, served_spec_type = None, served_spec_n_max = None, compatible_backends = [''mlx''],
     backend_preference = [], max_pipeline_split_layer = None, card_rest = []\<rparr>"

end
