(* ===== verification/Apply.thy ===== *)
theory Apply
  imports Topology_Graph Cluster_State
begin

text \<open>
  The event reducer of \<^verbatim>\<open>src/skulk/shared/apply.py\<close>, the only code that changes the
  replicated state.  Every function takes the state and returns the next one; where the source
  can raise, the result is a sum with the exception on the left.

  Parameters: \<open>rx\<close>, the graph package behind \<open>Topology\<close>, and \<open>parse_iso\<close>,
  \<open>datetime.fromisoformat\<close> (\<open>None\<close> is its \<open>ValueError\<close>).
\<close>

section \<open>Model\<close>

definition sanitize_snapshot_downloads :: "'g state \<Rightarrow> 'g state" where
  "sanitize_snapshot_downloads snapshot =
     (let downloads1 = dict_map (filter is_terminal) (downloads snapshot);
          downloads2 = dict_filter (\<lambda>node_id progresses. progresses \<noteq> []) downloads1
      in snapshot\<lparr>downloads := downloads2\<rparr>)"

definition apply_instance_failure_recorded :: "instance_failure \<Rightarrow> 'g state \<Rightarrow> 'g state" where
  "apply_instance_failure_recorded failure st =
     (let retained = filter (\<lambda>f. if_instance_id f \<noteq> if_instance_id failure) (instance_failures st)
      in st\<lparr>instance_failures := take INSTANCE_FAILURE_HISTORY_LIMIT (failure # retained)\<rparr>)"

text \<open>The replacement loop: the first entry for the same model is overwritten in place.\<close>

fun replace_download :: "download_progress \<Rightarrow> download_progress list \<Rightarrow> download_progress list option" where
  "replace_download dp [] = None"
| "replace_download dp (existing_dp # rest) =
     (if dp_model_id existing_dp = dp_model_id dp then Some (dp # rest)
      else map_option ((#) existing_dp) (replace_download dp rest))"

definition apply_node_download_progress :: "download_progress \<Rightarrow> 'g state \<Rightarrow> 'g state" where
  "apply_node_download_progress dp st =
     (let node_id = dp_node_id (dp_base dp);
          current = (case dict_get (downloads st) node_id of None \<Rightarrow> [] | Some ps \<Rightarrow> ps)
      in case dp of
           DownloadOngoing _ _ \<Rightarrow> st
         | DownloadPending _ _ _ \<Rightarrow>
             (let retained = filter (\<lambda>existing_dp. dp_model_id existing_dp \<noteq> dp_model_id dp) current
              in if length retained = length current then st
                 else if retained \<noteq> [] then st\<lparr>downloads := dict_set node_id retained (downloads st)\<rparr>
                 else st\<lparr>downloads := dict_pop node_id (downloads st)\<rparr>)
         | _ \<Rightarrow>
             (let new = (case replace_download dp current of
                           Some replaced \<Rightarrow> replaced | None \<Rightarrow> current @ [dp])
              in st\<lparr>downloads := dict_set node_id new (downloads st)\<rparr>))"

definition apply_staged_model_evicted :: "model_id \<Rightarrow> 'g state \<Rightarrow> 'g state" where
  "apply_staged_model_evicted model st =
     (let keep = filter (\<lambda>dp. dp_model_id dp \<noteq> model);
          removed = list_ex (\<lambda>(node_id, progresses). length (keep progresses) \<noteq> length progresses)
                      (downloads st);
          new_downloads = dict_filter (\<lambda>node_id kept. kept \<noteq> []) (dict_map keep (downloads st))
      in if \<not> removed then st else st\<lparr>downloads := new_downloads\<rparr>)"

definition apply_task_created :: "task_id \<Rightarrow> task \<Rightarrow> 'g state \<Rightarrow> 'g state" where
  "apply_task_created tid t st = st\<lparr>tasks := dict_set tid t (tasks st)\<rparr>"

definition apply_task_deleted :: "task_id \<Rightarrow> 'g state \<Rightarrow> 'g state" where
  "apply_task_deleted tid st = st\<lparr>tasks := dict_filter (\<lambda>tid' t. tid' \<noteq> tid) (tasks st)\<rparr>"

definition apply_task_status_updated :: "task_id \<Rightarrow> task_status \<Rightarrow> 'g state \<Rightarrow> 'g state" where
  "apply_task_status_updated tid new_status st =
     (case dict_get (tasks st) tid of
        None \<Rightarrow> st
      | Some t \<Rightarrow>
          (let updated = (if new_status \<noteq> Failed
                          then t\<lparr>task_status := new_status, task_error_type := None, task_error_message := None\<rparr>
                          else t\<lparr>task_status := new_status\<rparr>)
           in st\<lparr>tasks := dict_set tid updated (tasks st)\<rparr>))"

definition apply_task_failed :: "task_id \<Rightarrow> string \<Rightarrow> string \<Rightarrow> 'g state \<Rightarrow> 'g state" where
  "apply_task_failed tid error_type error_message st =
     (case dict_get (tasks st) tid of
        None \<Rightarrow> st
      | Some t \<Rightarrow>
          st\<lparr>tasks := dict_set tid
               (t\<lparr>task_status := Failed, task_error_type := Some error_type,
                  task_error_message := Some error_message\<rparr>) (tasks st)\<rparr>)"

definition apply_instance_created :: "instance_t \<Rightarrow> 'g state \<Rightarrow> 'g state" where
  "apply_instance_created inst st = st\<lparr>instances := dict_set (inst_id inst) inst (instances st)\<rparr>"

definition apply_instance_deleted :: "instance_id \<Rightarrow> 'g state \<Rightarrow> 'g state" where
  "apply_instance_deleted iid st =
     (let st' = st\<lparr>instances := dict_filter (\<lambda>iid' inst. iid' \<noteq> iid) (instances st)\<rparr>
      in case dict_get (instances st) iid of
           None \<Rightarrow> st'
         | Some deleted \<Rightarrow>
             (let doomed_runner_ids = dict_keys (runner_to_shard (inst_shards deleted))
              in if doomed_runner_ids \<noteq> []
                 then st'\<lparr>runners := dict_filter (\<lambda>rid rs. rid \<notin> set doomed_runner_ids) (runners st)\<rparr>
                 else st'))"

definition apply_runner_status_updated :: "runner_id \<Rightarrow> runner_status \<Rightarrow> 'g state \<Rightarrow> 'g state" where
  "apply_runner_status_updated rid rstatus st =
     (if rstatus = RunnerShutdown
      then st\<lparr>runners := dict_filter (\<lambda>rid' rs. rid' \<noteq> rid) (runners st)\<rparr>
      else if \<not> list_ex (\<lambda>inst. dict_has (runner_to_shard (inst_shards inst)) rid)
                  (dict_values (instances st))
      then st
      else st\<lparr>runners := dict_set rid rstatus (runners st)\<rparr>)"

definition apply_node_timed_out :: "'g rx_ops \<Rightarrow> node_id \<Rightarrow> 'g state \<Rightarrow> py_error + 'g state" where
  "apply_node_timed_out rx node st =
     (let topo = remove_node rx node (topology st);
          affected = dict_filter (\<lambda>iid inst. dict_has (node_to_runner (inst_shards inst)) node) (instances st);
          affected_instance_ids = dict_keys affected;
          affected_runner_ids = concat (map (\<lambda>inst. dict_keys (runner_to_shard (inst_shards inst)))
                                             (dict_values affected));
          net = dict_filter (\<lambda>key v. key \<noteq> node) (node_network st);
          tb = dict_filter (\<lambda>key v. key \<noteq> node) (node_thunderbolt st);
          tb_bridge = dict_filter (\<lambda>key v. key \<noteq> node) (node_thunderbolt_bridge st);
          leaving_node_had_tb_enabled =
            (case dict_get (node_thunderbolt_bridge st) node of None \<Rightarrow> False | Some s \<Rightarrow> tb_enabled s);
          cycles = (if leaving_node_had_tb_enabled
                    then get_thunderbolt_bridge_cycles rx tb_bridge net topo
                    else Some (thunderbolt_bridge_cycles st))
      in case cycles of
           None \<Rightarrow> Inl ValueError
         | Some cs \<Rightarrow> Inr (st\<lparr>
             instances := dict_filter (\<lambda>iid inst. iid \<notin> set affected_instance_ids) (instances st),
             runners := dict_filter (\<lambda>rid rs. rid \<notin> set affected_runner_ids) (runners st),
             tasks := dict_filter (\<lambda>tid t. task_instance_id t \<notin> set affected_instance_ids) (tasks st),
             downloads := dict_filter (\<lambda>key v. key \<noteq> node) (downloads st),
             topology := topo,
             last_seen := dict_filter (\<lambda>key v. key \<noteq> node) (last_seen st),
             node_network := net,
             node_thunderbolt := tb,
             node_thunderbolt_bridge := tb_bridge,
             thunderbolt_bridge_cycles := cs\<rparr>))"

text \<open>\<open>conn_map\<close>: which node and interface own a Thunderbolt domain; later entries win.\<close>

definition thunderbolt_conn_map ::
  "(node_id, thunderbolt_identifier list) dict \<Rightarrow> (string, node_id \<times> string) dict" where
  "thunderbolt_conn_map tb =
     dict_of_pairs [(domain_uuid tb_ident, (nid, rdma_interface tb_ident)).
                      (nid, idents) \<leftarrow> tb, tb_ident \<leftarrow> idents]"

definition rdma_connections ::
  "node_id \<Rightarrow> (string, node_id \<times> string) dict \<Rightarrow> thunderbolt_connection list \<Rightarrow> connection list" where
  "rdma_connections node conn_map conns =
     concat (map (\<lambda>tb_conn.
       case (dict_get conn_map (source_uuid tb_conn), dict_get conn_map (sink_uuid tb_conn)) of
         (Some (_, source_iface), Some (sink_node, sink_iface)) \<Rightarrow>
           [\<lparr>conn_source = node, conn_sink = sink_node,
             conn_edge = RDMAConnection source_iface sink_iface\<rparr>]
       | _ \<Rightarrow> []) conns)"

definition apply_node_gathered_info ::
  "'g rx_ops \<Rightarrow> (string \<Rightarrow> datetime option) \<Rightarrow> node_id \<Rightarrow> string \<Rightarrow> gathered_info \<Rightarrow> 'g state
     \<Rightarrow> py_error + 'g state" where
  "apply_node_gathered_info rx parse_iso node when_text info st =
     (let topo = add_node rx node (topology st)
      in case parse_iso when_text of
           None \<Rightarrow> Inl ValueError
         | Some seen \<Rightarrow>
             (let st1 = st\<lparr>last_seen := dict_set node seen (last_seen st), topology := topo\<rparr>
              in case info of
                   NodeNetworkInterfaces ifaces \<Rightarrow>
                     Inr (st1\<lparr>node_network := dict_set node ifaces (node_network st)\<rparr>)
                 | MacThunderboltIdentifiers idents \<Rightarrow>
                     Inr (st1\<lparr>node_thunderbolt := dict_set node idents (node_thunderbolt st)\<rparr>)
                 | MacThunderboltConnections conns \<Rightarrow>
                     (case replace_all_out_rdma_connections rx node
                             (rdma_connections node (thunderbolt_conn_map (node_thunderbolt st)) conns) topo of
                        None \<Rightarrow> Inl KeyError
                      | Some topo' \<Rightarrow> Inr (st1\<lparr>topology := topo'\<rparr>))
                 | ThunderboltBridgeInfo tb_status \<Rightarrow>
                     (let new_tb_bridge = dict_set node tb_status (node_thunderbolt_bridge st);
                          old_enabled = (case dict_get (node_thunderbolt_bridge st) node of
                                           None \<Rightarrow> False | Some s \<Rightarrow> tb_enabled s);
                          st2 = st1\<lparr>node_thunderbolt_bridge := new_tb_bridge\<rparr>
                      in if old_enabled \<noteq> tb_enabled tb_status
                         then (case get_thunderbolt_bridge_cycles rx new_tb_bridge (node_network st) topo of
                                 None \<Rightarrow> Inl ValueError
                               | Some cs \<Rightarrow> Inr (st2\<lparr>thunderbolt_bridge_cycles := cs\<rparr>))
                         else Inr st2)
                 | _ \<Rightarrow> Inr st1))"

definition apply_topology_edge_created :: "'g rx_ops \<Rightarrow> connection \<Rightarrow> 'g state \<Rightarrow> 'g state" where
  "apply_topology_edge_created rx conn st = st\<lparr>topology := add_connection rx conn (topology st)\<rparr>"

text \<open>
  The cascade that drops nodes which never became members and to which no edge points any more.
  \<open>candidates.pop()\<close> takes the last candidate.  A round either drops a candidate from the list
  or a node from the graph, so the loop ends for every graph package.
\<close>

function reap ::
  "'g rx_ops \<Rightarrow> (node_id, datetime) dict \<Rightarrow> node_id list \<Rightarrow> 'g topology \<Rightarrow> 'g topology" where
  "reap rx seen candidates t =
     (if candidates = [] then t
      else let candidate = last candidates; rest = butlast candidates
           in if dict_has seen candidate \<or> \<not> contains_node candidate t
                 \<or> \<not> node_has_no_incoming_edges rx candidate t
              then reap rx seen rest t
              else reap rx seen (rest @ map conn_sink (out_edges rx candidate t)) (remove_node rx candidate t))"
  by pat_completeness auto
termination
proof (relation "measures [\<lambda>(rx, seen, cs, t). length (vertex_indices t), \<lambda>(rx, seen, cs, t). length cs]",
    goal_cases)
  case (3 rx seen cs t x xa)
  then have "length (vertex_indices (remove_node rx x t)) < length (vertex_indices t)"
    using length_dict_pop_less [of "vertex_indices t" x]
    by (auto simp: remove_node_def contains_node_def dict_has_def)
  then show ?case by simp
qed auto

declare reap.simps [simp del]

definition apply_topology_edge_deleted :: "'g rx_ops \<Rightarrow> connection \<Rightarrow> 'g state \<Rightarrow> 'g state" where
  "apply_topology_edge_deleted rx conn st =
     st\<lparr>topology := reap rx (last_seen st) [conn_sink conn, conn_source conn]
                      (remove_connection rx conn (topology st))\<rparr>"

definition apply_model_trust_approval_changed :: "string \<Rightarrow> bool \<Rightarrow> 'g state \<Rightarrow> 'g state" where
  "apply_model_trust_approval_changed identity approved st =
     (let approvals = set (model_trust_approved_remote_code_identities st);
          approvals' = (if approved then insert identity approvals else approvals - {identity})
      in st\<lparr>model_trust_approved_remote_code_identities := sorted_list_of_set approvals'\<rparr>)"

definition apply_steward_action_proposal_changed :: "steward_action_proposal \<Rightarrow> 'g state \<Rightarrow> 'g state" where
  "apply_steward_action_proposal_changed p st =
     (let proposals = dict_set (proposal_id p) p (steward_action_proposals st)
      in if 128 < length proposals
         then let as_of = (case dispatched_at p of Some d \<Rightarrow> d | None \<Rightarrow>
                            (case decided_at p of Some d \<Rightarrow> d | None \<Rightarrow> created_at p));
                  terminal = sort_key created_at
                    (filter (\<lambda>q. steward_action_proposal_is_prunable q as_of) (dict_values proposals));
                  pruned = foldl (\<lambda>d q. dict_pop (proposal_id q) d) proposals
                             (take (length proposals - 128) terminal)
              in st\<lparr>steward_action_proposals := pruned\<rparr>
         else st\<lparr>steward_action_proposals := proposals\<rparr>)"

fun event_apply ::
  "'g rx_ops \<Rightarrow> (string \<Rightarrow> datetime option) \<Rightarrow> 'g event_body \<Rightarrow> 'g state \<Rightarrow> py_error + 'g state" where
  "event_apply rx parse_iso TestEvent st = Inr st"
| "event_apply rx parse_iso (AudioCppPreparationRequested _) st = Inr st"
| "event_apply rx parse_iso (AudioCppPreparationCompleted _) st = Inr st"
| "event_apply rx parse_iso (ChunkGenerated _ _) st = Inr st"
| "event_apply rx parse_iso (TaskAcknowledged _) st = Inr st"
| "event_apply rx parse_iso (InputChunkReceived _ _) st = Inr st"
| "event_apply rx parse_iso (TracesCollected _ _ _) st = Inr st"
| "event_apply rx parse_iso (TracesMerged _ _) st = Inr st"
| "event_apply rx parse_iso (CustomModelCardAdded _ _) st = Inr st"
| "event_apply rx parse_iso (CustomModelCardDeleted _ _) st = Inr st"
| "event_apply rx parse_iso (InstanceCreated inst) st = Inr (apply_instance_created inst st)"
| "event_apply rx parse_iso (InstanceFailureRecorded f) st = Inr (apply_instance_failure_recorded f st)"
| "event_apply rx parse_iso (InstanceDeleted iid) st = Inr (apply_instance_deleted iid st)"
| "event_apply rx parse_iso (NodeTimedOut node _) st = apply_node_timed_out rx node st"
| "event_apply rx parse_iso (NodeDownloadProgress dp) st = Inr (apply_node_download_progress dp st)"
| "event_apply rx parse_iso (StagedModelEvicted m) st = Inr (apply_staged_model_evicted m st)"
| "event_apply rx parse_iso (NodeGatheredInfo node when_text info) st =
     apply_node_gathered_info rx parse_iso node when_text info st"
| "event_apply rx parse_iso (RunnerStatusUpdated rid rs) st = Inr (apply_runner_status_updated rid rs st)"
| "event_apply rx parse_iso (TaskCreated tid t) st = Inr (apply_task_created tid t st)"
| "event_apply rx parse_iso (TaskDeleted tid) st = Inr (apply_task_deleted tid st)"
| "event_apply rx parse_iso (TaskFailed tid ty msg) st = Inr (apply_task_failed tid ty msg st)"
| "event_apply rx parse_iso (TaskStatusUpdated tid s) st = Inr (apply_task_status_updated tid s st)"
| "event_apply rx parse_iso (TopologyEdgeCreated c) st = Inr (apply_topology_edge_created rx c st)"
| "event_apply rx parse_iso (TopologyEdgeDeleted c) st = Inr (apply_topology_edge_deleted rx c st)"
| "event_apply rx parse_iso (TracingStateChanged enabled) st = Inr (st\<lparr>tracing_enabled := enabled\<rparr>)"
| "event_apply rx parse_iso (ModelTrustApprovalChanged i a) st = Inr (apply_model_trust_approval_changed i a st)"
| "event_apply rx parse_iso (StewardActionProposalChanged p) st =
     Inr (apply_steward_action_proposal_changed p st)"
| "event_apply rx parse_iso (StateSnapshotHydrated s) st = Inr (sanitize_snapshot_downloads s)"

definition apply_event ::
  "'g rx_ops \<Rightarrow> (string \<Rightarrow> datetime option) \<Rightarrow> 'g state \<Rightarrow> 'g indexed_event \<Rightarrow> py_error + 'g state" where
  "apply_event rx parse_iso st ie =
     (case event_body (event ie) of
        StateSnapshotHydrated s \<Rightarrow>
          (if last_event_applied_idx s \<noteq> idx ie then Inl AssertionError
           else Inr (sanitize_snapshot_downloads s))
      | body \<Rightarrow>
          (if last_event_applied_idx st \<noteq> idx ie - 1 then Inl AssertionError
           else case event_apply rx parse_iso body st of
                  Inl e \<Rightarrow> Inl e
                | Inr new_state \<Rightarrow> Inr (new_state\<lparr>last_event_applied_idx := idx ie\<rparr>)))"

end
