(* ===== verification/Replay.thy ===== *)
theory Replay
  imports Prelude
begin

text \<open>
  The interface of an event-sourced state: a step function that rejects an event out of order, an
  index of the last applied event, an invariant every step keeps, and a hydration event that
  installs a copied state.  The client facts are what the nodes of a cluster rely on: replaying a
  log is compositional, a log that replays is dense, and a node that starts from a hydrated copy
  and applies the rest of the log agrees with one that applied the whole log.
\<close>

fun replay :: "('s \<Rightarrow> 'e \<Rightarrow> 'x + 's) \<Rightarrow> 's \<Rightarrow> 'e list \<Rightarrow> 'x + 's" where
  "replay step s [] = Inr s"
| "replay step s (e # es) = (case step s e of Inl x \<Rightarrow> Inl x | Inr s' \<Rightarrow> replay step s' es)"

lemma replay_append:
  "replay step s (es @ fs) = (case replay step s es of Inl x \<Rightarrow> Inl x | Inr s' \<Rightarrow> replay step s' fs)"
  by (induction es arbitrary: s) (auto split: sum.splits)

text \<open>An invariant that every accepted step keeps holds after every successful replay.\<close>

lemma replay_invariant:
  assumes "\<And>s e s'. P s \<Longrightarrow> e \<in> set es \<Longrightarrow> step s e = Inr s' \<Longrightarrow> P s'"
  shows "P s \<Longrightarrow> replay step s es = Inr s' \<Longrightarrow> P s'"
  using assms
proof (induction es arbitrary: s)
  case (Cons e es)
  obtain s1 where s1: "step s e = Inr s1" "replay step s1 es = Inr s'"
    using Cons.prems(2) by (auto split: sum.splits)
  have "P s1" by (rule Cons.prems(3) [OF Cons.prems(1) _ s1(1)]) simp
  then show ?case by (rule Cons.IH [OF _ s1(2)]) (use Cons.prems(3) in auto)
qed simp

text \<open>The same where each event is admissible only in the state it reaches.\<close>

fun admissible :: "('s \<Rightarrow> 'e \<Rightarrow> 'x + 's) \<Rightarrow> ('s \<Rightarrow> 'e \<Rightarrow> bool) \<Rightarrow> 's \<Rightarrow> 'e list \<Rightarrow> bool" where
  "admissible step ok s [] \<longleftrightarrow> True"
| "admissible step ok s (e # es) \<longleftrightarrow>
     ok s e \<and> (case step s e of Inl _ \<Rightarrow> True | Inr s' \<Rightarrow> admissible step ok s' es)"

lemma replay_invariant_admissible:
  assumes "\<And>s e s'. P s \<Longrightarrow> ok s e \<Longrightarrow> step s e = Inr s' \<Longrightarrow> P s'"
  shows "P s \<Longrightarrow> admissible step ok s es \<Longrightarrow> replay step s es = Inr s' \<Longrightarrow> P s'"
proof (induction es arbitrary: s)
  case (Cons e es)
  then show ?case using assms by (auto split: sum.splits)
qed simp

locale event_machine =
  fixes step :: "'s \<Rightarrow> 'e \<Rightarrow> 'x + 's"
    and position :: "'s \<Rightarrow> int"
    and event_position :: "'e \<Rightarrow> int"
    and durable :: "'s \<Rightarrow> bool"
    and is_hydration :: "'e \<Rightarrow> bool"
    and hydrate :: "'s \<Rightarrow> 'e"
  assumes step_position: "step s e = Inr s' \<Longrightarrow> position s' = event_position e"
    and step_order: "step s e = Inr s' \<Longrightarrow> \<not> is_hydration e \<Longrightarrow> position s = event_position e - 1"
    and step_durable: "durable s \<Longrightarrow> step s e = Inr s' \<Longrightarrow> durable s'"
    and step_hydrate: "durable s \<Longrightarrow> step old (hydrate s) = Inr s"
begin

lemma replay_durable: "durable s \<Longrightarrow> replay step s es = Inr s' \<Longrightarrow> durable s'"
  by (rule replay_invariant [where P = durable]) (auto dest: step_durable)

lemma replay_dense:
  "replay step s es = Inr s' \<Longrightarrow> (\<forall>e \<in> set es. \<not> is_hydration e) \<Longrightarrow>
     map event_position es = [position s + 1 .. position s + int (length es)] \<and>
     position s' = position s + int (length es)"
proof (induction es arbitrary: s)
  case (Cons e es)
  then obtain s1 where s1: "step s e = Inr s1" "replay step s1 es = Inr s'"
    by (auto split: sum.splits)
  then have "position s1 = event_position e" "position s = event_position e - 1"
    using step_position step_order Cons.prems(2) by auto
  then have "event_position e = position s + 1" "position s1 = position s + 1" by auto
  with Cons.IH [OF s1(2)] Cons.prems(2) show ?case
    using upto_rec1 [of "position s + 1" "position s + 1 + int (length es)"] by (simp add: algebra_simps)
qed simp

lemma stale_event_rejected:
  "event_position e \<noteq> position s + 1 \<Longrightarrow> \<not> is_hydration e \<Longrightarrow> \<exists>x. step s e = Inl x"
  using step_order [of s e] by (cases "step s e") auto

lemma bootstrap_agrees:
  assumes "durable s0" and "replay step s0 log = Inr s"
  shows "replay step old (hydrate s # tail) = replay step s0 (log @ tail)"
  using assms step_hydrate [OF replay_durable [OF assms]] by (simp add: replay_append)

end

end
