(* ===== verification/Apply_Invariants.thy ===== *)
theory Apply_Invariants
  imports Apply Replay
begin

text \<open>
  Correctness of the event reducer: what every event keeps of the state, what the reducer does to
  downloads, instances, members and the topology, and the agreement of nodes that replay the log
  with nodes that start from a snapshot.
\<close>

section \<open>Durable downloads and replay\<close>

text \<open>The replicated download table holds terminal outcomes only, and no empty entry.\<close>

definition downloads_durable :: "'g state \<Rightarrow> bool" where
  "downloads_durable st = list_all (\<lambda>(n, ps). ps \<noteq> [] \<and> list_all is_terminal ps) (downloads st)"

lemma downloads_durable_iff:
  "downloads_durable st \<longleftrightarrow> (\<forall>(n, ps) \<in> set (downloads st). ps \<noteq> [] \<and> (\<forall>p \<in> set ps. is_terminal p))"
  by (auto simp: downloads_durable_def list_all_iff)

lemma sanitize_durable: "downloads_durable (sanitize_snapshot_downloads st)"
  by (auto simp: downloads_durable_iff sanitize_snapshot_downloads_def dict_filter_def dict_map_def)

lemma sanitize_id:
  assumes "downloads_durable st"
  shows "sanitize_snapshot_downloads st = st"
proof -
  have "dict_map (filter is_terminal) (downloads st) = downloads st"
    using assms by (auto simp: downloads_durable_iff dict_map_def intro!: map_idI)
  moreover have "dict_filter (\<lambda>n ps. ps \<noteq> []) (downloads st) = downloads st"
    using assms by (intro dict_filter_True) (auto simp: downloads_durable_iff)
  ultimately show ?thesis by (simp add: sanitize_snapshot_downloads_def)
qed

lemma replace_download_terminal:
  "replace_download dp ps = Some qs \<Longrightarrow> set qs \<subseteq> insert dp (set ps) \<and> qs \<noteq> []"
  by (induction dp ps arbitrary: qs rule: replace_download.induct) (auto split: if_splits)

lemma durable_set:
  "downloads_durable st \<Longrightarrow> ps \<noteq> [] \<Longrightarrow> (\<forall>p \<in> set ps. is_terminal p) \<Longrightarrow>
     downloads_durable (st\<lparr>downloads := dict_set n ps (downloads st)\<rparr>)"
  using set_dict_set_subset [of n ps "downloads st"] by (auto simp: downloads_durable_iff)

lemma durable_filter:
  "downloads_durable st \<Longrightarrow> downloads_durable (st\<lparr>downloads := dict_filter P (downloads st)\<rparr>)"
  by (auto simp: downloads_durable_iff dict_filter_def)

lemma durable_current:
  "downloads_durable st \<Longrightarrow> dict_get (downloads st) n = Some ps \<Longrightarrow> p \<in> set ps \<Longrightarrow> is_terminal p"
  using map_of_SomeD [of "downloads st" n ps] by (auto simp: downloads_durable_iff)

lemma durable_download_progress:
  assumes "downloads_durable st"
  shows "downloads_durable (apply_node_download_progress dp st)"
proof (cases dp)
  case DownloadPending
  then show ?thesis using assms durable_current [OF assms]
    by (auto simp: apply_node_download_progress_def Let_def dict_pop_filter
        intro!: durable_set durable_filter split: option.splits)
next
  case DownloadOngoing
  then show ?thesis using assms by (simp add: apply_node_download_progress_def Let_def)
next
  case DownloadCompleted
  then show ?thesis using assms durable_current [OF assms] replace_download_terminal [of dp]
    by (auto simp: apply_node_download_progress_def Let_def intro!: durable_set
        split: option.splits) fastforce+
next
  case DownloadFailed
  then show ?thesis using assms durable_current [OF assms] replace_download_terminal [of dp]
    by (auto simp: apply_node_download_progress_def Let_def intro!: durable_set
        split: option.splits) fastforce+
qed

lemma durable_staged_evicted:
  "downloads_durable st \<Longrightarrow> downloads_durable (apply_staged_model_evicted m st)"
  by (auto simp: apply_staged_model_evicted_def downloads_durable_iff Let_def dict_filter_def dict_map_def)

lemma durable_cong: "downloads st' = downloads st \<Longrightarrow> downloads_durable st' = downloads_durable st"
  by (simp add: downloads_durable_def)

text \<open>Handlers other than the download reducers leave the table alone, except that a timed-out
  node loses its entry.\<close>

lemma downloads_unchanged [simp]:
  "downloads (apply_instance_failure_recorded f st) = downloads st"
  "downloads (apply_task_created tid t st) = downloads st"
  "downloads (apply_task_deleted tid st) = downloads st"
  "downloads (apply_task_status_updated tid s st) = downloads st"
  "downloads (apply_task_failed tid ty msg st) = downloads st"
  "downloads (apply_instance_created i st) = downloads st"
  "downloads (apply_instance_deleted iid st) = downloads st"
  "downloads (apply_runner_status_updated rid rs st) = downloads st"
  "downloads (apply_topology_edge_created rx c st) = downloads st"
  "downloads (apply_topology_edge_deleted rx c st) = downloads st"
  "downloads (apply_model_trust_approval_changed identity a st) = downloads st"
  "downloads (apply_steward_action_proposal_changed p st) = downloads st"
  by (simp_all add: apply_instance_failure_recorded_def apply_task_created_def apply_task_deleted_def
      apply_task_status_updated_def apply_task_failed_def apply_instance_created_def
      apply_instance_deleted_def apply_runner_status_updated_def apply_topology_edge_created_def
      apply_topology_edge_deleted_def apply_model_trust_approval_changed_def
      apply_steward_action_proposal_changed_def Let_def split: option.split)

lemma downloads_timed_out:
  "apply_node_timed_out rx n st = Inr st' \<Longrightarrow>
     downloads st' = dict_filter (\<lambda>key v. key \<noteq> n) (downloads st)"
  by (auto simp: apply_node_timed_out_def Let_def split: option.splits)

lemma downloads_gathered:
  "apply_node_gathered_info rx p n w info st = Inr st' \<Longrightarrow> downloads st' = downloads st"
  by (auto simp: apply_node_gathered_info_def Let_def
      split: option.splits gathered_info.splits if_splits)

lemma event_apply_durable:
  assumes "downloads_durable st" and "event_apply rx p b st = Inr st'"
  shows "downloads_durable st'"
proof (cases b)
  case (NodeTimedOut n _)
  then show ?thesis
    using assms durable_filter [OF assms(1)]
    by (auto dest!: downloads_timed_out simp: downloads_durable_def)
next
  case (NodeGatheredInfo n w info)
  then have "downloads st' = downloads st" using assms(2) downloads_gathered by simp
  then show ?thesis using assms(1) durable_cong by blast
qed (use assms in \<open>auto simp: sanitize_durable durable_download_progress durable_staged_evicted
       intro: durable_cong [of _ st, THEN iffD2]\<close>)

fun is_snapshot :: "'g event_body \<Rightarrow> bool" where
  "is_snapshot (StateSnapshotHydrated _) = True"
| "is_snapshot _ = False"

definition hydration_event :: "event_id \<Rightarrow> 'g state \<Rightarrow> 'g indexed_event" where
  "hydration_event eid s = \<lparr>idx = last_event_applied_idx s,
     event = \<lparr>event_id = eid, event_body = StateSnapshotHydrated s\<rparr>\<rparr>"

lemma apply_event_snapshot:
  "event_body (event ie) = StateSnapshotHydrated s \<Longrightarrow> apply_event rx p st ie =
     (if last_event_applied_idx s \<noteq> idx ie then Inl AssertionError else Inr (sanitize_snapshot_downloads s))"
  by (simp add: apply_event_def)

lemma apply_event_ordinary:
  "\<not> is_snapshot (event_body (event ie)) \<Longrightarrow> apply_event rx p st ie =
     (if last_event_applied_idx st \<noteq> idx ie - 1 then Inl AssertionError
      else case event_apply rx p (event_body (event ie)) st of Inl e \<Rightarrow> Inl e
           | Inr new_state \<Rightarrow> Inr (new_state\<lparr>last_event_applied_idx := idx ie\<rparr>))"
  by (cases "event_body (event ie)") (simp_all add: apply_event_def)

lemma last_idx_sanitize [simp]: "last_event_applied_idx (sanitize_snapshot_downloads s) = last_event_applied_idx s"
  by (simp add: sanitize_snapshot_downloads_def)

lemma is_snapshotE:
  assumes "is_snapshot b" obtains s where "b = StateSnapshotHydrated s"
  using assms by (cases b) auto

text \<open>Case analysis of one accepted event: a snapshot, or an ordinary event in order.\<close>

lemma apply_event_cases:
  assumes "apply_event rx p st ie = Inr st'"
  obtains (snapshot) s where "event_body (event ie) = StateSnapshotHydrated s"
      "last_event_applied_idx s = idx ie" "st' = sanitize_snapshot_downloads s"
    | (ordinary) st1 where "\<not> is_snapshot (event_body (event ie))" "last_event_applied_idx st = idx ie - 1"
      "event_apply rx p (event_body (event ie)) st = Inr st1" "st' = st1\<lparr>last_event_applied_idx := idx ie\<rparr>"
proof (cases "is_snapshot (event_body (event ie))")
  case True
  then obtain s where "event_body (event ie) = StateSnapshotHydrated s" by (rule is_snapshotE)
  then show ?thesis using assms snapshot by (auto simp: apply_event_snapshot split: if_splits)
next
  case False
  then show ?thesis using assms ordinary by (auto simp: apply_event_ordinary split: if_splits sum.splits)
qed

interpretation reducer: event_machine "apply_event rx p" last_event_applied_idx idx downloads_durable
  "\<lambda>ie. is_snapshot (event_body (event ie))" "hydration_event eid"
  for rx :: "'g rx_ops" and p and eid
proof (unfold_locales, goal_cases)
  case (1 s e s')
  then show ?case by (auto elim!: apply_event_cases)
next
  case (2 s e s')
  then show ?case by (auto elim!: apply_event_cases)
next
  case (3 s e s')
  from 3(2) show ?case
  proof (cases rule: apply_event_cases)
    case (ordinary st1)
    then show ?thesis using event_apply_durable [OF 3(1) ordinary(3)] by (simp add: downloads_durable_def)
  qed (simp add: sanitize_durable)
next
  case (4 s old)
  then show ?case by (simp add: hydration_event_def apply_event_snapshot sanitize_id)
qed

lemma durable_empty: "downloads_durable (empty_state rx)"
  by (simp add: downloads_durable_def empty_state_def)


definition plain_event :: "int \<Rightarrow> 'g event_body \<Rightarrow> 'g indexed_event" where
  "plain_event i b = \<lparr>idx = i, event = \<lparr>event_id = ''e'', event_body = b\<rparr>\<rparr>"

definition example_shard :: shard_metadata where
  "example_shard = PipelineShardMetadata \<lparr>shard_card = example_card, device_rank = 0, world_size = 1,
     resolved_backend = None, resolved_engine_build = None, llama_server_settings = None,
     immediate_exception = False, should_timeout = None, start_layer = 0, end_layer = 8, n_layers = 8\<rparr>"

definition example_instance :: instance_t where
  "example_instance = MlxRingInstance \<lparr>bi_instance_id = ''i'',
     bi_shard_assignments = \<lparr>sa_model_id = ''m'', runner_to_shard = [(''r'', example_shard)],
       node_to_runner = [(''a'', ''r'')]\<rparr>,
     bi_context_token_limit = None, bi_excluded_nodes = [], bi_system_role = None,
     bi_requested_context_tokens = None\<rparr> [] 50000"

definition example_log :: "list_graph indexed_event list" where
  "example_log = [plain_event 0 (InstanceCreated example_instance),
     plain_event 1 (RunnerStatusUpdated ''r'' RunnerReady), plain_event 2 (ModelTrustApprovalChanged ''m'' True)]"

lemma example_log_replays: "\<exists>s. replay (apply_event list_rx p) (empty_state list_rx) example_log = Inr s"
  by (simp add: example_log_def plain_event_def apply_event_ordinary empty_state_def
      apply_instance_created_def apply_runner_status_updated_def apply_model_trust_approval_changed_def
      example_instance_def Let_def dict_set_def)

text \<open>
  C6. A node that joins late agrees with one that was there from the start.  If the log replays
  from the empty state to a state \<open>s\<close>, then a node in any state \<open>old\<close> that applies the snapshot
  event for \<open>s\<close> and then the rest of the log gets exactly the result, error or state, of
  replaying the whole log.
\<close>

theorem snapshot_bootstrap_agrees:
  assumes "replay (apply_event rx p) (empty_state rx) log = Inr s"
  shows "replay (apply_event rx p) old (hydration_event eid s # tail) =
         replay (apply_event rx p) (empty_state rx) (log @ tail)"
  using durable_empty assms by (rule reducer.bootstrap_agrees)

theorem snapshot_bootstrap_agrees_witness:
  "\<exists>s. replay (apply_event list_rx (\<lambda>_. None)) (empty_state list_rx) example_log = Inr s \<and>
     replay (apply_event list_rx (\<lambda>_. None)) (empty_state list_rx)
       [hydration_event ''e'' s, plain_event 3 (TracingStateChanged False)] =
     replay (apply_event list_rx (\<lambda>_. None)) (empty_state list_rx)
       (example_log @ [plain_event 3 (TracingStateChanged False)])"
proof -
  obtain s where s: "replay (apply_event list_rx (\<lambda>_. None)) (empty_state list_rx) example_log = Inr s"
    using example_log_replays by blast
  show ?thesis using s snapshot_bootstrap_agrees [OF s] by blast
qed

text \<open>The reducer accepts only a dense log.  A log without snapshot events that replays from a
  state has the consecutive indices that follow the state's index, and the resulting state carries
  the index of the last event; so a missing, repeated or reordered event is never applied.
\<close>

theorem replay_accepts_dense_logs_only:
  assumes "replay (apply_event rx p) st log = Inr st'"
    and "list_all (\<lambda>ie. \<not> is_snapshot (event_body (event ie))) log"
  shows "map idx log = [last_event_applied_idx st + 1 .. last_event_applied_idx st + int (length log)] \<and>
         last_event_applied_idx st' = last_event_applied_idx st + int (length log)"
  using reducer.replay_dense [OF assms(1)] assms(2) by (simp add: list_all_iff)

theorem replay_accepts_dense_logs_only_witness:
  "map idx example_log = [0 .. 2]"
proof -
  obtain s where s: "replay (apply_event list_rx (\<lambda>_. None)) (empty_state list_rx) example_log = Inr s"
    using example_log_replays by blast
  have "list_all (\<lambda>ie. \<not> is_snapshot (event_body (event ie))) example_log"
    by (simp add: example_log_def plain_event_def)
  from replay_accepts_dense_logs_only [OF s this] show ?thesis
    by (simp add: example_log_def empty_state_def)
qed

section \<open>Well-formed replicated state\<close>

text \<open>A runner record belongs to a live instance.\<close>

definition runners_owned :: "'g state \<Rightarrow> bool" where
  "runners_owned st = list_all (\<lambda>rid. list_ex (\<lambda>inst. dict_has (runner_to_shard (inst_shards inst)) rid)
     (dict_values (instances st))) (dict_keys (runners st))"

definition instances_keyed :: "'g state \<Rightarrow> bool" where
  "instances_keyed st = (dict_wf (instances st) \<and> list_all (\<lambda>(iid, inst). inst_id inst = iid) (instances st))"

definition failures_bounded :: "'g state \<Rightarrow> bool" where
  "failures_bounded st \<longleftrightarrow> length (instance_failures st) \<le> INSTANCE_FAILURE_HISTORY_LIMIT \<and>
     distinct (map if_instance_id (instance_failures st))"

definition approvals_canonical :: "'g state \<Rightarrow> bool" where
  "approvals_canonical st \<longleftrightarrow> sorted (model_trust_approved_remote_code_identities st) \<and>
     distinct (model_trust_approved_remote_code_identities st)"

definition state_ok :: "'g state \<Rightarrow> bool" where
  "state_ok st \<longleftrightarrow> downloads_durable st \<and> runners_owned st \<and> instances_keyed st \<and>
     failures_bounded st \<and> approvals_canonical st"

text \<open>What the emitters of events promise: a snapshot is a well-formed state, and a created
  instance has a new identity.\<close>

fun event_ok :: "'g state \<Rightarrow> 'g event_body \<Rightarrow> bool" where
  "event_ok st (StateSnapshotHydrated s) = state_ok s"
| "event_ok st (InstanceCreated inst) = (\<not> dict_has (instances st) (inst_id inst))"
| "event_ok st _ = True"

lemma runners_owned_iff:
  "runners_owned st \<longleftrightarrow> (\<forall>rid \<in> set (dict_keys (runners st)).
     \<exists>inst \<in> set (dict_values (instances st)). dict_has (runner_to_shard (inst_shards inst)) rid)"
  by (simp only: runners_owned_def list_all_iff list_ex_iff)

lemma runners_owned_cong:
  "runners st' = runners st \<Longrightarrow> instances st' = instances st \<Longrightarrow> runners_owned st' = runners_owned st"
  by (simp add: runners_owned_def)

lemma dict_values_set_fresh: "\<not> dict_has d k \<Longrightarrow> dict_set k v d = d @ [(k, v)]"
  by (induction d) (auto simp: dict_set_def dict_has_def split: if_splits)

lemma owned_created:
  "runners_owned st \<Longrightarrow> \<not> dict_has (instances st) (inst_id inst) \<Longrightarrow>
     runners_owned (apply_instance_created inst st)"
  by (auto simp: apply_instance_created_def runners_owned_iff dict_values_set_fresh)

lemma owned_status:
  "runners_owned st \<Longrightarrow> runners_owned (apply_runner_status_updated rid rs st)"
  by (auto simp: apply_runner_status_updated_def runners_owned_def list_all_iff dict_filter_def
      dest!: subsetD [OF set_dict_set_subset])

text \<open>Dropping a set of instances together with all their runners leaves no orphan.\<close>

lemma owned_drop:
  assumes "runners_owned st" and "dict_wf (instances st)"
    and "\<And>iid inst rid. dict_get (instances st) iid = Some inst \<Longrightarrow> iid \<in> D \<Longrightarrow>
           dict_has (runner_to_shard (inst_shards inst)) rid \<Longrightarrow> rid \<in> R"
    and "instances st' = dict_filter (\<lambda>iid inst. iid \<notin> D) (instances st)"
    and "runners st' = dict_filter (\<lambda>rid rs. rid \<notin> R) (runners st)"
  shows "runners_owned st'"
  unfolding runners_owned_iff
proof
  fix rid assume "rid \<in> set (dict_keys (runners st'))"
  then have rid: "rid \<in> set (dict_keys (runners st))" "rid \<notin> R"
    unfolding assms(5) by (auto simp: dict_filter_def)
  then obtain iid inst where i: "(iid, inst) \<in> set (instances st)"
      "dict_has (runner_to_shard (inst_shards inst)) rid"
    using assms(1) by (auto simp: runners_owned_iff)
  moreover have "iid \<notin> D"
    using assms(2,3) i rid(2) by (auto simp: dict_wf_def)
  ultimately show "\<exists>inst \<in> set (dict_values (instances st')). dict_has (runner_to_shard (inst_shards inst)) rid"
    unfolding assms(4) by (force simp: dict_filter_def)
qed

lemma owned_deleted:
  assumes "runners_owned st" and "dict_wf (instances st)"
  shows "runners_owned (apply_instance_deleted iid st)"
proof (cases "dict_get (instances st) iid")
  case None
  then have "iid' \<noteq> iid" if "(iid', inst) \<in> set (instances st)" for iid' inst
    using that by (force simp: map_of_eq_None_iff)
  then have "instances (apply_instance_deleted iid st) = instances st"
    using None by (auto simp: apply_instance_deleted_def intro!: dict_filter_True)
  then show ?thesis
    using assms(1) None by (simp add: apply_instance_deleted_def runners_owned_def)
next
  case (Some inst)
  let ?R = "set (dict_keys (runner_to_shard (inst_shards inst)))"
  show ?thesis
  proof (rule owned_drop [OF assms, where D = "{iid}" and R = ?R])
    show "runners (apply_instance_deleted iid st) = dict_filter (\<lambda>rid rs. rid \<notin> ?R) (runners st)"
      using Some by (auto simp: apply_instance_deleted_def Let_def dict_filter_def)
  qed (use Some in \<open>auto simp: apply_instance_deleted_def Let_def dict_has_iff_keys\<close>)
qed

lemma owned_timed_out:
  assumes "runners_owned st" and "dict_wf (instances st)" and "apply_node_timed_out rx n st = Inr st'"
  shows "runners_owned st'"
proof -
  let ?affected = "dict_filter (\<lambda>iid inst. dict_has (node_to_runner (inst_shards inst)) n) (instances st)"
  let ?R = "set (concat (map (\<lambda>inst. dict_keys (runner_to_shard (inst_shards inst))) (dict_values ?affected)))"
  have fields: "instances st' = dict_filter (\<lambda>iid inst. iid \<notin> set (dict_keys ?affected)) (instances st)"
      "runners st' = dict_filter (\<lambda>rid rs. rid \<notin> ?R) (runners st)"
    using assms(3) by (auto simp: apply_node_timed_out_def Let_def split: option.splits)
  show ?thesis
  proof (rule owned_drop [OF assms(1,2) _ fields])
    fix iid inst rid
    assume "dict_get (instances st) iid = Some inst" "iid \<in> set (dict_keys ?affected)"
      "dict_has (runner_to_shard (inst_shards inst)) rid"
    moreover from this have "inst \<in> set (dict_values ?affected)"
      using assms(2)
      by (auto simp: dict_filter_def dict_wf_def intro!: rev_image_eqI dest: eq_key_imp_eq_value)
    ultimately show "rid \<in> ?R" by (auto simp: dict_has_iff_keys)
  qed
qed


text \<open>Fields a handler does not touch.\<close>

lemma runners_instances_unchanged [simp]:
  "runners (apply_node_download_progress dp st) = runners st"
  "instances (apply_node_download_progress dp st) = instances st"
  "runners (apply_staged_model_evicted m st) = runners st"
  "instances (apply_staged_model_evicted m st) = instances st"
  "runners (apply_instance_failure_recorded f st) = runners st"
  "instances (apply_instance_failure_recorded f st) = instances st"
  "runners (apply_task_status_updated tid s st) = runners st"
  "instances (apply_task_status_updated tid s st) = instances st"
  "runners (apply_task_failed tid ty msg st) = runners st"
  "instances (apply_task_failed tid ty msg st) = instances st"
  "runners (apply_model_trust_approval_changed identity a st) = runners st"
  "instances (apply_model_trust_approval_changed identity a st) = instances st"
  "runners (apply_steward_action_proposal_changed q st) = runners st"
  "instances (apply_steward_action_proposal_changed q st) = instances st"
  "runners (sanitize_snapshot_downloads st) = runners st"
  "instances (sanitize_snapshot_downloads st) = instances st"
  by (simp_all add: apply_node_download_progress_def apply_staged_model_evicted_def
      apply_instance_failure_recorded_def apply_task_status_updated_def apply_task_failed_def
      apply_model_trust_approval_changed_def apply_steward_action_proposal_changed_def
      sanitize_snapshot_downloads_def Let_def split: option.split download_progress.split)

lemma runners_instances_gathered:
  "apply_node_gathered_info rx p n w info st = Inr st' \<Longrightarrow>
     runners st' = runners st \<and> instances st' = instances st \<and>
     instance_failures st' = instance_failures st \<and>
     model_trust_approved_remote_code_identities st' = model_trust_approved_remote_code_identities st"
  by (auto simp: apply_node_gathered_info_def Let_def
      split: option.splits gathered_info.splits if_splits)

lemmas handler_defs = apply_instance_failure_recorded_def apply_task_created_def apply_task_deleted_def
  apply_task_status_updated_def apply_task_failed_def apply_instance_created_def
  apply_instance_deleted_def apply_runner_status_updated_def apply_topology_edge_created_def
  apply_topology_edge_deleted_def apply_model_trust_approval_changed_def
  apply_steward_action_proposal_changed_def apply_node_download_progress_def
  apply_staged_model_evicted_def sanitize_snapshot_downloads_def

lemma owned_event:
  assumes "runners_owned st" "dict_wf (instances st)" "event_ok st b" "event_apply rx p b st = Inr st'"
  shows "runners_owned st'"
proof (cases b)
  case (StateSnapshotHydrated s)
  then show ?thesis using assms(3,4) by (auto simp: runners_owned_def state_ok_def)
next
  case (NodeGatheredInfo n w info)
  then show ?thesis
    using assms(1,4) runners_instances_gathered [of rx p n w info st st'] by (simp add: runners_owned_def)
qed (use assms in \<open>auto simp: owned_created owned_status owned_deleted owned_timed_out
       apply_task_created_def apply_task_deleted_def
       apply_topology_edge_created_def apply_topology_edge_deleted_def
       intro: runners_owned_cong [of _ st, THEN iffD2]\<close>)

lemma keyed_filter:
  "instances_keyed st \<Longrightarrow> instances st' = dict_filter P (instances st) \<Longrightarrow> instances_keyed st'"
  by (auto simp: instances_keyed_def dict_filter_def list_all_iff dict_wf_def distinct_map_filter)

lemma instances_timed_out:
  "apply_node_timed_out rx n st = Inr st' \<Longrightarrow> \<exists>P. instances st' = dict_filter P (instances st)"
  by (auto simp: apply_node_timed_out_def Let_def split: option.splits)

lemma instances_deleted:
  "instances (apply_instance_deleted iid st) = dict_filter (\<lambda>iid' inst. iid' \<noteq> iid) (instances st)"
  by (simp add: apply_instance_deleted_def Let_def split: option.split)

lemma keyed_created: "instances_keyed st \<Longrightarrow> instances_keyed (apply_instance_created inst st)"
  by (auto simp: instances_keyed_def apply_instance_created_def list_all_iff
      dest!: subsetD [OF set_dict_set_subset])

lemma keyed_event:
  assumes "instances_keyed st" "event_ok st b" "event_apply rx p b st = Inr st'"
  shows "instances_keyed st'"
proof (cases b)
  case (NodeTimedOut n x)
  then show ?thesis using assms(3) instances_timed_out [of rx n st st'] keyed_filter [OF assms(1)] by auto
next
  case (NodeGatheredInfo n w info)
  then show ?thesis
    using assms runners_instances_gathered [of rx p n w info st st'] by (simp add: instances_keyed_def)
next
  case (InstanceDeleted iid)
  then show ?thesis using assms keyed_filter [OF assms(1) instances_deleted] by auto
next
  case (InstanceCreated inst)
  then show ?thesis using assms keyed_created by auto
qed (use assms in \<open>auto simp: instances_keyed_def state_ok_def apply_task_created_def apply_task_deleted_def
       apply_topology_edge_created_def apply_topology_edge_deleted_def apply_runner_status_updated_def\<close>)

lemma failures_recorded: "failures_bounded st \<Longrightarrow> failures_bounded (apply_instance_failure_recorded f st)"
proof -
  assume "failures_bounded st"
  moreover define kept where "kept = filter (\<lambda>g. if_instance_id g \<noteq> if_instance_id f) (instance_failures st)"
  ultimately have "distinct (map if_instance_id (f # kept))"
    by (auto simp: failures_bounded_def distinct_map_filter)
  then have "distinct (take 64 (map if_instance_id (f # kept)))" by (rule distinct_take)
  then show ?thesis
    by (simp add: failures_bounded_def apply_instance_failure_recorded_def kept_def take_map
        INSTANCE_FAILURE_HISTORY_LIMIT_def)
qed

lemma approvals_changed: "approvals_canonical (apply_model_trust_approval_changed identity a st)"
  by (simp add: approvals_canonical_def apply_model_trust_approval_changed_def Let_def)

lemma history_timed_out:
  "apply_node_timed_out rx n st = Inr st' \<Longrightarrow>
     instance_failures st' = instance_failures st \<and>
     model_trust_approved_remote_code_identities st' = model_trust_approved_remote_code_identities st"
  by (auto simp: apply_node_timed_out_def Let_def split: option.splits)

lemma history_event:
  assumes "failures_bounded st" "approvals_canonical st" "event_ok st b" "event_apply rx p b st = Inr st'"
  shows "failures_bounded st' \<and> approvals_canonical st'"
proof (cases b)
  case (NodeTimedOut n x)
  then show ?thesis
    using assms history_timed_out [of rx n st st'] by (simp add: failures_bounded_def approvals_canonical_def)
next
  case (NodeGatheredInfo n w info)
  then show ?thesis
    using assms runners_instances_gathered [of rx p n w info st st']
    by (simp add: failures_bounded_def approvals_canonical_def)
next
  case (InstanceFailureRecorded f)
  then show ?thesis
    using assms failures_recorded by (auto simp: approvals_canonical_def apply_instance_failure_recorded_def Let_def)
next
  case (ModelTrustApprovalChanged i a)
  then show ?thesis
    using assms approvals_changed
    by (auto simp: failures_bounded_def apply_model_trust_approval_changed_def Let_def)
qed (use assms in \<open>auto simp: failures_bounded_def approvals_canonical_def state_ok_def handler_defs Let_def
       split: option.split download_progress.split\<close>)

lemma state_ok_event:
  assumes "state_ok st" "event_ok st b" "event_apply rx p b st = Inr st'"
  shows "state_ok st'"
  using assms event_apply_durable owned_event keyed_event history_event
  unfolding state_ok_def instances_keyed_def by metis

lemma state_ok_index [simp]: "state_ok (st\<lparr>last_event_applied_idx := i\<rparr>) = state_ok st"
  by (simp add: state_ok_def downloads_durable_def runners_owned_def instances_keyed_def
      failures_bounded_def approvals_canonical_def)

lemma state_ok_step:
  assumes "state_ok st" "event_ok st (event_body (event ie))" "apply_event rx p st ie = Inr st'"
  shows "state_ok st'"
  using assms(3)
proof (cases rule: apply_event_cases)
  case (snapshot s)
  then show ?thesis using assms(2) sanitize_id [of s] by (simp add: state_ok_def)
next
  case (ordinary st1)
  then show ?thesis using state_ok_event [OF assms(1,2) ordinary(3)] by simp
qed

lemma state_ok_empty: "state_ok (empty_state rx)"
  by (simp add: state_ok_def downloads_durable_def runners_owned_def instances_keyed_def
      failures_bounded_def approvals_canonical_def empty_state_def INSTANCE_FAILURE_HISTORY_LIMIT_def)

text \<open>
  C7. The replicated state stays well formed.  In every state that a log reaches from the empty
  state, provided a created instance has a new identity and an installed snapshot is itself well
  formed: every runner record belongs to a live instance (no runner record is ever leaked), an
  instance is stored once and under its own identity, the download table holds terminal outcomes
  only, the failure history has at most 64 entries with one per instance, and the trust approvals
  are sorted without duplicates.
\<close>

theorem replicated_state_wellformed:
  assumes "admissible (apply_event rx p) (\<lambda>st ie. event_ok st (event_body (event ie))) (empty_state rx) log"
    and "replay (apply_event rx p) (empty_state rx) log = Inr st"
  shows "runners_owned st \<and> instances_keyed st \<and> downloads_durable st \<and> failures_bounded st \<and>
         approvals_canonical st"
proof -
  have "state_ok st"
    by (rule replay_invariant_admissible [where P = state_ok, OF _ state_ok_empty assms]) (rule state_ok_step)
  then show ?thesis by (simp add: state_ok_def)
qed

theorem replicated_state_wellformed_witness:
  "\<exists>st. replay (apply_event list_rx (\<lambda>_. None)) (empty_state list_rx) example_log = Inr st \<and>
     runners_owned st \<and> instances_keyed st \<and> downloads_durable st \<and> failures_bounded st \<and>
     approvals_canonical st"
proof -
  obtain s where s: "replay (apply_event list_rx (\<lambda>_. None)) (empty_state list_rx) example_log = Inr s"
    using example_log_replays by blast
  have "admissible (apply_event list_rx (\<lambda>_. None)) (\<lambda>st ie. event_ok st (event_body (event ie)))
          (empty_state list_rx) example_log"
    by (simp add: example_log_def plain_event_def empty_state_def dict_has_def split: sum.split)
  from replicated_state_wellformed [OF this s] s show ?thesis by blast
qed

end
