(* ===== verification/Apply_Behaviour.thy ===== *)
theory Apply_Behaviour
  imports Apply_Invariants
begin

text \<open>
  What single events do: the download table as a map from node and model to an outcome, the
  purge of a timed-out node, the removal of nodes that never became members, the retention of
  steward proposals, and the effect of events that are kept out of the log.
\<close>

section \<open>Downloads as a map\<close>

definition download_of :: "'g state \<Rightarrow> node_id \<Rightarrow> model_id \<Rightarrow> download_progress option" where
  "download_of st n m = find (\<lambda>dp. dp_model_id dp = m)
     (case dict_get (downloads st) n of None \<Rightarrow> [] | Some ps \<Rightarrow> ps)"

lemma find_replace_download:
  "replace_download dp ps = Some qs \<Longrightarrow>
     find (\<lambda>x. dp_model_id x = m) qs =
       (if m = dp_model_id dp then Some dp else find (\<lambda>x. dp_model_id x = m) ps)"
  by (induction dp ps arbitrary: qs rule: replace_download.induct) (auto split: if_splits)

lemma replace_download_None:
  "replace_download dp ps = None \<Longrightarrow> find (\<lambda>x. dp_model_id x = dp_model_id dp) ps = None"
  by (induction dp ps rule: replace_download.induct) (auto split: if_splits)

lemma find_append: "find P (xs @ ys) = (case find P xs of None \<Rightarrow> find P ys | Some x \<Rightarrow> Some x)"
  by (induction xs) auto

lemma find_filter_model:
  "find (\<lambda>x. dp_model_id x = m) (filter (\<lambda>x. dp_model_id x \<noteq> m') ps) =
     (if m = m' then None else find (\<lambda>x. dp_model_id x = m) ps)"
  by (induction ps) auto

lemma filter_length_eq: "length (filter P xs) = length xs \<longleftrightarrow> filter P xs = xs"
  by (metis filter_id_conv length_filter_less order_less_irrefl)

lemma download_terminal:
  assumes "is_terminal dp"
  shows "download_of (apply_node_download_progress dp st) n m =
     (if n = dp_node_id (dp_base dp) \<and> m = dp_model_id dp then Some dp else download_of st n m)"
proof -
  define current where "current = (case dict_get (downloads st) (dp_node_id (dp_base dp)) of None \<Rightarrow> [] | Some ps \<Rightarrow> ps)"
  define new where "new = (case replace_download dp current of Some qs \<Rightarrow> qs | None \<Rightarrow> current @ [dp])"
  have "apply_node_download_progress dp st = st\<lparr>downloads := dict_set (dp_node_id (dp_base dp)) new (downloads st)\<rparr>"
    using assms unfolding new_def current_def
    by (cases dp) (auto simp: apply_node_download_progress_def Let_def split: option.split)
  moreover have "find (\<lambda>x. dp_model_id x = m) new =
      (if m = dp_model_id dp then Some dp else find (\<lambda>x. dp_model_id x = m) current)"
    using replace_download_None [of dp current] find_replace_download [of dp current new m]
    by (cases "replace_download dp current") (auto simp: new_def find_append split: option.splits)
  ultimately show ?thesis by (auto simp: download_of_def current_def)
qed

lemma download_pending:
  "download_of (apply_node_download_progress (DownloadPending b x y) st) n m =
     (if n = dp_node_id b \<and> m = dp_model_id (DownloadPending b x y) then None else download_of st n m)"
proof -
  let ?dp = "DownloadPending b x y"
  define current where "current = (case dict_get (downloads st) (dp_node_id b) of None \<Rightarrow> [] | Some ps \<Rightarrow> ps)"
  define kept where "kept = filter (\<lambda>e. dp_model_id e \<noteq> dp_model_id ?dp) current"
  have same: "download_of st (dp_node_id b) m = find (\<lambda>x. dp_model_id x = m) current"
    by (simp add: download_of_def current_def)
  have kept_find: "find (\<lambda>x. dp_model_id x = m) kept =
      (if m = dp_model_id ?dp then None else find (\<lambda>x. dp_model_id x = m) current)"
    by (simp add: kept_def find_filter_model)
  have app: "apply_node_download_progress ?dp st =
      (if length kept = length current then st
       else if kept \<noteq> [] then st\<lparr>downloads := dict_set (dp_node_id b) kept (downloads st)\<rparr>
       else st\<lparr>downloads := dict_pop (dp_node_id b) (downloads st)\<rparr>)"
    by (simp add: apply_node_download_progress_def Let_def kept_def current_def)
  show ?thesis
  proof (cases "n = dp_node_id b")
    case True
    have "kept = current" if "length kept = length current"
      using that unfolding kept_def by (simp only: filter_length_eq)
    then show ?thesis
      using True same kept_find by (auto simp: app download_of_def)
  qed (auto simp: app download_of_def)
qed

lemma download_evicted:
  assumes "dict_wf (downloads st)"
  shows "download_of (apply_staged_model_evicted m' st) n m = (if m = m' then None else download_of st n m)"
proof -
  define keep where "keep = filter (\<lambda>dp. dp_model_id dp \<noteq> m')"
  have find_keep: "find (\<lambda>x. dp_model_id x = k) (keep ps) =
      (if k = m' then None else find (\<lambda>x. dp_model_id x = k) ps)" for ps k
    by (simp add: keep_def find_filter_model)
  define removed where "removed = list_ex (\<lambda>(n, ps). length (keep ps) \<noteq> length ps) (downloads st)"
  have app: "apply_staged_model_evicted m' st = (if \<not> removed then st else
      st\<lparr>downloads := dict_filter (\<lambda>n kept. kept \<noteq> []) (dict_map keep (downloads st))\<rparr>)"
    by (simp add: apply_staged_model_evicted_def Let_def removed_def keep_def)
  show ?thesis
  proof (cases removed)
    case True
    have "dict_get (dict_filter (\<lambda>n kept. kept \<noteq> []) (dict_map keep (downloads st))) n =
        (case dict_get (downloads st) n of None \<Rightarrow> None | Some ps \<Rightarrow> if keep ps = [] then None else Some (keep ps))"
      using assms by (subst dict_get_filter) (auto split: option.split)
    then have "download_of (apply_staged_model_evicted m' st) n m =
        find (\<lambda>x. dp_model_id x = m) (case dict_get (downloads st) n of None \<Rightarrow> [] | Some ps \<Rightarrow> keep ps)"
      using True by (simp add: app download_of_def split: option.split)
    then show ?thesis
      by (simp add: download_of_def find_keep split: option.split)
  next
    case False
    have "keep ps = ps" if "dict_get (downloads st) n = Some ps" for ps
      using False map_of_SomeD [OF that] unfolding removed_def keep_def
      by (auto simp: list_ex_iff filter_length_eq)
    then show ?thesis
      using False find_keep by (simp add: app download_of_def split: option.split) metis
  qed
qed

definition example_download :: download_progress where
  "example_download = DownloadFailed \<lparr>dp_node_id = ''a'', dp_shard_metadata = example_shard,
     dp_model_directory = ''/models/m'', dp_attempt_id = None\<rparr> ''disk full''"

text \<open>
  The download table is a map from node and model to the last durable outcome.  A completed or
  failed download overwrites exactly its own entry; a pending one (a reset) clears exactly its own
  entry; an in-flight report changes nothing; evicting a model from the store clears its entry on
  every node and no other.
\<close>

theorem download_table_refines_map:
  assumes "dict_wf (downloads st)"
  shows "(is_terminal dp \<longrightarrow> download_of (apply_node_download_progress dp st) n m =
           (if n = dp_node_id (dp_base dp) \<and> m = dp_model_id dp then Some dp else download_of st n m)) \<and>
         download_of (apply_node_download_progress (DownloadPending b x y) st) n m =
           (if n = dp_node_id b \<and> m = dp_model_id (DownloadPending b x y) then None else download_of st n m) \<and>
         apply_node_download_progress (DownloadOngoing b q) st = st \<and>
         download_of (apply_staged_model_evicted m' st) n m = (if m = m' then None else download_of st n m)"
  using assms by (simp add: download_terminal download_pending download_evicted
      apply_node_download_progress_def [of "DownloadOngoing b q"] Let_def)

theorem download_table_refines_map_witness:
  "download_of (apply_node_download_progress example_download (empty_state list_rx)) ''a'' ''m'' =
     Some example_download"
  using download_table_refines_map [of "empty_state list_rx" example_download "''a''" "''m''"]
  by (simp add: example_download_def empty_state_def dp_model_id_def shard_model_id_def example_shard_def
      example_card_def)

section \<open>A node times out\<close>

lemma thunderbolt_edges_total:
  "(\<And>s k addr ses. (s, k, SocketConnection addr ses) \<in> set es \<Longrightarrow> ip_address addr \<noteq> None) \<Longrightarrow>
     thunderbolt_edges ips index es \<noteq> None"
proof (induction es)
  case (Cons x es)
  obtain source sink e where x: "x = (source, sink, e)" by (cases x)
  have rest: "thunderbolt_edges ips index es \<noteq> None"
    by (rule Cons.IH, erule Cons.prems [OF list.set_intros(2)])
  have "ip_address addr \<noteq> None" if "e = SocketConnection addr ses" for addr ses
    using Cons.prems [of source sink addr ses] that x by simp
  with rest show ?case unfolding x by (auto split: option.splits edge.splits)
qed simp

lemma cycles_total:
  assumes "rx_digraph rx V E ok" "topo_wf V E ok t"
    and "\<And>c addr ses. c \<in> topo_conns V E t \<Longrightarrow> conn_edge c = SocketConnection addr ses \<Longrightarrow>
           ip_address addr \<noteq> None"
  shows "get_thunderbolt_bridge_cycles rx bridges net t \<noteq> None"
proof -
  let ?named = "map (\<lambda>(u, v, conn). (rx_node rx (graph t) u, rx_node rx (graph t) v, conn))
                  (rx_weighted_edge_list rx (graph t))"
  have total: "\<exists>es. thunderbolt_edges ips index ?named = Some es" for ips index
    unfolding not_None_eq [symmetric]
  proof (rule thunderbolt_edges_total)
    fix s k addr ses
    assume "(s, k, SocketConnection addr ses) \<in> set ?named"
    then have "\<lparr>conn_source = s, conn_sink = k, conn_edge = SocketConnection addr ses\<rparr> \<in> set (list_connections rx t)"
      by (force simp: list_connections_def)
    then show "ip_address addr \<noteq> None"
      using rx_digraph.list_connections_set [OF assms(1,2)] assms(3) by fastforce
  qed
  let ?enabled = "dict_keys (dict_filter (\<lambda>_ s. tb_enabled s) bridges)"
  obtain g0 index where idx0: "add_nodes_indexed rx
      (filter (\<lambda>n. dict_has (vertex_indices t) n) ?enabled) (rx_new rx) [] = (g0, index)" by fastforce
  obtain es where "thunderbolt_edges (get_ips_with_interface_type ?enabled net ''thunderbolt'') index ?named
      = Some es" using total by blast
  with idx0 show ?thesis by (simp add: get_thunderbolt_bridge_cycles_def Let_def)
qed

text \<open>Whatever is recorded for a node outside the topology.\<close>

definition node_forgotten :: "node_id \<Rightarrow> 'g state \<Rightarrow> bool" where
  "node_forgotten n st \<longleftrightarrow> n \<notin> topo_nodes (topology st) \<and>
     \<not> dict_has (last_seen st) n \<and> \<not> dict_has (downloads st) n \<and> \<not> dict_has (node_network st) n \<and>
     \<not> dict_has (node_thunderbolt st) n \<and> \<not> dict_has (node_thunderbolt_bridge st) n \<and>
     list_all (\<lambda>inst. \<not> dict_has (node_to_runner (inst_shards inst)) n) (dict_values (instances st))"

definition uses_node :: "node_id \<Rightarrow> 'g state \<Rightarrow> instance_id \<Rightarrow> bool" where
  "uses_node n st iid =
     (case dict_get (instances st) iid of None \<Rightarrow> False
      | Some inst \<Rightarrow> dict_has (node_to_runner (inst_shards inst)) n)"

lemma dict_has_filter_key: "dict_has (dict_filter (\<lambda>key v. key \<noteq> n) d) k \<longleftrightarrow> k \<noteq> n \<and> dict_has d k"
  by (simp add: dict_has_def dict_get_filter_keys)

lemma affected_iff:
  assumes "dict_wf (instances st)"
  shows "iid \<in> set (dict_keys (dict_filter (\<lambda>iid inst. dict_has (node_to_runner (inst_shards inst)) n)
           (instances st))) \<longleftrightarrow> uses_node n st iid"
  unfolding dict_has_iff_keys [symmetric]
  using assms by (auto simp: dict_has_def [of "dict_filter _ _"] dict_get_filter uses_node_def split: option.splits)

lemma timed_out_fields:
  assumes "dict_wf (instances st)" and "apply_node_timed_out rx n st = Inr st'"
  shows "instances st' = dict_filter (\<lambda>iid inst. \<not> uses_node n st iid) (instances st)"
    and "tasks st' = dict_filter (\<lambda>tid t. \<not> uses_node n st (task_instance_id t)) (tasks st)"
    and "topology st' = remove_node rx n (topology st)"
    and "last_seen st' = dict_filter (\<lambda>key v. key \<noteq> n) (last_seen st)"
    and "node_network st' = dict_filter (\<lambda>key v. key \<noteq> n) (node_network st)"
    and "node_thunderbolt st' = dict_filter (\<lambda>key v. key \<noteq> n) (node_thunderbolt st)"
    and "node_thunderbolt_bridge st' = dict_filter (\<lambda>key v. key \<noteq> n) (node_thunderbolt_bridge st)"
  using assms(2) unfolding affected_iff [OF assms(1), symmetric]
  by (auto simp: apply_node_timed_out_def Let_def split: option.splits)

lemma timed_out_topology:
  assumes "apply_node_timed_out rx n st = Inr st'"
  shows "topology st' = remove_node rx n (topology st)" "last_seen st' = dict_filter (\<lambda>key v. key \<noteq> n) (last_seen st)"
  using assms by (auto simp: apply_node_timed_out_def Let_def split: option.splits)

lemma timed_out_raises:
  "apply_node_timed_out rx n st = Inl x \<Longrightarrow>
     \<exists>bridges net. get_thunderbolt_bridge_cycles rx bridges net (remove_node rx n (topology st)) = None"
  by (auto simp: apply_node_timed_out_def Let_def split: option.splits if_splits)

lemma timed_out_forgets:
  assumes "dict_wf (instances st)" and "apply_node_timed_out rx n st = Inr st'"
    and "n \<notin> topo_nodes (remove_node rx n (topology st))"
  shows "node_forgotten n st'"
proof -
  have "\<not> dict_has (node_to_runner (inst_shards inst)) n" if "inst \<in> set (dict_values (instances st'))" for inst
  proof -
    from that obtain iid where "(iid, inst) \<in> set (instances st)" "\<not> uses_node n st iid"
      by (auto simp: timed_out_fields(1) [OF assms(1,2)] dict_filter_def)
    with assms(1) show ?thesis by (simp add: uses_node_def dict_wf_def)
  qed
  then show ?thesis
    using assms(3)
    by (simp add: node_forgotten_def timed_out_fields(3-) [OF assms(1,2)] dict_has_filter_key
        downloads_timed_out [OF assms(2)] list_all_iff del: set_map)
qed

text \<open>
  C34. Removing a timed-out node is complete and exact.  When every socket address in the topology
  is an IP address, the handler never raises; afterwards the node is in no table of the state, not
  in the topology and in no instance; exactly the instances that used it are gone, together with
  exactly their tasks; and every other node keeps its liveness and download records.
\<close>

theorem node_timed_out_purges:
  assumes "rx_digraph rx V E ok" and "topo_wf V E ok (topology st)" and "dict_wf (instances st)"
    and "\<And>c addr ses. c \<in> topo_conns V E (topology st) \<Longrightarrow> conn_edge c = SocketConnection addr ses \<Longrightarrow>
           ip_address addr \<noteq> None"
  shows "\<exists>st'. apply_node_timed_out rx n st = Inr st' \<and> node_forgotten n st' \<and>
    topo_wf V E ok (topology st') \<and>
    (\<forall>iid. dict_get (instances st') iid = (if uses_node n st iid then None else dict_get (instances st) iid)) \<and>
    (\<forall>tid t. (tid, t) \<in> set (tasks st') \<longleftrightarrow> (tid, t) \<in> set (tasks st) \<and> \<not> uses_node n st (task_instance_id t)) \<and>
    (\<forall>m. m \<noteq> n \<longrightarrow> dict_get (last_seen st') m = dict_get (last_seen st) m \<and>
                    dict_get (downloads st') m = dict_get (downloads st) m)"
proof -
  note gone = rx_digraph.remove_node_refines [OF assms(1,2), of n]
  have cycles: "get_thunderbolt_bridge_cycles rx bridges net (remove_node rx n (topology st)) \<noteq> None"
    for bridges net
    using cycles_total [OF assms(1), of "remove_node rx n (topology st)"] gone assms(4) by fastforce
  have "apply_node_timed_out rx n st \<noteq> Inl x" for x
    using timed_out_raises [of rx n st x] cycles by blast
  then obtain st' where st': "apply_node_timed_out rx n st = Inr st'"
    by (cases "apply_node_timed_out rx n st") auto
  note fields = timed_out_fields [OF assms(3) st'] downloads_timed_out [OF st']
  have "(tid, t) \<in> set (tasks st') \<longleftrightarrow> (tid, t) \<in> set (tasks st) \<and> \<not> uses_node n st (task_instance_id t)" for tid t
    by (auto simp: fields dict_filter_def)
  moreover have "node_forgotten n st'"
    using gone by (intro timed_out_forgets [OF assms(3) st']) auto
  ultimately show ?thesis
    using st' gone by (auto simp: fields dict_get_filter_keys)
qed

definition example_state :: "list_graph state" where
  "example_state = (empty_state list_rx)\<lparr>topology := topo_example, instances := [(''i'', example_instance)],
     runners := [(''r'', RunnerReady)], last_seen := [(''a'', 5), (''b'', 6)]\<rparr>"

lemma topo_example_conns:
  "topo_conns lg_V lg_E topo_example =
     {\<lparr>conn_source = ''a'', conn_sink = ''b'', conn_edge = RDMAConnection ''en1'' ''en2''\<rparr>}"
  unfolding topo_example_def using lg.add_connection_refines [OF lg.wf_new] lg.conns_new by auto

theorem node_timed_out_purges_witness:
  "\<exists>st'. apply_node_timed_out list_rx ''a'' example_state = Inr st' \<and> node_forgotten ''a'' st' \<and>
     dict_get (instances st') ''i'' = None"
proof -
  have "uses_node ''a'' example_state ''i''"
    by (simp add: uses_node_def example_state_def example_instance_def dict_has_def)
  moreover have "topo_wf lg_V lg_E lg_ok (topology example_state)" "dict_wf (instances example_state)"
    "topo_conns lg_V lg_E (topology example_state) =
     {\<lparr>conn_source = ''a'', conn_sink = ''b'', conn_edge = RDMAConnection ''en1'' ''en2''\<rparr>}"
    by (simp_all add: example_state_def topo_example_wf dict_wf_def topo_example_conns)
  ultimately show ?thesis
    using node_timed_out_purges [OF lg.rx_digraph_axioms, of example_state "''a''"] by fastforce
qed

section \<open>Nodes that never became members\<close>

text \<open>A phantom: a node of the topology with no liveness record and no edge pointing at it.\<close>

definition phantoms ::
  "('g \<Rightarrow> nat \<Rightarrow> node_id option) \<Rightarrow> ('g \<Rightarrow> nat \<Rightarrow> (nat \<times> nat \<times> edge) option) \<Rightarrow>
     (node_id, datetime) dict \<Rightarrow> 'g topology \<Rightarrow> node_id set" where
  "phantoms V E seen t = {n \<in> topo_nodes t. \<not> dict_has seen n \<and> (\<forall>c \<in> topo_conns V E t. conn_sink c \<noteq> n)}"

text \<open>What an edge deletion should remove: the nodes that never published and that only such nodes observe, down to
  nodes that nobody observes.\<close>

inductive_set orphans :: "node_id set \<Rightarrow> (node_id, datetime) dict \<Rightarrow> connection set \<Rightarrow> node_id set" for N seen C where
  orphan: "n \<in> N \<Longrightarrow> \<not> dict_has seen n \<Longrightarrow> \<forall>c \<in> C. conn_sink c = n \<longrightarrow> conn_source c \<in> orphans N seen C \<Longrightarrow> n \<in> orphans N seen C"

text \<open>Removing an orphan makes no others.\<close>

lemma orphans_remove:
  assumes "n \<in> orphans (N - {m}) seen {c \<in> C. conn_source c \<noteq> m \<and> conn_sink c \<noteq> m}" "m \<in> orphans N seen C"
  shows "n \<in> orphans N seen C"
  using assms by induction (blast intro: orphans.intros)

text \<open>A topology without phantoms has no orphans.\<close>

lemma no_orphans:
  assumes "n \<in> orphans N seen C" "N' \<subseteq> N" "{k \<in> N'. \<not> dict_has seen k \<and> (\<forall>c \<in> C. conn_source c \<in> N' \<and> conn_sink c \<in> N' \<longrightarrow> conn_sink c \<noteq> k)} = {}"
  shows "n \<notin> N'"
  using assms(1) by induction (use assms(2,3) in blast)

context rx_digraph
begin

text \<open>The cascade removes every phantom when it is started with all of them, keeps every member,
  and removes only connections of removed nodes.\<close>

definition reaped :: "(node_id, datetime) dict \<Rightarrow> 'g topology \<Rightarrow> 'g topology \<Rightarrow> bool" where
  "reaped seen t t' \<longleftrightarrow> wf t' \<and> phantoms V E seen t' = {} \<and> topo_nodes t' \<subseteq> topo_nodes t \<and>
     topo_nodes t - orphans (topo_nodes t) seen (conns t) \<subseteq> topo_nodes t' \<and>
     conns t' = {c \<in> conns t. conn_source c \<in> topo_nodes t' \<and> conn_sink c \<in> topo_nodes t'}"

lemma reaped_none: "wf t \<Longrightarrow> phantoms V E seen t = {} \<Longrightarrow> reaped seen t t"
  using conns_in_nodes by (auto simp: reaped_def)

lemma phantoms_remove_node:
  assumes "wf t" and "n \<in> phantoms V E seen (remove_node rx m t)" and "n \<notin> phantoms V E seen t"
  shows "n \<in> conn_sink ` set (out_edges rx m t)"
proof -
  note rm = remove_node_refines [OF assms(1), of m]
  from assms(2,3) obtain c where c: "c \<in> conns t" "conn_sink c = n" "n \<noteq> m"
    by (auto simp: phantoms_def rm)
  have "conn_source c = m"
    using assms(2) c by (auto simp: phantoms_def rm)
  then show ?thesis using c out_edges_set [OF assms(1), of m] by auto
qed

lemma reaped_remove_node:
  assumes "wf t" and "m \<in> phantoms V E seen t" and "reaped seen (remove_node rx m t) t'"
  shows "reaped seen t t'"
proof -
  note rm = remove_node_refines [OF assms(1), of m]
  have m: "m \<in> orphans (topo_nodes t) seen (conns t)" using assms(2) by (auto simp: phantoms_def intro: orphans.intros)
  have nodes: "topo_nodes (remove_node rx m t) = topo_nodes t - {m}"
      "conns (remove_node rx m t) = {c \<in> conns t. conn_source c \<noteq> m \<and> conn_sink c \<noteq> m}" using rm by auto
  have "orphans (topo_nodes (remove_node rx m t)) seen (conns (remove_node rx m t)) \<subseteq> orphans (topo_nodes t) seen (conns t)"
    unfolding nodes using orphans_remove [OF _ m] by blast
  then show ?thesis using assms(3) m nodes by (auto simp: reaped_def)
qed

lemma reaped_nodes:
  assumes "reaped seen t t'"
  shows "topo_nodes t' = topo_nodes t - orphans (topo_nodes t) seen (conns t)"
proof -
  have kept: "conns t' = {c \<in> conns t. conn_source c \<in> topo_nodes t' \<and> conn_sink c \<in> topo_nodes t'}"
      and none: "phantoms V E seen t' = {}" using assms by (simp_all add: reaped_def)
  have "{k \<in> topo_nodes t'. \<not> dict_has seen k \<and> (\<forall>c \<in> conns t. conn_source c \<in> topo_nodes t' \<and> conn_sink c \<in> topo_nodes t' \<longrightarrow> conn_sink c \<noteq> k)}
      = phantoms V E seen t'"
    unfolding phantoms_def kept by blast
  then have "{k \<in> topo_nodes t'. \<not> dict_has seen k \<and> (\<forall>c \<in> conns t. conn_source c \<in> topo_nodes t' \<and> conn_sink c \<in> topo_nodes t' \<longrightarrow> conn_sink c \<noteq> k)} = {}"
    using none by simp
  then have "n \<notin> topo_nodes t'" if "n \<in> orphans (topo_nodes t) seen (conns t)" for n
    using no_orphans [OF that] assms by (simp add: reaped_def)
  then show ?thesis using assms by (auto simp: reaped_def)
qed

lemma reap_spec:
  "wf t \<Longrightarrow> phantoms V E seen t \<subseteq> set candidates \<Longrightarrow> reaped seen t (reap rx seen candidates t)"
proof (induction r \<equiv> rx seen candidates t rule: reap.induct)
  case (1 seen candidates t)
  show ?case
  proof (cases "candidates = []")
    case True
    then show ?thesis using 1(3,4) reaped_none by (simp add: reap.simps)
  next
    case False
    let ?m = "last candidates" and ?rest = "butlast candidates"
    have set_cs: "set candidates = insert ?m (set ?rest)"
      using False by (metis append_butlast_last_id list.set(1,2) set_append sup_bot_right Un_insert_right)
    show ?thesis
    proof (cases "dict_has seen ?m \<or> \<not> contains_node ?m t \<or> \<not> node_has_no_incoming_edges rx ?m t")
      case True
      then have "?m \<notin> phantoms V E seen t"
        by (auto simp: phantoms_def contains_node_iff no_incoming_iff [OF 1(3)])
      then have "reaped seen t (reap rx seen ?rest t)"
        using 1(1) [OF False refl refl True] 1(3,4) set_cs by auto
      then show ?thesis using False True by (subst reap.simps) (simp add: Let_def)
    next
      case gone: False
      let ?t = "remove_node rx ?m t"
      let ?cs = "?rest @ map conn_sink (out_edges rx ?m t)"
      have wf': "wf ?t" using remove_node_refines [OF 1(3)] by blast
      have "?m \<notin> phantoms V E seen ?t"
        using remove_node_refines [OF 1(3), of ?m] by (auto simp: phantoms_def)
      then have "phantoms V E seen ?t \<subseteq> set ?cs"
        using phantoms_remove_node [OF 1(3)] 1(4) set_cs by auto
      then have "reaped seen ?t (reap rx seen ?cs ?t)"
        using 1(2) [OF False refl refl gone wf'] by blast
      then have "reaped seen t (reap rx seen ?cs ?t)"
        using gone by (intro reaped_remove_node [OF 1(3)]) (auto simp: phantoms_def contains_node_iff no_incoming_iff [OF 1(3)])
      then show ?thesis using False gone by (subst reap.simps) (simp add: Let_def)
    qed
  qed
qed

lemma edge_deleted_reaped:
  assumes "wf (topology st)" and "phantoms V E (last_seen st) (topology st) = {}"
  shows "reaped (last_seen st) (remove_connection rx c (topology st)) (topology (apply_topology_edge_deleted rx c st))"
proof -
  note rc = remove_connection_refines [OF assms(1), of c]
  have "phantoms V E (last_seen st) (remove_connection rx c (topology st)) \<subseteq> set [conn_sink c, conn_source c]"
    using assms(2) rc by (auto simp: phantoms_def)
  then show ?thesis
    using reap_spec [of "remove_connection rx c (topology st)" "last_seen st"] rc
    by (simp add: apply_topology_edge_deleted_def)
qed

lemma edge_created_phantoms:
  assumes "wf (topology st)" and "phantoms V E (last_seen st) (topology st) = {}"
    and "dict_has (last_seen st) (conn_source c)"
  shows "phantoms V E (last_seen st) (topology (apply_topology_edge_created rx c st)) = {}"
  using assms(2,3) add_connection_refines [OF assms(1), of c]
  by (auto simp: phantoms_def apply_topology_edge_created_def)

end

text \<open>
  C30. Deleting an edge removes exactly the orphans.  If the topology has no phantom (a node that never published and to
  which no edge points), then the event removes the deleted connection and exactly the nodes it orphaned: those that never
  published and that, directly or through other orphans, nobody observes any more.  No phantom is left; the surviving
  connections are exactly those between surviving nodes other than the deleted one.  An edge created by a member keeps
  the topology free of phantoms.
\<close>

theorem edge_events_leave_no_phantom:
  assumes "rx_digraph rx V E ok" and "topo_wf V E ok (topology st)"
    and "phantoms V E (last_seen st) (topology st) = {}"
  shows "let t' = topology (apply_topology_edge_deleted rx c st) in
      topo_wf V E ok t' \<and> phantoms V E (last_seen st) t' = {} \<and>
      topo_nodes t' = topo_nodes (topology st) - orphans (topo_nodes (topology st)) (last_seen st) (topo_conns V E (topology st) - {c}) \<and>
      topo_conns V E t' = {d \<in> topo_conns V E (topology st). d \<noteq> c \<and>
         conn_source d \<in> topo_nodes t' \<and> conn_sink d \<in> topo_nodes t'} \<and>
      (dict_has (last_seen st) (conn_source d) \<longrightarrow>
         phantoms V E (last_seen st) (topology (apply_topology_edge_created rx d st)) = {})"
proof -
  let ?t = "remove_connection rx c (topology st)" and ?t' = "topology (apply_topology_edge_deleted rx c st)"
  note reaped = rx_digraph.edge_deleted_reaped [OF assms, of c]
  have rc: "topo_nodes ?t = topo_nodes (topology st)" "topo_conns V E ?t = topo_conns V E (topology st) - {c}"
    using rx_digraph.remove_connection_refines [OF assms(1,2), of c] by auto
  have "topo_nodes ?t' = topo_nodes (topology st) - orphans (topo_nodes (topology st)) (last_seen st) (topo_conns V E (topology st) - {c})"
    using rx_digraph.reaped_nodes [OF assms(1) reaped] unfolding rc .
  moreover have "topo_wf V E ok ?t'" "phantoms V E (last_seen st) ?t' = {}"
      "topo_conns V E ?t' = {d \<in> topo_conns V E (topology st). d \<noteq> c \<and> conn_source d \<in> topo_nodes ?t' \<and> conn_sink d \<in> topo_nodes ?t'}"
    using reaped unfolding rx_digraph.reaped_def [OF assms(1)] rc by auto
  moreover have "dict_has (last_seen st) (conn_source d) \<longrightarrow> phantoms V E (last_seen st) (topology (apply_topology_edge_created rx d st)) = {}"
    using rx_digraph.edge_created_phantoms [OF assms, of d] by blast
  ultimately show ?thesis unfolding Let_def by blast
qed

text \<open>Member \<open>a\<close> observes \<open>b\<close>, which never published.\<close>

definition observed_state :: "list_graph state" where
  "observed_state = (empty_state list_rx)\<lparr>topology := topo_example, last_seen := [(''a'', 5)]\<rparr>"

lemma observed_nodes: "topo_nodes topo_example = {''a'', ''b''}"
  unfolding topo_example_def using lg.add_connection_refines [OF lg.wf_new] lg.nodes_new by auto

lemma observed_phantoms: "phantoms lg_V lg_E (last_seen observed_state) (topology observed_state) = {}"
  by (auto simp: phantoms_def observed_state_def observed_nodes topo_example_conns dict_has_def)

theorem edge_events_leave_no_phantom_witness:
  "topo_nodes (topology observed_state) = {''a'', ''b''} \<and>
   phantoms lg_V lg_E (last_seen observed_state) (topology (apply_topology_edge_deleted list_rx
     \<lparr>conn_source = ''a'', conn_sink = ''b'', conn_edge = RDMAConnection ''en1'' ''en2''\<rparr> observed_state)) = {}"
proof -
  have "topo_wf lg_V lg_E lg_ok (topology observed_state)"
    by (simp add: observed_state_def topo_example_wf)
  from edge_events_leave_no_phantom [OF lg.rx_digraph_axioms this observed_phantoms] show ?thesis
    by (auto simp: Let_def observed_nodes observed_state_def)
qed

text \<open>
  C36. A time-out, in contrast, leaves a phantom.  \<open>apply_node_timed_out\<close> removes the node and its edges without the
  cascade that an edge deletion runs: whenever the only observer of a node that never published times out, that node stays
  in the topology with no edge pointing at it and no liveness record, and it outlasts the time-outs of all other nodes.
\<close>

theorem timed_out_observer_leaves_phantom:
  assumes "rx_digraph rx V E ok" "topo_wf V E ok (topology st)" "b \<in> topo_nodes (topology st)" "\<not> dict_has (last_seen st) b"
    and "\<forall>c \<in> topo_conns V E (topology st). conn_sink c = b \<longrightarrow> conn_source c = n" "n \<noteq> b"
    and "apply_node_timed_out rx n st = Inr st'"
  shows "b \<in> phantoms V E (last_seen st') (topology st') \<and>
    (\<forall>m st''. m \<noteq> b \<longrightarrow> apply_node_timed_out rx m st' = Inr st'' \<longrightarrow> b \<in> phantoms V E (last_seen st'') (topology st''))"
proof -
  have out: "topo_wf V E ok (topology s') \<and> b \<in> phantoms V E (last_seen s') (topology s')"
    if "topo_wf V E ok (topology s)" "b \<in> topo_nodes (topology s)" "\<not> dict_has (last_seen s) b"
      "\<forall>c \<in> topo_conns V E (topology s). conn_sink c = b \<longrightarrow> conn_source c = k" "k \<noteq> b" "apply_node_timed_out rx k s = Inr s'" for s s' k
    using rx_digraph.remove_node_refines [OF assms(1) that(1), of k] timed_out_topology [OF that(6)] that(2-5)
    by (auto simp: phantoms_def dict_has_filter_key)
  have first: "topo_wf V E ok (topology st')" "b \<in> phantoms V E (last_seen st') (topology st')" using out assms(2-7) by blast+
  have "b \<in> phantoms V E (last_seen st'') (topology st'')" if "m \<noteq> b" "apply_node_timed_out rx m st' = Inr st''" for m st''
    using out [OF first(1) _ _ _ that] first(2) unfolding phantoms_def by blast
  then show ?thesis using first(2) by blast
qed

theorem timed_out_observer_leaves_phantom_witness:
  "\<exists>st'. apply_node_timed_out list_rx ''a'' observed_state = Inr st' \<and> ''b'' \<in> phantoms lg_V lg_E (last_seen st') (topology st')"
proof -
  obtain st' where run: "apply_node_timed_out list_rx ''a'' observed_state = Inr st'"
    by (cases "apply_node_timed_out list_rx ''a'' observed_state")
      (simp_all add: apply_node_timed_out_def observed_state_def empty_state_def Let_def split: sum.splits option.splits)
  have "topo_wf lg_V lg_E lg_ok (topology observed_state)" by (simp add: observed_state_def topo_example_wf)
  from timed_out_observer_leaves_phantom [OF lg.rx_digraph_axioms this _ _ _ _ run, of "''b''"] run show ?thesis
    by (auto simp: observed_state_def observed_nodes topo_example_conns dict_has_def)
qed

section \<open>Retention of steward proposals\<close>

lemma foldl_dict_pop:
  "foldl (\<lambda>d q. dict_pop (key q) d) d qs = dict_filter (\<lambda>k v. k \<notin> key ` set qs) d"
  by (induction qs arbitrary: d) (auto simp: dict_pop_def dict_filter_def intro: filter_cong)

definition proposals_keyed :: "(proposal_id, steward_action_proposal) dict \<Rightarrow> bool" where
  "proposals_keyed d \<longleftrightarrow> dict_wf d \<and> (\<forall>(k, q) \<in> set d. proposal_id q = k)"

lemma proposals_keyed_set: "proposals_keyed d \<Longrightarrow> proposals_keyed (dict_set (proposal_id q) q d)"
  using set_dict_set_subset [of "proposal_id q" q d] by (fastforce simp: proposals_keyed_def)

definition as_of_proposal :: "steward_action_proposal \<Rightarrow> datetime" where
  "as_of_proposal p = (case dispatched_at p of Some d \<Rightarrow> d | None \<Rightarrow>
     (case decided_at p of Some d \<Rightarrow> d | None \<Rightarrow> created_at p))"

lemma length_dict_filter_keys:
  assumes "dict_wf d" "distinct ks" "set ks \<subseteq> set (dict_keys d)"
  shows "length (dict_filter (\<lambda>k v. k \<notin> set ks) d) = length d - length ks"
proof -
  let ?f = "dict_filter (\<lambda>k v. k \<notin> set ks) d"
  have "set (dict_keys ?f) = set (dict_keys d) - set ks" by (auto simp: dict_filter_def)
  moreover have "distinct (dict_keys ?f)" using assms(1) dict_wf_filter by (simp add: dict_wf_def)
  ultimately have "length ?f = card (set (dict_keys d) - set ks)"
    by (metis distinct_card length_map)
  moreover have "card (set (dict_keys d)) = length d"
    using assms(1) distinct_card [of "dict_keys d"] by (simp add: dict_wf_def del: set_map)
  ultimately show ?thesis
    using assms(2,3) distinct_card [of ks] by (simp add: card_Diff_subset del: set_map)
qed

lemma keyed_values_inj:
  assumes "proposals_keyed d"
  shows "distinct (map proposal_id (dict_values d)) \<and> map proposal_id (dict_values d) = dict_keys d"
proof -
  have keys: "map proposal_id (dict_values d) = dict_keys d"
    using assms by (auto simp: proposals_keyed_def)
  show ?thesis using assms unfolding keys by (simp add: proposals_keyed_def dict_wf_def)
qed

lemma sorted_take_before_drop:
  assumes "sorted (map f xs)" "x \<in> set (take n xs)" "y \<in> set (drop n xs)"
  shows "f x \<le> f y"
proof -
  have "sorted (map f (take n xs @ drop n xs))" using assms(1) by simp
  then show ?thesis using assms(2,3) unfolding map_append sorted_append by auto
qed

text \<open>The bounded audit window, as a relation between the proposals before and after pruning.\<close>

definition audit_window ::
  "datetime \<Rightarrow> (proposal_id, steward_action_proposal) dict \<Rightarrow> (proposal_id, steward_action_proposal) dict \<Rightarrow> bool"
where
  "audit_window as_of d d' \<longleftrightarrow> set d' \<subseteq> set d \<and>
     (\<forall>(k, q) \<in> set d. \<not> steward_action_proposal_is_prunable q as_of \<longrightarrow> (k, q) \<in> set d') \<and>
     (length d' \<le> 128 \<or> (\<forall>(k, q) \<in> set d'. \<not> steward_action_proposal_is_prunable q as_of)) \<and>
     min 128 (length d) \<le> length d' \<and>
     (\<forall>(k, q) \<in> set d - set d'. \<forall>(k', q') \<in> set d'.
        steward_action_proposal_is_prunable q' as_of \<longrightarrow> created_at q \<le> created_at q')"

lemma audit_window_small: "length d \<le> 128 \<Longrightarrow> audit_window as_of d d"
  by (auto simp: audit_window_def)

lemma audit_window_pruned:
  assumes keyed: "proposals_keyed d" and big: "128 < length d"
    and T: "T = sort_key created_at (filter (\<lambda>q. steward_action_proposal_is_prunable q as_of) (dict_values d))"
    and d': "d' = foldl (\<lambda>d q. dict_pop (proposal_id q) d) d (take (length d - 128) T)"
  shows "audit_window as_of d d'"
proof -
  let ?P = "\<lambda>q. steward_action_proposal_is_prunable q as_of"
  let ?K = "take (length d - 128) T"
  have setT: "set T = {q \<in> set (dict_values d). ?P q}" by (auto simp: T)
  have inj: "inj_on proposal_id (set (dict_values d))" and ids: "map proposal_id (dict_values d) = dict_keys d"
    using keyed_values_inj [OF keyed] unfolding distinct_map [of proposal_id] by blast+
  have distT: "distinct T"
    using keyed_values_inj [OF keyed] distinct_map [of proposal_id "dict_values d"]
    by (auto simp: T intro: distinct_filter)
  have KT: "set ?K \<subseteq> set T" by (rule set_take_subset)
  have mem: "(k, q) \<in> set d' \<longleftrightarrow> (k, q) \<in> set d \<and> q \<notin> set ?K" for k q
  proof -
    have "k \<in> proposal_id ` set ?K \<longleftrightarrow> q \<in> set ?K" if "(k, q) \<in> set d"
    proof -
      have q: "q \<in> set (dict_values d)" "proposal_id q = k"
        using that keyed by (force simp: proposals_keyed_def)+
      show ?thesis using inj KT setT q unfolding inj_on_def by blast
    qed
    then show ?thesis unfolding d' foldl_dict_pop by (auto simp: dict_filter_def)
  qed
  have "set (map proposal_id ?K) \<subseteq> set (dict_keys d)"
  proof -
    have "proposal_id ` set (dict_values d) = set (dict_keys d)" unfolding ids [symmetric] by (simp only: set_map)
    then show ?thesis using KT setT unfolding set_map [of proposal_id] by blast
  qed
  moreover have "distinct (map proposal_id ?K)"
    using distT inj KT setT by (auto simp: distinct_map intro: inj_on_subset)
  ultimately have len: "length d' = length d - length ?K"
    using length_dict_filter_keys [of d "map proposal_id ?K"] keyed
    by (simp add: d' foldl_dict_pop proposals_keyed_def)
  have all: "length d' \<le> 128 \<or> (\<forall>(k, q) \<in> set d'. \<not> ?P q)"
  proof (cases "length d - 128 \<le> length T")
    case False
    then have "?K = T" by simp
    then have "\<not> ?P q" if "(k, q) \<in> set d'" for k q
      using that mem [of k q] setT by force
    then show ?thesis by blast
  qed (use len in auto)
  have old: "created_at q \<le> created_at q'"
    if "(k, q) \<in> set d - set d'" "(k', q') \<in> set d'" "?P q'" for k q k' q'
  proof -
    have "q' \<in> set T" "q' \<notin> set ?K" "q \<in> set ?K"
      using that mem setT by force+
    then have "q' \<in> set (drop (length d - 128) T)"
      by (metis Un_iff append_take_drop_id set_append)
    moreover have "sorted (map created_at T)" by (simp add: T)
    ultimately show ?thesis using sorted_take_before_drop [of created_at T q] \<open>q \<in> set ?K\<close> by simp
  qed
  have kept: "(k, q) \<in> set d'" if "(k, q) \<in> set d" "\<not> ?P q" for k q
    using that mem KT setT by blast
  have "set d' \<subseteq> set d" using mem by auto
  with kept all old len big show ?thesis
    unfolding audit_window_def by auto
qed

text \<open>The audit window of steward proposals.  A changed proposal is stored under its identity;
  then nothing is dropped that a promoted master can still recover (pending, approved, or
  dispatched in the last five minutes); the table shrinks to at most 128 entries unless all that
  remain are such; it never shrinks below 128; and only entries at least as old as every other
  finished one are dropped.
\<close>

theorem steward_audit_window:
  assumes "proposals_keyed (steward_action_proposals st)"
  shows "audit_window (as_of_proposal q) (dict_set (proposal_id q) q (steward_action_proposals st))
           (steward_action_proposals (apply_steward_action_proposal_changed q st))"
proof (cases "128 < length (dict_set (proposal_id q) q (steward_action_proposals st))")
  case True
  show ?thesis
    by (rule audit_window_pruned [OF proposals_keyed_set [OF assms] True refl])
      (use True in \<open>simp add: apply_steward_action_proposal_changed_def Let_def as_of_proposal_def\<close>)
next
  case False
  then show ?thesis
    using audit_window_small by (simp add: apply_steward_action_proposal_changed_def Let_def)
qed

definition example_proposal :: steward_action_proposal where
  "example_proposal = \<lparr>proposal_id = ''p'', action = [], rationale = [], evidence = [],
     expected_effect = [], created_at = 1, expires_at = 2, status = ProposalPending, decided_at = None,
     dispatched_at = None, decided_by = None, proposal_command_id = None, outcome = None\<rparr>"

theorem steward_audit_window_witness:
  "audit_window 1 [(''p'', example_proposal)]
     (steward_action_proposals (apply_steward_action_proposal_changed example_proposal (empty_state list_rx)))"
  using steward_audit_window [of "empty_state list_rx" example_proposal]
  by (simp add: proposals_keyed_def empty_state_def example_proposal_def as_of_proposal_def dict_set_def)

section \<open>Events kept out of the log\<close>

text \<open>
  What is not persisted is not control state.  An event that the master keeps out of the log
  (chunks, traces, in-flight downloads, readings of the telemetry plane) changes at most the
  liveness record and membership of the reporting node: a node that never sees it has the same
  instances, runners, tasks, downloads, proposals and connectivity.
\<close>

theorem transient_events_leave_control_state:
  assumes "\<not> is_persistable_control_event b" and "event_apply rx p b st = Inr st'"
  shows "\<exists>seen topo. st' = st\<lparr>last_seen := seen, topology := topo\<rparr> \<and>
           (st' = st \<or> (\<exists>n w info. b = NodeGatheredInfo n w info \<and> topo = add_node rx n (topology st)))"
proof (cases b)
  case (NodeGatheredInfo n w info)
  have "st' = st\<lparr>last_seen := last_seen st', topology := add_node rx n (topology st)\<rparr>"
    using assms by (cases info) (auto simp: NodeGatheredInfo apply_node_gathered_info_def Let_def
        split: option.splits)
  then show ?thesis using NodeGatheredInfo by blast
next
  case (NodeDownloadProgress dp)
  then have "st' = st"
    using assms by (cases dp) (auto simp: apply_node_download_progress_def Let_def)
  then show ?thesis by (metis state.surjective state.update_convs(7,8))
qed (use assms in \<open>auto intro!: exI [of _ "last_seen st"] exI [of _ "topology st"]\<close>)

theorem transient_events_leave_control_state_witness:
  "\<exists>seen topo. event_apply list_rx (\<lambda>_. Some 7) (NodeGatheredInfo ''a'' ''t'' (MemoryUsage [])) example_state =
     Inr (example_state\<lparr>last_seen := seen, topology := topo\<rparr>)"
proof -
  obtain st' where st': "event_apply list_rx (\<lambda>_. Some 7) (NodeGatheredInfo ''a'' ''t'' (MemoryUsage [])) example_state
      = Inr st'" by (simp add: apply_node_gathered_info_def Let_def)
  from transient_events_leave_control_state [OF _ st'] st' show ?thesis by auto
qed

end
