(* ===== verification/Session_Carryover.thy ===== *)
theory Session_Carryover
  imports Apply_Behaviour
begin

text \<open>
  Failover: \<^verbatim>\<open>src/skulk/shared/session_carryover.py\<close> and the master's \<open>_index_seed_event\<close>
  (\<^verbatim>\<open>src/skulk/master/main.py\<close>).  A promoted master seeds its session from the state it held as
  a follower, and logs the seed as the first event of the new session.

  \<open>carried_node_ids\<close> is a Python set, whose iteration order is unspecified; the order of the
  resulting \<open>last_seen\<close> dictionary is irrelevant to all modelled code and is fixed here to the
  order of the three tables.
\<close>

definition completed_downloads_only ::
  "(node_id, download_progress list) dict \<Rightarrow> (node_id, download_progress list) dict" where
  "completed_downloads_only ds = dict_map (filter is_completed) ds"

text \<open>\<open>clock\<close> is \<open>datetime.now(tz=timezone.utc)\<close>.\<close>

definition seed_state_for_new_session ::
  "'g rx_ops \<Rightarrow> datetime \<Rightarrow> 'g state \<Rightarrow> datetime option \<Rightarrow> 'g state" where
  "seed_state_for_new_session rx clock prior now =
     (let stamp = (case now of Some t \<Rightarrow> t | None \<Rightarrow> clock);
          carried_node_ids = remdups (dict_keys (node_network prior) @ dict_keys (node_thunderbolt prior)
                                      @ dict_keys (node_thunderbolt_bridge prior))
      in (empty_state rx)\<lparr>
           instances := instances prior,
           instance_failures := instance_failures prior,
           downloads := completed_downloads_only (downloads prior),
           tracing_enabled := tracing_enabled prior,
           model_trust_approved_remote_code_identities := model_trust_approved_remote_code_identities prior,
           steward_action_proposals := steward_action_proposals prior,
           last_seen := map (\<lambda>node_id. (node_id, stamp)) carried_node_ids,
           node_network := node_network prior,
           node_thunderbolt := node_thunderbolt prior,
           node_thunderbolt_bridge := node_thunderbolt_bridge prior,
           thunderbolt_bridge_cycles := thunderbolt_bridge_cycles prior\<rparr>)"

text \<open>The state change of \<open>_index_seed_event\<close>: \<open>log_length\<close> is \<open>len(self._event_log)\<close>.\<close>

definition index_seed_event ::
  "'g rx_ops \<Rightarrow> (string \<Rightarrow> datetime option) \<Rightarrow> nat \<Rightarrow> event_id \<Rightarrow> 'g state option \<Rightarrow> 'g state
     \<Rightarrow> py_error + 'g state" where
  "index_seed_event rx p log_length eid seed_state st =
     (case seed_state of
        None \<Rightarrow> Inr st
      | Some s \<Rightarrow>
          (let i = int log_length; seed = s\<lparr>last_event_applied_idx := i\<rparr>
           in apply_event rx p st
                \<lparr>idx = i, event = \<lparr>event_id = eid, event_body = StateSnapshotHydrated seed\<rparr>\<rparr>))"

lemma index_seed_state:
  "index_seed_event rx p k eid (Some s) st = Inr ((sanitize_snapshot_downloads s)\<lparr>last_event_applied_idx := int k\<rparr>)"
  by (simp add: index_seed_event_def Let_def apply_event_def sanitize_snapshot_downloads_def)

lemma completed_terminal: "is_completed dp \<Longrightarrow> is_terminal dp"
  by (cases dp) auto

lemma seed_downloads:
  assumes "dict_wf (downloads prior)"
  shows "dict_get (downloads (sanitize_snapshot_downloads (seed_state_for_new_session rx clock prior now))) n =
     (case dict_get (downloads prior) n of None \<Rightarrow> None
      | Some ps \<Rightarrow> if filter is_completed ps = [] then None else Some (filter is_completed ps))"
proof -
  have same: "filter (\<lambda>dp. is_completed dp \<and> is_terminal dp) ps = filter is_completed ps" for ps
    by (auto simp: completed_terminal intro!: filter_cong)
  show ?thesis
    unfolding sanitize_snapshot_downloads_def seed_state_for_new_session_def completed_downloads_only_def Let_def
    using assms by (simp add: dict_get_filter same split: option.split)
qed

lemma seed_last_seen:
  "dict_get (last_seen (seed_state_for_new_session rx clock prior (Some now))) n =
     (if dict_has (node_network prior) n \<or> dict_has (node_thunderbolt prior) n \<or>
         dict_has (node_thunderbolt_bridge prior) n then Some now else None)"
  by (simp add: seed_state_for_new_session_def Let_def dict_has_iff_keys map_of_map_restrict restrict_map_def)

lemma seed_ok: "state_ok prior \<Longrightarrow> state_ok (sanitize_snapshot_downloads (seed_state_for_new_session rx clock prior now))"
  using sanitize_durable [of "seed_state_for_new_session rx clock prior now"]
  by (auto simp: state_ok_def downloads_durable_def runners_owned_def instances_keyed_def failures_bounded_def
      approvals_canonical_def sanitize_snapshot_downloads_def seed_state_for_new_session_def Let_def empty_state_def)

text \<open>Completed downloads survive a second seed unchanged.\<close>

lemma seed_downloads_again:
  "downloads (sanitize_snapshot_downloads (seed_state_for_new_session rx clock
     (sanitize_snapshot_downloads (seed_state_for_new_session rx' clock' prior now')) now)) =
   downloads (sanitize_snapshot_downloads (seed_state_for_new_session rx' clock' prior now'))"
proof -
  have same: "filter is_terminal (filter is_completed ps) = filter is_completed ps" for ps
    by (auto simp: completed_terminal intro!: filter_cong)
  show ?thesis
    unfolding sanitize_snapshot_downloads_def seed_state_for_new_session_def completed_downloads_only_def Let_def
    by (simp add: dict_map_def dict_filter_def same filter_map o_def split_beta del: filter_filter)
qed

lemma seed_twice:
  assumes "st' = (sanitize_snapshot_downloads (seed_state_for_new_session rx clock prior (Some now)))\<lparr>last_event_applied_idx := i\<rparr>"
  shows "sanitize_snapshot_downloads (seed_state_for_new_session rx clock' st' (Some now')) =
    st'\<lparr>last_event_applied_idx := -1, last_seen := map (\<lambda>(n, _). (n, now')) (last_seen st')\<rparr>"
proof -
  let ?s = "sanitize_snapshot_downloads (seed_state_for_new_session rx clock prior (Some now))"
  let ?t = "sanitize_snapshot_downloads (seed_state_for_new_session rx clock' st' (Some now'))"
  have "seed_state_for_new_session rx clock' st' (Some now') = seed_state_for_new_session rx clock' ?s (Some now')"
    using assms by (simp add: seed_state_for_new_session_def)
  then have "downloads ?t = downloads ?s" by (simp add: seed_downloads_again)
  then show ?thesis
    using assms by (simp add: sanitize_snapshot_downloads_def seed_state_for_new_session_def empty_state_def Let_def o_def)
qed

text \<open>
  C25. A failover keeps what is durable, arms the liveness clock and can be repeated.  Indexing the seed built from any prior
  state succeeds in any state of the new master, and the new session starts at the index of its log.  Instances, failure
  history, trust decisions, steward proposals, tracing, connectivity facts and bridge cycles are those of the prior state;
  of the downloads exactly the completed ones are left; there is no task, runner or topology node.  Exactly the nodes
  with connectivity facts are on the liveness clock, with the time of the failover, so each of them can be timed out.  A
  well-formed prior state gives a well-formed session; and a second failover before any event changes nothing but the
  index and the times: a chain of failovers loses no more than one.
\<close>

theorem failover_seed:
  assumes "dict_wf (downloads prior)"
  shows "\<exists>st'. index_seed_event rx p k eid (Some (seed_state_for_new_session rx clock prior (Some now))) st = Inr st' \<and>
     last_event_applied_idx st' = int k \<and> instances st' = instances prior \<and>
     instance_failures st' = instance_failures prior \<and>
     model_trust_approved_remote_code_identities st' = model_trust_approved_remote_code_identities prior \<and>
     steward_action_proposals st' = steward_action_proposals prior \<and> tracing_enabled st' = tracing_enabled prior \<and>
     node_network st' = node_network prior \<and> node_thunderbolt st' = node_thunderbolt prior \<and>
     node_thunderbolt_bridge st' = node_thunderbolt_bridge prior \<and> thunderbolt_bridge_cycles st' = thunderbolt_bridge_cycles prior \<and>
     runners st' = [] \<and> tasks st' = [] \<and> topology st' = new_topology rx \<and>
     (\<forall>n. dict_get (downloads st') n = (case dict_get (downloads prior) n of None \<Rightarrow> None
        | Some ps \<Rightarrow> if filter is_completed ps = [] then None else Some (filter is_completed ps))) \<and>
     (\<forall>n. dict_get (last_seen st') n = (if dict_has (node_network prior) n \<or> dict_has (node_thunderbolt prior) n \<or>
        dict_has (node_thunderbolt_bridge prior) n then Some now else None)) \<and>
     (state_ok prior \<longrightarrow> state_ok st') \<and>
     (\<forall>k' eid' clock' now' other.
        index_seed_event rx p k' eid' (Some (seed_state_for_new_session rx clock' st' (Some now'))) other =
          Inr (st'\<lparr>last_event_applied_idx := int k', last_seen := map (\<lambda>(n, _). (n, now')) (last_seen st')\<rparr>))"
proof -
  let ?seed = "seed_state_for_new_session rx clock prior (Some now)"
  let ?st = "(sanitize_snapshot_downloads ?seed)\<lparr>last_event_applied_idx := int k\<rparr>"
  have keep: "last_seen (sanitize_snapshot_downloads ?seed) = last_seen ?seed"
    by (simp add: sanitize_snapshot_downloads_def)
  have again: "index_seed_event rx p k' eid' (Some (seed_state_for_new_session rx clock' ?st (Some now'))) other =
      Inr (?st\<lparr>last_event_applied_idx := int k', last_seen := map (\<lambda>(n, _). (n, now')) (last_seen ?st)\<rparr>)" for k' eid' clock' now' other
    unfolding index_seed_state seed_twice [OF refl] by simp
  show ?thesis
    by (rule exI [of _ ?st], intro conjI allI again index_seed_state)
      (simp_all add: seed_downloads [OF assms] keep seed_last_seen seed_ok,
       simp_all add: sanitize_snapshot_downloads_def seed_state_for_new_session_def Let_def empty_state_def)
qed

theorem failover_seed_witness:
  "\<exists>st'. index_seed_event list_rx (\<lambda>_. None) 0 ''e''
      (Some (seed_state_for_new_session list_rx 0 example_state (Some 9))) (empty_state list_rx) = Inr st' \<and>
     instances st' = [(''i'', example_instance)] \<and> runners st' = []"
  using failover_seed [of example_state list_rx "\<lambda>_. None" 0 "''e''" 0 9 "empty_state list_rx"]
  by (auto simp: example_state_def empty_state_def)

end
