(* ===== verification/Election.thy ===== *)
theory Election
  imports Cluster_State "HOL-Library.Product_Lexorder"
begin

text \<open>
  Master election, \<^verbatim>\<open>src/skulk/shared/election.py\<close>.

  The class runs three receivers and one task per campaign in one event loop, so its code is
  atomic between two suspension points.  The model has one operation per atomic segment: the body
  of each receiver loop, and for \<open>_campaign\<close> its start, the point where the previous campaign has
  ended, and its end (by time-out or by cancellation).  Candidate lists are shared by reference
  between the object and its campaigns; they live in a store of lists and are named by an index.
  Cancel scopes and done events are named by the campaign that owns them.  Messages and results
  that are sent are the operation's output.
\<close>

section \<open>Model\<close>

record election_message =
  em_clock :: int
  em_seniority :: int
  em_proposed_session :: session_id
  em_commands_seen :: int

definition em_lt :: "election_message \<Rightarrow> election_message \<Rightarrow> bool" where
  "em_lt a b =
     (if em_clock a \<noteq> em_clock b then em_clock a < em_clock b
      else if em_seniority a \<noteq> em_seniority b then em_seniority a < em_seniority b
      else if em_commands_seen a \<noteq> em_commands_seen b then em_commands_seen a < em_commands_seen b
      else master_node_id (em_proposed_session a) < master_node_id (em_proposed_session b))"

text \<open>Python's \<open>max\<close>: a later element replaces the best so far only when it is greater.\<close>

fun em_max :: "election_message list \<Rightarrow> election_message option" where
  "em_max [] = None"
| "em_max (m # ms) = Some (foldl (\<lambda>best x. if em_lt best x then x else best) m ms)"

record election_result =
  er_session_id :: session_id
  er_won_clock :: int
  er_is_new_master :: bool

datatype el_output = SendVote election_message | PublishResult election_result

datatype campaign_phase =
    Spawned
  | AwaitingDone int "nat option"
  | Sleeping int election_message
  | Closed

record campaign =
  cp_list :: nat
  cp_phase :: campaign_phase
  cp_cancelled :: bool

record election =
  el_seniority :: int
  el_clock :: int
  el_node_id :: node_id
  el_commands_seen :: int
  el_current_session :: session_id
  el_lists :: "election_message list list"
  el_candidates :: nat
  el_completed_election :: "election_message option"
  el_campaign_cancel_scope :: "nat option"
  el_campaign_done :: "nat option"
  el_connected_peers :: "(node_id, int) dict"
  el_campaigns :: "campaign list"
  el_pending_round :: "nat option option"

text \<open>\<open>__init__\<close> and the start of \<open>run\<close>, which calls the first campaign.\<close>

definition new_election :: "node_id \<Rightarrow> bool \<Rightarrow> int \<Rightarrow> election" where
  "new_election node is_candidate seniority =
     \<lparr>el_seniority = (if is_candidate then seniority else -1), el_clock = 0, el_node_id = node,
      el_commands_seen = 0, el_current_session = \<lparr>master_node_id = node, election_clock = 0\<rparr>,
      el_lists = [[]], el_candidates = 0, el_completed_election = None,
      el_campaign_cancel_scope = None, el_campaign_done = None, el_connected_peers = [],
      el_campaigns = [\<lparr>cp_list = 0, cp_phase = Spawned, cp_cancelled = False\<rparr>],
      el_pending_round = None\<rparr>"

definition elect :: "election_message \<Rightarrow> election \<Rightarrow> election \<times> el_output list" where
  "elect em st =
     (let is_new_master = em_proposed_session em \<noteq> el_current_session st
      in (st\<lparr>el_current_session := em_proposed_session em, el_completed_election := Some em\<rparr>,
          [PublishResult \<lparr>er_session_id = em_proposed_session em, er_won_clock = em_clock em,
             er_is_new_master = is_new_master\<rparr>]))"

text \<open>A new candidate list and a campaign over it.\<close>

definition start_campaign :: "election_message list \<Rightarrow> election \<Rightarrow> election" where
  "start_campaign msgs st =
     st\<lparr>el_lists := el_lists st @ [msgs], el_candidates := length (el_lists st),
        el_campaigns := el_campaigns st @
          [\<lparr>cp_list = length (el_lists st), cp_phase = Spawned, cp_cancelled = False\<rparr>]\<rparr>"

abbreviation candidates_of :: "election \<Rightarrow> election_message list" where
  "candidates_of st \<equiv> el_lists st ! el_candidates st"

definition append_candidate :: "nat \<Rightarrow> election_message \<Rightarrow> election \<Rightarrow> election" where
  "append_candidate l m st = st\<lparr>el_lists := (el_lists st)[l := el_lists st ! l @ [m]]\<rparr>"

text \<open>The body of the loop of \<open>_election_receiver\<close>.\<close>

definition election_receiver :: "election_message \<Rightarrow> election \<Rightarrow> election \<times> el_output list" where
  "election_receiver message st =
     (if master_node_id (em_proposed_session message) = el_node_id st then (st, [])
      else if em_clock message > el_clock st
      then (start_campaign [message] (st\<lparr>el_clock := em_clock message\<rparr>), [])
      else if em_clock message < el_clock st then (st, [])
      else if message \<in> set (candidates_of st) then (st, [])
      else let st' = append_candidate (el_candidates st) message st
           in case el_completed_election st' of
                None \<Rightarrow> (st', [])
              | Some completed \<Rightarrow>
                  if em_clock completed = em_clock message \<and> em_lt completed message
                  then elect message st' else (st', []))"

record connection_message =
  cm_node_id :: node_id
  cm_connected :: bool

definition apply_connection_update ::
  "node_id \<Rightarrow> (node_id, int) dict \<Rightarrow> connection_message \<Rightarrow> (node_id, int) dict" where
  "apply_connection_update node peers update =
     (if cm_node_id update = node then peers
      else let count = (case dict_get peers (cm_node_id update) of None \<Rightarrow> 0 | Some c \<Rightarrow> c)
           in if cm_connected update then dict_set (cm_node_id update) (count + 1) peers
              else if count - 1 > 0 then dict_set (cm_node_id update) (count - 1) peers
              else dict_pop (cm_node_id update) peers)"

definition apply_connection_updates :: "connection_message list \<Rightarrow> election \<Rightarrow> election \<times> bool" where
  "apply_connection_updates updates st =
     (let before = set (dict_keys (el_connected_peers st));
          peers = foldl (apply_connection_update (el_node_id st)) (el_connected_peers st) updates
      in (st\<lparr>el_connected_peers := peers\<rparr>, set (dict_keys peers) \<noteq> before))"

text \<open>
  \<open>_connection_receiver\<close>, up to the wait for the campaign in flight and after it.  Between the two
  the receiver takes no further message.
\<close>

definition connection_receiver :: "connection_message list \<Rightarrow> election \<Rightarrow> election" where
  "connection_receiver batch st =
     (let (st', changed) = apply_connection_updates batch st
      in if changed then st'\<lparr>el_pending_round := Some (el_campaign_done st')\<rparr> else st')"

definition is_done :: "election \<Rightarrow> nat option \<Rightarrow> bool" where
  "is_done st d = (case d of None \<Rightarrow> True | Some c \<Rightarrow> cp_phase (el_campaigns st ! c) = Closed)"

definition connection_round :: "election \<Rightarrow> election" where
  "connection_round st = start_campaign [] (st\<lparr>el_clock := el_clock st + 1, el_pending_round := None\<rparr>)"

definition command_counter :: "election \<Rightarrow> election" where
  "command_counter st = st\<lparr>el_commands_seen := el_commands_seen st + 1\<rparr>"

definition election_status :: "int \<Rightarrow> election \<Rightarrow> election_message" where
  "election_status c st =
     \<lparr>em_clock = c, em_seniority = el_seniority st,
      em_proposed_session = (if master_node_id (el_current_session st) = el_node_id st
                             then el_current_session st
                             else \<lparr>master_node_id = el_node_id st, election_clock = c\<rparr>),
      em_commands_seen = el_commands_seen st\<rparr>"

definition set_phase :: "nat \<Rightarrow> campaign_phase \<Rightarrow> election \<Rightarrow> election" where
  "set_phase c ph st = st\<lparr>el_campaigns := (el_campaigns st)[c := (el_campaigns st ! c)\<lparr>cp_phase := ph\<rparr>]\<rparr>"

definition cancel_scope :: "nat option \<Rightarrow> election \<Rightarrow> election" where
  "cancel_scope s st = (case s of None \<Rightarrow> st
     | Some c \<Rightarrow> st\<lparr>el_campaigns := (el_campaigns st)[c := (el_campaigns st ! c)\<lparr>cp_cancelled := True\<rparr>]\<rparr>)"

text \<open>\<open>_campaign\<close>: cancel the campaign that holds the scope and wait for the one that holds the
  done event.\<close>

definition campaign_start :: "nat \<Rightarrow> election \<Rightarrow> election" where
  "campaign_start c st =
     set_phase c (AwaitingDone (el_clock st) (el_campaign_done st)) (cancel_scope (el_campaign_cancel_scope st) st)"

text \<open>Take over scope and done event, cast the own vote and go to sleep.\<close>

definition campaign_enter :: "nat \<Rightarrow> int \<Rightarrow> election \<Rightarrow> election \<times> el_output list" where
  "campaign_enter c clock st =
     (let vote = election_status clock st;
          st1 = st\<lparr>el_campaign_done := Some c, el_campaign_cancel_scope := Some c\<rparr>;
          st2 = append_candidate (cp_list (el_campaigns st ! c)) vote st1
      in (set_phase c (Sleeping clock vote) st2, [SendVote vote]))"

text \<open>The \<open>finally\<close> block.\<close>

definition campaign_close :: "nat \<Rightarrow> election \<Rightarrow> election" where
  "campaign_close c st =
     set_phase c Closed
       (if el_campaign_cancel_scope st = Some c then st\<lparr>el_campaign_cancel_scope := None\<rparr> else st)"

text \<open>Time-out: vote again, elect the best candidate of the campaign's own list.\<close>

definition campaign_finish :: "nat \<Rightarrow> election_message \<Rightarrow> election \<Rightarrow> election \<times> el_output list" where
  "campaign_finish c vote st =
     (let candidates = el_lists st ! cp_list (el_campaigns st ! c)
      in case em_max candidates of
           None \<Rightarrow> (campaign_close c st, [SendVote vote])
         | Some elected \<Rightarrow>
             (let st1 = (if el_node_id st = master_node_id (em_proposed_session elected) \<and> el_seniority st \<ge> 0
                         then st\<lparr>el_seniority := max (el_seniority st) (int (length candidates))\<rparr> else st);
                  (st2, out) = elect elected st1
              in (campaign_close c st2, SendVote vote # out)))"

section \<open>Executions\<close>

datatype el_action =
    ReceiveVote election_message
  | ReceiveConnections "connection_message list"
  | BeginRound
  | CountCommand
  | StartCampaign nat
  | EnterCampaign nat
  | FinishCampaign nat
  | CancelledCampaign nat

definition phase_of :: "election \<Rightarrow> nat \<Rightarrow> campaign_phase option" where
  "phase_of st c = (if c < length (el_campaigns st) then Some (cp_phase (el_campaigns st ! c)) else None)"

text \<open>One atomic segment; \<open>None\<close> when the segment is not enabled.\<close>

fun el_step :: "el_action \<Rightarrow> election \<Rightarrow> (election \<times> el_output list) option" where
  "el_step (ReceiveVote m) st = Some (election_receiver m st)"
| "el_step (ReceiveConnections b) st =
     (if el_pending_round st = None \<and> b \<noteq> [] then Some (connection_receiver b st, []) else None)"
| "el_step BeginRound st =
     (case el_pending_round st of
        None \<Rightarrow> None
      | Some d \<Rightarrow> if is_done st d then Some (connection_round st, []) else None)"
| "el_step CountCommand st = Some (command_counter st, [])"
| "el_step (StartCampaign c) st =
     (if phase_of st c = Some Spawned then Some (campaign_start c st, []) else None)"
| "el_step (EnterCampaign c) st =
     (case phase_of st c of
        Some (AwaitingDone clock d) \<Rightarrow> if is_done st d then Some (campaign_enter c clock st) else None
      | _ \<Rightarrow> None)"
| "el_step (FinishCampaign c) st =
     (case phase_of st c of
        Some (Sleeping clock vote) \<Rightarrow>
          if \<not> cp_cancelled (el_campaigns st ! c) then Some (campaign_finish c vote st) else None
      | _ \<Rightarrow> None)"
| "el_step (CancelledCampaign c) st =
     (case phase_of st c of
        Some (Sleeping clock vote) \<Rightarrow>
          if cp_cancelled (el_campaigns st ! c) then Some (campaign_close c st, []) else None
      | _ \<Rightarrow> None)"

inductive el_reachable :: "election \<Rightarrow> election \<Rightarrow> bool" for init where
  start: "el_reachable init init"
| step: "el_reachable init st \<Longrightarrow> el_step a st = Some (st', out) \<Longrightarrow> el_reachable init st'"

fun el_run :: "el_action list \<Rightarrow> election \<Rightarrow> (election \<times> el_output list) option" where
  "el_run [] st = Some (st, [])"
| "el_run (a # as) st =
     (case el_step a st of None \<Rightarrow> None
      | Some (st1, out) \<Rightarrow> map_option (\<lambda>(st2, out2). (st2, out @ out2)) (el_run as st1))"

section \<open>The order on votes\<close>

definition em_key :: "election_message \<Rightarrow> int \<times> int \<times> int \<times> node_id" where
  "em_key m = (em_clock m, em_seniority m, em_commands_seen m, master_node_id (em_proposed_session m))"

lemma em_lt_key: "em_lt a b \<longleftrightarrow> em_key a < em_key b"
  by (auto simp: em_lt_def em_key_def less_prod_def)

lemma fold_max_key:
  "em_key (foldl (\<lambda>best x. if em_lt best x then x else best) m ms) = Max (em_key ` set (m # ms)) \<and>
     foldl (\<lambda>best x. if em_lt best x then x else best) m ms \<in> set (m # ms)"
proof (induction ms arbitrary: m)
  case (Cons x ms)
  have le: "em_key (if em_lt m x then x else m) = max (em_key m) (em_key x)"
    by (auto simp: em_lt_key max_def)
  have "Max (em_key ` set ((if em_lt m x then x else m) # ms)) = Max (em_key ` set (m # x # ms))"
  proof (cases "ms = []")
    case False
    then show ?thesis by (simp add: le max.assoc)
  qed (simp add: le)
  then show ?case using Cons.IH [of "if em_lt m x then x else m"] by (auto split: if_splits)
qed simp

lemma em_max_Some:
  assumes "em_max cs = Some m"
  shows "m \<in> set cs" "em_key m = Max (em_key ` set cs)"
  using assms fold_max_key by (cases cs; auto)+

lemma em_max_None: "em_max cs = None \<longleftrightarrow> cs = []"
  by (cases cs) auto

lemma em_max_ge: "em_max cs = Some m \<Longrightarrow> x \<in> set cs \<Longrightarrow> em_key x \<le> em_key m"
  by (simp add: em_max_Some)

section \<open>Late votes\<close>

text \<open>The votes of one round that reach a node, in order, through the receiver.\<close>

definition receive_votes :: "election_message list \<Rightarrow> election \<Rightarrow> election" where
  "receive_votes ms st = foldl (\<lambda>st m. fst (election_receiver m st)) st ms"

text \<open>\<open>st\<close> has finished the current round with the best of its candidates.\<close>

definition round_settled :: "election \<Rightarrow> bool" where
  "round_settled st \<longleftrightarrow> el_candidates st < length (el_lists st) \<and>
     (\<exists>e. el_completed_election st = Some e \<and> em_clock e = el_clock st \<and> e \<in> set (candidates_of st) \<and>
        em_key e = Max (em_key ` set (candidates_of st)) \<and> el_current_session st = em_proposed_session e)"

lemma receive_vote_settled:
  assumes "round_settled st" and "em_clock m = el_clock st"
    and "master_node_id (em_proposed_session m) \<noteq> el_node_id st"
  shows "round_settled (fst (election_receiver m st)) \<and>
     el_clock (fst (election_receiver m st)) = el_clock st \<and> el_node_id (fst (election_receiver m st)) = el_node_id st \<and>
     set (candidates_of (fst (election_receiver m st))) = insert m (set (candidates_of st))"
proof (cases "m \<in> set (candidates_of st)")
  case True
  then show ?thesis using assms by (auto simp: election_receiver_def)
next
  case False
  obtain e where e: "el_completed_election st = Some e" "em_clock e = el_clock st" "e \<in> set (candidates_of st)"
      "em_key e = Max (em_key ` set (candidates_of st))" "el_current_session st = em_proposed_session e"
      "el_candidates st < length (el_lists st)"
    using assms(1) by (auto simp: round_settled_def)
  have both: "Max (em_key ` insert m (set (candidates_of st))) = max (em_key m) (em_key e)"
    using e(3,4) by (auto simp: image_insert intro!: Max_insert)
  have old: "Max (em_key ` insert m (set (candidates_of st))) = em_key e" if "\<not> em_lt e m"
    using that unfolding both by (simp only: em_lt_key not_less max_absorb2)
  have new: "Max (em_key ` insert m (set (candidates_of st))) = em_key m" if "em_lt e m"
    using that unfolding both em_lt_key by (simp only: max_absorb1 less_imp_le)
  show ?thesis
    using assms(2,3) False e old new
    by (auto simp: election_receiver_def Let_def append_candidate_def elect_def round_settled_def)
qed

lemma receive_votes_settled:
  assumes "round_settled st"
    and "\<forall>m \<in> set ms. em_clock m = el_clock st \<and> master_node_id (em_proposed_session m) \<noteq> el_node_id st"
  shows "round_settled (receive_votes ms st) \<and>
     set (candidates_of (receive_votes ms st)) = set ms \<union> set (candidates_of st)"
  using assms
proof (induction ms arbitrary: st)
  case Nil
  then show ?case by (simp add: receive_votes_def)
next
  case (Cons m ms)
  have one: "round_settled (fst (election_receiver m st))" "el_clock (fst (election_receiver m st)) = el_clock st"
      "el_node_id (fst (election_receiver m st)) = el_node_id st"
      "set (candidates_of (fst (election_receiver m st))) = insert m (set (candidates_of st))"
    using receive_vote_settled [of st m] Cons.prems by auto
  have "receive_votes (m # ms) st = receive_votes ms (fst (election_receiver m st))"
    by (simp add: receive_votes_def)
  then show ?case using Cons.IH [OF one(1)] Cons.prems(2) one by auto
qed

lemma finish_settled:
  assumes "c < length (el_campaigns st)" "cp_list (el_campaigns st ! c) = el_candidates st"
    and "el_candidates st < length (el_lists st)" "candidates_of st \<noteq> []"
    and "\<forall>m \<in> set (candidates_of st). em_clock m = el_clock st"
  shows "round_settled (fst (campaign_finish c vote st)) \<and> el_clock (fst (campaign_finish c vote st)) = el_clock st \<and>
     el_node_id (fst (campaign_finish c vote st)) = el_node_id st \<and>
     candidates_of (fst (campaign_finish c vote st)) = candidates_of st"
proof -
  obtain e where e: "em_max (candidates_of st) = Some e" using assms(4) by (cases "em_max (candidates_of st)") (auto simp: em_max_None)
  show ?thesis
    using em_max_Some [OF e] assms e
    by (simp add: campaign_finish_def Let_def elect_def campaign_close_def set_phase_def round_settled_def)
qed

text \<open>Two nodes of one round: each ends its campaign on some of the votes and then receives others.\<close>

definition round_result :: "nat \<Rightarrow> election_message \<Rightarrow> election_message list \<Rightarrow> election \<Rightarrow> election" where
  "round_result c vote late st = receive_votes late (fst (campaign_finish c vote st))"

definition round_ready :: "nat \<Rightarrow> election_message list \<Rightarrow> election \<Rightarrow> bool" where
  "round_ready c late st \<longleftrightarrow> c < length (el_campaigns st) \<and> cp_list (el_campaigns st ! c) = el_candidates st \<and>
     el_candidates st < length (el_lists st) \<and> candidates_of st \<noteq> [] \<and>
     list_all (\<lambda>m. em_clock m = el_clock st) (candidates_of st) \<and>
     list_all (\<lambda>m. em_clock m = el_clock st \<and> master_node_id (em_proposed_session m) \<noteq> el_node_id st) late"

lemma round_result_best:
  assumes "round_ready c late st"
  shows "\<exists>e \<in> set late \<union> set (candidates_of st).
     el_completed_election (round_result c vote late st) = Some e \<and>
     el_current_session (round_result c vote late st) = em_proposed_session e \<and>
     em_key e = Max (em_key ` (set late \<union> set (candidates_of st)))"
proof -
  have fin: "round_settled (fst (campaign_finish c vote st))" "el_clock (fst (campaign_finish c vote st)) = el_clock st"
     "el_node_id (fst (campaign_finish c vote st)) = el_node_id st"
     "candidates_of (fst (campaign_finish c vote st)) = candidates_of st"
    using finish_settled [of c st vote] assms by (auto simp: round_ready_def list_all_iff)
  have "\<forall>m \<in> set late. em_clock m = el_clock (fst (campaign_finish c vote st)) \<and>
      master_node_id (em_proposed_session m) \<noteq> el_node_id (fst (campaign_finish c vote st))"
    using assms fin(2,3) by (simp add: round_ready_def list_all_iff)
  from receive_votes_settled [OF fin(1) this] fin(4) show ?thesis
    by (auto simp: round_result_def round_settled_def)
qed

text \<open>
  C8. The election converges.  Two nodes end their campaign for the same round, each on whatever
  votes it had by then, and the remaining votes arrive late, in any order and with repetitions.
  If in the end both have seen the same votes, both follow the same master: the proposer of the
  greatest vote.  They agree on the session too, provided no two votes of the round differ only in
  the session they propose.
\<close>

theorem election_converges:
  assumes "round_ready c1 late1 st1" and "round_ready c2 late2 st2"
    and "set late1 \<union> set (candidates_of st1) = set late2 \<union> set (candidates_of st2)"
  shows "master_node_id (el_current_session (round_result c1 v1 late1 st1)) =
           master_node_id (el_current_session (round_result c2 v2 late2 st2)) \<and>
         (inj_on em_key (set late1 \<union> set (candidates_of st1)) \<longrightarrow>
           el_current_session (round_result c1 v1 late1 st1) = el_current_session (round_result c2 v2 late2 st2))"
proof -
  obtain e1 where e1: "e1 \<in> set late1 \<union> set (candidates_of st1)"
      "el_current_session (round_result c1 v1 late1 st1) = em_proposed_session e1"
      "em_key e1 = Max (em_key ` (set late1 \<union> set (candidates_of st1)))"
    using round_result_best [OF assms(1), of v1] by blast
  obtain e2 where e2: "e2 \<in> set late1 \<union> set (candidates_of st1)"
      "el_current_session (round_result c2 v2 late2 st2) = em_proposed_session e2"
      "em_key e2 = Max (em_key ` (set late1 \<union> set (candidates_of st1)))"
    using round_result_best [OF assms(2), of v2] unfolding assms(3) by blast
  have key: "em_key e1 = em_key e2" using e1(3) e2(3) by simp
  then have "e1 = e2" if "inj_on em_key (set late1 \<union> set (candidates_of st1))"
    using that e1(1) e2(1) by (auto dest: inj_onD)
  with key e1(2) e2(2) show ?thesis by (auto simp: em_key_def)
qed

definition vote_a :: election_message where
  "vote_a = \<lparr>em_clock = 1, em_seniority = 0, em_proposed_session = \<lparr>master_node_id = ''a'', election_clock = 0\<rparr>,
     em_commands_seen = 0\<rparr>"

definition vote_b :: election_message where
  "vote_b = \<lparr>em_clock = 1, em_seniority = 2, em_proposed_session = \<lparr>master_node_id = ''b'', election_clock = 0\<rparr>,
     em_commands_seen = 0\<rparr>"

definition campaigning :: "node_id \<Rightarrow> election_message \<Rightarrow> election" where
  "campaigning n v = (new_election n True 0)\<lparr>el_clock := 1, el_lists := [[v]]\<rparr>"

theorem election_converges_witness:
  "master_node_id (el_current_session (round_result 0 vote_a [vote_b] (campaigning ''a'' vote_a))) =
   master_node_id (el_current_session (round_result 0 vote_b [vote_a, vote_a] (campaigning ''b'' vote_b)))"
proof -
  have "round_ready 0 [vote_b] (campaigning ''a'' vote_a)" by code_simp
  moreover have "round_ready 0 [vote_a, vote_a] (campaigning ''b'' vote_b)" by code_simp
  moreover have "set [vote_b] \<union> set (candidates_of (campaigning ''a'' vote_a)) =
      set [vote_a, vote_a] \<union> set (candidates_of (campaigning ''b'' vote_b))"
    by (auto simp: campaigning_def new_election_def)
  ultimately show ?thesis using election_converges by blast
qed

section \<open>Invariants of an execution\<close>

definition campaign_ok :: "election \<Rightarrow> campaign \<Rightarrow> bool" where
  "campaign_ok st cp \<longleftrightarrow> cp_list cp < length (el_lists st) \<and>
     (case cp_phase cp of
        Sleeping clock v \<Rightarrow> clock \<le> el_clock st \<and> v \<in> set (el_lists st ! cp_list cp)
      | AwaitingDone clock d \<Rightarrow> clock \<le> el_clock st
      | _ \<Rightarrow> True)"

definition peers_ok :: "node_id \<Rightarrow> (node_id, int) dict \<Rightarrow> bool" where
  "peers_ok node peers \<longleftrightarrow> dict_wf peers \<and> \<not> dict_has peers node \<and> (\<forall>(p, count) \<in> set peers. count > 0)"

definition election_ok :: "election \<Rightarrow> bool" where
  "election_ok st \<longleftrightarrow> el_candidates st < length (el_lists st) \<and>
     (\<forall>cp \<in> set (el_campaigns st). campaign_ok st cp) \<and>
     (\<forall>l \<in> set (el_lists st). \<forall>m \<in> set l. em_clock m \<le> el_clock st) \<and>
     (\<forall>e. el_completed_election st = Some e \<longrightarrow> em_clock e \<le> el_clock st \<and>
            el_current_session st = em_proposed_session e) \<and>
     peers_ok (el_node_id st) (el_connected_peers st)"

lemma election_ok_new: "election_ok (new_election n is_candidate s)"
  by (simp add: election_ok_def new_election_def campaign_ok_def peers_ok_def dict_has_def)

lemma set_update_subset: "set (xs[i := x]) \<subseteq> insert x (set xs)"
  by (rule set_update_subset_insert)

lemma list_append_mem: "l < length ls \<Longrightarrow> k < length ls \<Longrightarrow> x \<in> set (ls ! k) \<Longrightarrow>
    x \<in> set ((ls[l := ls ! l @ [m]]) ! k)"
  by (cases "k = l") auto

lemma append_candidate_ok:
  assumes "election_ok st" "l < length (el_lists st)" "em_clock m \<le> el_clock st"
  shows "election_ok (append_candidate l m st)"
proof -
  have "campaign_ok (append_candidate l m st) cp" if "cp \<in> set (el_campaigns st)" for cp
    using that assms list_append_mem [OF assms(2)]
    by (auto simp: election_ok_def campaign_ok_def append_candidate_def split: campaign_phase.splits)
  moreover have "em_clock x \<le> el_clock st"
    if "ys \<in> set ((el_lists st)[l := el_lists st ! l @ [m]])" "x \<in> set ys" for ys x
    using that set_update_subset_insert [of "el_lists st" l "el_lists st ! l @ [m]"] assms nth_mem [OF assms(2)]
    by (fastforce simp: election_ok_def)
  ultimately show ?thesis using assms(1) by (auto simp: election_ok_def append_candidate_def)
qed

lemma start_campaign_ok:
  assumes "election_ok st" "el_clock st \<le> k" "\<forall>m \<in> set msgs. em_clock m \<le> k"
  shows "election_ok (start_campaign msgs (st\<lparr>el_clock := k, el_pending_round := r\<rparr>))"
proof -
  have "campaign_ok (start_campaign msgs (st\<lparr>el_clock := k, el_pending_round := r\<rparr>)) cp"
    if "cp \<in> set (el_campaigns st)" for cp
    using that assms(1,2)
    by (fastforce simp: election_ok_def campaign_ok_def start_campaign_def nth_append split: campaign_phase.splits)
  then show ?thesis using assms by (fastforce simp: election_ok_def start_campaign_def campaign_ok_def)
qed

lemma elect_ok:
  "election_ok st \<Longrightarrow> em_clock m \<le> el_clock st \<Longrightarrow> election_ok (fst (elect m st))"
  by (auto simp: election_ok_def elect_def Let_def campaign_ok_def split: campaign_phase.splits)

lemma set_phase_ok:
  assumes "election_ok st" "c < length (el_campaigns st)"
    and "campaign_ok st ((el_campaigns st ! c)\<lparr>cp_phase := ph\<rparr>)"
  shows "election_ok (set_phase c ph st)"
proof -
  have same: "campaign_ok (set_phase c ph st) = campaign_ok st"
    by (auto simp: campaign_ok_def set_phase_def fun_eq_iff split: campaign_phase.splits)
  have "\<forall>cp \<in> set (el_campaigns (set_phase c ph st)). campaign_ok st cp"
    using assms set_update_subset_insert [of "el_campaigns st" c] by (fastforce simp: set_phase_def election_ok_def)
  then show ?thesis using assms(1) by (simp add: election_ok_def same) (simp add: set_phase_def)
qed

lemma cancel_scope_ok: "election_ok st \<Longrightarrow> election_ok (cancel_scope s st)"
proof (cases s)
  case (Some c)
  assume ok: "election_ok st"
  let ?cp = "(el_campaigns st ! c)\<lparr>cp_cancelled := True\<rparr>"
  have same: "campaign_ok (cancel_scope s st) = campaign_ok st"
    by (auto simp: campaign_ok_def cancel_scope_def fun_eq_iff split: campaign_phase.splits option.split)
  have "\<forall>cp \<in> set (el_campaigns (cancel_scope s st)). campaign_ok st cp"
  proof (cases "c < length (el_campaigns st)")
    case True
    then have "campaign_ok st (el_campaigns st ! c)" using ok by (simp add: election_ok_def)
    then have "campaign_ok st ?cp" by (simp add: campaign_ok_def split: campaign_phase.splits)
    then show ?thesis using ok Some set_update_subset_insert [of "el_campaigns st" c ?cp]
      by (fastforce simp: cancel_scope_def election_ok_def)
  next
    case False
    then show ?thesis using ok Some by (simp add: cancel_scope_def election_ok_def list_update_beyond)
  qed
  then show ?thesis using ok by (simp add: election_ok_def same) (simp add: cancel_scope_def Some)
qed (simp add: cancel_scope_def)

lemma election_ok_simps [simp]:
  "election_ok (st\<lparr>el_seniority := s\<rparr>) = election_ok st"
  "election_ok (st\<lparr>el_commands_seen := n\<rparr>) = election_ok st"
  "election_ok (st\<lparr>el_pending_round := r\<rparr>) = election_ok st"
  "election_ok (st\<lparr>el_campaign_cancel_scope := sc\<rparr>) = election_ok st"
  "election_ok (st\<lparr>el_campaign_done := d\<rparr>) = election_ok st"
  "election_ok (st\<lparr>el_campaign_done := d, el_campaign_cancel_scope := sc\<rparr>) = election_ok st"
  by (simp_all add: election_ok_def campaign_ok_def cong: campaign_phase.case_cong)

lemma election_ok_peers:
  "election_ok st \<Longrightarrow> peers_ok (el_node_id st) ps \<Longrightarrow> election_ok (st\<lparr>el_connected_peers := ps\<rparr>)"
  by (simp add: election_ok_def campaign_ok_def cong: campaign_phase.case_cong)

lemma phase_of_Some: "phase_of st c = Some ph \<longleftrightarrow> c < length (el_campaigns st) \<and> cp_phase (el_campaigns st ! c) = ph"
  by (simp add: phase_of_def)

lemma phase_ok: "election_ok st \<Longrightarrow> phase_of st c = Some ph \<Longrightarrow> campaign_ok st (el_campaigns st ! c)"
  by (auto simp: phase_of_Some election_ok_def)

lemma receiver_ok: "election_ok st \<Longrightarrow> election_ok (fst (election_receiver m st))"
proof -
  assume ok: "election_ok st"
  have app: "election_ok (append_candidate (el_candidates st) m st)" if "em_clock m = el_clock st"
    using ok that by (intro append_candidate_ok) (auto simp: election_ok_def)
  have "election_ok (start_campaign [m] (st\<lparr>el_clock := em_clock m\<rparr>))" if "el_clock st < em_clock m"
    using start_campaign_ok [OF ok, of "em_clock m" "[m]" "el_pending_round st"] that by simp
  then show ?thesis
    using ok app elect_ok [of "append_candidate (el_candidates st) m st" m]
    by (auto simp: election_receiver_def Let_def append_candidate_def split: option.splits)
qed

lemma peers_ok_iff:
  "peers_ok node peers \<longleftrightarrow> dict_wf peers \<and> \<not> dict_has peers node \<and> (\<forall>p c. dict_get peers p = Some c \<longrightarrow> c > 0)"
  by (auto simp: peers_ok_def dict_wf_def)

lemma peers_ok_update: "peers_ok node peers \<Longrightarrow> peers_ok node (apply_connection_update node peers u)"
  by (auto simp: peers_ok_iff apply_connection_update_def Let_def split: option.splits)
     (smt (verit, best))+

lemma connection_receiver_ok: "election_ok st \<Longrightarrow> election_ok (connection_receiver b st)"
proof -
  assume ok: "election_ok st"
  have "peers_ok node peers \<Longrightarrow> peers_ok node (foldl (apply_connection_update node) peers b)" for node peers
    by (induction b arbitrary: peers) (simp_all add: peers_ok_update)
  then have "election_ok (fst (apply_connection_updates b st))"
    using ok election_ok_peers [OF ok] by (simp add: apply_connection_updates_def Let_def election_ok_def)
  then show ?thesis
    by (auto simp: connection_receiver_def Let_def split: prod.splits)
qed

lemma campaign_start_ok:
  assumes "election_ok st" "phase_of st c = Some Spawned"
  shows "election_ok (campaign_start c st)"
  unfolding campaign_start_def
proof (rule set_phase_ok)
  let ?st = "cancel_scope (el_campaign_cancel_scope st) st"
  show ok: "election_ok ?st" using assms(1) by (rule cancel_scope_ok)
  show c: "c < length (el_campaigns ?st)"
    using assms(2) by (auto simp: cancel_scope_def phase_of_Some split: option.split)
  show "campaign_ok ?st ((el_campaigns ?st ! c)\<lparr>cp_phase := AwaitingDone (el_clock st) (el_campaign_done st)\<rparr>)"
    using ok c nth_mem [OF c] by (auto simp: election_ok_def campaign_ok_def)
      (auto simp: cancel_scope_def split: option.split)
qed

lemma campaign_enter_ok:
  assumes "election_ok st" "phase_of st c = Some (AwaitingDone k d)"
  shows "election_ok (fst (campaign_enter c k st))"
proof -
  let ?v = "election_status k st" and ?l = "cp_list (el_campaigns st ! c)"
  let ?st1 = "st\<lparr>el_campaign_done := Some c, el_campaign_cancel_scope := Some c\<rparr>"
  let ?st2 = "append_candidate ?l ?v ?st1"
  have cp: "?l < length (el_lists st)" "k \<le> el_clock st" "c < length (el_campaigns st)"
    using phase_ok [OF assms] assms(2) by (auto simp: campaign_ok_def phase_of_Some)
  have "election_ok ?st1" using assms(1) by simp
  then have ok2: "election_ok ?st2"
    using cp by (intro append_candidate_ok) (auto simp: election_status_def)
  have "election_ok (set_phase c (Sleeping k ?v) ?st2)"
    by (rule set_phase_ok [OF ok2]) (use cp in \<open>simp_all add: append_candidate_def campaign_ok_def\<close>)
  then show ?thesis by (simp add: campaign_enter_def Let_def)
qed

lemma campaign_close_ok:
  assumes "election_ok st" "c < length (el_campaigns st)"
  shows "election_ok (campaign_close c st)"
proof -
  let ?st = "if el_campaign_cancel_scope st = Some c then st\<lparr>el_campaign_cancel_scope := None\<rparr> else st"
  have ok: "election_ok ?st" using assms(1) by simp
  have "campaign_ok ?st ((el_campaigns ?st ! c)\<lparr>cp_phase := Closed\<rparr>)"
    using assms by (auto simp: election_ok_def campaign_ok_def)
  then show ?thesis unfolding campaign_close_def using ok assms(2) by (intro set_phase_ok) auto
qed

lemma campaign_finish_ok:
  assumes "election_ok st" "phase_of st c = Some (Sleeping k v)"
  shows "election_ok (fst (campaign_finish c v st))"
proof -
  let ?l = "el_lists st ! cp_list (el_campaigns st ! c)"
  have cp: "v \<in> set ?l" "cp_list (el_campaigns st ! c) < length (el_lists st)" "c < length (el_campaigns st)"
    using phase_ok [OF assms] assms(2) by (auto simp: campaign_ok_def phase_of_Some)
  then obtain e where e: "em_max ?l = Some e" by (cases "em_max ?l") (auto simp: em_max_None)
  have clock: "em_clock e \<le> el_clock st"
    using em_max_Some(1) [OF e] assms(1) cp(2) by (auto simp: election_ok_def)
  define st1 where "st1 = (if el_node_id st = master_node_id (em_proposed_session e) \<and> el_seniority st \<ge> 0
                         then st\<lparr>el_seniority := max (el_seniority st) (int (length ?l))\<rparr> else st)"
  have "election_ok st1" "el_clock st1 = el_clock st" "el_campaigns st1 = el_campaigns st"
    using assms(1) by (auto simp: st1_def)
  then have "election_ok (fst (elect e st1))" "c < length (el_campaigns (fst (elect e st1)))"
    using clock cp(3) by (auto intro: elect_ok) (simp add: elect_def Let_def)
  then have "election_ok (campaign_close c (fst (elect e st1)))" by (rule campaign_close_ok)
  then show ?thesis
    using e by (simp add: campaign_finish_def Let_def st1_def case_prod_beta)
qed

lemma step_ok:
  assumes "election_ok st" "el_step a st = Some (st', out)"
  shows "election_ok st'"
proof (cases a)
  case (ReceiveVote m)
  then show ?thesis using assms receiver_ok [OF assms(1), of m] by auto
next
  case (ReceiveConnections b)
  then show ?thesis using assms connection_receiver_ok by (auto split: if_splits)
next
  case BeginRound
  then show ?thesis
    using assms start_campaign_ok [OF assms(1), of "el_clock st + 1" "[]" None]
    by (auto simp: connection_round_def split: option.splits if_splits)
next
  case CountCommand
  then show ?thesis using assms by (auto simp: command_counter_def)
next
  case (StartCampaign c)
  then show ?thesis using assms campaign_start_ok by (auto split: if_splits)
next
  case (EnterCampaign c)
  then show ?thesis using assms campaign_enter_ok [OF assms(1)]
    by (auto split: option.splits campaign_phase.splits if_splits) (metis fst_conv)
next
  case (FinishCampaign c)
  then show ?thesis using assms campaign_finish_ok [OF assms(1)]
    by (auto split: option.splits campaign_phase.splits if_splits) (metis fst_conv)
next
  case (CancelledCampaign c)
  then show ?thesis using assms campaign_close_ok [OF assms(1)]
    by (auto simp: phase_of_Some split: option.splits campaign_phase.splits if_splits)
qed

lemma reachable_ok: "el_reachable (new_election n b s) st \<Longrightarrow> election_ok st"
  by (induction rule: el_reachable.induct) (auto simp: election_ok_new intro: step_ok)

text \<open>The own identity never changes, the clock never falls, and the seniority of a node that is no
  candidate stays negative while that of a candidate never falls.\<close>

definition progressed :: "election \<Rightarrow> election \<Rightarrow> bool" where
  "progressed st st' \<longleftrightarrow> el_node_id st' = el_node_id st \<and> el_clock st \<le> el_clock st' \<and>
     (if el_seniority st < 0 then el_seniority st' = el_seniority st else el_seniority st \<le> el_seniority st')"

lemma progressed_trans: "progressed a b \<Longrightarrow> progressed b c \<Longrightarrow> progressed a c"
  by (auto simp: progressed_def split: if_splits)

lemmas segment_defs = election_receiver_def start_campaign_def append_candidate_def elect_def
  connection_receiver_def apply_connection_updates_def connection_round_def command_counter_def
  campaign_start_def campaign_enter_def campaign_close_def campaign_finish_def set_phase_def cancel_scope_def

lemma step_progressed: "el_step a st = Some (st', out) \<Longrightarrow> progressed st st'"
  by (cases a) (auto simp: progressed_def segment_defs Let_def
      split: if_splits option.splits campaign_phase.splits prod.splits)

lemma reachable_progressed: "el_reachable init st \<Longrightarrow> progressed init st"
proof (induction rule: el_reachable.induct)
  case (step st a st' out)
  then show ?case using progressed_trans step_progressed by blast
qed (simp add: progressed_def)

text \<open>
  C29. What every execution of the election keeps, under every interleaving of messages, connection
  updates, commands and campaign tasks: the clock never runs backwards; no stored vote and no
  elected vote is from a later round than the clock; the current session is the one proposed by
  the elected vote; a campaign that times out always has a candidate to elect, its own vote at
  least; a node that may not become master keeps seniority -1 and a candidate never loses
  seniority; a peer is tracked exactly while its connection count is positive, and the node never
  tracks itself.
\<close>

theorem election_execution_invariant:
  assumes "el_reachable (new_election n is_candidate s) st"
  shows "0 \<le> el_clock st \<and>
    (\<forall>l \<in> set (el_lists st). \<forall>m \<in> set l. em_clock m \<le> el_clock st) \<and>
    (\<forall>e. el_completed_election st = Some e \<longrightarrow>
       em_clock e \<le> el_clock st \<and> el_current_session st = em_proposed_session e) \<and>
    (\<forall>c k v. phase_of st c = Some (Sleeping k v) \<longrightarrow>
       v \<in> set (el_lists st ! cp_list (el_campaigns st ! c))) \<and>
    (\<not> is_candidate \<longrightarrow> el_seniority st = -1) \<and>
    (is_candidate \<and> 0 \<le> s \<longrightarrow> s \<le> el_seniority st) \<and>
    peers_ok n (el_connected_peers st)"
proof -
  have ok: "election_ok st" using assms by (rule reachable_ok)
  have pr: "progressed (new_election n is_candidate s) st" using assms by (rule reachable_progressed)
  have "v \<in> set (el_lists st ! cp_list (el_campaigns st ! c))" if "phase_of st c = Some (Sleeping k v)" for c k v
    using phase_ok [OF ok that] that by (simp add: campaign_ok_def phase_of_Some)
  with ok pr show ?thesis
    by (auto simp: election_ok_def progressed_def new_election_def)
qed

definition started_election :: election where
  "started_election = campaign_start 0 (new_election ''a'' False 0)"

theorem election_execution_invariant_witness:
  "el_reachable (new_election ''a'' False 0) started_election \<and> el_seniority started_election = -1"
proof -
  have "el_step (StartCampaign 0) (new_election ''a'' False 0) = Some (started_election, [])"
    unfolding started_election_def by (simp add: phase_of_def new_election_def)
  then have "el_reachable (new_election ''a'' False 0) started_election"
    by (rule el_reachable.step [OF el_reachable.start])
  then show ?thesis using election_execution_invariant by blast
qed

section \<open>Connection counting\<close>

text \<open>The number of live connections to a peer, counted from the updates alone; a close without an
  open does not make it negative.\<close>

definition count_connections :: "node_id \<Rightarrow> int \<Rightarrow> connection_message list \<Rightarrow> int" where
  "count_connections p k us =
     foldl (\<lambda>k u. if cm_node_id u \<noteq> p then k else if cm_connected u then k + 1 else max 0 (k - 1)) k us"

definition peer_count :: "(node_id, int) dict \<Rightarrow> node_id \<Rightarrow> int" where
  "peer_count peers p = (case dict_get peers p of None \<Rightarrow> 0 | Some k \<Rightarrow> k)"

lemma peer_count_update:
  assumes "peers_ok node peers" "p \<noteq> node"
  shows "peer_count (apply_connection_update node peers u) p = count_connections p (peer_count peers p) [u]"
  using assms by (auto simp: peer_count_def apply_connection_update_def count_connections_def Let_def peers_ok_iff
      split: option.splits)

lemma peer_count_updates:
  assumes "peers_ok node peers" "p \<noteq> node"
  shows "peer_count (foldl (apply_connection_update node) peers us) p = count_connections p (peer_count peers p) us"
  using assms
proof (induction us arbitrary: peers)
  case (Cons u us)
  then show ?case
    using peer_count_update [OF Cons.prems, of u] peers_ok_update [OF Cons.prems(1), of u]
    by (simp add: count_connections_def)
qed (simp add: count_connections_def)

lemma peers_ok_present: "peers_ok node peers \<Longrightarrow> dict_has peers p \<longleftrightarrow> 0 < peer_count peers p"
  by (auto simp: peers_ok_iff dict_has_def peer_count_def split: option.splits)

lemma peers_ok_updates: "peers_ok node peers \<Longrightarrow> peers_ok node (foldl (apply_connection_update node) peers us)"
  by (induction us arbitrary: peers) (simp_all add: peers_ok_update)

text \<open>
  Only a real change of membership starts an election.  The count kept for a peer is its number
  of live connections, and a batch of connection updates is reported as a change exactly when some
  other node went from no connection to at least one or back; opening or closing further
  connections of a multi-homed peer, or an unmatched close, is not a change.
\<close>

theorem membership_change_detected:
  assumes "peers_ok (el_node_id st) (el_connected_peers st)"
  shows "snd (apply_connection_updates us st) \<longleftrightarrow>
     (\<exists>p. p \<noteq> el_node_id st \<and> (0 < peer_count (el_connected_peers st) p) \<noteq>
          (0 < count_connections p (peer_count (el_connected_peers st) p) us))"
proof -
  let ?old = "el_connected_peers st" and ?node = "el_node_id st"
  let ?new = "foldl (apply_connection_update ?node) ?old us"
  have ok: "peers_ok ?node ?new" using assms by (rule peers_ok_updates)
  have "snd (apply_connection_updates us st) \<longleftrightarrow> (\<exists>p. dict_has ?old p \<noteq> dict_has ?new p)"
    unfolding dict_has_iff_keys by (auto simp: apply_connection_updates_def Let_def)
  also have "\<dots> \<longleftrightarrow> (\<exists>p. p \<noteq> ?node \<and> dict_has ?old p \<noteq> dict_has ?new p)"
    using assms ok unfolding peers_ok_def by metis
  also have "\<dots> \<longleftrightarrow> (\<exists>p. p \<noteq> ?node \<and> (0 < peer_count ?old p) \<noteq>
          (0 < count_connections p (peer_count ?old p) us))"
    using peers_ok_present [OF assms] peers_ok_present [OF ok] peer_count_updates [OF assms] by auto
  finally show ?thesis .
qed

theorem membership_change_detected_witness:
  "snd (apply_connection_updates [\<lparr>cm_node_id = ''b'', cm_connected = True\<rparr>, \<lparr>cm_node_id = ''b'', cm_connected = False\<rparr>]
     (new_election ''a'' True 0)) \<longleftrightarrow> False"
proof -
  have "peers_ok (el_node_id (new_election ''a'' True 0)) (el_connected_peers (new_election ''a'' True 0))"
    by (simp add: peers_ok_def new_election_def dict_has_def)
  then show ?thesis
    by (subst membership_change_detected) (auto simp: count_connections_def peer_count_def new_election_def)
qed

section \<open>A campaign that is not cancelled\<close>

text \<open>Two votes of newer rounds reach a node while its campaign \<open>c\<close> sleeps, and the campaigns they start begin before
  \<open>c\<close> has wound down.  Each action is enabled whenever the node is in that situation.\<close>

definition overtaking_run :: "nat \<Rightarrow> election_message \<Rightarrow> election_message \<Rightarrow> election \<Rightarrow> el_action list" where
  "overtaking_run c a b st =
     (let i = length (el_campaigns st)
      in [ReceiveVote a, StartCampaign i, ReceiveVote b, StartCampaign (Suc i),
          CancelledCampaign c, EnterCampaign i, EnterCampaign (Suc i), FinishCampaign i])"

lemmas campaign_defs = election_receiver_def start_campaign_def campaign_start_def cancel_scope_def set_phase_def campaign_close_def
  campaign_enter_def append_candidate_def phase_of_def is_done_def

lemma overtaking_waits:
  assumes "phase_of st c = Some (Sleeping k v)" "el_campaign_cancel_scope st = Some c" "el_campaign_done st = Some c"
    "el_clock st < em_clock a" "em_clock a < em_clock b"
    "master_node_id (em_proposed_session a) \<noteq> el_node_id st" "master_node_id (em_proposed_session b) \<noteq> el_node_id st"
  defines "i \<equiv> length (el_campaigns st)" and "l \<equiv> length (el_lists st)"
  shows "\<exists>st1 out. el_run [ReceiveVote a, StartCampaign i, ReceiveVote b, StartCampaign (Suc i), CancelledCampaign c] st = Some (st1, out) \<and>
    el_clock st1 = em_clock b \<and> el_node_id st1 = el_node_id st \<and> length (el_campaigns st1) = Suc (Suc i) \<and>
    length (el_lists st1) = Suc (Suc l) \<and> el_lists st1 ! l = [a] \<and>
    el_campaigns st1 ! i = \<lparr>cp_list = l, cp_phase = AwaitingDone (em_clock a) (Some c), cp_cancelled = False\<rparr> \<and>
    el_campaigns st1 ! Suc i = \<lparr>cp_list = Suc l, cp_phase = AwaitingDone (em_clock b) (Some c), cp_cancelled = False\<rparr> \<and>
    c < i \<and> cp_phase (el_campaigns st1 ! c) = Closed"
  using assms by (auto simp: campaign_defs nth_append nth_list_update Let_def split: if_splits)

lemma overtaken_elects:
  assumes "length (el_campaigns st) = Suc (Suc i)" "length (el_lists st) = Suc (Suc l)" "el_lists st ! l = [a]"
    "el_campaigns st ! i = \<lparr>cp_list = l, cp_phase = AwaitingDone (em_clock a) (Some c), cp_cancelled = False\<rparr>"
    "el_campaigns st ! Suc i = \<lparr>cp_list = Suc l, cp_phase = AwaitingDone k (Some c), cp_cancelled = False\<rparr>"
    "c < i" "cp_phase (el_campaigns st ! c) = Closed"
  shows "\<exists>st' out r e. el_run [EnterCampaign i, EnterCampaign (Suc i), FinishCampaign i] st = Some (st', out) \<and> el_clock st' = el_clock st \<and>
    PublishResult r \<in> set out \<and> er_won_clock r = em_clock a \<and> em_max [a, election_status (em_clock a) st] = Some e \<and>
    er_session_id r = em_proposed_session e \<and> el_current_session st' = er_session_id r"
  using assms
  by (auto simp: campaign_defs campaign_finish_def elect_def election_status_def nth_append nth_list_update Let_def)

lemma el_run_append:
  "el_run (as @ bs) st = (case el_run as st of None \<Rightarrow> None
     | Some (st1, out) \<Rightarrow> map_option (\<lambda>(st2, out2). (st2, out @ out2)) (el_run bs st1))"
  by (induction as arbitrary: st)
    (auto simp: option.map_comp option.map_id o_def split: option.splits prod.splits intro!: option.map_cong)

text \<open>
  C37. A superseded campaign can still elect.  \<open>_campaign\<close> cancels only the campaign that holds the scope when it starts.
  Whenever votes of two newer rounds reach a node whose campaign still sleeps, both new campaigns can start before the old
  one has wound down, and then both wait for it; on waking, the first takes the scope and the second overwrites it without
  cancelling the first.  The execution is possible from every such state and for all such votes: the node is in the
  round of the second vote, yet the campaign of the first round completes and publishes a master of the first round.
\<close>

theorem superseded_campaign_elects:
  assumes "phase_of st c = Some (Sleeping k v)" "el_campaign_cancel_scope st = Some c" "el_campaign_done st = Some c"
    "el_clock st < em_clock a" "em_clock a < em_clock b"
    "master_node_id (em_proposed_session a) \<noteq> el_node_id st" "master_node_id (em_proposed_session b) \<noteq> el_node_id st"
  shows "\<exists>st' out r. el_run (overtaking_run c a b st) st = Some (st', out) \<and> PublishResult r \<in> set out \<and>
    er_won_clock r = em_clock a \<and> el_clock st' = em_clock b \<and> el_current_session st' = er_session_id r"
proof -
  let ?i = "length (el_campaigns st)"
  obtain st1 out1 where w: "el_run [ReceiveVote a, StartCampaign ?i, ReceiveVote b, StartCampaign (Suc ?i), CancelledCampaign c] st = Some (st1, out1)"
      "el_clock st1 = em_clock b" "length (el_campaigns st1) = Suc (Suc ?i)" "length (el_lists st1) = Suc (Suc (length (el_lists st)))"
      "el_lists st1 ! length (el_lists st) = [a]"
      "el_campaigns st1 ! ?i = \<lparr>cp_list = length (el_lists st), cp_phase = AwaitingDone (em_clock a) (Some c), cp_cancelled = False\<rparr>"
      "el_campaigns st1 ! Suc ?i = \<lparr>cp_list = Suc (length (el_lists st)), cp_phase = AwaitingDone (em_clock b) (Some c), cp_cancelled = False\<rparr>"
      "c < ?i" "cp_phase (el_campaigns st1 ! c) = Closed"
    using overtaking_waits [OF assms] by blast
  obtain st' out r where e: "el_run [EnterCampaign ?i, EnterCampaign (Suc ?i), FinishCampaign ?i] st1 = Some (st', out)"
      "el_clock st' = el_clock st1" "PublishResult r \<in> set out" "er_won_clock r = em_clock a" "el_current_session st' = er_session_id r"
    using overtaken_elects [OF w(3-9)] by blast
  have "overtaking_run c a b st = [ReceiveVote a, StartCampaign ?i, ReceiveVote b, StartCampaign (Suc ?i), CancelledCampaign c]
      @ [EnterCampaign ?i, EnterCampaign (Suc ?i), FinishCampaign ?i]" by (simp add: overtaking_run_def Let_def)
  then have "el_run (overtaking_run c a b st) st = Some (st', out1 @ out)"
    by (simp only: el_run_append w(1) e(1) option.case prod.case option.map)
  then show ?thesis using e w(2) by auto
qed

definition vote_for :: "node_id \<Rightarrow> int \<Rightarrow> election_message" where
  "vote_for n k = \<lparr>em_clock = k, em_seniority = 1,
     em_proposed_session = \<lparr>master_node_id = n, election_clock = k\<rparr>, em_commands_seen = 0\<rparr>"

text \<open>The first campaign of a node sleeps.\<close>

definition sleeping_election :: election where
  "sleeping_election = fst (the (el_run [StartCampaign 0, EnterCampaign 0] (new_election ''c'' True 0)))"

lemma sleeping_fields:
  "el_campaign_cancel_scope sleeping_election = Some 0" "el_campaign_done sleeping_election = Some 0" "el_clock sleeping_election = 0"
  "el_node_id sleeping_election = ''c''"
  by code_simp+

theorem superseded_campaign_elects_witness:
  "el_reachable (new_election ''c'' True 0) sleeping_election \<and>
   (\<exists>st' out r. el_run (overtaking_run 0 (vote_for ''a'' 5) (vote_for ''b'' 6) sleeping_election) sleeping_election = Some (st', out) \<and>
      PublishResult r \<in> set out \<and> er_won_clock r = 5 \<and> el_clock st' = 6 \<and> el_current_session st' = er_session_id r)"
proof
  let ?init = "new_election ''c'' True 0"
  have run: "el_step (StartCampaign 0) ?init = Some (campaign_start 0 ?init, [])"
      "el_step (EnterCampaign 0) (campaign_start 0 ?init) = Some (sleeping_election, [SendVote (election_status 0 (campaign_start 0 ?init))])"
    by code_simp+
  show "el_reachable ?init sleeping_election"
    by (rule el_reachable.step [OF el_reachable.step [OF el_reachable.start run(1)] run(2)])
  have "phase_of sleeping_election 0 = Some (Sleeping 0 (election_status 0 (campaign_start 0 ?init)))" by code_simp
  from superseded_campaign_elects [OF this, of "vote_for ''a'' 5" "vote_for ''b'' 6"]
  show "\<exists>st' out r. el_run (overtaking_run 0 (vote_for ''a'' 5) (vote_for ''b'' 6) sleeping_election) sleeping_election = Some (st', out) \<and>
      PublishResult r \<in> set out \<and> er_won_clock r = 5 \<and> el_clock st' = 6 \<and> el_current_session st' = er_session_id r"
    by (simp add: vote_for_def sleeping_fields)
qed

end
