(* ===== verification/Floating.thy ===== *)
theory Floating
  imports Complex_Main "HOL-Library.Log_Nat"
begin

text \<open>
  Python numbers as the placement code uses them.  A float is a rational; an operation on floats is the
  exact operation followed by rounding, the function \<open>fl\<close> of the models.  What their proofs use of it is the
  locale \<open>double_arith\<close>: a relative error of at most one unit roundoff, which holds of IEEE double
  precision wherever nothing over- or underflows.  It is interpreted on rounding to 53 significant
  bits.
\<close>

section \<open>Python's conversions\<close>

text \<open>\<open>round(x)\<close>: to the nearest integer, ties to even.\<close>

definition py_round :: "rat \<Rightarrow> int" where
  "py_round x = (let f = \<lfloor>x\<rfloor>; r = x - of_int f
     in if r < 1/2 then f else if r > 1/2 then f + 1 else if even f then f else f + 1)"

text \<open>\<open>int(x)\<close> on a float: truncation toward zero.\<close>

definition py_int :: "rat \<Rightarrow> int" where
  "py_int x = (if x \<ge> 0 then \<lfloor>x\<rfloor> else \<lceil>x\<rceil>)"

lemma py_round_error: "\<bar>of_int (py_round x) - x\<bar> \<le> 1/2"
proof -
  have "of_int \<lfloor>x\<rfloor> \<le> x" "x < of_int \<lfloor>x\<rfloor> + 1" by linarith+
  then show ?thesis unfolding py_round_def Let_def by (auto simp: abs_le_iff)
qed

lemma py_round_int [simp]: "py_round (of_int n) = n"
  by (simp add: py_round_def Let_def)

lemma py_round_mono: "x \<le> y \<Longrightarrow> py_round x \<le> py_round y"
proof -
  assume le: "x \<le> y"
  show ?thesis
  proof (cases "\<lfloor>x\<rfloor> = \<lfloor>y\<rfloor>")
    case True
    then show ?thesis using le by (auto simp: py_round_def Let_def)
  next
    case False
    then have "\<lfloor>x\<rfloor> + 1 \<le> \<lfloor>y\<rfloor>" using floor_mono [OF le] by linarith
    moreover have "py_round x \<le> \<lfloor>x\<rfloor> + 1" "\<lfloor>y\<rfloor> \<le> py_round y" by (auto simp: py_round_def Let_def)
    ultimately show ?thesis by linarith
  qed
qed

lemma py_round_ge: "of_int n \<le> x \<Longrightarrow> n \<le> py_round x"
  using py_round_mono [of "of_int n" x] by simp

lemma py_round_le: "x \<le> of_int n \<Longrightarrow> py_round x \<le> n"
  using py_round_mono [of x "of_int n"] by simp

section \<open>Rounded arithmetic\<close>

definition unit_roundoff :: rat where
  "unit_roundoff = 1 / 2 ^ 53"

lemma unit_roundoff_bounds: "0 < unit_roundoff" "unit_roundoff \<le> 1 / 1000"
  by (simp_all add: unit_roundoff_def)

locale double_arith =
  fixes fl :: "rat \<Rightarrow> rat"
  assumes fl_error: "\<bar>fl x - x\<bar> \<le> \<bar>x\<bar> * unit_roundoff"
begin

lemma fl_zero [simp]: "fl 0 = 0"
  using fl_error [of 0] by simp

lemma fl_bounds:
  assumes "0 \<le> x"
  shows "x * (1 - unit_roundoff) \<le> fl x" "fl x \<le> x * (1 + unit_roundoff)"
proof -
  have e: "\<bar>fl x - x\<bar> \<le> x * unit_roundoff" using fl_error [of x] assms by simp
  then show "x * (1 - unit_roundoff) \<le> fl x" "fl x \<le> x * (1 + unit_roundoff)"
    unfolding abs_le_iff right_diff_distrib distrib_left by linarith+
qed

lemma fl_nonneg: "0 \<le> x \<Longrightarrow> 0 \<le> fl x"
  using fl_bounds(1) [of x] unit_roundoff_bounds(2) mult_nonneg_nonneg [of x "1 - unit_roundoff"] by linarith

text \<open>A rounded number scaled and rounded again: less than three unit roundoffs off.\<close>

lemma fl_scaled:
  assumes "0 \<le> q" "0 \<le> n"
  shows "\<bar>fl (fl q * n) - q * n\<bar> \<le> q * n * (3 * unit_roundoff)"
proof -
  let ?e = unit_roundoff
  have e: "0 < ?e" "?e \<le> 1 / 1000" by (rule unit_roundoff_bounds)+
  have ee: "?e * ?e \<le> ?e" using e by (simp add: mult_left_le)
  have f0: "0 \<le> fl q * n" using fl_nonneg assms by simp
  have p: "q * n * (1 - ?e) \<le> fl q * n" "fl q * n \<le> q * n * (1 + ?e)"
    using mult_right_mono [OF fl_bounds(1) [OF assms(1)] assms(2)] mult_right_mono [OF fl_bounds(2) [OF assms(1)] assms(2)]
    by (simp_all only: mult_ac)
  have "fl (fl q * n) \<le> q * n * (1 + ?e) * (1 + ?e)"
    using fl_bounds(2) [OF f0] mult_right_mono [OF p(2), of "1 + ?e"] e(1) by linarith
  also have "\<dots> \<le> q * n * (1 + 3 * ?e)"
    using assms ee unfolding mult.assoc by (intro mult_left_mono) (auto simp: algebra_simps)
  finally have up: "fl (fl q * n) \<le> q * n * (1 + 3 * ?e)" .
  have "q * n * (1 - 3 * ?e) \<le> q * n * (1 - ?e) * (1 - ?e)"
    using assms e unfolding mult.assoc by (intro mult_left_mono) (auto simp: algebra_simps)
  also have "\<dots> \<le> fl (fl q * n)"
    using fl_bounds(1) [OF f0] mult_right_mono [OF p(1), of "1 - ?e"] e(2) by linarith
  finally have lo: "q * n * (1 - 3 * ?e) \<le> fl (fl q * n)" .
  from up lo show ?thesis unfolding abs_le_iff right_diff_distrib distrib_left by linarith
qed

end

section \<open>Rounding to 53 bits\<close>

text \<open>The exponent that scales a positive rational to 53 bits before the point.\<close>

definition exponent :: "rat \<Rightarrow> int" where
  "exponent x = (case quotient_of x of (p, q) \<Rightarrow>
     (let e = int (floorlog 2 (nat p)) - int (floorlog 2 (nat q)) - 53
      in if x < 2 powi (e + 53) then e else e + 1))"

definition double :: "rat \<Rightarrow> rat" where
  "double x = (if x = 0 then 0 else let e = exponent \<bar>x\<bar> in of_int (py_round (x / 2 powi e)) * 2 powi e)"

lemma exponent_lower:
  assumes "0 < x"
  shows "2 powi (exponent x + 52) \<le> x"
proof -
  obtain p q where pq: "quotient_of x = (p, q)" by (cases "quotient_of x")
  have q: "0 < q" using pq quotient_of_denom_pos by blast
  have x: "x = of_int p / of_int q" using quotient_of_div [OF pq] .
  have p: "0 < p" using assms x q by (simp add: zero_less_divide_iff)
  let ?a = "floorlog 2 (nat p)" and ?b = "floorlog 2 (nat q)"
  let ?e = "int ?a - int ?b - 53"
  have a: "2 ^ (?a - 1) \<le> nat p" "?a > 0" using p floorlog_bounds [of "nat p" 2] by (auto simp: floorlog_def)
  have b: "nat q < 2 ^ ?b" using q floorlog_bounds [of "nat q" 2] by auto
  have P: "(2 :: rat) ^ (?a - 1) \<le> of_int p"
    using a(1) p by (metis (mono_tags, lifting) of_int_of_nat_eq of_nat_le_iff of_nat_numeral of_nat_power int_nat_eq less_imp_le)
  have Q: "of_int q \<le> (2 :: rat) ^ ?b"
    using b q by (metis (mono_tags, lifting) of_int_of_nat_eq of_nat_le_iff of_nat_numeral of_nat_power int_nat_eq less_imp_le)
  have "(2 :: rat) ^ (?a - 1) / 2 ^ ?b \<le> x" unfolding x using P Q q p by (intro frac_le) auto
  moreover have "(2 :: rat) ^ (?a - 1) / 2 ^ ?b = 2 powi (?e + 52)"
  proof -
    have "(2 :: rat) powi (int (?a - 1) - int ?b) = 2 powi int (?a - 1) / 2 powi int ?b" by (rule power_int_diff) simp
    moreover have "int (?a - 1) - int ?b = ?e + 52" using a(2) by (simp add: of_nat_diff)
    ultimately show ?thesis by (simp only: power_int_of_nat)
  qed
  ultimately have lo: "2 powi (?e + 52) \<le> x" by simp
  show ?thesis
  proof (cases "x < 2 powi (?e + 53)")
    case True
    then show ?thesis using lo pq by (simp add: exponent_def)
  next
    case False
    then show ?thesis using pq by (simp add: exponent_def add.commute add.left_commute)
  qed
qed

lemma double_error: "\<bar>double x - x\<bar> \<le> \<bar>x\<bar> * unit_roundoff"
proof (cases "x = 0")
  case False
  let ?s = "2 powi exponent \<bar>x\<bar> :: rat"
  have s: "0 < ?s" by simp
  have "double x - x = (of_int (py_round (x / ?s)) - x / ?s) * ?s"
    using False s by (simp add: double_def Let_def left_diff_distrib)
  then have "\<bar>double x - x\<bar> = \<bar>of_int (py_round (x / ?s)) - x / ?s\<bar> * ?s" using s by (simp add: abs_mult)
  also have "\<dots> \<le> 1/2 * ?s" using py_round_error [of "x / ?s"] s by (intro mult_right_mono) auto
  also have "\<dots> = 2 powi (exponent \<bar>x\<bar> + 52) * unit_roundoff"
    by (simp add: power_int_add unit_roundoff_def)
  also have "\<dots> \<le> \<bar>x\<bar> * unit_roundoff"
    using exponent_lower [of "\<bar>x\<bar>"] False unit_roundoff_bounds(1) by (intro mult_right_mono) auto
  finally show ?thesis .
qed (simp add: double_def)

interpretation ieee: double_arith double
  by unfold_locales (rule double_error)

text \<open>Exact arithmetic keeps the contract as well.\<close>

lemma exact_arith: "double_arith (\<lambda>x. x)"
  by unfold_locales (simp add: unit_roundoff_def)

end
