(* ===== verification/Memory_Estimate.thy ===== *)
theory Memory_Estimate
  imports Cluster_State Floating
begin

text \<open>
  The memory estimates shared by placement and the worker's load guard,
  \<^verbatim>\<open>src/skulk/shared/models/memory_estimate.py\<close>, with the byte arithmetic of
  \<^verbatim>\<open>shared/types/memory.py\<close> and the cache sizes of \<^verbatim>\<open>shared/models/gguf_memory.py\<close>.  Memory is a number
  of bytes; a product with a float is rounded to whole bytes.  Every definition that touches a float takes the
  rounding function \<open>fl\<close> of its float operations.
\<close>

section \<open>Memory\<close>

type_synonym memory = int

text \<open>\<open>Memory.__mul__\<close> with a float and \<open>Memory.__truediv__\<close> with another amount.\<close>

definition mem_mul :: "(rat \<Rightarrow> rat) \<Rightarrow> memory \<Rightarrow> rat \<Rightarrow> memory" where
  "mem_mul fl m f = py_round (fl (of_int m * f))"

definition mem_ratio :: "(rat \<Rightarrow> rat) \<Rightarrow> memory \<Rightarrow> memory \<Rightarrow> rat" where
  "mem_ratio fl a b = fl (of_int a / of_int b)"

text \<open>\<open>Memory.__truediv__\<close> with an integer.\<close>

definition mem_div :: "(rat \<Rightarrow> rat) \<Rightarrow> memory \<Rightarrow> int \<Rightarrow> memory" where
  "mem_div fl m n = py_round (fl (of_int m / of_int n))"

record memory_usage =
  ram_total :: memory
  ram_available :: memory
  swap_total :: memory
  swap_available :: memory

record accelerator_metrics =
  vendor :: string
  accelerator_name :: string
  vram_total_bytes :: "int option"
  vram_used_bytes :: "int option"
  gtt_total_bytes :: "int option"
  compute_capability :: "string option"
  accelerator_rest :: opaque

text \<open>\<open>s.startswith(p)\<close>, \<open>s.startswith((p, ...))\<close> and \<open>s.endswith(p)\<close>\<close>

definition startswith :: "string \<Rightarrow> string \<Rightarrow> bool" where
  "startswith s p \<longleftrightarrow> take (length p) s = p"

definition startswith_any :: "string \<Rightarrow> string list \<Rightarrow> bool" where
  "startswith_any s ps \<longleftrightarrow> list_ex (startswith s) ps"

definition endswith :: "string \<Rightarrow> string \<Rightarrow> bool" where
  "endswith s p \<longleftrightarrow> length p \<le> length s \<and> drop (length s - length p) s = p"

section \<open>Constants\<close>

definition MEMORY_OVERHEAD_FACTOR :: "(rat \<Rightarrow> rat) \<Rightarrow> rat" where
  "MEMORY_OVERHEAD_FACTOR fl = fl (130 / 100)"

definition LLAMA_CPP_MEMORY_OVERHEAD_FACTOR :: "(rat \<Rightarrow> rat) \<Rightarrow> rat" where
  "LLAMA_CPP_MEMORY_OVERHEAD_FACTOR fl = fl (110 / 100)"

definition MEMORY_OVERHEAD_FLOOR :: memory where
  "MEMORY_OVERHEAD_FLOOR = 256 * 1024 * 1024"

definition GPU_WORKING_SET_FRACTION :: "(rat \<Rightarrow> rat) \<Rightarrow> rat" where
  "GPU_WORKING_SET_FRACTION fl = fl (75 / 100)"

definition GPU_VRAM_WORKING_SET_FRACTION :: "(rat \<Rightarrow> rat) \<Rightarrow> rat" where
  "GPU_VRAM_WORKING_SET_FRACTION fl = fl (90 / 100)"

definition UMA_GPU_OS_HEADROOM :: memory where
  "UMA_GPU_OS_HEADROOM = 16 * 1024 * 1024 * 1024"

definition KV_CONTEXT_BUDGET_TOKENS :: int where
  "KV_CONTEXT_BUDGET_TOKENS = 8192"

definition LOAD_FIT_TOLERANCE :: "(rat \<Rightarrow> rat) \<Rightarrow> rat" where
  "LOAD_FIT_TOLERANCE fl = fl (10 / 100)"

definition SERVED_CONTEXT_DEFAULT_TOKENS :: int where
  "SERVED_CONTEXT_DEFAULT_TOKENS = 32768"

definition KV_HEAD_DIM_FALLBACK :: int where
  "KV_HEAD_DIM_FALLBACK = 128"

definition KV_DTYPE_BYTES :: int where
  "KV_DTYPE_BYTES = 2"

definition VLLM_MAX_MODEL_LEN :: int where
  "VLLM_MAX_MODEL_LEN = 32768"

definition LLAMA_SERVER_DEFAULT_PARALLEL :: nat where
  "LLAMA_SERVER_DEFAULT_PARALLEL = 16"

definition LLAMA_SERVER_DEFAULT_DRAFT_DEPTH :: nat where
  "LLAMA_SERVER_DEFAULT_DRAFT_DEPTH = 3"

definition GiB :: memory where
  "GiB = 1024 * 1024 * 1024"

section \<open>Cache geometry and serving settings\<close>

text \<open>The guard of \<open>recurrent_bytes\<close> is implied by the fields it is called with: \<open>parallel_slots\<close> is declared
  positive and the depth is not negative.\<close>

definition recurrent_bytes :: "gguf_cache_geometry \<Rightarrow> nat \<Rightarrow> nat \<Rightarrow> int" where
  "recurrent_bytes g slots rollback_depth =
     int ((convolution_width g + recurrent_width g) * recurrent_layers g * 4 * slots * (1 + rollback_depth))"

definition attention_bytes_per_token :: "gguf_cache_geometry \<Rightarrow> bool \<Rightarrow> int" where
  "attention_bytes_per_token g embedded_mtp =
     int ((attention_layers g + (if embedded_mtp then nextn_layers g else 0)) * (key_width g + value_width g) * 2)"

definition default_llama_settings :: llama_settings where
  "default_llama_settings = \<lparr>parallel_slots = LLAMA_SERVER_DEFAULT_PARALLEL, speculation_enabled = True\<rparr>"

definition effective_slots :: "llama_settings \<Rightarrow> bool \<Rightarrow> nat" where
  "effective_slots s speculative_vision =
     (if speculative_vision \<and> speculation_enabled s then 1 else parallel_slots s)"

section \<open>Estimates\<close>

definition is_gb10_accelerator :: "accelerator_metrics \<Rightarrow> bool" where
  "is_gb10_accelerator a \<longleftrightarrow>
     vendor a = ''nvidia'' \<and> startswith (accelerator_name a) ''NVIDIA GB10'' \<and> compute_capability a = Some ''12.1''"

definition gpu_working_set_ceiling :: "(rat \<Rightarrow> rat) \<Rightarrow> memory \<Rightarrow> memory" where
  "gpu_working_set_ceiling fl ram = mem_mul fl ram (GPU_WORKING_SET_FRACTION fl)"

definition gb10_unified_memory_pool :: "(rat \<Rightarrow> rat) \<Rightarrow> accelerator_metrics \<Rightarrow> memory_usage option \<Rightarrow> memory option" where
  "gb10_unified_memory_pool fl a mem =
     (case (vram_total_bytes a, vram_used_bytes a, mem) of
        (Some tot, Some used, Some m) \<Rightarrow>
          if \<not> is_gb10_accelerator a \<or> \<not> (9 * ram_total m \<le> 10 * tot \<and> 10 * tot \<le> 11 * ram_total m) then None
          else Some (min (min (max 0 (tot - used)) (max 0 (ram_available m - UMA_GPU_OS_HEADROOM)))
                 (gpu_working_set_ceiling fl (ram_total m)))
      | _ \<Rightarrow> None)"

text \<open>An empty string is no GGUF file here; \<open>estimate_shard_footprint\<close> tests for \<open>None\<close> only.\<close>

definition memory_overhead_factor :: "(rat \<Rightarrow> rat) \<Rightarrow> model_card \<Rightarrow> rat" where
  "memory_overhead_factor fl mcard =
     (case gguf_file mcard of
        Some f \<Rightarrow> if f \<noteq> [] then LLAMA_CPP_MEMORY_OVERHEAD_FACTOR fl else MEMORY_OVERHEAD_FACTOR fl
      | None \<Rightarrow> MEMORY_OVERHEAD_FACTOR fl)"

definition estimate_music_workspace :: "model_card \<Rightarrow> string option \<Rightarrow> memory" where
  "estimate_music_workspace mcard backend =
     (case card_music mcard of
        None \<Rightarrow> 0
      | Some family \<Rightarrow>
          if family = AceStep15 \<and> backend = Some ''audio_cpp-cpu'' then 10 * GiB
          else if backend \<in> {Some ''audio_cpp-cuda'', Some ''audio_cpp-vulkan''} \<and> family = AceStep15 then 10 * GiB
          else if backend \<in> {Some ''audio_cpp-cuda'', Some ''audio_cpp-vulkan''} \<and> family = MiniMaxMusic3 then 2 * GiB
          else if family = MiniMaxMusic3 \<and> backend = Some ''audio_cpp-metal'' then 5 * GiB
          else 0)"

text \<open>A card without a runtime section has no speculative mode, so \<open>served_spec_type\<close> is \<open>None\<close> there.\<close>

definition served_speculative_mode :: "model_card \<Rightarrow> string option \<Rightarrow> llama_settings \<Rightarrow> string option" where
  "served_speculative_mode mcard backend settings =
     (if \<not> speculation_enabled settings \<or> (case backend of Some b \<Rightarrow> \<not> startswith b ''llama_server'' | None \<Rightarrow> False)
      then None else served_spec_type mcard)"

definition llama_engine :: "string option \<Rightarrow> bool" where
  "llama_engine backend = (case backend of None \<Rightarrow> True | Some b \<Rightarrow> startswith_any b [''llama_cpp'', ''llama_server''])"

definition settings_or_default :: "llama_settings option \<Rightarrow> llama_settings" where
  "settings_or_default s = (case s of Some x \<Rightarrow> x | None \<Rightarrow> default_llama_settings)"

definition estimate_recurrent_cache_bytes :: "model_card \<Rightarrow> string option \<Rightarrow> llama_settings option \<Rightarrow> memory" where
  "estimate_recurrent_cache_bytes mcard backend llama_settings =
     (case cache_geometry mcard of
        None \<Rightarrow> 0
      | Some geometry \<Rightarrow>
          if \<not> llama_engine backend then 0
          else let settings = settings_or_default llama_settings;
                   mode = served_speculative_mode mcard backend settings;
                   depth = (if mode \<in> {Some ''draft_mtp'', Some ''draft_eagle3'', Some ''draft_dflash''}
                            then (case served_spec_n_max mcard of
                                    Some d \<Rightarrow> if d = 0 then LLAMA_SERVER_DEFAULT_DRAFT_DEPTH else d
                                  | None \<Rightarrow> LLAMA_SERVER_DEFAULT_DRAFT_DEPTH)
                            else 0);
                   slots = (if (case backend of Some b \<Rightarrow> startswith b ''llama_cpp'' | None \<Rightarrow> False) then 1
                            else effective_slots settings
                                   (card_vision_model_type mcard \<noteq> None \<and> mode \<notin> {None, Some ''none''}))
               in recurrent_bytes geometry slots depth)"

definition per_token_kv_bytes :: "model_card \<Rightarrow> string option \<Rightarrow> llama_settings option \<Rightarrow> int" where
  "per_token_kv_bytes mcard backend llama_settings =
     (let legacy = (case num_key_value_heads mcard of
                      None \<Rightarrow> 0
                    | Some kv_heads \<Rightarrow>
                        if card_n_layers mcard \<le> 0 then 0
                        else 2 * int (card_n_layers mcard) * int kv_heads * KV_HEAD_DIM_FALLBACK * KV_DTYPE_BYTES)
      in case cache_geometry mcard of
           Some geometry \<Rightarrow>
             if llama_engine backend
             then attention_bytes_per_token geometry
                    (served_speculative_mode mcard backend (settings_or_default llama_settings) = Some ''draft_mtp'')
             else legacy
         | None \<Rightarrow> legacy)"

definition estimate_kv_cache_bytes :: "model_card \<Rightarrow> int \<Rightarrow> int \<Rightarrow> memory" where
  "estimate_kv_cache_bytes mcard layers context_tokens =
     (if context_tokens \<le> 0 \<or> layers \<le> 0 then 0
      else per_token_kv_bytes mcard None None * layers * context_tokens div int (card_n_layers mcard))"

definition estimate_shard_footprint ::
  "(rat \<Rightarrow> rat) \<Rightarrow> model_card \<Rightarrow> rat \<Rightarrow> int \<Rightarrow> string option \<Rightarrow> llama_settings option \<Rightarrow> memory" where
  "estimate_shard_footprint fl mcard shard_fraction context_budget backend settings =
     (if shard_fraction \<le> 0 then 0
      else let weights_share = mem_mul fl (storage_size mcard) shard_fraction;
               full_kv = per_token_kv_bytes mcard backend settings * max 0 context_budget;
               kv_share = mem_mul fl full_kv shard_fraction;
               footprint = mem_mul fl weights_share (memory_overhead_factor fl mcard) + kv_share
                 + mem_mul fl (estimate_recurrent_cache_bytes mcard backend settings) shard_fraction
                 + MEMORY_OVERHEAD_FLOOR + estimate_music_workspace mcard backend
           in if shard_fraction \<ge> 1 \<and> gguf_file mcard \<noteq> None \<and> card_vision_model_type mcard \<noteq> None
              then footprint + (case projector_size mcard of Some p \<Rightarrow> p | None \<Rightarrow> 0)
              else footprint)"

section \<open>Engines\<close>

definition UPFRONT_WINDOW_ENGINE_PREFIXES :: "string list" where
  "UPFRONT_WINDOW_ENGINE_PREFIXES = [''llama_cpp'', ''llama_server'', ''vllm'']"

definition shard_preallocates_kv_upfront :: "shard_metadata \<Rightarrow> bool" where
  "shard_preallocates_kv_upfront shard =
     (case resolved_backend (shard_base shard) of
        Some b \<Rightarrow> startswith_any b UPFRONT_WINDOW_ENGINE_PREFIXES
      | None \<Rightarrow>
          (let mcard = shard_card (shard_base shard)
           in (case gguf_file mcard of Some f \<Rightarrow> f \<noteq> [] | None \<Rightarrow> False) \<or>
              list_ex (\<lambda>tag. startswith_any tag UPFRONT_WINDOW_ENGINE_PREFIXES) (compatible_backends mcard)))"

definition vulkan_fills_carve_first :: "string option \<Rightarrow> bool" where
  "vulkan_fills_carve_first backend = (case backend of Some b \<Rightarrow> endswith b ''-vulkan'' | None \<Rightarrow> False)"

definition backend_offloads_to_vram :: "string option \<Rightarrow> bool" where
  "backend_offloads_to_vram backend =
     (case backend of
        None \<Rightarrow> False
      | Some b \<Rightarrow>
          if b = ''comfy'' then True
          else if b = ''audio_cpp-metal'' then False
          else startswith_any b [''llama_cpp-'', ''llama_server-'', ''vllm-'', ''comfy-'', ''audio_cpp-''] \<and> \<not> endswith b ''-cpu'')"

fun shard_fraction_of_model :: "(rat \<Rightarrow> rat) \<Rightarrow> shard_metadata \<Rightarrow> rat option" where
  "shard_fraction_of_model fl (TensorShardMetadata b) =
     (if world_size b > 0 then Some (fl (1 / of_int (world_size b))) else None)"
| "shard_fraction_of_model fl (PipelineShardMetadata b) =
     (if n_layers b \<le> 0 then None
      else Some (fl ((of_nat (end_layer b) - of_nat (start_layer b)) / of_nat (n_layers b))))"
| "shard_fraction_of_model fl (CfgShardMetadata _ _ _ _ _) = None"
| "shard_fraction_of_model fl (RpcDonorShardMetadata _) = None"

section \<open>The context window\<close>

definition node_window_tokens ::
  "(rat \<Rightarrow> rat) \<Rightarrow> model_card \<Rightarrow> shard_metadata \<Rightarrow> memory \<Rightarrow> memory \<Rightarrow> int option" where
  "node_window_tokens fl mcard shard working_set fixed_memory =
     (let backend = resolved_backend (shard_base shard);
          settings = llama_server_settings (shard_base shard);
          token_bytes = per_token_kv_bytes mcard backend settings
      in case shard_fraction_of_model fl shard of
           None \<Rightarrow> None
         | Some fraction \<Rightarrow>
             if fraction \<le> 0 \<or> token_bytes \<le> 0 then None
             else let kv_budget = working_set
                        - mem_mul fl (mem_mul fl (storage_size mcard) fraction) (memory_overhead_factor fl mcard)
                        - MEMORY_OVERHEAD_FLOOR
                        - mem_mul fl (estimate_recurrent_cache_bytes mcard backend settings) fraction
                        - fixed_memory
                  in Some (max 0 (py_int (fl (of_int kv_budget / fl (of_int token_bytes * fraction))))))"

definition dict_default :: "'v \<Rightarrow> ('k, 'v) dict \<Rightarrow> 'k \<Rightarrow> 'v" where
  "dict_default v d k = (case dict_get d k of Some x \<Rightarrow> x | None \<Rightarrow> v)"

text \<open>The minimum over the hosting nodes; \<open>None\<close> is the early exit at a node without a figure.  The validator of
  \<open>ShardAssignments\<close> has checked that every assigned runner has a shard.\<close>

fun min_window :: "('n \<Rightarrow> int option) \<Rightarrow> 'n list \<Rightarrow> int option \<Rightarrow> int option option" where
  "min_window tokens [] acc = Some acc"
| "min_window tokens (n # ns) acc =
     (case tokens n of
        None \<Rightarrow> None
      | Some t \<Rightarrow> min_window tokens ns (Some (case acc of None \<Rightarrow> t | Some a \<Rightarrow> min a t)))"

definition shard_of :: "shard_assignments \<Rightarrow> runner_id \<Rightarrow> shard_metadata" where
  "shard_of sa runner = the (dict_get (runner_to_shard sa) runner)"

definition system_ram_window_tokens ::
  "(rat \<Rightarrow> rat) \<Rightarrow> shard_assignments \<Rightarrow> model_card \<Rightarrow> (node_id, memory) dict \<Rightarrow> (node_id, memory) dict
     \<Rightarrow> (node_id, memory) dict \<Rightarrow> int" where
  "system_ram_window_tokens fl sa mcard node_ram_totals node_ram_available fixed_memory_by_node =
     (case min_window
             (\<lambda>(node, runner).
                case (dict_get node_ram_totals node, dict_get node_ram_available node) of
                  (Some tot, Some avail) \<Rightarrow>
                    node_window_tokens fl mcard (shard_of sa runner)
                      (mem_mul fl (min avail (gpu_working_set_ceiling fl tot)) (fl (1 - LOAD_FIT_TOLERANCE fl)))
                      (dict_default 0 fixed_memory_by_node node)
                | _ \<Rightarrow> None)
             (node_to_runner sa) None of
        Some (Some window) \<Rightarrow> max KV_CONTEXT_BUDGET_TOKENS window
      | _ \<Rightarrow> KV_CONTEXT_BUDGET_TOKENS)"

text \<open>The memory that bounds one hosting node's window.\<close>

definition node_working_set ::
  "(rat \<Rightarrow> rat) \<Rightarrow> shard_metadata \<Rightarrow> node_id \<Rightarrow> (node_id, memory) dict \<Rightarrow> (node_id, memory) dict \<Rightarrow> memory option" where
  "node_working_set fl shard node node_ram_totals node_vram =
     (let backend = resolved_backend (shard_base shard);
          in_system_ram = (backend \<noteq> None \<and> \<not> backend_offloads_to_vram backend)
      in case (if in_system_ram then None else dict_get node_vram node) of
           Some v \<Rightarrow> Some v
         | None \<Rightarrow> map_option (gpu_working_set_ceiling fl) (dict_get node_ram_totals node))"

definition opt_min :: "int option \<Rightarrow> int \<Rightarrow> int" where
  "opt_min limit x = (case limit of None \<Rightarrow> x | Some l \<Rightarrow> min l x)"

definition placement_is_vllm :: "shard_assignments \<Rightarrow> model_card \<Rightarrow> bool" where
  "placement_is_vllm sa mcard =
     (let resolved = map (\<lambda>s. resolved_backend (shard_base s)) (dict_values (runner_to_shard sa))
      in if list_ex (\<lambda>r. r \<noteq> None) resolved
         then list_all (\<lambda>r. case r of Some b \<Rightarrow> startswith b ''vllm'' | None \<Rightarrow> False) resolved
         else compatible_backends mcard \<noteq> [] \<and> list_all (\<lambda>tag. startswith tag ''vllm'') (compatible_backends mcard))"

text \<open>The memory-fit window over all hosting nodes, before the clamp for windows committed in system RAM.\<close>

definition static_memory_limit ::
  "(rat \<Rightarrow> rat) \<Rightarrow> shard_assignments \<Rightarrow> model_card \<Rightarrow> (node_id, memory) dict \<Rightarrow> (node_id, memory) dict
     \<Rightarrow> (node_id, memory) dict \<Rightarrow> int option" where
  "static_memory_limit fl sa mcard node_ram_totals node_vram fixed_memory_by_node =
     (if per_token_kv_bytes mcard None None > 0
      then case min_window
                  (\<lambda>(node, runner).
                     case node_working_set fl (shard_of sa runner) node node_ram_totals node_vram of
                       None \<Rightarrow> None
                     | Some ws \<Rightarrow> node_window_tokens fl mcard (shard_of sa runner) ws (dict_default 0 fixed_memory_by_node node))
                  (node_to_runner sa) None of
             None \<Rightarrow> None
           | Some limit \<Rightarrow> limit
      else None)"

definition instance_context_token_limit ::
  "(rat \<Rightarrow> rat) \<Rightarrow> shard_assignments \<Rightarrow> (node_id, memory) dict \<Rightarrow> (node_id, memory) dict \<Rightarrow> node_id list
     \<Rightarrow> (node_id, memory) dict \<Rightarrow> (node_id, memory) dict \<Rightarrow> int option" where
  "instance_context_token_limit fl sa node_ram_totals node_vram unified_memory_gpu_nodes fixed_memory_by_node node_ram_available =
     (case dict_values (runner_to_shard sa) of
        [] \<Rightarrow> None
      | shard # _ \<Rightarrow>
          (let mcard = shard_card (shard_base shard);
               served_preallocates = list_ex shard_preallocates_kv_upfront (dict_values (runner_to_shard sa));
               fit = static_memory_limit fl sa mcard node_ram_totals node_vram fixed_memory_by_node;
               lift_in_vram = list_all (\<lambda>(node, runner). dict_has node_vram node \<and> node \<notin> set unified_memory_gpu_nodes \<and>
                                  backend_offloads_to_vram (resolved_backend (shard_base (shard_of sa runner))))
                                (node_to_runner sa);
               memory_limit = (case fit of
                   Some l \<Rightarrow> if served_preallocates \<and> \<not> lift_in_vram
                     then Some (min l (system_ram_window_tokens fl sa mcard node_ram_totals node_ram_available fixed_memory_by_node))
                     else Some l
                 | None \<Rightarrow> None);
               card_limit = (if card_context_length mcard > 0 then Some (card_context_length mcard) else None);
               limit = (case memory_limit of
                   None \<Rightarrow> card_limit
                 | Some m \<Rightarrow> (case card_limit of None \<Rightarrow> Some m | Some c \<Rightarrow> Some (min m c)));
               limit = (if placement_is_vllm sa mcard then Some (opt_min limit VLLM_MAX_MODEL_LEN) else limit)
           in if served_preallocates \<and> memory_limit = None then Some (opt_min limit KV_CONTEXT_BUDGET_TOKENS) else limit))"

section \<open>A stamped window fits\<close>

lemma recurrent_cache_nonneg: "0 \<le> estimate_recurrent_cache_bytes mcard backend settings"
  by (simp add: estimate_recurrent_cache_bytes_def recurrent_bytes_def Let_def split: option.split)

lemma per_token_nonneg: "0 \<le> per_token_kv_bytes mcard backend settings"
  by (simp add: per_token_kv_bytes_def attention_bytes_per_token_def KV_HEAD_DIM_FALLBACK_def KV_DTYPE_BYTES_def Let_def
      split: option.split)

lemma music_workspace_nonneg: "0 \<le> estimate_music_workspace mcard backend"
  by (simp add: estimate_music_workspace_def GiB_def split: option.split)

lemma py_int_positive:
  assumes "0 < l" "l \<le> py_int x"
  shows "of_int l \<le> x"
proof (cases "0 \<le> x")
  case True
  then show ?thesis using assms by (simp add: py_int_def le_floor_iff)
next
  case False
  then have "py_int x \<le> 0" by (simp add: py_int_def ceiling_le_iff)
  then show ?thesis using assms by simp
qed

context double_arith
begin

lemma fl_nonpos: "x \<le> 0 \<Longrightarrow> fl x \<le> 0"
proof -
  assume "x \<le> 0"
  then have "\<bar>fl x - x\<bar> \<le> - x * unit_roundoff" using fl_error [of x] by simp
  moreover have "- x * unit_roundoff \<le> - x * 1" using \<open>x \<le> 0\<close> unit_roundoff_bounds(2) by (intro mult_left_mono) auto
  ultimately show ?thesis by (simp add: abs_le_iff)
qed

lemma mem_mul_nonneg: "0 \<le> m \<Longrightarrow> 0 \<le> f \<Longrightarrow> 0 \<le> mem_mul fl m f"
  using fl_nonneg [of "of_int m * f"] by (simp add: mem_mul_def py_round_ge)

lemma overhead_at_least_one: "1 \<le> memory_overhead_factor fl mcard"
proof -
  have "1 \<le> fl (110 / 100)" "1 \<le> fl (130 / 100)"
    using fl_bounds(1) [of "110 / 100"] fl_bounds(1) [of "130 / 100"] unit_roundoff_bounds(2) by simp_all
  then show ?thesis
    by (simp add: memory_overhead_factor_def MEMORY_OVERHEAD_FACTOR_def LLAMA_CPP_MEMORY_OVERHEAD_FACTOR_def split: option.split)
qed

text \<open>The key and value cache of as many tokens as the division yields does not exceed the budget divided: the
  accumulated relative error of the four roundings stays below half a byte.\<close>

lemma window_kv_fits:
  assumes "0 < w" "0 < f" "0 < l" "l \<le> py_int (fl (of_int B / fl (of_int w * f)))" "B \<le> 2 ^ 49"
  shows "mem_mul fl (w * l) f \<le> B"
proof -
  let ?e = unit_roundoff and ?p = "of_int w * f"
  let ?g = "fl ?p"
  have e: "0 < ?e" "?e \<le> 1 / 1000" by (rule unit_roundoff_bounds)+
  have p: "0 < ?p" using assms(1,2) by simp
  have g: "?p * (1 - ?e) \<le> ?g" using fl_bounds(1) [of ?p] p by simp
  have g0: "0 < ?p * (1 - ?e)" using p e(2) by simp
  have l: "of_int l \<le> fl (of_int B / ?g)" using py_int_positive [OF assms(3,4)] .
  have B: "0 < B"
  proof (rule ccontr)
    assume "\<not> ?thesis"
    then have "fl (of_int B / ?g) \<le> 0" using g g0 by (intro fl_nonpos divide_nonpos_pos) auto
    then show False using l assms(3) by simp
  qed
  have "fl (of_int B / ?g) \<le> of_int B / ?g * (1 + ?e)" using B g g0 by (intro fl_bounds(2)) simp
  also have "\<dots> \<le> of_int B / (?p * (1 - ?e)) * (1 + ?e)"
    using B g g0 e(1) by (intro mult_right_mono divide_left_mono) auto
  finally have "of_int l \<le> of_int B / (?p * (1 - ?e)) * (1 + ?e)" using l by (rule order_trans [rotated])
  then have "of_int l * (?p * (1 - ?e)) \<le> of_int B * (1 + ?e)" using g0 by (simp add: pos_le_divide_eq)
  then have pl: "?p * of_int l * (1 - ?e) \<le> of_int B * (1 + ?e)" by (simp only: mult_ac)
  have "fl (?p * of_int l) * (1 - ?e) \<le> ?p * of_int l * (1 + ?e) * (1 - ?e)"
    using fl_bounds(2) [of "?p * of_int l"] p assms(3) e(2) by (intro mult_right_mono) auto
  also have "\<dots> = ?p * of_int l * (1 - ?e) * (1 + ?e)" by (simp only: mult_ac)
  also have "\<dots> \<le> of_int B * (1 + ?e) * (1 + ?e)" using pl e(1) by (intro mult_right_mono) auto
  also have "\<dots> \<le> of_int B * ((1 + 4 * ?e) * (1 - ?e))"
  proof -
    have "?e * (5 * ?e) \<le> ?e * 1" using e by (intro mult_left_mono) auto
    then have "(1 + ?e) * (1 + ?e) \<le> (1 + 4 * ?e) * (1 - ?e)" by (simp add: algebra_simps)
    then show ?thesis using B unfolding mult.assoc by (intro mult_left_mono) auto
  qed
  finally have "fl (?p * of_int l) * (1 - ?e) \<le> of_int B * (1 + 4 * ?e) * (1 - ?e)" by (simp only: mult.assoc)
  then have "fl (?p * of_int l) \<le> of_int B * (1 + 4 * ?e)" using e(2) by (simp add: mult_le_cancel_right)
  moreover have "of_int B * (4 * ?e) \<le> 1 / 4"
  proof -
    have "of_int B * (4 * ?e) \<le> of_int (2 ^ 49) * (4 * ?e)"
      using assms(5) e(1) by (intro mult_right_mono of_int_le_iff [THEN iffD2]) auto
    also have "\<dots> = 1 / 4" by (simp add: unit_roundoff_def)
    finally show ?thesis .
  qed
  ultimately have "fl (?p * of_int l) \<le> of_int B + 1 / 4" by (simp add: distrib_left)
  moreover have "?p * of_int l = of_int (w * l) * f" by (simp add: mult_ac)
  ultimately have "of_int (mem_mul fl (w * l) f) < (of_int (B + 1) :: rat)"
    using py_round_error [of "fl (of_int (w * l) * f)"] unfolding mem_mul_def abs_le_iff by simp
  then show ?thesis unfolding of_int_less_iff by simp
qed

end

lemma min_window_le:
  "min_window tokens ns acc = Some (Some m) \<Longrightarrow>
     (\<forall>n \<in> set ns. \<exists>t. tokens n = Some t \<and> m \<le> t) \<and> (case acc of None \<Rightarrow> True | Some a \<Rightarrow> m \<le> a)"
proof (induction ns arbitrary: acc)
  case (Cons n ns)
  then obtain t where "tokens n = Some t" by (auto split: option.splits)
  then show ?case using Cons.IH Cons.prems by (fastforce split: option.splits)
qed simp

text \<open>Every clamp after the memory fit only lowers the window.\<close>

lemma context_limit_le_fit:
  assumes "instance_context_token_limit fl sa totals vram unified fixed avail = Some l"
    "dict_values (runner_to_shard sa) = shard # rest"
    "static_memory_limit fl sa (shard_card (shard_base shard)) totals vram fixed = Some m"
  shows "l \<le> m"
  using assms by (auto simp: instance_context_token_limit_def Let_def opt_min_def split: if_splits)

text \<open>C23. A stamped context window fits the memory of every node that hosts the instance.  Where the memory fit is
  computable and the stamped window is positive, the estimated footprint of each hosted shard at that window and at every
  smaller one, together with the memory fixed on the node, is at most the node's working set, plus the workspace of a music
  engine and the projector of a whole vision model, which are not part of the fit.  Float rounding does not break the
  bound for working sets up to 512 TiB.\<close>

theorem stamped_window_fits:
  assumes fl: "double_arith fl"
    and limit: "instance_context_token_limit fl sa totals vram unified fixed avail = Some l" "0 < l"
    and window: "w \<le> l"
    and shards: "dict_values (runner_to_shard sa) = first # rest" "shard_card (shard_base first) = mcard"
    and fit: "static_memory_limit fl sa mcard totals vram fixed = Some m"
    and node: "(node, runner) \<in> set (node_to_runner sa)"
    and ws: "node_working_set fl (shard_of sa runner) node totals vram = Some ws"
    and fraction: "shard_fraction_of_model fl (shard_of sa runner) = Some f"
    and small: "ws \<le> 2 ^ 49" "0 \<le> dict_default 0 fixed node" "0 \<le> storage_size mcard"
  defines "backend \<equiv> resolved_backend (shard_base (shard_of sa runner))"
    and "settings \<equiv> llama_server_settings (shard_base (shard_of sa runner))"
  shows "estimate_shard_footprint fl mcard f w backend settings + dict_default 0 fixed node
     \<le> ws + estimate_music_workspace mcard backend
          + (if 1 \<le> f \<and> gguf_file mcard \<noteq> None \<and> card_vision_model_type mcard \<noteq> None
             then (case projector_size mcard of Some p \<Rightarrow> p | None \<Rightarrow> 0) else 0)"
proof -
  let ?fix = "dict_default 0 fixed node"
  obtain t where t: "node_window_tokens fl mcard (shard_of sa runner) ws ?fix = Some t" "m \<le> t"
    using fit node ws by (fastforce simp: static_memory_limit_def split: if_splits option.splits dest!: min_window_le)
  have lt: "l \<le> t" using context_limit_le_fit [OF limit(1) shards(1)] fit shards(2) t(2) by simp
  let ?w = "per_token_kv_bytes mcard backend settings"
  let ?weights = "mem_mul fl (mem_mul fl (storage_size mcard) f) (memory_overhead_factor fl mcard)"
  let ?rec = "mem_mul fl (estimate_recurrent_cache_bytes mcard backend settings) f"
  let ?B = "ws - ?weights - MEMORY_OVERHEAD_FLOOR - ?rec - ?fix"
  have f: "0 < f" "0 < ?w" and tokens: "l \<le> py_int (fl (of_int ?B / fl (of_int ?w * f)))"
    using t(1) fraction lt limit(2) by (auto simp: node_window_tokens_def Let_def backend_def settings_def split: if_splits)
  have nn: "0 \<le> ?weights" "0 \<le> ?rec"
    using double_arith.mem_mul_nonneg [OF fl] double_arith.overhead_at_least_one [OF fl, of mcard] f(1) small(3) recurrent_cache_nonneg
    by (simp_all add: order_trans [OF zero_le_one])
  have B: "?B \<le> 2 ^ 49" using nn small by (simp add: MEMORY_OVERHEAD_FLOOR_def)
  have kv: "mem_mul fl (?w * x) f \<le> ?B" if "0 < x" "x \<le> l" for x
    using double_arith.window_kv_fits [OF fl f(2,1) that(1) order_trans [OF that(2) tokens] B] .
  have "mem_mul fl (?w * max 0 w) f \<le> ?B"
  proof (cases "0 < w")
    case True
    then show ?thesis using kv [OF True window] by simp
  next
    case False
    have "0 \<le> mem_mul fl (?w * l) f" using double_arith.mem_mul_nonneg [OF fl] f limit(2) by simp
    moreover have "mem_mul fl 0 f = 0" by (simp add: mem_mul_def double_arith.fl_zero [OF fl] py_round_def)
    ultimately show ?thesis using kv [OF limit(2) order_refl] False by simp
  qed
  then show ?thesis using f by (auto simp: estimate_shard_footprint_def Let_def)
qed

definition window_card :: model_card where
  "window_card = example_card\<lparr>card_context_length := 100000, num_key_value_heads := Some 1\<rparr>"

definition window_shard :: "int \<Rightarrow> shard_metadata" where
  "window_shard k = PipelineShardMetadata \<lparr>shard_card = window_card, device_rank = k, world_size = 2,
     resolved_backend = Some ''mlx'', resolved_engine_build = None, llama_server_settings = None,
     immediate_exception = False, should_timeout = None, start_layer = nat (4 * k), end_layer = nat (4 * k + 4), n_layers = 8\<rparr>"

definition window_assignments :: shard_assignments where
  "window_assignments = \<lparr>sa_model_id = ''m'', runner_to_shard = [(''r0'', window_shard 0), (''r1'', window_shard 1)],
     node_to_runner = [(''a'', ''r0''), (''b'', ''r1'')]\<rparr>"

abbreviation window_totals :: "(node_id, memory) dict" where
  "window_totals \<equiv> [(''a'', 400000000), (''b'', 500000000)]"

lemma floor_numeral_divide: "\<lfloor>numeral a / numeral b :: rat\<rfloor> = numeral a div numeral b"
  using floor_divide_of_int_eq [of "numeral a" "numeral b", where ?'a = rat] by simp

lemmas window_eval = floor_numeral_divide window_assignments_def window_shard_def window_card_def example_card_def shard_of_def dict_default_def
  instance_context_token_limit_def static_memory_limit_def node_working_set_def node_window_tokens_def per_token_kv_bytes_def
  gpu_working_set_ceiling_def mem_mul_def memory_overhead_factor_def MEMORY_OVERHEAD_FACTOR_def MEMORY_OVERHEAD_FLOOR_def
  GPU_WORKING_SET_FRACTION_def estimate_recurrent_cache_bytes_def estimate_music_workspace_def backend_offloads_to_vram_def
  shard_preallocates_kv_upfront_def startswith_any_def startswith_def UPFRONT_WINDOW_ENGINE_PREFIXES_def
  placement_is_vllm_def KV_HEAD_DIM_FALLBACK_def KV_DTYPE_BYTES_def py_round_def py_int_def Let_def

theorem stamped_window_fits_witness:
  "instance_context_token_limit (\<lambda>x. x) window_assignments window_totals [] [] [] [] = Some 15412 \<and>
   estimate_shard_footprint (\<lambda>x. x) window_card (1 / 2) 8192 (Some ''mlx'') None \<le> 300000000"
proof -
  have limit: "instance_context_token_limit (\<lambda>x. x) window_assignments window_totals [] [] [] [] = Some 15412"
    by (simp add: window_eval)
  have fit: "static_memory_limit (\<lambda>x. x) window_assignments window_card window_totals [] [] = Some 15412"
    by (simp add: window_eval)
  have ws: "node_working_set (\<lambda>x. x) (shard_of window_assignments ''r0'') ''a'' window_totals [] = Some 300000000"
    by (simp add: window_eval)
  have shards: "dict_values (runner_to_shard window_assignments) = [window_shard 0, window_shard 1]"
    by (simp add: window_assignments_def)
  have card: "shard_card (shard_base (window_shard 0)) = window_card" by (simp add: window_shard_def)
  have frac: "shard_fraction_of_model (\<lambda>x. x) (shard_of window_assignments ''r0'') = Some (1 / 2)"
    by (simp add: window_eval)
  have "estimate_shard_footprint (\<lambda>x. x) window_card (1 / 2) 8192 (resolved_backend (shard_base (shard_of window_assignments ''r0'')))
       (llama_server_settings (shard_base (shard_of window_assignments ''r0''))) + dict_default 0 [] ''a''
     \<le> 300000000 + estimate_music_workspace window_card (resolved_backend (shard_base (shard_of window_assignments ''r0'')))
       + (if (1 :: rat) \<le> 1 / 2 \<and> gguf_file window_card \<noteq> None \<and> card_vision_model_type window_card \<noteq> None
          then (case projector_size window_card of Some p \<Rightarrow> p | None \<Rightarrow> 0) else 0)"
    by (rule stamped_window_fits [OF exact_arith limit _ _ shards card fit _ ws frac])
      (simp_all add: window_eval)
  then show ?thesis using limit by (simp add: window_eval)
qed

text \<open>The stamped context limit respects every clamp.  It is missing only when nothing bounds it: the memory fit is
  not computable, the card advertises no context, the placement is not a vLLM one and no shard commits its window at
  load.  Otherwise it is at most the advertised context, at most the vLLM ceiling for a vLLM placement, and, for an
  engine that commits its window at load, at most the budget floor when no fit can be computed and at most the live
  system-memory window when the window does not land in discrete VRAM.\<close>

theorem context_limit_clamped:
  fixes fl :: "rat \<Rightarrow> rat" and totals vram fixed avail :: "(node_id, memory) dict" and unified :: "node_id list"
  assumes "dict_values (runner_to_shard sa) = first # rest" "shard_card (shard_base first) = mcard"
  defines "served \<equiv> list_ex shard_preallocates_kv_upfront (first # rest)"
    and "fit \<equiv> static_memory_limit fl sa mcard totals vram fixed"
    and "in_vram \<equiv> list_all (\<lambda>(node, runner). dict_has vram node \<and> node \<notin> set unified \<and>
           backend_offloads_to_vram (resolved_backend (shard_base (shard_of sa runner)))) (node_to_runner sa)"
  shows "case instance_context_token_limit fl sa totals vram unified fixed avail of
      None \<Rightarrow> fit = None \<and> card_context_length mcard \<le> 0 \<and> \<not> placement_is_vllm sa mcard \<and> \<not> served
    | Some l \<Rightarrow> (0 < card_context_length mcard \<longrightarrow> l \<le> card_context_length mcard) \<and>
        (placement_is_vllm sa mcard \<longrightarrow> l \<le> VLLM_MAX_MODEL_LEN) \<and>
        (served \<and> fit = None \<longrightarrow> l \<le> KV_CONTEXT_BUDGET_TOKENS) \<and>
        (served \<and> fit \<noteq> None \<and> \<not> in_vram \<longrightarrow> l \<le> system_ram_window_tokens fl sa mcard totals avail fixed)"
  using assms(1,2) unfolding served_def fit_def in_vram_def
  by (cases "static_memory_limit fl sa mcard totals vram fixed")
    (simp_all add: instance_context_token_limit_def Let_def opt_min_def min_le_iff_disj)

theorem context_limit_clamped_witness:
  "case instance_context_token_limit (\<lambda>x. x) window_assignments window_totals [] [] [] [] of
     None \<Rightarrow> False | Some l \<Rightarrow> l \<le> 100000"
  using context_limit_clamped [of window_assignments "window_shard 0" "[window_shard 1]" window_card "\<lambda>x. x" window_totals "[]" "[]" "[]" "[]"]
  by (simp add: window_eval)

end
