(* ===== verification/Layer_Allocation.thy ===== *)
theory Layer_Allocation
  imports Cluster_State Floating "HOL-Library.Multiset"
begin

text \<open>
  The distribution of a model's layers over the ranks of a pipeline,
  \<open>allocate_layers_proportionally\<close> and \<open>allocate_pipeline_layers\<close> of
  \<^verbatim>\<open>src/skulk/master/placement_utils.py\<close>.  Integers that take part in a float operation are below
  \<open>2 ^ 53\<close> and convert exactly.
\<close>

section \<open>Model\<close>

text \<open>\<open>result[i] += 1\<close>\<close>

definition add_one :: "nat \<Rightarrow> int list \<Rightarrow> int list" where
  "add_one i r = r[i := r ! i + 1]"

text \<open>\<open>max(range(n), key=lambda j: result[j])\<close>: the first index of a maximum.\<close>

definition first_max :: "int list \<Rightarrow> nat" where
  "first_max r = hd (filter (\<lambda>j. \<forall>x \<in> set r. x \<le> r ! j) [0..<length r])"

fun fill_empty :: "nat list \<Rightarrow> int list \<Rightarrow> py_error + int list" where
  "fill_empty [] r = Inr r"
| "fill_empty (i # is) r =
     (if r ! i = 0
      then let j = first_max r
           in if \<not> r ! j > 1 then Inl AssertionError else fill_empty is (r[j := r ! j - 1, i := 1])
      else fill_empty is r)"

definition allocate_layers_proportionally :: "(rat \<Rightarrow> rat) \<Rightarrow> int \<Rightarrow> rat list \<Rightarrow> py_error + int list" where
  "allocate_layers_proportionally fl layers fractions =
     (let n = length fractions
      in if n = 0 then Inl ValueError
         else if layers < int n then Inl ValueError
         else let raw = map (\<lambda>f. fl (f * of_int layers)) fractions;
                  result = map py_int raw;
                  by_remainder = sort_key (\<lambda>i. - fl (raw ! i - of_int (result ! i))) [0..<n];
                  missing = nat (layers - sum_list result)
              in if missing > n then Inl IndexError
                 else fill_empty [0..<n] (fold add_one (take missing by_remainder) result))"

fun cumulative :: "int \<Rightarrow> int list \<Rightarrow> int list" where
  "cumulative before [] = []"
| "cumulative before (c # cs) = (before + c) # cumulative (before + c) cs"

text \<open>The loop over the boundaries from the last to the first; the list is reversed.\<close>

fun safe_boundaries :: "int list \<Rightarrow> int \<Rightarrow> int list \<Rightarrow> py_error + int list" where
  "safe_boundaries [] next_boundary acc = Inr acc"
| "safe_boundaries (d # ds) next_boundary acc =
     (let boundary = min d (next_boundary - 1)
      in if boundary < int (length ds) + 1 then Inl ValueError else safe_boundaries ds boundary (boundary # acc))"

fun layer_counts :: "int \<Rightarrow> int list \<Rightarrow> int \<Rightarrow> int list" where
  "layer_counts previous [] n = [n - previous]"
| "layer_counts previous (b # bs) n = (b - previous) # layer_counts b bs n"

definition allocate_pipeline_layers :: "(rat \<Rightarrow> rat) \<Rightarrow> model_card \<Rightarrow> rat list \<Rightarrow> py_error + int list" where
  "allocate_pipeline_layers fl mcard fractions =
     (case allocate_layers_proportionally fl (int (card_n_layers mcard)) fractions of
        Inl e \<Rightarrow> Inl e
      | Inr allocations \<Rightarrow>
          (case max_pipeline_split_layer mcard of
             None \<Rightarrow> Inr allocations
           | Some split_limit \<Rightarrow>
               if length allocations = 1 then Inr allocations
               else if length allocations - 1 > split_limit then Inl ValueError
               else (case safe_boundaries (rev (cumulative 0 (butlast allocations))) (int split_limit + 1) [] of
                       Inl e \<Rightarrow> Inl e
                     | Inr bs \<Rightarrow> Inr (layer_counts 0 bs (int (card_n_layers mcard))))))"

text \<open>The shares of usable memory from which every caller starts.\<close>

definition memory_fractions :: "(rat \<Rightarrow> rat) \<Rightarrow> int list \<Rightarrow> rat list" where
  "memory_fractions fl us = map (\<lambda>u. fl (of_int u / of_int (sum_list us))) us"

section \<open>Rounding to whole layers\<close>

lemma length_fold_add_one [simp]: "length (fold add_one is r) = length r"
  by (induction "is" arbitrary: r) (auto simp: add_one_def)

lemma sum_list_update_int: "i < length r \<Longrightarrow> sum_list (r[i := x]) = sum_list r + x - (r ! i :: int)"
  by (induction r arbitrary: i) (auto split: nat.split)

lemma length_add_one [simp]: "length (add_one i r) = length r"
  by (simp add: add_one_def)

lemma sum_add_one: "i < length r \<Longrightarrow> sum_list (add_one i r) = sum_list r + 1"
  by (simp add: add_one_def sum_list_update_int)

lemma sum_fold_add_one: "set is \<subseteq> {..<length r} \<Longrightarrow> sum_list (fold add_one is r) = sum_list r + int (length is)"
proof (induction "is" arbitrary: r)
  case (Cons i "is")
  then show ?case using Cons.IH [of "add_one i r"] by (simp add: sum_add_one)
qed simp

lemma nth_fold_add_one:
  "distinct is \<Longrightarrow> set is \<subseteq> {..<length r} \<Longrightarrow> k < length r \<Longrightarrow>
     fold add_one is r ! k = r ! k + (if k \<in> set is then 1 else 0)"
proof (induction "is" arbitrary: r)
  case (Cons i "is")
  then show ?case using Cons.IH [of "add_one i r"] by (auto simp: add_one_def nth_list_update)
qed simp

lemma first_max_spec:
  assumes "r \<noteq> []"
  shows "first_max r < length r" "x \<in> set r \<Longrightarrow> x \<le> r ! first_max r"
proof -
  let ?js = "filter (\<lambda>j. \<forall>x \<in> set r. x \<le> r ! j) [0..<length r]"
  obtain j where "j < length r" "r ! j = Max (set r)" using assms Max_in [of "set r"] by (auto simp: in_set_conv_nth)
  then have "j \<in> set ?js" using assms by simp
  then have "?js \<noteq> []" by (intro notI) simp
  then have "hd ?js \<in> set ?js" by (rule hd_in_set)
  then show "first_max r < length r" "x \<in> set r \<Longrightarrow> x \<le> r ! first_max r" unfolding first_max_def by auto
qed

text \<open>With at least as many layers as ranks, a rank without layers takes one from a rank that has two.\<close>

lemma pigeonhole_two:
  assumes "\<forall>x \<in> set r. 0 \<le> x" "int (length r) \<le> sum_list r" "i < length r" "r ! i = (0 :: int)"
  shows "\<exists>x \<in> set r. 2 \<le> x"
proof (rule ccontr)
  assume none: "\<not> ?thesis"
  have le: "r ! k \<le> 1" if "k < length r" for k
  proof -
    have "\<not> 2 \<le> r ! k" using nth_mem [OF that] none by blast
    then show ?thesis by simp
  qed
  have "sum_list r = (\<Sum>k<length r. r ! k)" by (simp add: sum_list_sum_nth atLeast0LessThan)
  also have "\<dots> = r ! i + (\<Sum>k \<in> {..<length r} - {i}. r ! k)" using assms(3) by (simp add: sum.remove)
  also have "\<dots> \<le> 0 + (\<Sum>k \<in> {..<length r} - {i}. 1)" using le assms(4) by (intro add_mono sum_mono) auto
  also have "\<dots> = int (length r) - 1" using assms(3) by simp
  finally show False using assms(2) by simp
qed

lemma fill_empty_total:
  assumes "distinct is" "set is \<subseteq> {..<length r}" "\<forall>x \<in> set r. 0 \<le> x" "int (length r) \<le> sum_list r"
    "\<forall>k < length r. k \<notin> set is \<longrightarrow> 1 \<le> r ! k"
  shows "\<exists>r'. fill_empty is r = Inr r' \<and> length r' = length r \<and> sum_list r' = sum_list r \<and> (\<forall>x \<in> set r'. 1 \<le> x) \<and>
    ((\<forall>x \<in> set r. 1 \<le> x) \<longrightarrow> r' = r)"
  using assms
proof (induction "is" arbitrary: r)
  case Nil
  then show ?case by (auto simp: in_set_conv_nth)
next
  case (Cons i "is")
  have i: "i < length r" using Cons.prems(2) by simp
  show ?case
  proof (cases "r ! i = 0")
    case False
    then have "\<forall>k < length r. k \<notin> set is \<longrightarrow> 1 \<le> r ! k"
      using Cons.prems(3,5) i nth_mem [of _ r] by (metis int_one_le_iff_zero_less le_less set_ConsD)
    then show ?thesis using Cons.IH [of r] Cons.prems False by simp
  next
    case True
    let ?j = "first_max r"
    let ?r = "r[?j := r ! ?j - 1, i := 1]"
    have ne: "r \<noteq> []" using i by auto
    have two: "2 \<le> r ! ?j"
      using pigeonhole_two [OF Cons.prems(3,4) i True] first_max_spec(2) [OF ne] by fastforce
    have j: "?j < length r" "?j \<noteq> i" using first_max_spec(1) [OF ne] two True by auto
    have nn: "\<forall>x \<in> set ?r. 0 \<le> x"
      using Cons.prems(3) two by (auto dest!: set_update_subset_insert [THEN subsetD])
    have "sum_list ?r = sum_list r"
      using i j True by (simp add: sum_list_update_int)
    moreover have "\<forall>k < length ?r. k \<notin> set is \<longrightarrow> 1 \<le> ?r ! k"
      using Cons.prems(5) i j two by (auto simp: nth_list_update)
    ultimately obtain r' where "fill_empty is ?r = Inr r'" "length r' = length r" "sum_list r' = sum_list r" "\<forall>x \<in> set r'. 1 \<le> x"
      using Cons.IH [of ?r] Cons.prems(1,2,4) nn by auto
    moreover have "\<not> (\<forall>x \<in> set r. 1 \<le> x)" using True i nth_mem [OF i] by force
    ultimately show ?thesis using True two by (auto simp: Let_def)
  qed
qed

text \<open>What the rounding needs of the raw shares: their integer parts leave between none and one layer per rank.\<close>

definition raw_ok :: "int \<Rightarrow> rat list \<Rightarrow> bool" where
  "raw_ok layers raw \<longleftrightarrow>
     (\<forall>r \<in> set raw. 0 \<le> r) \<and> sum_list (map py_int raw) \<le> layers \<and> layers - sum_list (map py_int raw) \<le> int (length raw)"

lemma allocate_layers_ok:
  assumes "raw_ok layers (map (\<lambda>f. fl (f * of_int layers)) fractions)" "fractions \<noteq> []" "int (length fractions) \<le> layers"
  shows "\<exists>res. allocate_layers_proportionally fl layers fractions = Inr res \<and> length res = length fractions \<and>
    sum_list res = layers \<and> (\<forall>x \<in> set res. 1 \<le> x) \<and>
    ((\<forall>f \<in> set fractions. 1 \<le> py_int (fl (f * of_int layers))) \<longrightarrow>
      (\<forall>k < length fractions. res ! k - py_int (fl (fractions ! k * of_int layers)) \<in> {0, 1}))"
proof -
  define raw where "raw = map (\<lambda>f. fl (f * of_int layers)) fractions"
  define result where "result = map py_int raw"
  define order where "order = sort_key (\<lambda>i. - fl (raw ! i - of_int (result ! i))) [0..<length fractions]"
  define missing where "missing = nat (layers - sum_list result)"
  let ?is = "take missing order" and ?n = "length fractions"
  have len [simp]: "length raw = ?n" "length result = ?n" "length order = ?n" by (simp_all add: raw_def result_def order_def)
  have ok: "\<forall>x \<in> set result. 0 \<le> x" "sum_list result \<le> layers" "layers - sum_list result \<le> int ?n"
    using assms(1) by (auto simp: raw_ok_def result_def raw_def py_int_def)
  have mis: "missing \<le> ?n" "sum_list result + int missing = layers" using ok(2,3) by (auto simp: missing_def)
  have ord: "distinct ?is" "set ?is \<subseteq> {..<?n}"
    using set_take_subset [of missing order] by (auto simp: order_def)
  let ?r = "fold add_one ?is result"
  have nth: "?r ! k = result ! k + (if k \<in> set ?is then 1 else 0)" if "k < ?n" for k
    using nth_fold_add_one [OF ord(1), of result k] ord(2) that by simp
  have nn: "\<forall>x \<in> set ?r. 0 \<le> x"
  proof
    fix x assume "x \<in> set ?r"
    then obtain k where "k < ?n" "x = ?r ! k" by (auto simp: in_set_conv_nth)
    then show "0 \<le> x" using nth [of k] ok(1) nth_mem [of k result] by auto
  qed
  have sum: "sum_list ?r = layers" using sum_fold_add_one [of ?is result] ord(2) mis by simp
  obtain res where res: "fill_empty [0..<?n] ?r = Inr res" "length res = ?n" "sum_list res = layers" "\<forall>x \<in> set res. 1 \<le> x"
      "(\<forall>x \<in> set ?r. 1 \<le> x) \<longrightarrow> res = ?r"
    using fill_empty_total [of "[0..<?n]" ?r] nn sum assms(3) by (auto simp: atLeast0LessThan)
  have run: "allocate_layers_proportionally fl layers fractions = Inr res"
    using res(1) mis(1) assms(2,3) unfolding allocate_layers_proportionally_def Let_def
    by (simp add: raw_def result_def order_def missing_def)
  have "res ! k - py_int (fl (fractions ! k * of_int layers)) \<in> {0, 1}"
    if pos: "\<forall>f \<in> set fractions. 1 \<le> py_int (fl (f * of_int layers))" and k: "k < ?n" for k
  proof -
    have "1 \<le> result ! i" if "i < ?n" for i using pos that by (simp add: result_def raw_def)
    then have "\<forall>x \<in> set ?r. 1 \<le> x" using nth by (force simp: in_set_conv_nth)
    then have "res = ?r" using res(5) by blast
    then show ?thesis using nth [OF k] k by (auto simp: result_def raw_def)
  qed
  with run res(2-4) show ?thesis by blast
qed

section \<open>Rounding errors do not matter\<close>

text \<open>An error below one part in the total memory does not carry a share across a whole number of layers.\<close>

lemma of_int_sum_list: "of_int (sum_list (map f xs)) = sum_list (map (\<lambda>x. of_int (f x)) xs)"
  by (induction xs) simp_all

lemma floor_close:
  fixes r :: rat
  assumes "0 < U" "\<bar>r - of_int a / of_int U\<bar> < 1 / of_int U"
  shows "\<lfloor>r\<rfloor> \<le> a div U" "of_int a / of_int U - 1 / of_int U - 1 < (of_int \<lfloor>r\<rfloor> :: rat)"
proof -
  have U: "(0 :: rat) < of_int U" using assms(1) by simp
  have up: "r < of_int a / of_int U + 1 / of_int U" and lo: "of_int a / of_int U - 1 / of_int U < r"
    using assms(2) by (auto simp: abs_less_iff)
  show "\<lfloor>r\<rfloor> \<le> a div U"
  proof (rule ccontr)
    assume "\<not> ?thesis"
    then have "a div U + 1 \<le> \<lfloor>r\<rfloor>" by simp
    then have "(a div U + 1) * U \<le> \<lfloor>r\<rfloor> * U" using assms(1) by (intro mult_right_mono) auto
    moreover have "a < (a div U + 1) * U"
      using div_mult_mod_eq [of a U] pos_mod_bound [OF assms(1), of a] unfolding distrib_right by linarith
    ultimately have "a + 1 \<le> \<lfloor>r\<rfloor> * U" by linarith
    then have "(of_int (a + 1) :: rat) \<le> of_int (\<lfloor>r\<rfloor> * U)" by (rule of_int_le_iff [THEN iffD2])
    then have "(of_int a + 1) / of_int U \<le> (of_int \<lfloor>r\<rfloor> :: rat)" using U by (simp add: pos_divide_le_eq)
    moreover have "of_int \<lfloor>r\<rfloor> \<le> r" by simp
    ultimately show False using up by (simp add: add_divide_distrib)
  qed
  show "of_int a / of_int U - 1 / of_int U - 1 < (of_int \<lfloor>r\<rfloor> :: rat)" using lo by linarith
qed

context double_arith
begin

text \<open>The error of a rank's raw share: two rounded operations on an exact quotient.\<close>

lemma raw_share_error:
  assumes "0 \<le> u" "u \<le> U" "0 < U" "0 < layers" "3 * layers * U < 2 ^ 53"
  shows "\<bar>fl (fl (of_int u / of_int U) * of_int layers) - of_int (u * layers) / of_int U\<bar> < 1 / of_int U"
proof -
  let ?q = "of_int u / of_int U :: rat" and ?n = "of_int layers :: rat"
  have q: "0 \<le> ?q" "?q \<le> 1" using assms(1-3) by (simp_all add: divide_le_eq)
  have "\<bar>fl (fl ?q * ?n) - ?q * ?n\<bar> \<le> ?q * ?n * (3 * unit_roundoff)" using fl_scaled [OF q(1)] assms(4) by simp
  also have "\<dots> \<le> 1 * ?n * (3 * unit_roundoff)"
    using q assms(4) unit_roundoff_bounds(1) by (intro mult_right_mono) auto
  also have "\<dots> < 1 / of_int U"
  proof -
    have "of_int (3 * layers * U) < (of_int (2 ^ 53) :: rat)" using assms(5) by (rule of_int_less_iff [THEN iffD2])
    then have "?n * 3 * of_int U < (2 :: rat) ^ 53" by (simp add: mult_ac)
    then show ?thesis using assms(3) by (simp add: unit_roundoff_def field_simps)
  qed
  finally show ?thesis by simp
qed

lemma raw_shares_ok:
  assumes us: "\<forall>u \<in> set us. 0 \<le> u" and U: "0 < sum_list us" and l: "0 < layers"
    and small: "3 * layers * sum_list us < 2 ^ 53"
  shows "raw_ok layers (map (\<lambda>f. fl (f * of_int layers)) (memory_fractions fl us))"
proof -
  let ?U = "sum_list us"
  let ?r = "\<lambda>u. fl (fl (of_int u / of_int ?U) * of_int layers)"
  have mem: "u \<le> ?U" if "u \<in> set us" for u using member_le_sum_list [OF that] us by blast
  have err: "\<bar>?r u - of_int (u * layers) / of_int ?U\<bar> < 1 / of_int ?U" if "u \<in> set us" for u
    using raw_share_error [OF _ mem [OF that] U l small] us that by blast
  have nn: "0 \<le> ?r u" if "u \<in> set us" for u using us U l that by (intro fl_nonneg mult_nonneg_nonneg divide_nonneg_nonneg) auto
  have int: "py_int (?r u) = \<lfloor>?r u\<rfloor>" if "u \<in> set us" for u using nn [OF that] by (simp add: py_int_def)
  have sums: "sum_list (map (\<lambda>u. py_int (?r u)) us) = sum_list (map (\<lambda>u. \<lfloor>?r u\<rfloor>) us)" using int by (intro arg_cong [of _ _ sum_list] map_cong) auto
  have scaled: "sum_list (map (\<lambda>u. of_int (u * layers) / of_int V) vs) = (of_int (sum_list vs) * of_int layers / of_int V :: rat)" for V vs
    by (induction vs) (auto simp: add_divide_distrib distrib_right)
  have whole: "sum_list (map (\<lambda>u. of_int (u * layers) / of_int ?U) us) = (of_int layers :: rat)"
    using U by (simp add: scaled del: of_int_mult)
  have "sum_list (map (\<lambda>u. \<lfloor>?r u\<rfloor>) us) \<le> sum_list (map (\<lambda>u. u * layers div ?U) us)"
    using floor_close(1) [OF U err] by (intro sum_list_mono) auto
  moreover have "of_int (sum_list (map (\<lambda>u. u * layers div ?U) us)) \<le> (of_int layers :: rat)"
  proof -
    have "of_int (x div ?U) \<le> (of_int x / of_int ?U :: rat)" for x
      unfolding floor_divide_of_int_eq [symmetric, where ?'a = rat] by (rule of_int_floor_le)
    then have "sum_list (map (\<lambda>u. of_int (u * layers div ?U)) us) \<le> sum_list (map (\<lambda>u. of_int (u * layers) / of_int ?U :: rat) us)"
      by (intro sum_list_mono) (simp del: of_int_mult)
    then show ?thesis unfolding whole by (simp add: of_int_sum_list)
  qed
  ultimately have le: "sum_list (map (\<lambda>u. \<lfloor>?r u\<rfloor>) us) \<le> layers" by (simp add: of_int_le_iff)
  have e: "of_int layers * (3 * unit_roundoff) < 1"
  proof -
    have "3 * layers * 1 \<le> 3 * layers * ?U" using U l by (intro mult_left_mono) auto
    then have "of_int (3 * layers) < (of_int (2 ^ 53) :: rat)" using small by (intro of_int_less_iff [THEN iffD2]) linarith
    then show ?thesis by (simp add: unit_roundoff_def)
  qed
  let ?q = "\<lambda>u. of_int (u * layers) / of_int ?U :: rat"
  have "sum_list (map (\<lambda>u. ?q u - (?q u * (3 * unit_roundoff) + 1)) us) \<le> sum_list (map (\<lambda>u. of_int \<lfloor>?r u\<rfloor>) us)"
  proof (rule sum_list_mono)
    fix u assume "u \<in> set us"
    then have "\<bar>?r u - ?q u\<bar> \<le> ?q u * (3 * unit_roundoff)"
      using fl_scaled [of "of_int u / of_int ?U" "of_int layers"] us U l by simp
    then show "?q u - (?q u * (3 * unit_roundoff) + 1) \<le> of_int \<lfloor>?r u\<rfloor>" by linarith
  qed
  then have "of_int layers - (of_int layers * (3 * unit_roundoff) + of_int (int (length us))) \<le> (of_int (sum_list (map (\<lambda>u. \<lfloor>?r u\<rfloor>) us)) :: rat)"
    unfolding sum_list_subtractf sum_list_addf sum_list_mult_const whole by (simp add: of_int_sum_list sum_list_triv)
  then have "of_int (layers - (int (length us) + 1)) < (of_int (sum_list (map (\<lambda>u. \<lfloor>?r u\<rfloor>) us)) :: rat)" using e by simp
  then have lo: "layers - (int (length us) + 1) < sum_list (map (\<lambda>u. \<lfloor>?r u\<rfloor>) us)" by (rule of_int_less_iff [THEN iffD1])
  show ?thesis using le lo nn sums unfolding raw_ok_def memory_fractions_def by (simp add: o_def)
qed

text \<open>An allocation from memory shares exists; where every rank earns more than one layer, each count is
  within one layer of the exact proportion.\<close>

lemma memory_allocation:
  assumes us: "\<forall>u \<in> set us. 0 \<le> u" "0 < sum_list us" and len: "int (length us) \<le> layers"
    and small: "3 * layers * sum_list us < 2 ^ 53"
  shows "\<exists>as. allocate_layers_proportionally fl layers (memory_fractions fl us) = Inr as \<and> length as = length us \<and>
    sum_list as = layers \<and> (\<forall>c \<in> set as. 1 \<le> c) \<and>
    ((\<forall>u \<in> set us. sum_list us < u * layers) \<longrightarrow>
      (\<forall>k < length us. \<bar>as ! k * sum_list us - us ! k * layers\<bar> \<le> sum_list us))"
proof -
  let ?U = "sum_list us" and ?fs = "memory_fractions fl us"
  let ?r = "\<lambda>u. fl (fl (of_int u / of_int ?U) * of_int layers)"
  have ne: "us \<noteq> []" using us(2) by auto
  then have "0 < length us" by simp
  then have U: "0 < ?U" "0 < layers" using us(2) len by linarith+
  have fs: "length ?fs = length us" "?fs \<noteq> []" using ne by (simp_all add: memory_fractions_def)
  obtain as where as: "allocate_layers_proportionally fl layers ?fs = Inr as" "length as = length us" "sum_list as = layers"
      "\<forall>c \<in> set as. 1 \<le> c"
      "(\<forall>f \<in> set ?fs. 1 \<le> py_int (fl (f * of_int layers))) \<longrightarrow> (\<forall>k < length us. as ! k - py_int (fl (?fs ! k * of_int layers)) \<in> {0, 1})"
    using allocate_layers_ok [OF raw_shares_ok [OF us(1) U small] fs(2)] len unfolding fs(1) by blast
  have close: "\<lfloor>?r u\<rfloor> \<le> u * layers div ?U" "of_int (u * layers) / of_int ?U - 1 / of_int ?U - 1 < (of_int \<lfloor>?r u\<rfloor> :: rat)"
      "py_int (?r u) = \<lfloor>?r u\<rfloor>" if "u \<in> set us" for u
  proof -
    have u: "0 \<le> u" "u \<le> ?U" using us(1) that member_le_sum_list [OF that] by auto
    note err = raw_share_error [OF u U small]
    show "\<lfloor>?r u\<rfloor> \<le> u * layers div ?U" "of_int (u * layers) / of_int ?U - 1 / of_int ?U - 1 < (of_int \<lfloor>?r u\<rfloor> :: rat)"
      by (rule floor_close [OF U(1) err])+
    have "0 \<le> ?r u" using u U by (intro fl_nonneg mult_nonneg_nonneg divide_nonneg_nonneg) auto
    then show "py_int (?r u) = \<lfloor>?r u\<rfloor>" by (simp add: py_int_def)
  qed
  have low: "u * layers - ?U \<le> \<lfloor>?r u\<rfloor> * ?U" if "u \<in> set us" for u
  proof -
    have "(of_int (u * layers) - 1 - of_int ?U) / of_int ?U < (of_int \<lfloor>?r u\<rfloor> :: rat)"
      using close(2) [OF that] U(1) by (simp add: diff_divide_distrib)
    then have "of_int (u * layers - 1 - ?U) < (of_int (\<lfloor>?r u\<rfloor> * ?U) :: rat)" using U(1) by (simp add: pos_divide_less_eq)
    then have "u * layers - 1 - ?U < \<lfloor>?r u\<rfloor> * ?U" by (rule of_int_less_iff [THEN iffD1])
    then show ?thesis by simp
  qed
  have "\<bar>as ! k * ?U - us ! k * layers\<bar> \<le> ?U" if big: "\<forall>u \<in> set us. ?U < u * layers" and k: "k < length us" for k
  proof -
    have pos: "1 \<le> \<lfloor>?r u\<rfloor>" if u: "u \<in> set us" for u
    proof -
      have "0 < \<lfloor>?r u\<rfloor> * ?U" using low [OF u] big u by fastforce
      then show ?thesis using U(1) by (simp add: zero_less_mult_iff)
    qed
    then have "as ! k - py_int (fl (?fs ! k * of_int layers)) \<in> {0, 1}"
      using as(5) k close(3) by (auto simp: memory_fractions_def)
    then have d: "as ! k = \<lfloor>?r (us ! k)\<rfloor> \<or> as ! k = \<lfloor>?r (us ! k)\<rfloor> + 1"
      using close(3) [OF nth_mem [OF k]] k by (auto simp: memory_fractions_def)
    have "\<lfloor>?r (us ! k)\<rfloor> * ?U \<le> us ! k * layers div ?U * ?U" using close(1) [OF nth_mem [OF k]] U(1) by (intro mult_right_mono) auto
    also have "\<dots> \<le> us ! k * layers" using U(1) div_mult_mod_eq [of "us ! k * layers" ?U] pos_mod_sign [OF U(1), of "us ! k * layers"] by linarith
    finally show ?thesis using d low [OF nth_mem [OF k]] U(1) by (auto simp: distrib_right)
  qed
  with as(1-4) show ?thesis by blast
qed

end

section \<open>Safe boundaries\<close>

lemma sorted_positive_length:
  "sorted_wrt (<) (xs @ [d]) \<Longrightarrow> \<forall>x \<in> set (xs @ [d]). (0 :: int) < x \<Longrightarrow> int (length xs) < d"
proof (induction xs arbitrary: d rule: rev_induct)
  case (snoc x xs)
  then have "int (length xs) < x" "x < d" by (auto simp: sorted_wrt_append)
  then show ?case by simp
qed simp

text \<open>The boundaries the loop stores are ordered, positive, below the limit and never right of the desired ones.\<close>

lemma safe_boundaries_total:
  assumes "sorted_wrt (<) (rev ds)" "\<forall>d \<in> set ds. 0 < d" "int (length ds) < next_boundary"
  shows "\<exists>bs. safe_boundaries ds next_boundary acc = Inr (bs @ acc) \<and> length bs = length ds \<and>
    sorted_wrt (<) (0 # bs @ [next_boundary]) \<and> list_all2 (\<le>) bs (rev ds) \<and>
    ((\<forall>d \<in> set ds. d < next_boundary) \<longrightarrow> bs = rev ds)"
  using assms
proof (induction ds arbitrary: next_boundary acc)
  case (Cons d ds)
  let ?b = "min d (next_boundary - 1)"
  have len: "int (length ds) < d" using sorted_positive_length [of "rev ds" d] Cons.prems(1,2) by simp
  have b: "int (length ds) < ?b" using len Cons.prems(3) by auto
  have ds: "sorted_wrt (<) (rev ds)" "\<forall>e \<in> set ds. e < d" using Cons.prems(1) by (auto simp: sorted_wrt_append)
  obtain bs where bs: "safe_boundaries ds ?b (?b # acc) = Inr (bs @ ?b # acc)" "length bs = length ds"
      "sorted_wrt (<) (0 # bs @ [?b])" "list_all2 (\<le>) bs (rev ds)" "(\<forall>e \<in> set ds. e < ?b) \<longrightarrow> bs = rev ds"
    using Cons.IH [OF ds(1) _ b, of "?b # acc"] Cons.prems(2) by auto
  have "safe_boundaries (d # ds) next_boundary acc = Inr ((bs @ [?b]) @ acc)" using bs(1) b by (auto simp: Let_def)
  moreover have "sorted_wrt (<) (0 # (bs @ [?b]) @ [next_boundary])"
    using bs(3) Cons.prems(3) by (fastforce simp: sorted_wrt_append)
  moreover have "list_all2 (\<le>) (bs @ [?b]) (rev (d # ds))" using bs(4) by (simp add: list_all2_appendI)
  moreover have "bs @ [?b] = rev (d # ds)" if "\<forall>e \<in> set (d # ds). e < next_boundary"
    using that bs(5) ds(2) by (simp add: min_def)
  ultimately show ?case using bs(2) by (metis length_Cons length_append_singleton)
qed simp

lemma cumulative_simps [simp]: "length (cumulative b cs) = length cs"
  by (induction cs arbitrary: b) simp_all

lemma cumulative_sorted: "\<forall>c \<in> set cs. 1 \<le> c \<Longrightarrow> sorted_wrt (<) (b # cumulative b cs)"
proof (induction cs arbitrary: b)
  case (Cons c cs)
  have "sorted_wrt (<) ((b + c) # cumulative (b + c) cs)" using Cons by simp
  moreover have "b < b + c" using Cons.prems by simp
  ultimately show ?case by force
qed simp

lemma cumulative_le: "\<forall>c \<in> set cs. 1 \<le> c \<Longrightarrow> d \<in> set (cumulative b cs) \<Longrightarrow> d \<le> b + sum_list cs"
proof (induction cs arbitrary: b)
  case (Cons c cs)
  have "0 \<le> sum_list cs" using Cons.prems(1) by (intro sum_list_nonneg) auto
  then show ?case using Cons.IH [of "b + c"] Cons.prems by auto
qed simp

lemma layer_counts_sum [simp]: "sum_list (layer_counts b bs n) = n - b" "length (layer_counts b bs n) = Suc (length bs)"
  by (induction bs arbitrary: b) simp_all

lemma layer_counts_pos: "sorted_wrt (<) (b # bs @ [n]) \<Longrightarrow> c \<in> set (layer_counts b bs n) \<Longrightarrow> 1 \<le> c"
  by (induction bs arbitrary: b) auto

lemma layer_counts_cumulative: "layer_counts b (cumulative b cs) (b + sum_list cs + c) = cs @ [c]"
proof (induction cs arbitrary: b)
  case (Cons d cs)
  then show ?case using Cons.IH [of "b + d"] by (simp add: add.assoc)
qed simp

lemma butlast_last_sum: "xs \<noteq> [] \<Longrightarrow> sum_list (butlast xs) + last xs = (sum_list xs :: int)"
  by (cases xs rule: rev_cases) auto

lemma last_layer_counts: "last (layer_counts b bs n) = n - last (b # bs)"
proof (induction bs arbitrary: b)
  case (Cons c cs)
  have "layer_counts c cs n \<noteq> []" by (cases cs) auto
  then show ?case using Cons.IH [of c] by simp
qed simp

text \<open>Shifting the boundaries of a positive allocation below a limit that has room for them.\<close>

lemma constrain_allocation:
  assumes pos: "\<forall>c \<in> set as. 1 \<le> c" and len: "1 < length as" "length as - 1 \<le> limit"
  shows "\<exists>bs. safe_boundaries (rev (cumulative 0 (butlast as))) (int limit + 1) [] = Inr bs \<and>
    length (layer_counts 0 bs (sum_list as)) = length as \<and> (\<forall>c \<in> set (layer_counts 0 bs (sum_list as)). 1 \<le> c) \<and>
    sum_list as - last (layer_counts 0 bs (sum_list as)) \<le> int limit \<and>
    (sum_list as - last as \<le> int limit \<longrightarrow> layer_counts 0 bs (sum_list as) = as)"
proof -
  let ?ds = "cumulative 0 (butlast as)"
  have pos': "\<forall>c \<in> set (butlast as). 1 \<le> c" using pos by (auto dest: in_set_butlastD)
  have ne: "as \<noteq> []" using len(1) by auto
  have srt: "sorted_wrt (<) (0 # ?ds)" using cumulative_sorted [OF pos'] .
  have sum: "sum_list (butlast as) + last as = sum_list as" using butlast_last_sum [OF ne] .
  have last1: "1 \<le> last as" using pos ne by simp
  have le: "d \<le> sum_list as - last as" if "d \<in> set ?ds" for d using cumulative_le [OF pos' that] sum by simp
  have room: "int (length (rev ?ds)) < int limit + 1" using len(2) by simp
  obtain bs where bs: "safe_boundaries (rev ?ds) (int limit + 1) [] = Inr bs" "length bs = length ?ds"
      "sorted_wrt (<) (0 # bs @ [int limit + 1])" "list_all2 (\<le>) bs ?ds" "(\<forall>d \<in> set ?ds. d < int limit + 1) \<longrightarrow> bs = ?ds"
    using safe_boundaries_total [of "rev ?ds" "int limit + 1" "[]"] srt room by auto
  have "b < sum_list as" if b: "b \<in> set bs" for b
  proof -
    obtain d where "d \<in> set ?ds" "b \<le> d" using bs(4) b by (force simp: list_all2_conv_all_nth in_set_conv_nth)
    then show ?thesis using le last1 by fastforce
  qed
  moreover have "0 < sum_list as"
  proof -
    have "0 \<le> sum_list (butlast as)" using pos' by (intro sum_list_nonneg) auto
    then show ?thesis using sum last1 by simp
  qed
  ultimately have srt': "sorted_wrt (<) (0 # bs @ [sum_list as])" using bs(3) by (auto simp: sorted_wrt_append)
  have bs_ne: "bs \<noteq> []" using bs(2) len(1) by auto
  then have "last bs \<le> int limit" using bs(3) by (auto simp: sorted_wrt_append dest: last_in_set)
  then have lim: "sum_list as - last (layer_counts 0 bs (sum_list as)) \<le> int limit" using bs_ne by (simp add: last_layer_counts)
  have same: "layer_counts 0 bs (sum_list as) = as" if "sum_list as - last as \<le> int limit"
  proof -
    have "bs = ?ds" using bs(5) le that by force
    then show ?thesis using layer_counts_cumulative [of 0 "butlast as" "last as"] sum ne by simp
  qed
  show ?thesis using bs(1,2) layer_counts_pos [OF srt'] lim same len(1) by auto
qed

lemma pipeline_layers_cases:
  assumes fl: "double_arith fl" and us: "\<forall>u \<in> set us. 0 \<le> u" "0 < sum_list us"
    and small: "3 * int (card_n_layers mcard) * sum_list us < 2 ^ 53"
  shows "(case allocate_pipeline_layers fl mcard (memory_fractions fl us) of
      Inl e \<Rightarrow> e = ValueError \<and> (card_n_layers mcard < length us \<or>
        (\<exists>limit. max_pipeline_split_layer mcard = Some limit \<and> limit < length us - 1))
    | Inr counts \<Rightarrow> length counts = length us \<and> (\<forall>c \<in> set counts. 1 \<le> c) \<and>
        sum_list counts = int (card_n_layers mcard) \<and>
        (case max_pipeline_split_layer mcard of None \<Rightarrow> True
         | Some limit \<Rightarrow> length us = 1 \<or> int (card_n_layers mcard) - last counts \<le> int limit))"
proof -
  let ?n = "int (card_n_layers mcard)" and ?fs = "memory_fractions fl us"
  have len: "length ?fs = length us" by (simp add: memory_fractions_def)
  show ?thesis
  proof (cases "card_n_layers mcard < length us")
    case True
    then have "allocate_layers_proportionally fl ?n ?fs = Inl ValueError"
      unfolding allocate_layers_proportionally_def len Let_def by auto
    then show ?thesis using True by (auto simp: allocate_pipeline_layers_def)
  next
    case False
    obtain as where as: "allocate_layers_proportionally fl ?n ?fs = Inr as" "length as = length us"
        "sum_list as = ?n" "\<forall>c \<in> set as. 1 \<le> c"
      using double_arith.memory_allocation [OF fl us _ small] False by auto
    show ?thesis
    proof (cases "max_pipeline_split_layer mcard")
      case None
      then show ?thesis using as False by (simp add: allocate_pipeline_layers_def)
    next
      case (Some limit)
      consider "length as = 1" | "length as \<noteq> 1" "length as - 1 > limit" | "1 < length as" "length as - 1 \<le> limit"
        using as(2) us(2) by (metis One_nat_def leI length_0_conv less_irrefl less_one linorder_neqE_nat sum_list.Nil)
      then show ?thesis
      proof cases
        case 3
        then show ?thesis using constrain_allocation [OF as(4) 3] as Some False by (auto simp: allocate_pipeline_layers_def)
      qed (use as Some False in \<open>auto simp: allocate_pipeline_layers_def\<close>)
    qed
  qed
qed

text \<open>C22. The layers of a model are partitioned over the ranks of a pipeline: for shares computed in double
  precision from the usable memory of the ranks, the allocation succeeds exactly when there is
  at least one layer per rank and room for the ranks before the safe split boundary.  Then every rank has at
  least one layer, the counts add up to the layers of the model, and the last rank begins at or before the safe
  boundary.  No internal assertion fails and no index is out of range, whatever the rounding errors.\<close>

theorem pipeline_layers_partition:
  assumes fl: "double_arith fl" and us: "\<forall>u \<in> set us. 0 \<le> u" "0 < sum_list us"
    and small: "3 * int (card_n_layers mcard) * sum_list us < 2 ^ 53"
  shows "(case allocate_pipeline_layers fl mcard (memory_fractions fl us) of
      Inl e \<Rightarrow> e = ValueError \<and> (card_n_layers mcard < length us \<or>
        (\<exists>limit. max_pipeline_split_layer mcard = Some limit \<and> limit < length us - 1))
    | Inr counts \<Rightarrow> length counts = length us \<and> (\<forall>c \<in> set counts. 1 \<le> c) \<and>
        sum_list counts = int (card_n_layers mcard) \<and>
        (case max_pipeline_split_layer mcard of None \<Rightarrow> True
         | Some limit \<Rightarrow> length us = 1 \<or> int (card_n_layers mcard) - last counts \<le> int limit))"
  using pipeline_layers_cases [OF assms] .

theorem pipeline_layers_partition_witness:
  "allocate_pipeline_layers double (example_card\<lparr>max_pipeline_split_layer := Some 4\<rparr>) (memory_fractions double [12, 12, 8]) = Inr [3, 1, 4] \<and>
   sum_list [3, 1, 4 :: int] = int (card_n_layers example_card)"
proof -
  have run: "allocate_pipeline_layers double (example_card\<lparr>max_pipeline_split_layer := Some 4\<rparr>) (memory_fractions double [12, 12, 8]) = Inr [3, 1, 4]"
    by code_simp
  have "card_n_layers example_card = 8" by (simp add: example_card_def)
  then show ?thesis
    using pipeline_layers_partition [OF ieee.double_arith_axioms, of "[12, 12, 8]" "example_card\<lparr>max_pipeline_split_layer := Some 4\<rparr>"]
    by (simp add: run)
qed

text \<open>Layers follow memory: without a split limit, and where the memory of every rank is worth more than one
  layer, the count of each rank differs from the exact proportion of its memory by at most one layer.\<close>

theorem pipeline_layers_proportional:
  assumes "double_arith fl" "\<forall>u \<in> set us. sum_list us < u * int (card_n_layers mcard)" "\<forall>u \<in> set us. 0 \<le> u"
    "0 < sum_list us" "length us \<le> card_n_layers mcard" "3 * int (card_n_layers mcard) * sum_list us < 2 ^ 53"
    "max_pipeline_split_layer mcard = None" "k < length us"
  shows "\<exists>counts. allocate_pipeline_layers fl mcard (memory_fractions fl us) = Inr counts \<and>
    \<bar>counts ! k * sum_list us - us ! k * int (card_n_layers mcard)\<bar> \<le> sum_list us"
  using double_arith.memory_allocation [OF assms(1,3,4) _ assms(6)] assms(2,5,7,8) by (auto simp: allocate_pipeline_layers_def)

theorem pipeline_layers_proportional_witness:
  "\<exists>counts. allocate_pipeline_layers double example_card (memory_fractions double [12, 12, 8]) = Inr counts \<and>
     \<bar>counts ! 2 * 32 - 8 * 8\<bar> \<le> 32"
  using pipeline_layers_proportional [OF ieee.double_arith_axioms, of "[12, 12, 8]" example_card 2] by (simp add: example_card_def)

end
