(* ===== verification/Placement_Memory.thy ===== *)
theory Placement_Memory
  imports Memory_Estimate Layer_Allocation
begin

text \<open>
  The memory side of placement in \<^verbatim>\<open>src/skulk/master/placement_utils.py\<close>: how much memory a node can give, what
  placed instances have already claimed, what each node of a candidate cycle must hold, and the filter that keeps the
  cycles that fit.
\<close>

section \<open>Usable memory\<close>

record node_resources =
  backends :: "string list"
  on_demand_backends :: "string list"
  engine_builds :: "(string, string) dict"
  res_llama_settings :: "llama_settings option"
  hardware_classes :: "string list"
  participation :: string
  data_transport :: string
  zenoh_connected_peers :: "nat option"
  resources_rest :: opaque

record system_profile =
  accelerator :: "accelerator_metrics option"
  profile_rest :: opaque

datatype sharding = Tensor | Pipeline

text \<open>A dictionary built in a loop that may skip keys.\<close>

definition dict_collect :: "('k \<Rightarrow> 'v \<Rightarrow> 'w option) \<Rightarrow> ('k, 'v) dict \<Rightarrow> ('k, 'w) dict" where
  "dict_collect f d = List.map_filter (\<lambda>(k, v). map_option (Pair k) (f k v)) d"

definition has_gpu_offload_backend :: "string list \<Rightarrow> bool" where
  "has_gpu_offload_backend bs =
     list_ex (\<lambda>tag. tag \<in> {''audio_cpp-cuda'', ''audio_cpp-rocm'', ''audio_cpp-vulkan''} \<or>
        (startswith_any tag [''llama_cpp-'', ''llama_server-'', ''vllm-'', ''comfy-''] \<and> \<not> endswith tag ''-cpu'')) bs"

definition advertises_gpu :: "(node_id, node_resources) dict option \<Rightarrow> node_id \<Rightarrow> bool" where
  "advertises_gpu res node =
     (case res of
        None \<Rightarrow> True
      | Some r \<Rightarrow> (case dict_get r node of None \<Rightarrow> False | Some x \<Rightarrow> has_gpu_offload_backend (backends x)))"

text \<open>The GTT aperture spans the whole of system memory.\<close>

definition gtt_spans_host :: "accelerator_metrics \<Rightarrow> int \<Rightarrow> memory_usage option \<Rightarrow> bool" where
  "gtt_spans_host a tot mem =
     (case (gtt_total_bytes a, mem) of (Some gtt, Some m) \<Rightarrow> gtt > tot \<and> gtt \<ge> ram_total m | _ \<Rightarrow> False)"

definition unified_memory_gpu_node_ids ::
  "(rat \<Rightarrow> rat) \<Rightarrow> (node_id, system_profile) dict \<Rightarrow> (node_id, node_resources) dict option \<Rightarrow> (node_id, memory_usage) dict \<Rightarrow> node_id list" where
  "unified_memory_gpu_node_ids fl node_system node_resources node_memory =
     dict_keys (dict_filter (\<lambda>node profile.
        case accelerator profile of
          None \<Rightarrow> False
        | Some a \<Rightarrow>
            (let mem = dict_get node_memory node
             in if gb10_unified_memory_pool fl a mem \<noteq> None then advertises_gpu node_resources node
                else case vram_total_bytes a of
                       Some tot \<Rightarrow> vendor a = ''amd'' \<and> 0 < tot \<and> advertises_gpu node_resources node \<and> gtt_spans_host a tot mem
                     | None \<Rightarrow> False))
        node_system)"

definition node_accelerator :: "(node_id, system_profile) dict \<Rightarrow> node_id \<Rightarrow> accelerator_metrics option" where
  "node_accelerator node_system node = Option.bind (dict_get node_system node) accelerator"

definition carve_first_gpu_node_ids ::
  "(rat \<Rightarrow> rat) \<Rightarrow> (node_id, system_profile) dict \<Rightarrow> (node_id, node_resources) dict option \<Rightarrow> (node_id, memory_usage) dict \<Rightarrow> node_id list" where
  "carve_first_gpu_node_ids fl node_system node_resources node_memory =
     filter (\<lambda>node. case node_accelerator node_system node of
               Some a \<Rightarrow> vendor a = ''amd'' \<and> vram_used_bytes a \<noteq> None
             | None \<Rightarrow> False)
       (unified_memory_gpu_node_ids fl node_system node_resources node_memory)"

section \<open>Reservations\<close>

text \<open>\<open>committed[node] = committed.get(node, 0) + bytes\<close> over a list of charges.\<close>

definition accumulate :: "(node_id \<times> memory) list \<Rightarrow> (node_id, memory) dict" where
  "accumulate charges = foldl (\<lambda>d (node, b). dict_set node (dict_default 0 d node + b) d) [] charges"

fun is_rpc :: "instance_t \<Rightarrow> bool" where
  "is_rpc (LlamaRpcInstance _ _ _) = True"
| "is_rpc _ = False"

text \<open>The shards of the placements that own a concrete per-node share.\<close>

definition hosted_shards :: "(instance_id, instance_t) dict \<Rightarrow> (instance_id \<times> instance_t \<times> node_id \<times> shard_metadata) list" where
  "hosted_shards insts =
     [(iid, i, node, shard_of (inst_shards i) runner). (iid, i) \<leftarrow> insts, \<not> is_rpc i, (node, runner) \<leftarrow> node_to_runner (inst_shards i)]"

definition shard_charge :: "(rat \<Rightarrow> rat) \<Rightarrow> shard_metadata \<Rightarrow> int \<Rightarrow> memory option" where
  "shard_charge fl shard context_budget =
     map_option (\<lambda>fraction. estimate_shard_footprint fl (shard_card (shard_base shard)) fraction context_budget
                    (resolved_backend (shard_base shard)) (llama_server_settings (shard_base shard)))
       (shard_fraction_of_model fl shard)"

definition stamped_budget :: "instance_t \<Rightarrow> int" where
  "stamped_budget i =
     (case bi_context_token_limit (instance_base i) of Some l \<Rightarrow> l | None \<Rightarrow> KV_CONTEXT_BUDGET_TOKENS)"

definition vram_charges ::
  "(rat \<Rightarrow> rat) \<Rightarrow> (node_id, memory) dict \<Rightarrow> (instance_id, instance_t) dict \<Rightarrow> (node_id \<times> memory) list" where
  "vram_charges fl node_vram insts =
     List.map_filter (\<lambda>(iid, i, node, shard).
        let backend = resolved_backend (shard_base shard)
        in if \<not> (backend = None \<and> dict_has node_vram node) \<and> \<not> backend_offloads_to_vram backend then None
           else map_option (Pair node) (shard_charge fl shard (stamped_budget i)))
       (hosted_shards insts)"

text \<open>The working set of a node's card that placements may commit; \<open>None\<close> where the observation alone decides.\<close>

definition vram_ceiling :: "(rat \<Rightarrow> rat) \<Rightarrow> (node_id, system_profile) dict \<Rightarrow> node_id list \<Rightarrow> node_id \<Rightarrow> memory option" where
  "vram_ceiling fl node_system unified node =
     (case node_accelerator node_system node of
        None \<Rightarrow> None
      | Some a \<Rightarrow>
          (case vram_total_bytes a of
             None \<Rightarrow> None
           | Some tot \<Rightarrow>
               if tot \<le> 0 \<or> (node \<in> set unified \<and> vendor a = ''amd'') then None
               else Some (py_int (fl (of_int tot * (if node \<in> set unified then GPU_WORKING_SET_FRACTION fl
                                                   else GPU_VRAM_WORKING_SET_FRACTION fl))))))"

definition reserve_instance_vram ::
  "(rat \<Rightarrow> rat) \<Rightarrow> (node_id, memory) dict \<Rightarrow> (node_id, system_profile) dict \<Rightarrow> (instance_id, instance_t) dict
     \<Rightarrow> node_id list \<Rightarrow> (node_id, memory) dict" where
  "reserve_instance_vram fl node_vram node_system insts unified =
     (let committed = accumulate (vram_charges fl node_vram insts)
      in map (\<lambda>(node, observed).
           (node, case vram_ceiling fl node_system unified node of
                    None \<Rightarrow> observed
                  | Some cap \<Rightarrow> min observed (max 0 (cap - dict_default 0 committed node)))) node_vram)"

definition usable_vram_by_node ::
  "(rat \<Rightarrow> rat) \<Rightarrow> (node_id, system_profile) dict \<Rightarrow> (node_id, node_resources) dict option \<Rightarrow> (node_id, memory_usage) dict
     \<Rightarrow> (instance_id, instance_t) dict \<Rightarrow> (node_id, memory) dict" where
  "usable_vram_by_node fl node_system node_resources node_memory insts =
     (let usable = dict_collect (\<lambda>node profile.
            case accelerator profile of
              None \<Rightarrow> None
            | Some a \<Rightarrow>
                (case vram_total_bytes a of
                   None \<Rightarrow> None
                 | Some tot \<Rightarrow>
                     if vendor a \<notin> {''amd'', ''nvidia''} \<or> tot \<le> 0 \<or> \<not> advertises_gpu node_resources node then None
                     else let used = (case vram_used_bytes a of Some u \<Rightarrow> u | None \<Rightarrow> 0);
                              vram_avail = max 0 (tot - used);
                              vram_usable = min vram_avail (py_int (fl (of_int tot * GPU_VRAM_WORKING_SET_FRACTION fl)));
                              mem = dict_get node_memory node
                          in if is_gb10_accelerator a then gb10_unified_memory_pool fl a mem
                             else if gtt_spans_host a tot mem
                             then Some (vram_usable
                                    + min (max 0 (ram_available (the mem) - UMA_GPU_OS_HEADROOM)) (the (gtt_total_bytes a)))
                             else Some vram_usable)) node_system
      in reserve_instance_vram fl usable node_system insts
           (unified_memory_gpu_node_ids fl node_system node_resources node_memory))"

definition ram_charges ::
  "(rat \<Rightarrow> rat) \<Rightarrow> (node_id, memory) dict \<Rightarrow> node_id list \<Rightarrow> node_id list \<Rightarrow> instance_id list
     \<Rightarrow> (instance_id, instance_t) dict \<Rightarrow> (instance_id \<times> node_id \<times> memory) list" where
  "ram_charges fl node_vram unified carve_first unreflected insts =
     List.map_filter (\<lambda>(iid, i, node, shard).
        let backend = resolved_backend (shard_base shard)
        in if dict_has node_vram node \<and> node \<notin> set unified \<and> (backend = None \<or> backend_offloads_to_vram backend) then None
           else if node \<in> set carve_first \<and> iid \<notin> set unreflected \<and> vulkan_fills_carve_first backend then None
           else map_option (\<lambda>b. (iid, node, b))
                  (shard_charge fl shard
                     (if shard_preallocates_kv_upfront shard then stamped_budget i else KV_CONTEXT_BUDGET_TOKENS)))
       (hosted_shards insts)"

definition reserve_instance_system_ram ::
  "(rat \<Rightarrow> rat) \<Rightarrow> (node_id, memory_usage) dict \<Rightarrow> (instance_id, instance_t) dict \<Rightarrow> (node_id, memory) dict
     \<Rightarrow> node_id list \<Rightarrow> node_id list \<Rightarrow> instance_id list \<Rightarrow> (node_id, memory) dict" where
  "reserve_instance_system_ram fl node_memory insts node_vram unified carve_first unreflected =
     (let charges = ram_charges fl node_vram unified carve_first unreflected insts;
          committed = accumulate (map snd charges);
          pending = accumulate (map snd (filter (\<lambda>(iid, _). iid \<in> set unreflected) charges))
      in map (\<lambda>(node, usage).
           (node,
            let charged = dict_default 0 committed node
            in if charged \<le> 0 then ram_available usage
               else let cap = gpu_working_set_ceiling fl (ram_total usage);
                        observed = ram_available usage - dict_default 0 pending node
                    in max 0 (min observed (cap - charged)))) node_memory)"

text \<open>The source copies an entry only when its figure changes, which gives the same value.\<close>

definition reserve_system_ram_usage ::
  "(rat \<Rightarrow> rat) \<Rightarrow> (node_id, memory_usage) dict \<Rightarrow> (instance_id, instance_t) dict \<Rightarrow> (node_id, memory) dict
     \<Rightarrow> node_id list \<Rightarrow> node_id list \<Rightarrow> instance_id list \<Rightarrow> (node_id, memory_usage) dict" where
  "reserve_system_ram_usage fl node_memory insts node_vram unified carve_first unreflected =
     (let reserved = reserve_instance_system_ram fl node_memory insts node_vram unified carve_first unreflected
      in map (\<lambda>(node, usage).
           (node, let r = the (dict_get reserved node)
                  in if r \<noteq> ram_available usage then usage\<lparr>ram_available := r\<rparr> else usage)) node_memory)"

end
