(* ===== verification/Backends.thy ===== *)
theory Backends
  imports Placement_Memory "HOL-Library.Product_Lexorder"
begin

text \<open>
  Backend tags of \<^verbatim>\<open>src/skulk/shared/backends.py\<close> and the data-plane health predicate of
  \<^verbatim>\<open>shared/data_plane_health.py\<close>: which engine a tag names, which tags the platform can serve for a card, and which
  tag a node resolves to.  A tag set is a list read as a set.
\<close>

section \<open>Model\<close>

definition ENGINES :: "string list" where
  "ENGINES = [''mlx'', ''mlx_audio'', ''llama_cpp'', ''llama_server'', ''vllm'', ''test_video'', ''comfy'', ''audio_cpp'']"

definition engine_of :: "string \<Rightarrow> string option" where
  "engine_of tag = find (\<lambda>engine. tag = engine \<or> take (length engine + 1) tag = engine @ ''-'') ENGINES"

definition on_demand_engine_download_bytes :: "string \<Rightarrow> int" where
  "on_demand_engine_download_bytes engine = (if engine = ''comfy'' then 7 * 1024 ^ 3 else 0)"

definition ENGINE_HARDWARE :: "(string, string \<times> string list) dict" where
  "ENGINE_HARDWARE = [(''mlx'', (''an Apple Silicon Mac'', [''platform:darwin''])),
     (''comfy'', (''a Linux machine with an NVIDIA GPU or an AMD Strix Halo GPU'', [''nvidia'', ''amd:pci-1002-1586'']))]"

definition engine_hardware :: "string \<Rightarrow> (string \<times> string list) option" where
  "engine_hardware tag = Option.bind (engine_of tag) (dict_get ENGINE_HARDWARE)"

text \<open>The joined phrase is kept as the list of its parts; \<open>None\<close> where the source returns \<open>None\<close>.\<close>

fun describe_tags :: "string list \<Rightarrow> string list \<Rightarrow> string list option" where
  "describe_tags [] descriptions = (if descriptions = [] then None else Some descriptions)"
| "describe_tags (tag # tags) descriptions =
     (case engine_hardware tag of
        None \<Rightarrow> None
      | Some (phrase, _) \<Rightarrow> describe_tags tags (if phrase \<in> set descriptions then descriptions else descriptions @ [phrase]))"

definition describe_backend_hardware :: "string list \<Rightarrow> string list option" where
  "describe_backend_hardware tags = describe_tags (sorted_list_of_set (set tags)) []"

definition backend_hardware_present :: "string list \<Rightarrow> string list \<Rightarrow> bool" where
  "backend_hardware_present tags hardware =
     list_ex (\<lambda>tag. case engine_hardware tag of
        None \<Rightarrow> False
      | Some (_, classes) \<Rightarrow> list_ex (\<lambda>c. c \<in> set hardware) classes) tags"

definition engine_supports_multi_node :: "string \<Rightarrow> bool" where
  "engine_supports_multi_node engine \<longleftrightarrow> engine \<in> {''mlx'', ''llama_server''}"

text \<open>The capabilities of a card that limit where it can be served.\<close>

record card_needs =
  serves_vision :: bool
  serves_speech :: bool
  serves_music :: bool
  has_pinned_projector :: bool
  supports_tool_calling :: bool
  vllm_tool_call_parser :: "string option"
  predates_in_process_binding :: bool

definition AUDIO_CPP_COMPUTE_BACKENDS :: "string list" where
  "AUDIO_CPP_COMPUTE_BACKENDS = [''audio_cpp-cpu'', ''audio_cpp-metal'', ''audio_cpp-vulkan'', ''audio_cpp-cuda'', ''audio_cpp-rocm'']"

definition platform_compatible_backends :: "string list \<Rightarrow> card_needs \<Rightarrow> string list" where
  "platform_compatible_backends tags needs =
     (let vision_engines = (if has_pinned_projector needs then {''mlx'', ''llama_cpp'', ''llama_server''} else {''mlx'', ''llama_cpp''});
          unknown_or = (\<lambda>P tag. case engine_of tag of None \<Rightarrow> True | Some engine \<Rightarrow> P engine);
          filtered = (if serves_vision needs then filter (unknown_or (\<lambda>e. e \<in> vision_engines)) tags else tags);
          filtered = (if serves_speech needs then filter (unknown_or (\<lambda>e. e = ''mlx_audio'')) filtered else filtered);
          filtered = (if serves_music needs
            then filter (\<lambda>tag. unknown_or (\<lambda>e. e = ''audio_cpp'' \<and> tag \<in> set AUDIO_CPP_COMPUTE_BACKENDS) tag) filtered
            else filtered);
          filtered = (if supports_tool_calling needs \<and> vllm_tool_call_parser needs = None
            then filter (\<lambda>tag. engine_of tag \<noteq> Some ''vllm'') filtered else filtered)
      in if predates_in_process_binding needs then filter (\<lambda>tag. engine_of tag \<noteq> Some ''llama_cpp'') filtered else filtered)"

text \<open>Tags outside the preference are ordered by whether they compute on the CPU, then by name.\<close>

definition resolve_node_backend :: "string list \<Rightarrow> string list \<Rightarrow> string list \<Rightarrow> string option" where
  "resolve_node_backend compatible preference node_backends =
     (let intersection = set compatible \<inter> set node_backends
      in if intersection = {} then None
         else let ordered = filter (\<lambda>tag. tag \<in> intersection) preference
                @ filter (\<lambda>tag. tag \<notin> set preference)
                    (map snd (sorted_list_of_set ((\<lambda>tag. (endswith tag ''-cpu'', tag)) ` intersection)))
              in Some (hd ordered))"

definition resolve_node_engine :: "string list \<Rightarrow> string list \<Rightarrow> string list \<Rightarrow> string option" where
  "resolve_node_engine compatible preference node_backends =
     Option.bind (resolve_node_backend compatible preference node_backends) engine_of"

definition zenoh_isolated_nodes :: "node_id list \<Rightarrow> (node_id, node_resources) dict \<Rightarrow> node_id list" where
  "zenoh_isolated_nodes live_nodes resources =
     (let live = dict_filter (\<lambda>node r. node \<in> set live_nodes \<and> data_transport r = ''zenoh'') resources
      in if length live < 2 then [] else dict_keys (dict_filter (\<lambda>node r. zenoh_connected_peers r = Some 0) live))"

section \<open>Properties of the resolution\<close>

lemma resolve_node_backend_None: "resolve_node_backend c p n = None \<longleftrightarrow> set c \<inter> set n = {}"
  by (simp add: resolve_node_backend_def Let_def)

lemma resolve_node_backend_Some:
  assumes "resolve_node_backend c p n = Some tag"
  shows "tag \<in> set c \<inter> set n"
proof -
  let ?i = "set c \<inter> set n"
  let ?rest = "map snd (sorted_list_of_set ((\<lambda>tag. (endswith tag ''-cpu'', tag)) ` ?i))"
  let ?ordered = "filter (\<lambda>tag. tag \<in> ?i) p @ filter (\<lambda>tag. tag \<notin> set p) ?rest"
  have rest: "set ?rest = ?i" by (simp add: image_image)
  have ne: "?i \<noteq> {}" and tag: "tag = hd ?ordered"
    using assms by (auto simp: resolve_node_backend_def Let_def split: if_splits)
  have "?ordered \<noteq> []"
  proof
    assume "?ordered = []"
    then have "\<forall>x \<in> ?i. x \<notin> set p" "\<forall>x \<in> set ?rest. x \<in> set p"
      by (auto simp: filter_empty_conv)
    then show False using ne unfolding rest by blast
  qed
  then have "tag \<in> set ?ordered" unfolding tag by (rule hd_in_set)
  then show ?thesis using rest by auto
qed

end
