(* ===== verification/Worker_Plan.thy ===== *)
theory Worker_Plan
  imports Backends
begin

text \<open>
  The worker's planner, \<^verbatim>\<open>src/skulk/worker/plan.py\<close>: from a node's local runner supervisors and
  the replicated state it chooses the next task of this node, or none.

  Each planner function loops over runners or tasks and returns at the first hit.  The loop is
  \<open>first_of\<close>; its argument is the loop's body, whose result is an exception, a hit or \<open>continue\<close>.
  A task built by the planner has a fresh identity, so only its instance and kind are given.
\<close>

section \<open>Helpers of other modules\<close>

text \<open>\<open>sub in s\<close>\<close>

fun has_substring :: "string \<Rightarrow> string \<Rightarrow> bool" where
  "has_substring sub s =
     (take (length sub) s = sub \<or> (case s of [] \<Rightarrow> False | _ # t \<Rightarrow> has_substring sub t))"

declare has_substring.simps [simp del]

definition ascii_lower :: "char \<Rightarrow> char" where
  "ascii_lower c = (if CHR ''A'' \<le> c \<and> c \<le> CHR ''Z'' then char_of (of_char c + 32 :: nat) else c)"

definition is_gemma4_id :: "string \<Rightarrow> bool" where
  "is_gemma4_id model =
     (let normalized = map (\<lambda>c. if ascii_lower c = CHR ''_'' then CHR ''-'' else ascii_lower c) model
      in has_substring ''gemma-4'' normalized \<or> has_substring ''gemma4'' normalized)"

text \<open>\<open>is_gemma4_family\<close> called with a card.\<close>

definition is_gemma4_family :: "model_card \<Rightarrow> bool" where
  "is_gemma4_family mcard =
     (if is_gemma4_id (card_model_id mcard) then True
      else if card_family mcard \<in> {''gemma4'', ''gemma-4''} then True
      else if card_vision_model_type mcard = Some ''gemma4'' then True
      else if card_prompt_renderer mcard = Some ''gemma4'' \<or> card_output_parser mcard = Some ''gemma4'' then True
      else card_tool_call_format mcard = Some ''gemma4'')"

definition same_model_artifact :: "model_card \<Rightarrow> model_card \<Rightarrow> bool" where
  "same_model_artifact existing expected =
     (if registry_card_id existing \<noteq> None \<or> registry_card_id expected \<noteq> None
      then registry_card_id existing \<noteq> None \<and> registry_card_id existing = registry_card_id expected
      else existing = expected)"

definition failure_markers :: "string list" where
  "failure_markers = [''gpu-wedge-deadline'', ''model_trust_denied'', ''model_files_incomplete'', ''engine-not-installed'']"

section \<open>Model\<close>

text \<open>The fields of \<open>RunnerSupervisor\<close> the planner reads.\<close>

record runner_supervisor =
  rs_bound :: bound_instance
  rs_status :: runner_status
  rs_completed :: "task_id set"
  rs_in_progress :: "task_id set"
  rs_cancelled :: "task_id set"

datatype planned = NewTask instance_id task_kind | ExistingTask task

abbreviation rs_instance :: "runner_supervisor \<Rightarrow> instance_t" where
  "rs_instance r \<equiv> bound_to (rs_bound r)"

text \<open>\<open>bound_shard\<close>; \<open>None\<close> is its failed assertion.\<close>

definition bound_shard :: "runner_supervisor \<Rightarrow> shard_metadata option" where
  "bound_shard r = instance_shard (rs_instance r) (bound_runner_id (rs_bound r))"

fun is_donor_shard :: "shard_metadata \<Rightarrow> bool" where
  "is_donor_shard (RpcDonorShardMetadata _) = True"
| "is_donor_shard _ = False"

fun is_rpc_instance :: "instance_t \<Rightarrow> bool" where
  "is_rpc_instance (LlamaRpcInstance _ _ _) = True"
| "is_rpc_instance _ = False"

fun is_failed :: "runner_status option \<Rightarrow> bool" where
  "is_failed (Some (RunnerFailed _)) = True"
| "is_failed _ = False"

fun is_loading :: "runner_status \<Rightarrow> bool" where
  "is_loading (RunnerLoading _ _) = True"
| "is_loading _ = False"

fun first_of :: "('a \<Rightarrow> 'e + 'b option) \<Rightarrow> 'a list \<Rightarrow> 'e + 'b option" where
  "first_of f [] = Inr None"
| "first_of f (x # xs) =
     (case f x of Inl e \<Rightarrow> Inl e | Inr (Some y) \<Rightarrow> Inr (Some y) | Inr None \<Rightarrow> first_of f xs)"

text \<open>The loop over runners of the functions that need the bound shard.\<close>

definition with_shard ::
  "(shard_metadata \<Rightarrow> py_error + planned option) \<Rightarrow> runner_supervisor \<Rightarrow> py_error + planned option" where
  "with_shard f r = (case bound_shard r of None \<Rightarrow> Inl AssertionError | Some s \<Rightarrow> f s)"

definition retried_on_failure :: "runner_status \<Rightarrow> bool" where
  "retried_on_failure st =
     (case st of
        RunnerFailed msg \<Rightarrow>
          (let message = (case msg of None \<Rightarrow> [] | Some m \<Rightarrow> m)
           in \<not> list_ex (\<lambda>marker. has_substring marker message) failure_markers)
      | _ \<Rightarrow> False)"

definition kill_runner ::
  "(runner_id, runner_supervisor) dict \<Rightarrow> (runner_id, runner_status) dict \<Rightarrow> (instance_id, instance_t) dict
     \<Rightarrow> py_error + planned option" where
  "kill_runner local_runners all_runners insts =
     first_of (\<lambda>runner.
       let rid = bound_runner_id (rs_bound runner); iid = inst_id (rs_instance runner)
       in if \<not> dict_has insts iid then Inr (Some (NewTask iid (Shutdown rid)))
          else if retried_on_failure (rs_status runner) then Inr (Some (NewTask iid (Shutdown rid)))
          else if list_ex (\<lambda>global_runner_id. rid \<noteq> global_runner_id \<and> is_failed (dict_get all_runners global_runner_id))
                    (dict_values (node_to_runner (inst_shards (rs_instance runner))))
          then Inr (Some (NewTask iid (Shutdown rid)))
          else Inr None) (dict_values local_runners)"

definition create_runner ::
  "node_id \<Rightarrow> (runner_id, runner_supervisor) dict \<Rightarrow> (instance_id, instance_t) dict \<Rightarrow> py_error + planned option" where
  "create_runner node local_runners insts =
     first_of (\<lambda>inst.
       case dict_get (node_to_runner (inst_shards inst)) node of
         None \<Rightarrow> Inr None
       | Some rid \<Rightarrow>
           if dict_has local_runners rid then Inr None
           else case instance_shard inst rid of
                  None \<Rightarrow> Inl AssertionError
                | Some _ \<Rightarrow> Inr (Some (NewTask (inst_id inst)
                    (CreateRunner \<lparr>bound_to = inst, bound_runner_id = rid, bound_node_id = node\<rparr>))))
       (dict_values insts)"

fun is_started_download :: "download_progress option \<Rightarrow> bool" where
  "is_started_download (Some (DownloadOngoing _ _)) = True"
| "is_started_download (Some (DownloadCompleted _ _ _)) = True"
| "is_started_download (Some (DownloadFailed _ _)) = True"
| "is_started_download _ = False"

abbreviation dp_card :: "download_progress \<Rightarrow> model_card" where
  "dp_card dp \<equiv> shard_card (shard_base (dp_shard_metadata (dp_base dp)))"

definition model_needs_download ::
  "node_id \<Rightarrow> (runner_id, runner_supervisor) dict \<Rightarrow> (node_id, download_progress list) dict \<Rightarrow> py_error + planned option"
where
  "model_needs_download node local_runners global_download_status =
     (let local_downloads = (case dict_get global_download_status node of None \<Rightarrow> [] | Some ds \<Rightarrow> ds)
      in first_of (\<lambda>runner. with_shard (\<lambda>expected_shard.
           if is_donor_shard expected_shard then Inr None
           else let matching_status = find (\<lambda>progress.
                      same_model_artifact (dp_card progress) (shard_card (shard_base expected_shard))) local_downloads
                in if rs_status runner = RunnerIdle \<and> \<not> is_started_download matching_status
                   then Inr (Some (NewTask (inst_id (rs_instance runner)) (DownloadModel expected_shard)))
                   else Inr None) runner) (dict_values local_runners))"

definition init_distributed_backend ::
  "(runner_id, runner_supervisor) dict \<Rightarrow> (runner_id, runner_status) dict \<Rightarrow> py_error + planned option" where
  "init_distributed_backend local_runners all_runners =
     first_of (\<lambda>runner.
       let inst = rs_instance runner; sa = inst_shards inst; ranks = dict_keys (runner_to_shard sa)
       in if length (runner_to_shard sa) = 1 then Inr None
          else if is_rpc_instance inst then Inr None
          else if \<not> (rs_status runner = RunnerIdle \<and>
                   list_all (\<lambda>g. dict_get all_runners g \<in> {Some RunnerConnecting, Some RunnerIdle}) ranks) then Inr None
          else with_shard (\<lambda>shard.
            let rid = bound_runner_id (rs_bound runner);
                rank = device_rank (shard_base shard); world = world_size (shard_base shard)
            in if \<not> rank < world then Inl AssertionError
               else if \<not> rank \<ge> 0 then Inl AssertionError
               else let accepting_ranks = rank < world - 1;
                        connecting_rank_ready = (rank = world - 1 \<and>
                          list_all (\<lambda>g. g \<noteq> rid \<longrightarrow> dict_get all_runners g = Some RunnerConnecting) ranks)
                    in if \<not> (accepting_ranks \<or> connecting_rank_ready) then Inr None
                       else Inr (Some (NewTask (inst_id inst) ConnectToGroup))) runner)
       (dict_values local_runners)"

definition awaited_engine :: "shard_metadata \<Rightarrow> string set \<Rightarrow> string option" where
  "awaited_engine shard on_demand =
     (case resolved_backend (shard_base shard) of
        None \<Rightarrow> None
      | Some backend \<Rightarrow> if backend \<notin> on_demand then None else engine_of backend)"

definition engine_needs_install ::
  "(runner_id, runner_supervisor) dict \<Rightarrow> string set \<Rightarrow> instance_id set \<Rightarrow> py_error + planned option" where
  "engine_needs_install local_runners on_demand engine_install_requested =
     (if on_demand = {} then Inr None
      else first_of (\<lambda>runner. with_shard (\<lambda>shard.
        if is_donor_shard shard \<or> rs_status runner \<noteq> RunnerIdle then Inr None
        else let iid = inst_id (rs_instance runner)
             in if iid \<in> engine_install_requested then Inr None
                else case awaited_engine shard on_demand of
                       None \<Rightarrow> Inr None
                     | Some engine \<Rightarrow> Inr (Some (NewTask iid
                         (InstallEngine engine (on_demand_engine_download_bytes engine))))) runner) (dict_values local_runners))"

definition node_has_artifact :: "(node_id, download_progress list) dict \<Rightarrow> node_id \<Rightarrow> model_card \<Rightarrow> bool" where
  "node_has_artifact ds node mcard =
     (case dict_get ds node of None \<Rightarrow> False
      | Some dps \<Rightarrow> list_ex (\<lambda>dp. is_completed dp \<and> same_model_artifact (dp_card dp) mcard) dps)"

text \<open>The \<open>all\<close> over \<open>node_to_runner\<close>; the shard is looked up only for a completed download.\<close>

fun all_downloads_complete ::
  "(node_id, download_progress list) dict \<Rightarrow> shard_assignments \<Rightarrow> (node_id \<times> runner_id) list \<Rightarrow> py_error + bool" where
  "all_downloads_complete ds sa [] = Inr True"
| "all_downloads_complete ds sa ((node, rid) # rest) =
     (case dict_get (runner_to_shard sa) rid of
        None \<Rightarrow> (case dict_get ds node of
                  None \<Rightarrow> Inr False
                | Some dps \<Rightarrow> if list_ex is_completed dps then Inl KeyError else Inr False)
      | Some shard \<Rightarrow>
          if node_has_artifact ds node (shard_card (shard_base shard))
          then all_downloads_complete ds sa rest else Inr False)"

definition load_model ::
  "(runner_id, runner_supervisor) dict \<Rightarrow> (runner_id, runner_status) dict \<Rightarrow> (node_id, download_progress list) dict
     \<Rightarrow> string set \<Rightarrow> py_error + planned option" where
  "load_model local_runners all_runners global_download_status on_demand =
     first_of (\<lambda>runner. with_shard (\<lambda>shard.
       let inst = rs_instance runner; sa = inst_shards inst
       in if awaited_engine shard on_demand \<noteq> None then Inr None
          else if is_rpc_instance inst
          then (if is_donor_shard shard then Inr None
                else let driver_download_complete = node_has_artifact global_download_status
                           (bound_node_id (rs_bound runner)) (shard_card (shard_base shard));
                         donors_ready = list_all (\<lambda>(g, s). is_donor_shard s \<longrightarrow> dict_get all_runners g = Some RunnerReady)
                           (runner_to_shard sa)
                     in if rs_status runner = RunnerIdle \<and> driver_download_complete \<and> donors_ready
                        then Inr (Some (NewTask (inst_id inst) LoadModel)) else Inr None)
          else case all_downloads_complete global_download_status sa (node_to_runner sa) of
                 Inl e \<Rightarrow> Inl e
               | Inr False \<Rightarrow> Inr None
               | Inr True \<Rightarrow>
                   if length (runner_to_shard sa) = 1 \<and> rs_status runner = RunnerIdle
                   then Inr (Some (NewTask (inst_id inst) LoadModel))
                   else let all_ready_for_model = list_all (\<lambda>g. case dict_get all_runners g of
                              None \<Rightarrow> False
                            | Some s \<Rightarrow> s \<in> {RunnerConnected, RunnerLoaded} \<or> is_loading s) (dict_keys (runner_to_shard sa))
                        in if rs_status runner = RunnerConnected \<and> all_ready_for_model
                           then Inr (Some (NewTask (inst_id inst) LoadModel)) else Inr None) runner)
       (dict_values local_runners)"

definition uses_independent_distributed_warmup :: "shard_metadata \<Rightarrow> bool" where
  "uses_independent_distributed_warmup shard =
     (if world_size (shard_base shard) \<le> 1 then False else is_gemma4_family (shard_card (shard_base shard)))"

definition ready_to_warmup ::
  "(runner_id, runner_supervisor) dict \<Rightarrow> (runner_id, runner_status) dict \<Rightarrow> py_error + planned option" where
  "ready_to_warmup local_runners all_runners =
     first_of (\<lambda>runner.
       let inst = rs_instance runner; ranks = dict_keys (runner_to_shard (inst_shards inst))
       in if is_rpc_instance inst then Inr None
          else with_shard (\<lambda>shard.
            let rank = device_rank (shard_base shard); world = world_size (shard_base shard);
                rid = bound_runner_id (rs_bound runner);
                independent = uses_independent_distributed_warmup shard;
                peer_warmup_statuses = (if independent then {RunnerLoaded, RunnerWarmingUp, RunnerReady}
                                        else {RunnerLoaded, RunnerWarmingUp});
                rank_zero_peer_warmup_statuses = (if independent then {RunnerWarmingUp, RunnerReady} else {RunnerWarmingUp})
            in if \<not> rank < world then Inl AssertionError
               else if \<not> rank \<ge> 0 then Inl AssertionError
               else let accepting_ranks_ready = (rank > 0 \<and>
                          list_all (\<lambda>g. \<exists>s \<in> peer_warmup_statuses. dict_get all_runners g = Some s) ranks);
                        connecting_rank_ready = (rank = 0 \<and>
                          list_all (\<lambda>g. g \<noteq> rid \<longrightarrow> (\<exists>s \<in> rank_zero_peer_warmup_statuses. dict_get all_runners g = Some s)) ranks)
                    in if rs_status runner = RunnerLoaded \<and> (accepting_ranks_ready \<or> connecting_rank_ready)
                       then Inr (Some (NewTask (inst_id inst) StartWarmup)) else Inr None) runner)
       (dict_values local_runners)"

fun inference_of :: "task_kind \<Rightarrow> inference_params option" where
  "inference_of (TextGeneration p _) = Some p"
| "inference_of (ImageGeneration p) = Some p"
| "inference_of (ImageEdits p _) = Some p"
| "inference_of (VideoGeneration p _) = Some p"
| "inference_of (MusicGeneration p) = Some p"
| "inference_of (TextEmbedding p) = Some p"
| "inference_of (SpeechSynthesis p _) = Some p"
| "inference_of (AudioTranscription p _) = Some p"
| "inference_of (RealtimeAudioTranscription p) = Some p"
| "inference_of _ = None"

fun expected_image_chunks :: "task_kind \<Rightarrow> int" where
  "expected_image_chunks (ImageEdits _ n) = n"
| "expected_image_chunks (TextGeneration _ n) = n"
| "expected_image_chunks _ = 0"

fun needs_reference_media :: "task_kind \<Rightarrow> bool" where
  "needs_reference_media (VideoGeneration _ n) = (n > 0)"
| "needs_reference_media _ = False"

fun needs_speech_media :: "task_kind \<Rightarrow> bool" where
  "needs_speech_media (SpeechSynthesis _ present) = present"
| "needs_speech_media (AudioTranscription _ n) = (n > 0)"
| "needs_speech_media _ = False"

text \<open>The \<open>all\<close> over \<open>all_runners[global_runner_id]\<close>: it stops at the first rank that is not ready and
  raises at the first rank without a record.\<close>

fun all_ranks_serving :: "(runner_id, runner_status) dict \<Rightarrow> runner_id list \<Rightarrow> py_error + bool" where
  "all_ranks_serving all_runners [] = Inr True"
| "all_ranks_serving all_runners (g # gs) =
     (case dict_get all_runners g of
        None \<Rightarrow> Inl KeyError
      | Some s \<Rightarrow> if s \<in> {RunnerReady, RunnerRunning} then all_ranks_serving all_runners gs else Inr False)"

text \<open>The bodies of the inner loop (over runners) and of the outer loop (over tasks).\<close>

definition forward_to_runner ::
  "(runner_id, runner_status) dict \<Rightarrow> task \<Rightarrow> runner_supervisor \<Rightarrow> py_error + planned option" where
  "forward_to_runner all_runners t runner =
     (if task_instance_id t \<noteq> inst_id (rs_instance runner) then Inr None
      else with_shard (\<lambda>shard.
        if is_donor_shard shard then Inr None
        else if task_id t \<in> rs_completed runner \<or> task_id t \<in> rs_in_progress runner then Inr None
        else if rs_status runner \<notin> {RunnerReady, RunnerRunning} then Inr None
        else case all_ranks_serving all_runners (dict_keys (runner_to_shard (inst_shards (rs_instance runner)))) of
               Inl e \<Rightarrow> Inl e
             | Inr serving \<Rightarrow> if serving then Inr (Some (ExistingTask t)) else Inr None) runner)"

definition forward_task ::
  "(runner_id, runner_supervisor) dict \<Rightarrow> (runner_id, runner_status) dict \<Rightarrow> (command_id, (int \<times> opaque) list) dict
     \<Rightarrow> command_id set \<Rightarrow> command_id set \<Rightarrow> task \<Rightarrow> py_error + planned option" where
  "forward_task local_runners all_runners input_chunk_buffer speech_media_ready reference_media_ready t =
     (case inference_of (task_kind t) of
        None \<Rightarrow> Inr None
      | Some params \<Rightarrow>
          (let cmd = inf_command_id params; expected = expected_image_chunks (task_kind t);
               received = int (length (case dict_get input_chunk_buffer cmd of None \<Rightarrow> [] | Some cs \<Rightarrow> cs))
           in if task_status t \<notin> {Pending, Running} then Inr None
              else if expected > 0 \<and> received < expected then Inr None
              else if needs_reference_media (task_kind t) \<and> cmd \<notin> reference_media_ready then Inr None
              else if needs_speech_media (task_kind t) \<and> cmd \<notin> speech_media_ready then Inr None
              else first_of (forward_to_runner all_runners t) (dict_values local_runners)))"

definition pending_tasks ::
  "(runner_id, runner_supervisor) dict \<Rightarrow> (task_id, task) dict \<Rightarrow> (runner_id, runner_status) dict
     \<Rightarrow> (command_id, (int \<times> opaque) list) dict \<Rightarrow> command_id set \<Rightarrow> command_id set \<Rightarrow> py_error + planned option" where
  "pending_tasks local_runners tsks all_runners input_chunk_buffer speech_media_ready reference_media_ready =
     first_of (forward_task local_runners all_runners input_chunk_buffer speech_media_ready reference_media_ready)
       (dict_values tsks)"

definition cancel_tasks ::
  "(runner_id, runner_supervisor) dict \<Rightarrow> (task_id, task) dict \<Rightarrow> py_error + planned option" where
  "cancel_tasks local_runners tsks =
     first_of (\<lambda>t.
       if task_status t \<noteq> Cancelled then Inr None
       else first_of (\<lambda>(rid, runner).
         if task_instance_id t \<noteq> inst_id (rs_instance runner) then Inr None
         else if task_id t \<in> rs_cancelled runner then Inr None
         else Inr (Some (NewTask (task_instance_id t) (CancelTask (task_id t) rid)))) local_runners)
       (dict_values tsks)"

record plan_input =
  pi_node_id :: node_id
  pi_runners :: "(runner_id, runner_supervisor) dict"
  pi_downloads :: "(node_id, download_progress list) dict"
  pi_instances :: "(instance_id, instance_t) dict"
  pi_all_runners :: "(runner_id, runner_status) dict"
  pi_tasks :: "(task_id, task) dict"
  pi_chunks :: "(command_id, (int \<times> opaque) list) dict"
  pi_speech_ready :: "command_id set"
  pi_reference_ready :: "command_id set"
  pi_on_demand :: "string set"
  pi_install_requested :: "instance_id set"

definition planners :: "plan_input \<Rightarrow> (unit \<Rightarrow> py_error + planned option) list" where
  "planners x =
     [\<lambda>_. kill_runner (pi_runners x) (pi_all_runners x) (pi_instances x),
      \<lambda>_. cancel_tasks (pi_runners x) (pi_tasks x),
      \<lambda>_. create_runner (pi_node_id x) (pi_runners x) (pi_instances x),
      \<lambda>_. model_needs_download (pi_node_id x) (pi_runners x) (pi_downloads x),
      \<lambda>_. engine_needs_install (pi_runners x) (pi_on_demand x) (pi_install_requested x),
      \<lambda>_. init_distributed_backend (pi_runners x) (pi_all_runners x),
      \<lambda>_. load_model (pi_runners x) (pi_all_runners x) (pi_downloads x) (pi_on_demand x),
      \<lambda>_. ready_to_warmup (pi_runners x) (pi_all_runners x),
      \<lambda>_. pending_tasks (pi_runners x) (pi_tasks x) (pi_all_runners x) (pi_chunks x) (pi_speech_ready x) (pi_reference_ready x)]"

text \<open>The chain of \<open>or\<close>: the first planner with a task wins, and later ones are not called.\<close>

definition plan :: "plan_input \<Rightarrow> py_error + planned option" where
  "plan x = first_of (\<lambda>f. f ()) (planners x)"

end
