(* ===== verification/Worker_Plan_Safety.thy ===== *)
theory Worker_Plan_Safety
  imports Worker_Plan
begin

text \<open>
  Correctness of the planner: what a planned task presupposes, when planning cannot raise, and
  that the ranks of a distributed instance always get connected and warmed up.  The last two are
  instances of one protocol, stated as the locale \<open>rank_barrier\<close>: every rank but one moves on its
  own, and the gate moves once all others have.
\<close>

section \<open>The loops\<close>

lemma first_of_Some: "first_of f xs = Inr (Some y) \<Longrightarrow> \<exists>x \<in> set xs. f x = Inr (Some y)"
  by (induction xs) (auto split: sum.splits option.splits)

lemma first_of_None: "first_of f xs = Inr None \<longleftrightarrow> (\<forall>x \<in> set xs. f x = Inr None)"
  by (induction xs) (auto split: sum.splits option.splits)

lemma first_of_Inl: "first_of f xs = Inl e \<Longrightarrow> \<exists>x \<in> set xs. f x = Inl e"
  by (induction xs) (auto split: sum.splits option.splits)

lemma first_of_no_error: "(\<And>x e. x \<in> set xs \<Longrightarrow> f x \<noteq> Inl e) \<Longrightarrow> first_of f xs \<noteq> Inl e"
  using first_of_Inl [of f xs e] by blast

lemma with_shard_no_error:
  "bound_shard r = Some s \<Longrightarrow> (\<And>e. f s \<noteq> Inl e) \<Longrightarrow> with_shard f r \<noteq> Inl e"
  by (simp add: with_shard_def)

lemma with_shard_Some:
  "with_shard f r = Inr (Some t) \<Longrightarrow> \<exists>s. bound_shard r = Some s \<and> f s = Inr (Some t)"
  by (auto simp: with_shard_def split: option.splits)

section \<open>What a planned task presupposes\<close>

definition clean_runner :: "plan_input \<Rightarrow> runner_supervisor \<Rightarrow> bool" where
  "clean_runner x r \<longleftrightarrow> dict_has (pi_instances x) (inst_id (rs_instance r)) \<and> \<not> retried_on_failure (rs_status r) \<and>
     (\<forall>g \<in> set (dict_values (node_to_runner (inst_shards (rs_instance r)))).
        g \<noteq> bound_runner_id (rs_bound r) \<longrightarrow> \<not> is_failed (dict_get (pi_all_runners x) g))"

fun is_shutdown :: "planned \<Rightarrow> bool" where
  "is_shutdown (NewTask _ (Shutdown _)) = True"
| "is_shutdown _ = False"

text \<open>The body of the loop of \<open>kill_runner\<close>.\<close>

lemma kill_runner_body:
  "(let rid = bound_runner_id (rs_bound r); iid = inst_id (rs_instance r)
    in if \<not> dict_has (pi_instances x) iid then Inr (Some (NewTask iid (Shutdown rid)))
       else if retried_on_failure (rs_status r) then Inr (Some (NewTask iid (Shutdown rid)))
       else if list_ex (\<lambda>g. rid \<noteq> g \<and> is_failed (dict_get (pi_all_runners x) g))
                 (dict_values (node_to_runner (inst_shards (rs_instance r))))
       then Inr (Some (NewTask iid (Shutdown rid)))
       else (Inr None :: py_error + planned option)) =
   (if clean_runner x r then Inr None
    else Inr (Some (NewTask (inst_id (rs_instance r)) (Shutdown (bound_runner_id (rs_bound r))))))"
proof -
  define bad where "bad \<longleftrightarrow> list_ex (\<lambda>g. bound_runner_id (rs_bound r) \<noteq> g \<and> is_failed (dict_get (pi_all_runners x) g))
                 (dict_values (node_to_runner (inst_shards (rs_instance r))))"
  have "clean_runner x r \<longleftrightarrow> dict_has (pi_instances x) (inst_id (rs_instance r)) \<and>
      \<not> retried_on_failure (rs_status r) \<and> \<not> bad"
    unfolding clean_runner_def bad_def list_ex_iff by (auto simp del: set_map)
  then show ?thesis unfolding Let_def bad_def [symmetric] by simp
qed

lemma kill_runner_eq:
  "kill_runner (pi_runners x) (pi_all_runners x) (pi_instances x) =
     first_of (\<lambda>r. if clean_runner x r then Inr None
       else Inr (Some (NewTask (inst_id (rs_instance r)) (Shutdown (bound_runner_id (rs_bound r))))))
       (dict_values (pi_runners x))"
  unfolding kill_runner_def kill_runner_body ..

lemma kill_runner_None:
  "kill_runner (pi_runners x) (pi_all_runners x) (pi_instances x) = Inr None \<longleftrightarrow>
     (\<forall>r \<in> set (dict_values (pi_runners x)). clean_runner x r)"
  unfolding kill_runner_eq first_of_None by auto

lemma kill_runner_Some:
  assumes "kill_runner (pi_runners x) (pi_all_runners x) (pi_instances x) = Inr (Some t)"
  shows "\<exists>r \<in> set (dict_values (pi_runners x)). \<not> clean_runner x r \<and>
     t = NewTask (inst_id (rs_instance r)) (Shutdown (bound_runner_id (rs_bound r)))"
  using first_of_Some [OF assms [unfolded kill_runner_eq]] by (auto split: if_splits)

lemma other_planners_no_shutdown:
  "cancel_tasks rs ts = Inr (Some t) \<Longrightarrow> \<not> is_shutdown t"
  "create_runner n rs is = Inr (Some t) \<Longrightarrow> \<not> is_shutdown t"
  "model_needs_download n rs ds = Inr (Some t) \<Longrightarrow> \<not> is_shutdown t"
  "engine_needs_install rs od req = Inr (Some t) \<Longrightarrow> \<not> is_shutdown t"
  "init_distributed_backend rs ar = Inr (Some t) \<Longrightarrow> \<not> is_shutdown t"
  "load_model rs ar ds od = Inr (Some t) \<Longrightarrow> \<not> is_shutdown t"
  "ready_to_warmup rs ar = Inr (Some t) \<Longrightarrow> \<not> is_shutdown t"
  "pending_tasks rs ts ar ch sp re = Inr (Some t) \<Longrightarrow> \<not> is_shutdown t"
  subgoal by (auto simp: cancel_tasks_def split: if_splits dest!: first_of_Some)
  subgoal by (auto simp: create_runner_def split: if_splits option.splits dest!: first_of_Some)
  subgoal by (auto simp: model_needs_download_def Let_def split: if_splits dest!: first_of_Some with_shard_Some)
  subgoal by (auto simp: engine_needs_install_def Let_def split: if_splits option.splits dest!: first_of_Some with_shard_Some)
  subgoal by (auto simp: init_distributed_backend_def Let_def split: if_splits dest!: first_of_Some with_shard_Some)
  subgoal by (auto simp: load_model_def Let_def split: if_splits sum.splits bool.splits dest!: first_of_Some with_shard_Some)
  subgoal by (auto simp: ready_to_warmup_def Let_def split: if_splits dest!: first_of_Some with_shard_Some)
  subgoal
    by (auto simp: pending_tasks_def forward_task_def forward_to_runner_def Let_def
        split: if_splits option.splits sum.splits dest!: first_of_Some with_shard_Some)
  done

lemma plan_first:
  "plan x = (case kill_runner (pi_runners x) (pi_all_runners x) (pi_instances x) of
      Inl e \<Rightarrow> Inl e | Inr (Some t) \<Rightarrow> Inr (Some t) | Inr None \<Rightarrow> first_of (\<lambda>f. f ()) (tl (planners x)))"
  by (simp add: plan_def planners_def split: sum.split option.split)

lemma plan_tail_no_shutdown:
  "first_of (\<lambda>f. f ()) (tl (planners x)) = Inr (Some t) \<Longrightarrow> \<not> is_shutdown t"
  by (drule first_of_Some) (auto simp: planners_def dest: other_planners_no_shutdown)

text \<open>
  C35. Recovery comes before work.  The planner emits a shutdown exactly for a local runner that is
  orphaned (its instance is gone), that crashed, or one of whose peers failed; and it plans
  anything else (a download, a connection, a load, a request) only when no local runner is in such
  a state.
\<close>

theorem plan_recovers_first:
  assumes "plan x = Inr (Some t)"
  shows "if is_shutdown t
     then \<exists>r \<in> set (dict_values (pi_runners x)). \<not> clean_runner x r \<and>
            t = NewTask (inst_id (rs_instance r)) (Shutdown (bound_runner_id (rs_bound r)))
     else \<forall>r \<in> set (dict_values (pi_runners x)). clean_runner x r"
proof (cases "kill_runner (pi_runners x) (pi_all_runners x) (pi_instances x)")
  case (Inl e)
  then show ?thesis using assms by (simp add: plan_first)
next
  case (Inr k)
  show ?thesis
  proof (cases k)
    case None
    then show ?thesis
      using Inr assms kill_runner_None [of x] plan_tail_no_shutdown [of x t] by (simp add: plan_first)
  next
    case (Some t')
    then have "kill_runner (pi_runners x) (pi_all_runners x) (pi_instances x) = Inr (Some t)"
      using Inr assms by (simp add: plan_first)
    from kill_runner_Some [OF this] show ?thesis by auto
  qed
qed

text \<open>When a request is handed to a local runner.\<close>

definition servable :: "plan_input \<Rightarrow> task \<Rightarrow> runner_supervisor \<Rightarrow> bool" where
  "servable x t r \<longleftrightarrow> inst_id (rs_instance r) = task_instance_id t \<and>
     (\<exists>s. bound_shard r = Some s \<and> \<not> is_donor_shard s) \<and>
     task_id t \<notin> rs_completed r \<and> task_id t \<notin> rs_in_progress r \<and>
     rs_status r \<in> {RunnerReady, RunnerRunning} \<and>
     (\<forall>g \<in> set (dict_keys (runner_to_shard (inst_shards (rs_instance r)))).
        dict_get (pi_all_runners x) g \<in> {Some RunnerReady, Some RunnerRunning})"

definition inputs_complete :: "plan_input \<Rightarrow> task \<Rightarrow> inference_params \<Rightarrow> bool" where
  "inputs_complete x t p \<longleftrightarrow>
     expected_image_chunks (task_kind t) \<le>
       max 0 (int (length (case dict_get (pi_chunks x) (inf_command_id p) of None \<Rightarrow> [] | Some cs \<Rightarrow> cs))) \<and>
     (needs_reference_media (task_kind t) \<longrightarrow> inf_command_id p \<in> pi_reference_ready x) \<and>
     (needs_speech_media (task_kind t) \<longrightarrow> inf_command_id p \<in> pi_speech_ready x)"

lemma all_ranks_serving_True:
  "all_ranks_serving ar gs = Inr True \<Longrightarrow> \<forall>g \<in> set gs. dict_get ar g \<in> {Some RunnerReady, Some RunnerRunning}"
  by (induction gs) (auto split: option.splits if_splits)

lemma forward_to_runner_Some:
  "forward_to_runner (pi_all_runners x) t r = Inr (Some z) \<Longrightarrow> z = ExistingTask t \<and> servable x t r"
  unfolding forward_to_runner_def
  by (auto simp: servable_def simp del: set_map split: if_splits sum.splits dest!: with_shard_Some all_ranks_serving_True)

lemma forward_task_Some:
  assumes "forward_task rs ar (pi_chunks x) (pi_speech_ready x) (pi_reference_ready x) t = Inr (Some z)"
  shows "first_of (forward_to_runner ar t) (dict_values rs) = Inr (Some z) \<and> task_status t \<in> {Pending, Running} \<and>
     (\<exists>p. inference_of (task_kind t) = Some p \<and> inputs_complete x t p)"
proof (cases "inference_of (task_kind t)")
  case None
  then show ?thesis using assms by (simp add: forward_task_def)
next
  case (Some p)
  define received where
    "received = int (length (case dict_get (pi_chunks x) (inf_command_id p) of None \<Rightarrow> [] | Some cs \<Rightarrow> cs))"
  define serve where "serve = first_of (forward_to_runner ar t) (dict_values rs)"
  define k where "k = task_kind t"
  have "(if task_status t \<notin> {Pending, Running} then Inr None
         else if expected_image_chunks k > 0 \<and> received < expected_image_chunks k then Inr None
         else if needs_reference_media k \<and> inf_command_id p \<notin> pi_reference_ready x then Inr None
         else if needs_speech_media k \<and> inf_command_id p \<notin> pi_speech_ready x then Inr None
         else serve) = Inr (Some z)"
    using assms Some unfolding forward_task_def Let_def received_def serve_def k_def by simp
  moreover have "0 \<le> received" by (simp add: received_def)
  ultimately have "serve = Inr (Some z)" "task_status t \<in> {Pending, Running}"
      "expected_image_chunks k \<le> max 0 received" "needs_reference_media k \<longrightarrow> inf_command_id p \<in> pi_reference_ready x"
      "needs_speech_media k \<longrightarrow> inf_command_id p \<in> pi_speech_ready x"
    by (auto split: if_splits)
  then show ?thesis using Some unfolding inputs_complete_def received_def serve_def k_def by blast
qed

lemma pending_tasks_Some:
  assumes "pending_tasks (pi_runners x) (pi_tasks x) (pi_all_runners x) (pi_chunks x) (pi_speech_ready x)
             (pi_reference_ready x) = Inr (Some y)"
  shows "\<exists>t p r. y = ExistingTask t \<and> t \<in> set (dict_values (pi_tasks x)) \<and> inference_of (task_kind t) = Some p \<and>
     task_status t \<in> {Pending, Running} \<and> inputs_complete x t p \<and> r \<in> set (dict_values (pi_runners x)) \<and> servable x t r"
proof -
  obtain t where t: "t \<in> set (dict_values (pi_tasks x))"
      "forward_task (pi_runners x) (pi_all_runners x) (pi_chunks x) (pi_speech_ready x) (pi_reference_ready x) t = Inr (Some y)"
    using first_of_Some [OF assms [unfolded pending_tasks_def]] by blast
  note fwd = forward_task_Some [OF t(2)]
  from first_of_Some [OF fwd [THEN conjunct1]] obtain r
    where "r \<in> set (dict_values (pi_runners x))" "forward_to_runner (pi_all_runners x) t r = Inr (Some y)" ..
  with t(1) fwd forward_to_runner_Some [of x t r y] show ?thesis by blast
qed

lemma other_planners_no_existing:
  "kill_runner rs ar is = Inr (Some y) \<Longrightarrow> y \<noteq> ExistingTask t"
  "cancel_tasks rs ts = Inr (Some y) \<Longrightarrow> y \<noteq> ExistingTask t"
  "create_runner n rs is = Inr (Some y) \<Longrightarrow> y \<noteq> ExistingTask t"
  "model_needs_download n rs ds = Inr (Some y) \<Longrightarrow> y \<noteq> ExistingTask t"
  "engine_needs_install rs od req = Inr (Some y) \<Longrightarrow> y \<noteq> ExistingTask t"
  "init_distributed_backend rs ar = Inr (Some y) \<Longrightarrow> y \<noteq> ExistingTask t"
  "load_model rs ar ds od = Inr (Some y) \<Longrightarrow> y \<noteq> ExistingTask t"
  "ready_to_warmup rs ar = Inr (Some y) \<Longrightarrow> y \<noteq> ExistingTask t"
  subgoal by (auto simp: kill_runner_def Let_def split: if_splits dest!: first_of_Some)
  subgoal by (auto simp: cancel_tasks_def split: if_splits dest!: first_of_Some)
  subgoal by (auto simp: create_runner_def split: if_splits option.splits dest!: first_of_Some)
  subgoal by (auto simp: model_needs_download_def Let_def split: if_splits dest!: first_of_Some with_shard_Some)
  subgoal by (auto simp: engine_needs_install_def Let_def split: if_splits option.splits dest!: first_of_Some with_shard_Some)
  subgoal by (auto simp: init_distributed_backend_def Let_def split: if_splits dest!: first_of_Some with_shard_Some)
  subgoal by (auto simp: load_model_def Let_def split: if_splits sum.splits bool.splits dest!: first_of_Some with_shard_Some)
  subgoal by (auto simp: ready_to_warmup_def Let_def split: if_splits dest!: first_of_Some with_shard_Some)
  done

text \<open>
  C28. A request is dispatched only where it can be served.  Whenever the planner hands out a
  request, the request is pending or running, all of its attachments have arrived, and there is a
  local runner of its instance that holds a model (no memory donor), is ready, has neither
  finished nor started this request, and all of whose peers are ready as well.
\<close>

theorem plan_dispatch_safe:
  assumes "plan x = Inr (Some (ExistingTask t))"
  shows "t \<in> set (dict_values (pi_tasks x)) \<and> task_status t \<in> {Pending, Running} \<and>
     (\<exists>p. inference_of (task_kind t) = Some p \<and> inputs_complete x t p) \<and>
     (\<exists>r \<in> set (dict_values (pi_runners x)). servable x t r)"
proof -
  obtain f where "f \<in> set (planners x)" "f () = Inr (Some (ExistingTask t))"
    using first_of_Some [OF assms [unfolded plan_def]] by blast
  then have "pending_tasks (pi_runners x) (pi_tasks x) (pi_all_runners x) (pi_chunks x) (pi_speech_ready x)
             (pi_reference_ready x) = Inr (Some (ExistingTask t))"
    unfolding planners_def by (auto dest: other_planners_no_existing)
  from pending_tasks_Some [OF this] show ?thesis by auto
qed

section \<open>Planning without exceptions\<close>

text \<open>What the state guarantees to the planner: shards exist and carry a valid rank, and every rank of
  a local instance has a runner record.\<close>

definition plan_ready :: "plan_input \<Rightarrow> bool" where
  "plan_ready x \<longleftrightarrow>
     (\<forall>r \<in> set (dict_values (pi_runners x)).
        (\<exists>s. bound_shard r = Some s \<and> 0 \<le> device_rank (shard_base s) \<and>
             device_rank (shard_base s) < world_size (shard_base s)) \<and>
        validate_runners_exist (inst_shards (rs_instance r)) \<and>
        (\<forall>g \<in> set (dict_keys (runner_to_shard (inst_shards (rs_instance r)))). dict_has (pi_all_runners x) g)) \<and>
     (\<forall>inst \<in> set (dict_values (pi_instances x)). validate_runners_exist (inst_shards inst))"

lemma all_ranks_serving_no_error:
  "(\<forall>g \<in> set gs. dict_has ar g) \<Longrightarrow> all_ranks_serving ar gs \<noteq> Inl e"
  by (induction gs) (auto simp: dict_has_def split: if_splits)

lemma all_downloads_no_error:
  "(\<forall>(n, rid) \<in> set ps. dict_has (runner_to_shard sa) rid) \<Longrightarrow> all_downloads_complete ds sa ps \<noteq> Inl e"
  by (induction ds sa ps rule: all_downloads_complete.induct) (auto simp: dict_has_def split: option.splits)

lemma validated_pairs:
  "validate_runners_exist sa \<Longrightarrow> \<forall>(n, rid) \<in> set (node_to_runner sa). dict_has (runner_to_shard sa) rid"
  by (auto simp: validate_runners_exist_def list_all_iff)

lemma plan_ready_runner:
  assumes "plan_ready x" "r \<in> set (dict_values (pi_runners x))"
  obtains s where "bound_shard r = Some s" "0 \<le> device_rank (shard_base s)"
    "device_rank (shard_base s) < world_size (shard_base s)" "validate_runners_exist (inst_shards (rs_instance r))"
    "\<forall>g \<in> set (dict_keys (runner_to_shard (inst_shards (rs_instance r)))). dict_has (pi_all_runners x) g"
  using assms unfolding plan_ready_def by blast

lemma create_runner_no_error:
  assumes "plan_ready x"
  shows "create_runner (pi_node_id x) (pi_runners x) (pi_instances x) \<noteq> Inl e"
  unfolding create_runner_def
proof (rule first_of_no_error)
  fix inst e
  assume "inst \<in> set (dict_values (pi_instances x))"
  then have "validate_runners_exist (inst_shards inst)" using assms unfolding plan_ready_def by blast
  then have ex: "\<exists>s. instance_shard inst rid = Some s"
    if "dict_get (node_to_runner (inst_shards inst)) (pi_node_id x) = Some rid" for rid
    using dict_get_in_values [OF that]
    by (auto simp: validate_runners_exist_def list_all_iff instance_shard_def dict_has_def simp del: set_map)
  show "(case dict_get (node_to_runner (inst_shards inst)) (pi_node_id x) of
         None \<Rightarrow> Inr None
       | Some rid \<Rightarrow>
           if dict_has (pi_runners x) rid then Inr None
           else case instance_shard inst rid of
                  None \<Rightarrow> Inl AssertionError
                | Some _ \<Rightarrow> Inr (Some (NewTask (inst_id inst)
                    (CreateRunner \<lparr>bound_to = inst, bound_runner_id = rid, bound_node_id = pi_node_id x\<rparr>)))) \<noteq> Inl e"
    by (auto split: option.split dest!: ex)
qed

lemma shard_planners_no_error:
  assumes "plan_ready x"
  shows "model_needs_download (pi_node_id x) (pi_runners x) (pi_downloads x) \<noteq> Inl e"
    and "engine_needs_install (pi_runners x) (pi_on_demand x) (pi_install_requested x) \<noteq> Inl e"
    and "init_distributed_backend (pi_runners x) (pi_all_runners x) \<noteq> Inl e"
    and "ready_to_warmup (pi_runners x) (pi_all_runners x) \<noteq> Inl e"
proof -
  show "model_needs_download (pi_node_id x) (pi_runners x) (pi_downloads x) \<noteq> Inl e"
    unfolding model_needs_download_def Let_def
    by (rule first_of_no_error, erule plan_ready_runner [OF assms]) (auto simp: with_shard_def split: if_splits)
  show "engine_needs_install (pi_runners x) (pi_on_demand x) (pi_install_requested x) \<noteq> Inl e"
    unfolding engine_needs_install_def Let_def
    by (simp, intro impI first_of_no_error, erule plan_ready_runner [OF assms])
      (auto simp: with_shard_def split: option.splits if_splits)
  show "init_distributed_backend (pi_runners x) (pi_all_runners x) \<noteq> Inl e"
    unfolding init_distributed_backend_def Let_def
    by (rule first_of_no_error, erule plan_ready_runner [OF assms]) (auto simp: with_shard_def split: if_splits)
  show "ready_to_warmup (pi_runners x) (pi_all_runners x) \<noteq> Inl e"
    unfolding ready_to_warmup_def Let_def
    by (rule first_of_no_error, erule plan_ready_runner [OF assms]) (auto simp: with_shard_def split: if_splits)
qed

lemma downloads_checked:
  assumes "validate_runners_exist sa"
  obtains b where "all_downloads_complete ds sa (node_to_runner sa) = Inr b"
  using all_downloads_no_error [OF validated_pairs [OF assms], of ds]
  by (cases "all_downloads_complete ds sa (node_to_runner sa)") auto

lemma load_model_no_error:
  assumes "plan_ready x"
  shows "load_model (pi_runners x) (pi_all_runners x) (pi_downloads x) (pi_on_demand x) \<noteq> Inl e"
  unfolding load_model_def Let_def
proof (rule first_of_no_error, erule plan_ready_runner [OF assms], rule with_shard_no_error, assumption, goal_cases)
  case (1 r e s e')
  obtain b where "all_downloads_complete (pi_downloads x) (inst_shards (rs_instance r))
      (node_to_runner (inst_shards (rs_instance r))) = Inr b"
    using downloads_checked [OF 1(4)] .
  then show ?case by (cases b) auto
qed

lemma pending_tasks_no_error:
  assumes "plan_ready x"
  shows "pending_tasks (pi_runners x) (pi_tasks x) (pi_all_runners x) (pi_chunks x) (pi_speech_ready x)
           (pi_reference_ready x) \<noteq> Inl e"
proof -
  have fwd: "forward_to_runner (pi_all_runners x) t r \<noteq> Inl e'" if r: "r \<in> set (dict_values (pi_runners x))" for t r e'
  proof -
    obtain s where s: "bound_shard r = Some s"
        "\<forall>g \<in> set (dict_keys (runner_to_shard (inst_shards (rs_instance r)))). dict_has (pi_all_runners x) g"
      using plan_ready_runner [OF assms r] by blast
    obtain b where "all_ranks_serving (pi_all_runners x) (dict_keys (runner_to_shard (inst_shards (rs_instance r)))) = Inr b"
      using all_ranks_serving_no_error [OF s(2)]
      by (cases "all_ranks_serving (pi_all_runners x) (dict_keys (runner_to_shard (inst_shards (rs_instance r))))") auto
    then show ?thesis using s(1) by (auto simp: forward_to_runner_def with_shard_def)
  qed
  have "forward_task (pi_runners x) (pi_all_runners x) (pi_chunks x) (pi_speech_ready x) (pi_reference_ready x) t \<noteq> Inl e'"
    for t e'
    using first_of_no_error [of "dict_values (pi_runners x)" "forward_to_runner (pi_all_runners x) t" e'] fwd
    by (simp add: forward_task_def Let_def split: option.split)
  then show ?thesis unfolding pending_tasks_def by (intro first_of_no_error)
qed

lemma cancel_tasks_no_error: "cancel_tasks rs ts \<noteq> Inl e"
  unfolding cancel_tasks_def
  by (intro first_of_no_error) (auto dest!: first_of_Inl split: if_splits)

lemma kill_runner_no_error: "kill_runner (pi_runners (x :: plan_input)) (pi_all_runners x) (pi_instances x) \<noteq> Inl e"
  unfolding kill_runner_eq by (intro first_of_no_error) simp

text \<open>
  C31. Planning does not raise on a consistent view.  If every local runner's shard exists with a
  valid rank and every rank of its instance has a record in the replicated runner table, and the
  instances pass their own validation, then the planner returns a task or none and raises nothing.
\<close>

theorem plan_never_raises:
  assumes "plan_ready x"
  shows "\<exists>r. plan x = Inr r"
proof -
  have "plan x \<noteq> Inl e" for e
    unfolding plan_def
  proof (rule first_of_no_error)
    fix f e assume "f \<in> set (planners x)"
    then show "f () \<noteq> Inl e"
      by (auto simp: planners_def kill_runner_no_error cancel_tasks_no_error create_runner_no_error [OF assms]
          shard_planners_no_error [OF assms] load_model_no_error [OF assms] pending_tasks_no_error [OF assms])
  qed
  then show ?thesis by (cases "plan x") auto
qed

text \<open>A pipeline of two ranks on two nodes, seen from node \<open>a\<close>.\<close>

definition two_rank_shard :: "int \<Rightarrow> shard_metadata" where
  "two_rank_shard k = PipelineShardMetadata \<lparr>shard_card = \<lparr>card_model_id = ''m'', registry_card_id = None,
       card_family = ''llama'', card_context_length = 4096, card_tasks = [''TextGeneration''],
       card_vision_model_type = None, card_prompt_renderer = None, card_output_parser = None,
       card_tool_call_format = None, storage_size = 1000, card_n_layers = 8, hidden_size = 64,
     supports_tensor = True, num_key_value_heads = None, cache_geometry = None, gguf_file = None, uses_cfg = False,
     projector_size = None, card_music = None, served_spec_type = None, served_spec_n_max = None, compatible_backends = [''mlx''],
     backend_preference = [], max_pipeline_split_layer = None, card_rest = []\<rparr>,
     device_rank = k, world_size = 2, resolved_backend = None, resolved_engine_build = None,
     llama_server_settings = None, immediate_exception = False, should_timeout = None,
     start_layer = 0, end_layer = 4, n_layers = 8\<rparr>"

definition two_rank_instance :: instance_t where
  "two_rank_instance = MlxRingInstance \<lparr>bi_instance_id = ''i'',
     bi_shard_assignments = \<lparr>sa_model_id = ''m'', runner_to_shard = [(''r0'', two_rank_shard 0), (''r1'', two_rank_shard 1)],
       node_to_runner = [(''a'', ''r0''), (''b'', ''r1'')]\<rparr>,
     bi_context_token_limit = None, bi_excluded_nodes = [], bi_system_role = None,
     bi_requested_context_tokens = None\<rparr> [] 50000"

definition local_view :: "runner_status \<Rightarrow> (runner_id, runner_status) dict \<Rightarrow> plan_input" where
  "local_view s statuses =
     \<lparr>pi_node_id = ''a'',
      pi_runners = [(''r0'', \<lparr>rs_bound = \<lparr>bound_to = two_rank_instance, bound_runner_id = ''r0'', bound_node_id = ''a''\<rparr>,
        rs_status = s, rs_completed = {}, rs_in_progress = {}, rs_cancelled = {}\<rparr>)],
      pi_downloads = [], pi_instances = [(''i'', two_rank_instance)], pi_all_runners = statuses,
      pi_tasks = [(''t'', \<lparr>task_id = ''t'', task_status = Pending, task_instance_id = ''i'', task_error_type = None,
        task_error_message = None,
        task_kind = TextGeneration \<lparr>inf_command_id = ''c'', inf_owner_node = None, inf_task_params = [],
          inf_trace_enabled = False\<rparr> 0\<rparr>)],
      pi_chunks = [], pi_speech_ready = {}, pi_reference_ready = {}, pi_on_demand = {}, pi_install_requested = {}\<rparr>"

theorem plan_recovers_first_witness:
  "plan (local_view RunnerReady [(''r0'', RunnerReady), (''r1'', RunnerFailed None)]) = Inr (Some (NewTask ''i'' (Shutdown ''r0''))) \<and>
   (\<exists>r. \<not> clean_runner (local_view RunnerReady [(''r0'', RunnerReady), (''r1'', RunnerFailed None)]) r)"
proof -
  have p: "plan (local_view RunnerReady [(''r0'', RunnerReady), (''r1'', RunnerFailed None)]) =
      Inr (Some (NewTask ''i'' (Shutdown ''r0'')))"
    by code_simp
  then show ?thesis using plan_recovers_first [OF p] by auto
qed

theorem plan_dispatch_safe_witness:
  "\<exists>t. plan (local_view RunnerReady [(''r0'', RunnerReady), (''r1'', RunnerRunning)]) = Inr (Some (ExistingTask t)) \<and>
     task_status t \<in> {Pending, Running} \<and> task_id t = ''t''"
proof -
  let ?x = "local_view RunnerReady [(''r0'', RunnerReady), (''r1'', RunnerRunning)]"
  have p: "plan ?x = Inr (Some (ExistingTask (snd (hd (pi_tasks ?x)))))" by code_simp
  moreover have "task_id (snd (hd (pi_tasks ?x))) = ''t''" by (simp add: local_view_def)
  ultimately show ?thesis using plan_dispatch_safe [OF p] by blast
qed

theorem plan_never_raises_witness:
  "\<exists>r. plan (local_view RunnerReady [(''r0'', RunnerReady), (''r1'', RunnerRunning)]) = Inr r"
  by (rule plan_never_raises)
    (simp add: plan_ready_def local_view_def bound_shard_def instance_shard_def two_rank_instance_def two_rank_shard_def
      validate_runners_exist_def dict_has_def)

text \<open>
  A missing peer record makes planning raise.  While a peer's runner record is absent (its
  terminal status removed it and the relaunched runner has not reported yet), a pending request
  for the instance makes the planner raise \<open>KeyError\<close>: \<open>_pending_tasks\<close> indexes the runner table
  where every other planner function uses \<open>get\<close>.
\<close>

theorem plan_raises_on_missing_peer:
  "plan (local_view RunnerReady [(''r0'', RunnerReady)]) = Inl KeyError"
  by code_simp

end
