(* ===== verification/Group_Formation.thy ===== *)
theory Group_Formation
  imports Worker_Plan_Safety
begin

text \<open>
  The ranks of a distributed MLX instance must connect and warm up in a fixed order: one rank (the
  last when connecting, the first when warming up) has to move after all others.  No message
  coordinates them; each node decides from its own planner and the replicated runner table.  The
  locale \<open>rank_barrier\<close> states that protocol once; it is interpreted on the planner's
  \<open>init_distributed_backend\<close> and on its \<open>ready_to_warmup\<close>.
\<close>

section \<open>The protocol\<close>

locale rank_barrier =
  fixes ok :: "'i \<Rightarrow> bool"
    and members :: "'i \<Rightarrow> 'r list"
    and gate :: "'i \<Rightarrow> 'r"
    and enabled :: "'i \<Rightarrow> ('r \<Rightarrow> 's) \<Rightarrow> 'r \<Rightarrow> bool"
    and waiting :: 's and moved :: 's
  assumes gate_member: "ok i \<Longrightarrow> gate i \<in> set (members i)"
    and two_states: "waiting \<noteq> moved"
    and enabled_iff: "ok i \<Longrightarrow> r \<in> set (members i) \<Longrightarrow> v r = waiting \<Longrightarrow>
          \<forall>q \<in> set (members i). v q = waiting \<or> v q = moved \<Longrightarrow>
          enabled i v r \<longleftrightarrow> r \<noteq> gate i \<or> (\<forall>q \<in> set (members i). q \<noteq> r \<longrightarrow> v q = moved)"
begin

definition in_phase :: "'i \<Rightarrow> ('r \<Rightarrow> 's) \<Rightarrow> bool" where
  "in_phase i v \<longleftrightarrow> (\<forall>q \<in> set (members i). v q = waiting \<or> v q = moved)"

definition all_moved :: "'i \<Rightarrow> ('r \<Rightarrow> 's) \<Rightarrow> bool" where
  "all_moved i v \<longleftrightarrow> (\<forall>q \<in> set (members i). v q = moved)"

text \<open>One rank that waits and is told to move does so.\<close>

definition advance :: "'i \<Rightarrow> ('r \<Rightarrow> 's) \<Rightarrow> ('r \<Rightarrow> 's) \<Rightarrow> bool" where
  "advance i v v' \<longleftrightarrow> (\<exists>r \<in> set (members i). v r = waiting \<and> enabled i v r \<and> v' = v(r := moved))"

lemma advance_phase: "in_phase i v \<Longrightarrow> advance i v v' \<Longrightarrow> in_phase i v'"
  unfolding in_phase_def advance_def by (metis fun_upd_apply)

lemma run_phase: "(advance i)\<^sup>*\<^sup>* v v' \<Longrightarrow> in_phase i v \<Longrightarrow> in_phase i v'"
  by (induction rule: rtranclp_induct) (auto dest: advance_phase)

lemma progress:
  assumes "ok i" "in_phase i v" "\<not> all_moved i v"
  shows "\<exists>v'. advance i v v'"
proof -
  have ph: "\<forall>q \<in> set (members i). v q = waiting \<or> v q = moved"
    using assms(2) unfolding in_phase_def .
  obtain r where r: "r \<in> set (members i)" "v r = waiting"
    using assms(2,3) by (auto simp: in_phase_def all_moved_def)
  show ?thesis
  proof (cases "\<exists>q \<in> set (members i). q \<noteq> gate i \<and> v q = waiting")
    case True
    then obtain q where q: "q \<in> set (members i)" "q \<noteq> gate i" "v q = waiting" by blast
    then have "enabled i v q" using enabled_iff [of i q v] assms(1) ph by blast
    with q show ?thesis by (auto simp: advance_def)
  next
    case False
    then have "r = gate i" using r by blast
    with False ph have "\<forall>q \<in> set (members i). q \<noteq> r \<longrightarrow> v q = moved" by blast
    then have "enabled i v r" using enabled_iff [of i r v] assms(1) r ph by blast
    with r show ?thesis by (auto simp: advance_def)
  qed
qed

lemma gate_last:
  assumes "ok i" "in_phase i v" "v (gate i) = waiting" "enabled i v (gate i)"
  shows "\<forall>q \<in> set (members i). q \<noteq> gate i \<longrightarrow> v q = moved"
  using enabled_iff [of i "gate i" v] gate_member assms unfolding in_phase_def by blast

text \<open>The number of waiting ranks falls with every move, so a run ends, and it ends with all moved.\<close>

definition waiting_count :: "'i \<Rightarrow> ('r \<Rightarrow> 's) \<Rightarrow> nat" where
  "waiting_count i v = card {q \<in> set (members i). v q = waiting}"

lemma advance_count: "advance i v v' \<Longrightarrow> waiting_count i v = Suc (waiting_count i v')"
proof -
  assume "advance i v v'"
  then obtain r where r: "r \<in> set (members i)" "v r = waiting" "v' = v(r := moved)" by (auto simp: advance_def)
  then have "{q \<in> set (members i). v q = waiting} = insert r {q \<in> set (members i). v' q = waiting}"
    and "r \<notin> {q \<in> set (members i). v' q = waiting}" using two_states by auto
  then show ?thesis by (simp add: waiting_count_def)
qed

lemma completes:
  assumes "ok i" "in_phase i v"
  shows "\<exists>v'. (advance i)\<^sup>*\<^sup>* v v' \<and> all_moved i v'"
  using assms(2)
proof (induction "waiting_count i v" arbitrary: v rule: less_induct)
  case less
  show ?case
  proof (cases "all_moved i v")
    case False
    then obtain v1 where v1: "advance i v v1" using progress [OF assms(1) less.prems] by blast
    then obtain v' where "(advance i)\<^sup>*\<^sup>* v1 v'" "all_moved i v'"
      using less.hyps [of v1] advance_count [OF v1] advance_phase [OF less.prems v1] by auto
    with v1 show ?thesis by (meson converse_rtranclp_into_rtranclp)
  qed auto
qed

lemma only_ends_complete:
  assumes "ok i" "in_phase i v" "(advance i)\<^sup>*\<^sup>* v v'" "\<nexists>v''. advance i v' v''"
  shows "all_moved i v'"
  using progress [OF assms(1) run_phase [OF assms(3,2)]] assms(4) by blast

end

section \<open>The planner as such a protocol\<close>

definition group_members :: "instance_t \<Rightarrow> runner_id list" where
  "group_members inst = dict_keys (runner_to_shard (inst_shards inst))"

abbreviation rank_of :: "shard_metadata \<Rightarrow> int" where
  "rank_of s \<equiv> device_rank (shard_base s)"

text \<open>A placed MLX group: at least two ranks, numbered from 0 without gaps or repetitions.\<close>

definition mlx_group :: "instance_t \<Rightarrow> bool" where
  "mlx_group inst \<longleftrightarrow>
     (let shards = runner_to_shard (inst_shards inst); n = length shards in
      \<not> is_rpc_instance inst \<and> dict_wf shards \<and> 1 < n \<and> distinct (map (\<lambda>(g, s). rank_of s) shards) \<and>
      list_all (\<lambda>(g, s). 0 \<le> rank_of s \<and> rank_of s < int n \<and> world_size (shard_base s) = int n) shards)"

definition rank_runner :: "instance_t \<Rightarrow> int \<Rightarrow> runner_id" where
  "rank_runner inst k =
     (case find (\<lambda>(g, s). rank_of s = k) (runner_to_shard (inst_shards inst)) of Some (g, s) \<Rightarrow> g | None \<Rightarrow> [])"

text \<open>What the node of rank \<open>g\<close> sees: its own supervisor and the replicated runner table.\<close>

definition rank_supervisor :: "instance_t \<Rightarrow> (runner_id \<Rightarrow> runner_status) \<Rightarrow> runner_id \<Rightarrow> (runner_id, runner_supervisor) dict" where
  "rank_supervisor inst v g =
     [(g, \<lparr>rs_bound = \<lparr>bound_to = inst, bound_runner_id = g, bound_node_id = g\<rparr>, rs_status = v g,
           rs_completed = {}, rs_in_progress = {}, rs_cancelled = {}\<rparr>)]"

definition runner_table :: "instance_t \<Rightarrow> (runner_id \<Rightarrow> runner_status) \<Rightarrow> (runner_id, runner_status) dict" where
  "runner_table inst v = map (\<lambda>g. (g, v g)) (group_members inst)"

definition told_to_connect :: "instance_t \<Rightarrow> (runner_id \<Rightarrow> runner_status) \<Rightarrow> runner_id \<Rightarrow> bool" where
  "told_to_connect inst v g \<longleftrightarrow>
     init_distributed_backend (rank_supervisor inst v g) (runner_table inst v) = Inr (Some (NewTask (inst_id inst) ConnectToGroup))"

definition told_to_warm_up :: "instance_t \<Rightarrow> (runner_id \<Rightarrow> runner_status) \<Rightarrow> runner_id \<Rightarrow> bool" where
  "told_to_warm_up inst v g \<longleftrightarrow>
     ready_to_warmup (rank_supervisor inst v g) (runner_table inst v) = Inr (Some (NewTask (inst_id inst) StartWarmup))"

lemma runner_table_get: "g \<in> set (group_members inst) \<Longrightarrow> dict_get (runner_table inst v) g = Some (v g)"
  by (simp add: runner_table_def map_of_map_restrict restrict_map_def)

lemma mlx_group_shard:
  assumes "mlx_group inst" "g \<in> set (group_members inst)"
  obtains s where "instance_shard inst g = Some s" "(g, s) \<in> set (runner_to_shard (inst_shards inst))"
    "0 \<le> rank_of s" "rank_of s < int (length (group_members inst))"
    "world_size (shard_base s) = int (length (group_members inst))"
proof -
  from assms(2) obtain s where "(g, s) \<in> set (runner_to_shard (inst_shards inst))"
    by (auto simp: group_members_def)
  with assms(1) show thesis
    by (intro that [of s]) (auto simp: mlx_group_def Let_def list_all_iff instance_shard_def group_members_def dict_wf_def)
qed

lemma rank_unique:
  assumes "mlx_group inst" "(g, s) \<in> set (runner_to_shard (inst_shards inst))"
    "(g', s') \<in> set (runner_to_shard (inst_shards inst))" "rank_of s = rank_of s'"
  shows "g = g'"
proof -
  have "inj_on (\<lambda>(g, s). rank_of s) (set (runner_to_shard (inst_shards inst)))"
    using assms(1) by (simp add: mlx_group_def Let_def distinct_map)
  from inj_onD [OF this, of "(g, s)" "(g', s')"] assms(2-4) show ?thesis by auto
qed

lemma every_rank_present:
  assumes "mlx_group inst" "0 \<le> k" "k < int (length (group_members inst))"
  shows "\<exists>g s. (g, s) \<in> set (runner_to_shard (inst_shards inst)) \<and> rank_of s = k"
proof -
  let ?rs = "map (\<lambda>(g, s). rank_of s) (runner_to_shard (inst_shards inst))"
  let ?n = "int (length (group_members inst))"
  have "set ?rs \<subseteq> {0..<?n}" "distinct ?rs"
    using assms(1) by (auto simp: mlx_group_def Let_def list_all_iff group_members_def)
  moreover have "card {0..<?n} = card (set ?rs)"
    using distinct_card [OF \<open>distinct ?rs\<close>] by (simp add: group_members_def)
  ultimately have "set ?rs = {0..<?n}" by (simp add: card_subset_eq)
  then have "k \<in> set ?rs" using assms(2,3) by simp
  then show ?thesis by auto
qed

lemma rank_runner_spec:
  assumes "mlx_group inst" "0 \<le> k" "k < int (length (group_members inst))"
  shows "rank_runner inst k \<in> set (group_members inst)"
    and "(g, s) \<in> set (runner_to_shard (inst_shards inst)) \<Longrightarrow> g = rank_runner inst k \<longleftrightarrow> rank_of s = k"
proof -
  obtain h t where f: "find (\<lambda>(g, s). rank_of s = k) (runner_to_shard (inst_shards inst)) = Some (h, t)"
    using every_rank_present [OF assms]
    by (cases "find (\<lambda>(g, s). rank_of s = k) (runner_to_shard (inst_shards inst))") (auto simp: find_None_iff)
  have h: "(h, t) \<in> set (runner_to_shard (inst_shards inst))" "rank_of t = k"
    using f by (auto simp: find_Some_iff in_set_conv_nth)
  have "rank_runner inst k = h" using f by (simp add: rank_runner_def)
  note h = h this
  then show "rank_runner inst k \<in> set (group_members inst)" by (force simp: group_members_def)
  assume g: "(g, s) \<in> set (runner_to_shard (inst_shards inst))"
  show "g = rank_runner inst k \<longleftrightarrow> rank_of s = k"
  proof
    assume "g = rank_runner inst k"
    moreover have "distinct (dict_keys (runner_to_shard (inst_shards inst)))"
      using assms(1) by (simp add: mlx_group_def Let_def dict_wf_def)
    ultimately show "rank_of s = k" using g h eq_key_imp_eq_value by fastforce
  next
    assume "rank_of s = k"
    then show "g = rank_runner inst k" using rank_unique [OF assms(1) g h(1)] h by simp
  qed
qed

definition last_rank :: "instance_t \<Rightarrow> runner_id" where
  "last_rank inst = rank_runner inst (int (length (group_members inst)) - 1)"

definition first_rank :: "instance_t \<Rightarrow> runner_id" where
  "first_rank inst = rank_runner inst 0"

lemma group_card: "mlx_group inst \<Longrightarrow> 1 < int (length (group_members inst))"
  unfolding mlx_group_def group_members_def Let_def by simp

lemma group_size:
  "mlx_group inst \<Longrightarrow> 0 \<le> int (length (group_members inst)) - 1"
  "mlx_group inst \<Longrightarrow> int (length (group_members inst)) - 1 < int (length (group_members inst))"
  "mlx_group inst \<Longrightarrow> 0 < int (length (group_members inst))"
  using group_card [of inst] by auto

lemma connect_iff:
  assumes "mlx_group inst" "g \<in> set (group_members inst)" "v g = RunnerIdle"
    and "\<forall>q \<in> set (group_members inst). v q = RunnerIdle \<or> v q = RunnerConnecting"
  shows "told_to_connect inst v g \<longleftrightarrow>
     g \<noteq> last_rank inst \<or> (\<forall>q \<in> set (group_members inst). q \<noteq> g \<longrightarrow> v q = RunnerConnecting)"
proof -
  let ?n = "int (length (group_members inst))"
  obtain s where s: "instance_shard inst g = Some s" "(g, s) \<in> set (runner_to_shard (inst_shards inst))"
      "0 \<le> rank_of s" "rank_of s < ?n" "world_size (shard_base s) = ?n"
    using mlx_group_shard [OF assms(1,2)] by blast
  have last: "g = last_rank inst \<longleftrightarrow> rank_of s = ?n - 1"
    unfolding last_rank_def by (rule rank_runner_spec(2) [OF assms(1) group_size(1,2) [OF assms(1)] s(2)])
  have phase: "list_all (\<lambda>g. dict_get (runner_table inst v) g \<in> {Some RunnerConnecting, Some RunnerIdle}) (group_members inst)"
    using assms(4) by (auto simp: list_all_iff runner_table_get)
  have peers: "list_all (\<lambda>q. q \<noteq> g \<longrightarrow> dict_get (runner_table inst v) q = Some RunnerConnecting) (group_members inst) \<longleftrightarrow>
      (\<forall>q \<in> set (group_members inst). q \<noteq> g \<longrightarrow> v q = RunnerConnecting)"
    by (auto simp: list_all_iff runner_table_get)
  have size: "length (runner_to_shard (inst_shards inst)) \<noteq> 1" "\<not> is_rpc_instance inst"
    using assms(1) by (auto simp: mlx_group_def Let_def)
  show ?thesis
    using s assms(3) last phase peers size
    unfolding told_to_connect_def init_distributed_backend_def rank_supervisor_def group_members_def
    by (auto simp: with_shard_def bound_shard_def Let_def simp del: set_map)
qed

lemma warm_up_iff:
  assumes "mlx_group inst" "g \<in> set (group_members inst)" "v g = RunnerLoaded"
    and "\<forall>q \<in> set (group_members inst). v q = RunnerLoaded \<or> v q = RunnerWarmingUp"
  shows "told_to_warm_up inst v g \<longleftrightarrow>
     g \<noteq> first_rank inst \<or> (\<forall>q \<in> set (group_members inst). q \<noteq> g \<longrightarrow> v q = RunnerWarmingUp)"
proof -
  let ?n = "int (length (group_members inst))"
  obtain s where s: "instance_shard inst g = Some s" "(g, s) \<in> set (runner_to_shard (inst_shards inst))"
      "0 \<le> rank_of s" "rank_of s < ?n" "world_size (shard_base s) = ?n"
    using mlx_group_shard [OF assms(1,2)] by blast
  have first: "g = first_rank inst \<longleftrightarrow> rank_of s = 0"
    unfolding first_rank_def by (rule rank_runner_spec(2) [OF assms(1) order.refl group_size(3) [OF assms(1)] s(2)])
  define ind where "ind = uses_independent_distributed_warmup s"
  define all_loaded where "all_loaded \<longleftrightarrow>
      list_all (\<lambda>q. \<exists>s \<in> (if ind then {RunnerLoaded, RunnerWarmingUp, RunnerReady} else {RunnerLoaded, RunnerWarmingUp}).
        dict_get (runner_table inst v) q = Some s) (group_members inst)"
  define others_warm where "others_warm \<longleftrightarrow>
      list_all (\<lambda>q. q \<noteq> g \<longrightarrow> (\<exists>s \<in> (if ind then {RunnerWarmingUp, RunnerReady} else {RunnerWarmingUp}).
        dict_get (runner_table inst v) q = Some s)) (group_members inst)"
  have phase: all_loaded
    using assms(4) unfolding all_loaded_def by (auto simp: list_all_iff runner_table_get)
  have peers: "others_warm \<longleftrightarrow> (\<forall>q \<in> set (group_members inst). q \<noteq> g \<longrightarrow> v q = RunnerWarmingUp)"
    unfolding others_warm_def list_all_iff
  proof (rule ball_cong [OF refl])
    fix q assume "q \<in> set (group_members inst)"
    with assms(4) show "(q \<noteq> g \<longrightarrow> (\<exists>s \<in> (if ind then {RunnerWarmingUp, RunnerReady} else {RunnerWarmingUp}).
        dict_get (runner_table inst v) q = Some s)) \<longleftrightarrow> (q \<noteq> g \<longrightarrow> v q = RunnerWarmingUp)"
      by (cases ind) (auto simp: runner_table_get)
  qed
  have rpc: "\<not> is_rpc_instance inst" using assms(1) by (simp add: mlx_group_def Let_def)
  have "with_shard f (snd (hd (rank_supervisor inst v g))) = f s" for f
    by (simp add: with_shard_def bound_shard_def rank_supervisor_def s(1))
  then have "ready_to_warmup (rank_supervisor inst v g) (runner_table inst v) =
      (if v g = RunnerLoaded \<and> (rank_of s > 0 \<and> all_loaded \<or> rank_of s = 0 \<and> others_warm)
       then Inr (Some (NewTask (inst_id inst) StartWarmup)) else Inr None)"
    unfolding ready_to_warmup_def rank_supervisor_def
    by (simp only: list.map snd_conv list.sel Let_def first_of.simps runner_supervisor.simps bound_instance.simps)
       (simp only: s rpc group_members_def [symmetric] ind_def [symmetric] all_loaded_def [symmetric] others_warm_def [symmetric] if_False not_True_eq_False not_False_eq_True split: if_split sum.split option.split, simp)
  then have "told_to_warm_up inst v g \<longleftrightarrow> rank_of s > 0 \<or> rank_of s = 0 \<and> others_warm"
    using assms(3) phase unfolding told_to_warm_up_def by auto
  note this [unfolded peers]
  then show ?thesis using first s(3) by auto
qed

interpretation connecting: rank_barrier mlx_group group_members last_rank told_to_connect RunnerIdle RunnerConnecting
proof (unfold_locales, goal_cases)
  case (1 inst)
  show ?case unfolding last_rank_def by (rule rank_runner_spec(1) [OF 1 group_size(1,2) [OF 1]])
next
  case (3 inst r v)
  then show ?case by (rule connect_iff)
qed simp

interpretation warming_up: rank_barrier mlx_group group_members first_rank told_to_warm_up RunnerLoaded RunnerWarmingUp
proof (unfold_locales, goal_cases)
  case (1 inst)
  show ?case unfolding first_rank_def by (rule rank_runner_spec(1) [OF 1 order.refl group_size(3) [OF 1]])
next
  case (3 inst r v)
  then show ?case by (rule warm_up_iff)
qed simp

text \<open>
  C27. A distributed instance always connects.  Take any MLX group whose ranks are all idle or
  connecting, and let the ranks whose node tells them to connect do so one after the other, in any
  order.  The group can reach the state where all ranks are connecting; every execution that cannot
  continue has reached it, so there is no deadlock; and the last rank is told to connect only when
  all other ranks are already connecting.
\<close>

theorem group_always_connects:
  assumes "mlx_group inst"
    and "\<forall>q \<in> set (group_members inst). v q = RunnerIdle \<or> v q = RunnerConnecting"
  shows "(\<exists>v'. (connecting.advance inst)\<^sup>*\<^sup>* v v' \<and> (\<forall>q \<in> set (group_members inst). v' q = RunnerConnecting)) \<and>
     (\<forall>v'. (connecting.advance inst)\<^sup>*\<^sup>* v v' \<and> (\<nexists>v''. connecting.advance inst v' v'') \<longrightarrow>
        (\<forall>q \<in> set (group_members inst). v' q = RunnerConnecting)) \<and>
     (v (last_rank inst) = RunnerIdle \<and> told_to_connect inst v (last_rank inst) \<longrightarrow>
        (\<forall>q \<in> set (group_members inst). q \<noteq> last_rank inst \<longrightarrow> v q = RunnerConnecting))"
proof -
  have phase: "connecting.in_phase inst v" using assms(2) by (simp add: connecting.in_phase_def)
  show ?thesis
    using connecting.completes [OF assms(1) phase] connecting.only_ends_complete [OF assms(1) phase]
      connecting.gate_last [OF assms(1) phase]
    unfolding connecting.all_moved_def by blast
qed

theorem group_always_connects_witness:
  "\<exists>v'. (connecting.advance two_rank_instance)\<^sup>*\<^sup>* (\<lambda>_. RunnerIdle) v' \<and>
     v' ''r0'' = RunnerConnecting \<and> v' ''r1'' = RunnerConnecting"
proof -
  have "mlx_group two_rank_instance" by code_simp
  moreover have "set (group_members two_rank_instance) = {''r0'', ''r1''}"
    by (simp add: group_members_def two_rank_instance_def)
  ultimately show ?thesis using group_always_connects [of two_rank_instance "\<lambda>_. RunnerIdle"] by auto
qed

text \<open>A loaded group always warms up.  From any state in which all ranks of an MLX group are loaded
  or warming up, the same holds for the warm-up: all ranks can start it, an execution that cannot
  continue has started it everywhere, and rank 0 starts only when all other ranks have.
\<close>

theorem group_always_warms_up:
  assumes "mlx_group inst"
    and "\<forall>q \<in> set (group_members inst). v q = RunnerLoaded \<or> v q = RunnerWarmingUp"
  shows "(\<exists>v'. (warming_up.advance inst)\<^sup>*\<^sup>* v v' \<and> (\<forall>q \<in> set (group_members inst). v' q = RunnerWarmingUp)) \<and>
     (\<forall>v'. (warming_up.advance inst)\<^sup>*\<^sup>* v v' \<and> (\<nexists>v''. warming_up.advance inst v' v'') \<longrightarrow>
        (\<forall>q \<in> set (group_members inst). v' q = RunnerWarmingUp)) \<and>
     (v (first_rank inst) = RunnerLoaded \<and> told_to_warm_up inst v (first_rank inst) \<longrightarrow>
        (\<forall>q \<in> set (group_members inst). q \<noteq> first_rank inst \<longrightarrow> v q = RunnerWarmingUp))"
proof -
  have phase: "warming_up.in_phase inst v" using assms(2) by (simp add: warming_up.in_phase_def)
  show ?thesis
    using warming_up.completes [OF assms(1) phase] warming_up.only_ends_complete [OF assms(1) phase]
      warming_up.gate_last [OF assms(1) phase]
    unfolding warming_up.all_moved_def by blast
qed

theorem group_always_warms_up_witness:
  "\<exists>v'. (warming_up.advance two_rank_instance)\<^sup>*\<^sup>* (\<lambda>_. RunnerLoaded) v' \<and>
     v' ''r0'' = RunnerWarmingUp \<and> v' ''r1'' = RunnerWarmingUp"
proof -
  have "mlx_group two_rank_instance" by code_simp
  moreover have "set (group_members two_rank_instance) = {''r0'', ''r1''}"
    by (simp add: group_members_def two_rank_instance_def)
  ultimately show ?thesis using group_always_warms_up [of two_rank_instance "\<lambda>_. RunnerLoaded"] by auto
qed

end
