(* ===== verification/Event_Buffer.thy ===== *)
theory Event_Buffer
  imports Prelude
begin

text \<open>
  The resequencing buffers of \<^verbatim>\<open>src/skulk/utils/event_buffer.py\<close>: \<open>OrderedBuffer\<close>, which the
  event router and the master use to restore the order of indexed events, and
  \<open>MultiSourceBuffer\<close>, one such buffer per origin.

  The contract of a resequencer is stated as the locale \<open>resequencer\<close>; the buffer's own
  operations interpret it at the end of the theory.
\<close>

section \<open>Model\<close>

datatype 'a conflict = ConflictingDuplicateIndexError int 'a 'a

record 'a ordered_buffer =
  store :: "(int, 'a) dict"
  skipped :: "int list"
  next_idx_to_release :: int

definition new_buffer :: "'a ordered_buffer" where
  "new_buffer = \<lparr>store = [], skipped = [], next_idx_to_release = 0\<rparr>"

text \<open>
  \<open>dump\<close> is pydantic's view of a payload: \<open>None\<close> for a value that is no \<open>BaseModel\<close>,
  otherwise its class and its \<open>model_dump(mode="json")\<close>.
\<close>

definition messages_match :: "('a \<Rightarrow> (string \<times> opaque) option) \<Rightarrow> 'a \<Rightarrow> 'a \<Rightarrow> bool" where
  "messages_match dump existing incoming =
     (if existing = incoming then True
      else case (dump existing, dump incoming) of
             (Some (ty, js), Some (ty', js')) \<Rightarrow> if ty \<noteq> ty' then False else js = js'
           | _ \<Rightarrow> False)"

definition ingest ::
  "('a \<Rightarrow> (string \<times> opaque) option) \<Rightarrow> int \<Rightarrow> 'a \<Rightarrow> 'a ordered_buffer
     \<Rightarrow> 'a conflict + 'a ordered_buffer" where
  "ingest dump idx t b =
     (if idx < next_idx_to_release b then Inr b
      else if idx \<in> set (skipped b) then Inr b
      else case dict_get (store b) idx of
             Some existing \<Rightarrow>
               (if messages_match dump existing t then Inr b
                else Inl (ConflictingDuplicateIndexError idx existing t))
           | None \<Rightarrow> Inr (b\<lparr>store := dict_set idx t (store b)\<rparr>))"

definition truncate_from :: "int \<Rightarrow> 'a ordered_buffer \<Rightarrow> 'a ordered_buffer" where
  "truncate_from idx b =
     b\<lparr>store := dict_filter (\<lambda>stored_idx event. stored_idx < idx) (store b),
       skipped := filter (\<lambda>skipped_idx. skipped_idx < idx) (skipped b),
       next_idx_to_release := min (next_idx_to_release b) idx\<rparr>"

definition skip :: "int \<Rightarrow> 'a ordered_buffer \<Rightarrow> 'a ordered_buffer" where
  "skip idx b =
     (if idx < next_idx_to_release b \<or> dict_has (store b) idx then b
      else b\<lparr>skipped := List.insert idx (skipped b)\<rparr>)"

text \<open>
  Both drain loops release while the next index is stored or skipped.  Every round removes
  an entry from \<open>skipped\<close> or from \<open>store\<close>, so the loops end.
\<close>

function drain_indexed :: "'a ordered_buffer \<Rightarrow> (int \<times> 'a) list \<times> 'a ordered_buffer" where
  "drain_indexed b =
     (let idx = next_idx_to_release b in
      if idx \<in> set (skipped b)
      then drain_indexed (b\<lparr>skipped := removeAll idx (skipped b), next_idx_to_release := idx + 1\<rparr>)
      else case dict_get (store b) idx of
             Some event \<Rightarrow>
               (let (ret, b') = drain_indexed
                      (b\<lparr>store := dict_pop idx (store b), next_idx_to_release := idx + 1\<rparr>)
                in ((idx, event) # ret, b'))
           | None \<Rightarrow> ([], b))"
  by pat_completeness auto
termination
proof (relation "measure (\<lambda>b. length (store b) + length (skipped b))", goal_cases)
  case 1
  show ?case by simp
next
  case (2 b x)
  have "length (removeAll x (skipped b)) < length (skipped b)"
    using 2 by (simp add: length_removeAll_less)
  then show ?case by simp
next
  case (3 b x e)
  then show ?case
    using length_dict_pop_less [of "store b" x] by simp
qed

declare drain_indexed.simps [simp del]

function drain :: "'a ordered_buffer \<Rightarrow> 'a list \<times> 'a ordered_buffer" where
  "drain b =
     (let idx = next_idx_to_release b in
      if idx \<in> set (skipped b)
      then drain (b\<lparr>skipped := removeAll idx (skipped b), next_idx_to_release := idx + 1\<rparr>)
      else case dict_get (store b) idx of
             Some event \<Rightarrow>
               (let (ret, b') = drain
                      (b\<lparr>store := dict_pop idx (store b), next_idx_to_release := idx + 1\<rparr>)
                in (event # ret, b'))
           | None \<Rightarrow> ([], b))"
  by pat_completeness auto
termination
proof (relation "measure (\<lambda>b. length (store b) + length (skipped b))", goal_cases)
  case 1
  show ?case by simp
next
  case (2 b x)
  have "length (removeAll x (skipped b)) < length (skipped b)"
    using 2 by (simp add: length_removeAll_less)
  then show ?case by simp
next
  case (3 b x e)
  then show ?case
    using length_dict_pop_less [of "store b" x] by simp
qed

declare drain.simps [simp del]

lemma drain_indexed_rounds:
  "next_idx_to_release b = idx \<Longrightarrow> idx \<in> set (skipped b) \<Longrightarrow> drain_indexed b =
     drain_indexed (b\<lparr>skipped := removeAll idx (skipped b), next_idx_to_release := idx + 1\<rparr>)"
  "next_idx_to_release b = idx \<Longrightarrow> idx \<notin> set (skipped b) \<Longrightarrow> dict_get (store b) idx = Some e \<Longrightarrow>
     drain_indexed b =
       apfst ((#) (idx, e))
         (drain_indexed (b\<lparr>store := dict_pop idx (store b), next_idx_to_release := idx + 1\<rparr>))"
  "next_idx_to_release b = idx \<Longrightarrow> idx \<notin> set (skipped b) \<Longrightarrow> dict_get (store b) idx = None \<Longrightarrow>
     drain_indexed b = ([], b)"
  by (subst drain_indexed.simps, simp add: Let_def split_beta apfst_def map_prod_def)+

lemma drain_rounds:
  "next_idx_to_release b = idx \<Longrightarrow> idx \<in> set (skipped b) \<Longrightarrow> drain b =
     drain (b\<lparr>skipped := removeAll idx (skipped b), next_idx_to_release := idx + 1\<rparr>)"
  "next_idx_to_release b = idx \<Longrightarrow> idx \<notin> set (skipped b) \<Longrightarrow> dict_get (store b) idx = Some e \<Longrightarrow>
     drain b =
       apfst ((#) e) (drain (b\<lparr>store := dict_pop idx (store b), next_idx_to_release := idx + 1\<rparr>))"
  "next_idx_to_release b = idx \<Longrightarrow> idx \<notin> set (skipped b) \<Longrightarrow> dict_get (store b) idx = None \<Longrightarrow>
     drain b = ([], b)"
  by (subst drain.simps, simp add: Let_def split_beta apfst_def map_prod_def)+

text \<open>\<open>MultiSourceBuffer\<close>: an ordered buffer per source, created on first use.\<close>

type_synonym ('s, 'a) multi_source_buffer = "('s, 'a ordered_buffer) dict"

definition source_buffer :: "'s \<Rightarrow> ('s, 'a) multi_source_buffer \<Rightarrow> 'a ordered_buffer" where
  "source_buffer source stores =
     (case dict_get stores source of None \<Rightarrow> new_buffer | Some buffer \<Rightarrow> buffer)"

definition ms_ingest ::
  "('a \<Rightarrow> (string \<times> opaque) option) \<Rightarrow> int \<Rightarrow> 'a \<Rightarrow> 's \<Rightarrow> ('s, 'a) multi_source_buffer
     \<Rightarrow> 'a conflict + ('s, 'a) multi_source_buffer" where
  "ms_ingest dump idx t source stores =
     (case ingest dump idx t (source_buffer source stores) of
        Inl e \<Rightarrow> Inl e
      | Inr buffer \<Rightarrow> Inr (dict_set source buffer stores))"

definition ms_skip :: "int \<Rightarrow> 's \<Rightarrow> ('s, 'a) multi_source_buffer \<Rightarrow> ('s, 'a) multi_source_buffer" where
  "ms_skip idx source stores = dict_set source (skip idx (source_buffer source stores)) stores"

fun ms_drain :: "('s, 'a) multi_source_buffer \<Rightarrow> 'a list \<times> ('s, 'a) multi_source_buffer" where
  "ms_drain [] = ([], [])"
| "ms_drain ((source, b) # rest) =
     (let (ret, b') = drain b; (rets, rest') = ms_drain rest
      in (ret @ rets, (source, b') # rest'))"

section \<open>The contract of a resequencer\<close>

text \<open>
  A resequencer holds, for every index from \<open>next_idx\<close> on, a verdict: unknown
  (\<open>None\<close>), rejected (\<open>Some None\<close>) or a payload (\<open>Some (Some t)\<close>).  \<open>log\<close> is the
  sequence every participant should see: the payload of each index, or \<open>None\<close> for an index
  that was rejected.
\<close>

fun payload_of :: "'a option option \<Rightarrow> 'a option" where
  "payload_of (Some (Some t)) = Some t"
| "payload_of v = None"

definition log_segment :: "(int \<Rightarrow> 'a option) \<Rightarrow> int \<Rightarrow> int \<Rightarrow> (int \<times> 'a) list" where
  "log_segment log m n =
     concat (map (\<lambda>i. case log i of None \<Rightarrow> [] | Some t \<Rightarrow> [(i, t)]) [m..n - 1])"

lemma log_segment_empty [simp]: "n \<le> m \<Longrightarrow> log_segment log m n = []"
  by (simp add: log_segment_def)

lemma log_segment_step:
  "m < n \<Longrightarrow> log_segment log m n =
     (case log m of None \<Rightarrow> [] | Some t \<Rightarrow> [(m, t)]) @ log_segment log (m + 1) n"
  by (simp add: log_segment_def upto.simps [of m "n - 1"])

lemma log_segment_append:
  "l \<le> m \<Longrightarrow> m \<le> n \<Longrightarrow> log_segment log l m @ log_segment log m n = log_segment log l n"
proof (induction "nat (m - l)" arbitrary: l)
  case 0
  then show ?case by simp
next
  case (Suc k)
  then have "l < m" "l < n" by simp_all
  moreover have "log_segment log (l + 1) m @ log_segment log m n = log_segment log (l + 1) n"
    using Suc by (intro Suc.hyps) auto
  ultimately show ?case
    by (simp add: log_segment_step)
qed

lemma log_segment_cong:
  "(\<And>i. m \<le> i \<Longrightarrow> i < n \<Longrightarrow> log i = log' i) \<Longrightarrow> log_segment log m n = log_segment log' m n"
  by (auto simp: log_segment_def intro!: arg_cong [where f = concat] map_cong)

lemma sorted_wrt_log_segment: "sorted_wrt (<) (map fst (log_segment log m n))"
proof (induction "nat (n - m)" arbitrary: m)
  case 0
  then show ?case by simp
next
  case (Suc k)
  then have "m < n" by simp
  have "set (map fst (log_segment log (m + 1) n)) \<subseteq> {m + 1..}"
    by (auto simp: log_segment_def split: option.splits)
  moreover have "sorted_wrt (<) (map fst (log_segment log (m + 1) n))"
    using Suc by (intro Suc.hyps) auto
  ultimately show ?case
    using \<open>m < n\<close> by (cases "log m") (auto simp: log_segment_step)
qed

locale resequencer =
  fixes next_idx :: "'b \<Rightarrow> int"
    and verdict :: "'b \<Rightarrow> int \<Rightarrow> 'a option option"
    and put :: "int \<Rightarrow> 'a \<Rightarrow> 'b \<Rightarrow> 'b option"
    and reject :: "int \<Rightarrow> 'b \<Rightarrow> 'b"
    and release :: "'b \<Rightarrow> (int \<times> 'a) list \<times> 'b"
    and fresh :: 'b
  assumes fresh_next: "next_idx fresh = 0"
    and fresh_verdict: "verdict fresh i = None"
    and put_undecided: "next_idx b \<le> i \<Longrightarrow> verdict b i = None \<Longrightarrow>
          \<exists>b'. put i t b = Some b' \<and> next_idx b' = next_idx b \<and>
               verdict b' = (verdict b)(i := Some (Some t))"
    and put_agreeing: "verdict b i = Some (Some t) \<Longrightarrow> put i t b = Some b"
    and put_rejected: "verdict b i = Some None \<Longrightarrow> put i t b = Some b"
    and put_released: "i < next_idx b \<Longrightarrow> put i t b = Some b"
    and reject_undecided: "next_idx b \<le> i \<Longrightarrow> verdict b i = None \<Longrightarrow>
          next_idx (reject i b) = next_idx b \<and>
          verdict (reject i b) = (verdict b)(i := Some None)"
    and reject_decided: "i < next_idx b \<or> verdict b i \<noteq> None \<Longrightarrow>
          next_idx (reject i b) = next_idx b \<and> verdict (reject i b) = verdict b"
    and release_mono: "release b = (out, b') \<Longrightarrow> next_idx b \<le> next_idx b'"
    and release_stops: "release b = (out, b') \<Longrightarrow> verdict b' (next_idx b') = None"
    and release_decided: "release b = (out, b') \<Longrightarrow> next_idx b \<le> i \<Longrightarrow> i < next_idx b' \<Longrightarrow>
          verdict b i \<noteq> None"
    and release_keeps: "release b = (out, b') \<Longrightarrow> next_idx b' \<le> i \<Longrightarrow> verdict b' i = verdict b i"
    and release_forgets: "release b = (out, b') \<Longrightarrow> i < next_idx b' \<Longrightarrow> verdict b' i = None"
    and release_log: "release b = (out, b') \<Longrightarrow>
          out = log_segment (\<lambda>i. payload_of (verdict b i)) (next_idx b) (next_idx b')"
begin

text \<open>A buffer that agrees with \<open>log\<close> and has released its first \<open>next_idx\<close> entries.\<close>

definition in_step :: "(int \<Rightarrow> 'a option) \<Rightarrow> (int \<times> 'a) list \<Rightarrow> 'b \<Rightarrow> bool" where
  "in_step log out b \<longleftrightarrow>
     0 \<le> next_idx b \<and> out = log_segment log 0 (next_idx b) \<and>
     (\<forall>i v. verdict b i = Some v \<longrightarrow> v = log i)"

lemma in_step_fresh: "in_step log [] fresh"
  by (simp add: in_step_def fresh_next fresh_verdict)

lemma in_step_put:
  assumes "in_step log out b" and "log i = Some t"
  shows "\<exists>b'. put i t b = Some b' \<and> in_step log out b' \<and> next_idx b' = next_idx b \<and>
           (\<forall>j. next_idx b \<le> j \<longrightarrow> verdict b j \<noteq> None \<or> j = i \<longrightarrow> verdict b' j \<noteq> None)"
proof (cases "i < next_idx b")
  case True
  then show ?thesis using assms(1) put_released [OF True] by auto
next
  case False
  show ?thesis
  proof (cases "verdict b i")
    case None
    then show ?thesis using False put_undecided [of b i t] assms by (auto simp: in_step_def)
  next
    case (Some v)
    with assms have "v = Some t" by (simp add: in_step_def)
    with Some assms put_agreeing show ?thesis by auto
  qed
qed

lemma in_step_reject:
  assumes "in_step log out b" and "log i = None"
  shows "in_step log out (reject i b) \<and> next_idx (reject i b) = next_idx b \<and>
           (\<forall>j. next_idx b \<le> j \<longrightarrow> verdict b j \<noteq> None \<or> j = i \<longrightarrow> verdict (reject i b) j \<noteq> None)"
  using assms reject_decided [of i b] reject_undecided [of b i]
  by (cases "i < next_idx b \<or> verdict b i \<noteq> None") (auto simp: in_step_def)

lemma in_step_release:
  assumes step: "in_step log out b" and rel: "release b = (outs, b')"
  shows "in_step log (out @ outs) b'"
proof -
  have "payload_of (verdict b i) = log i" if "next_idx b \<le> i" "i < next_idx b'" for i
  proof -
    from release_decided [OF rel that] obtain v where "verdict b i = Some v" by blast
    with step show ?thesis by (cases v) (auto simp: in_step_def)
  qed
  then have "outs = log_segment log (next_idx b) (next_idx b')"
    using release_log [OF rel] by (simp cong: log_segment_cong)
  then have "out @ outs = log_segment log 0 (next_idx b')"
    using step release_mono [OF rel] log_segment_append [of 0 "next_idx b" "next_idx b'" log]
    by (simp add: in_step_def)
  moreover have "v = log i" if "verdict b' i = Some v" for i v
  proof (cases "i < next_idx b'")
    case True
    with release_forgets [OF rel True] that show ?thesis by simp
  next
    case False
    with release_keeps [OF rel, of i] that step show ?thesis by (simp add: in_step_def)
  qed
  moreover have "0 \<le> next_idx b'"
    using release_mono [OF rel] step by (simp add: in_step_def)
  ultimately show ?thesis by (simp add: in_step_def)
qed

lemma release_progress:
  assumes rel: "release b = (outs, b')"
    and known: "\<And>i. next_idx b \<le> i \<Longrightarrow> i < n \<Longrightarrow> verdict b i \<noteq> None"
  shows "n \<le> next_idx b'"
proof (rule ccontr)
  assume "\<not> n \<le> next_idx b'"
  with known release_mono [OF rel] have "verdict b (next_idx b') \<noteq> None" by simp
  then show False
    using release_keeps [OF rel order.refl] release_stops [OF rel] by simp
qed

end

section \<open>The buffer's operations implement the contract\<close>

definition buffer_verdict :: "'a ordered_buffer \<Rightarrow> int \<Rightarrow> 'a option option" where
  "buffer_verdict b i =
     (if i < next_idx_to_release b then None
      else if i \<in> set (skipped b) then Some None
      else map_option Some (dict_get (store b) i))"

lemma messages_match_refl [simp]: "messages_match dump t t"
  by (simp add: messages_match_def)

lemma ingest_undecided:
  assumes "next_idx_to_release b \<le> i" and "buffer_verdict b i = None"
  shows "ingest dump i t b = Inr (b\<lparr>store := dict_set i t (store b)\<rparr>)"
    and "buffer_verdict (b\<lparr>store := dict_set i t (store b)\<rparr>) = (buffer_verdict b)(i := Some (Some t))"
  using assms by (auto simp: ingest_def buffer_verdict_def fun_eq_iff split: if_splits option.splits)

lemma ingest_decided:
  "buffer_verdict b i = Some (Some t) \<Longrightarrow> ingest dump i t b = Inr b"
  "buffer_verdict b i = Some None \<Longrightarrow> ingest dump i t b = Inr b"
  "i < next_idx_to_release b \<Longrightarrow> ingest dump i t b = Inr b"
  by (auto simp: ingest_def buffer_verdict_def split: if_splits option.splits)

lemma skip_verdict:
  "next_idx_to_release (skip i b) = next_idx_to_release b"
  "next_idx_to_release b \<le> i \<Longrightarrow> buffer_verdict b i = None \<Longrightarrow>
     buffer_verdict (skip i b) = (buffer_verdict b)(i := Some None)"
  "i < next_idx_to_release b \<or> buffer_verdict b i \<noteq> None \<Longrightarrow>
     buffer_verdict (skip i b) = buffer_verdict b"
  by (auto simp: skip_def buffer_verdict_def dict_has_def fun_eq_iff split: if_splits)

text \<open>One round of the drain loop: the head of the segment is released, everything behind it
  keeps its verdict.\<close>

lemma verdict_skip_round:
  "next_idx_to_release b = idx \<Longrightarrow>
   buffer_verdict (b\<lparr>skipped := removeAll idx (skipped b), next_idx_to_release := idx + 1\<rparr>) i
     = (if i \<le> idx then None else buffer_verdict b i)"
  by (auto simp: buffer_verdict_def)

lemma verdict_store_round:
  "next_idx_to_release b = idx \<Longrightarrow>
   buffer_verdict (b\<lparr>store := dict_pop idx (store b), next_idx_to_release := idx + 1\<rparr>) i
     = (if i \<le> idx then None else buffer_verdict b i)"
  by (auto simp: buffer_verdict_def)

definition releases :: "'a ordered_buffer \<Rightarrow> (int \<times> 'a) list \<Rightarrow> 'a ordered_buffer \<Rightarrow> bool" where
  "releases b out b' \<longleftrightarrow>
     next_idx_to_release b \<le> next_idx_to_release b' \<and>
     buffer_verdict b' (next_idx_to_release b') = None \<and>
     (\<forall>i. next_idx_to_release b \<le> i \<longrightarrow> i < next_idx_to_release b' \<longrightarrow> buffer_verdict b i \<noteq> None) \<and>
     (\<forall>i. next_idx_to_release b' \<le> i \<longrightarrow> buffer_verdict b' i = buffer_verdict b i) \<and>
     out = log_segment (\<lambda>i. payload_of (buffer_verdict b i))
             (next_idx_to_release b) (next_idx_to_release b')"

lemma releases_round:
  assumes c: "\<And>i. buffer_verdict c i = (if i \<le> idx then None else buffer_verdict b i)"
    and idx: "next_idx_to_release b = idx" "next_idx_to_release c = idx + 1"
    and here: "buffer_verdict b idx = Some v"
    and rel: "releases c out b'"
  shows "releases b ((case payload_of (Some v) of None \<Rightarrow> [] | Some t \<Rightarrow> [(idx, t)]) @ out) b'"
proof -
  have less: "idx < next_idx_to_release b'" using rel idx by (simp add: releases_def)
  have "buffer_verdict b i \<noteq> None" if "idx \<le> i" "i < next_idx_to_release b'" for i
  proof (cases "i = idx")
    case False
    with that rel idx have "buffer_verdict c i \<noteq> None" by (simp add: releases_def)
    with c show ?thesis by (auto split: if_splits)
  qed (simp add: here)
  moreover have "out = log_segment (\<lambda>i. payload_of (buffer_verdict b i)) (idx + 1) (next_idx_to_release b')"
    using rel by (auto simp: releases_def idx c intro: log_segment_cong)
  ultimately show ?thesis
    using less rel idx c here
    by (simp add: releases_def log_segment_step [of idx "next_idx_to_release b'"])
qed

lemma drain_indexed_releases:
  "drain_indexed b = (out, b') \<Longrightarrow> releases b out b'"
proof (induction b arbitrary: out b' rule: drain_indexed.induct)
  case (1 b)
  let ?idx = "next_idx_to_release b"
  consider (skip) "?idx \<in> set (skipped b)"
    | (event) e where "?idx \<notin> set (skipped b)" "dict_get (store b) ?idx = Some e"
    | (stop) "?idx \<notin> set (skipped b)" "dict_get (store b) ?idx = None"
    by fastforce
  then show ?case
  proof cases
    case skip
    define c where "c = b\<lparr>skipped := removeAll ?idx (skipped b), next_idx_to_release := ?idx + 1\<rparr>"
    have "releases c out b'"
      using "1.prems" drain_indexed_rounds(1) [OF refl skip]
      unfolding c_def by (intro "1.IH"(1) [OF refl skip]) simp
    from releases_round [OF verdict_skip_round [OF refl, of b, folded c_def] refl _ _ this, of None]
    show ?thesis using skip by (simp add: c_def buffer_verdict_def)
  next
    case event
    define c where "c = b\<lparr>store := dict_pop ?idx (store b), next_idx_to_release := ?idx + 1\<rparr>"
    obtain out' where out: "drain_indexed c = (out', b')" "out = (?idx, e) # out'"
      using "1.prems" drain_indexed_rounds(2) [OF refl event]
      by (cases "drain_indexed c") (simp add: c_def)
    have "releases c out' b'"
      using out(1) unfolding c_def by (rule "1.IH"(2) [OF refl event])
    from releases_round [OF verdict_store_round [OF refl, of b, folded c_def] refl _ _ this, of "Some e"]
    show ?thesis using event out(2) by (simp add: c_def buffer_verdict_def)
  next
    case stop
    then have "out = []" "b' = b"
      using "1.prems" drain_indexed_rounds(3) [OF refl stop] by simp_all
    then show ?thesis using stop by (simp add: releases_def buffer_verdict_def)
  qed
qed

text \<open>The two loops of the source differ only in what they collect.\<close>

lemma drain_eq_drain_indexed:
  "drain b = (map snd (fst (drain_indexed b)), snd (drain_indexed b))"
proof (induction b rule: drain.induct)
  case (1 b)
  let ?idx = "next_idx_to_release b"
  consider (skip) "?idx \<in> set (skipped b)"
    | (event) e where "?idx \<notin> set (skipped b)" "dict_get (store b) ?idx = Some e"
    | (stop) "?idx \<notin> set (skipped b)" "dict_get (store b) ?idx = None"
    by fastforce
  then show ?case
  proof cases
    case skip
    from "1.IH"(1) [OF refl this] show ?thesis
      by (simp only: drain_rounds(1) [OF refl skip] drain_indexed_rounds(1) [OF refl skip])
  next
    case event
    from "1.IH"(2) [OF refl this] show ?thesis
      by (simp add: drain_rounds(2) [OF refl event] drain_indexed_rounds(2) [OF refl event])
  next
    case stop
    then show ?thesis
      by (simp add: drain_rounds(3) [OF refl stop] drain_indexed_rounds(3) [OF refl stop])
  qed
qed

lemma drain_indexed_releases':
  assumes "drain_indexed b = (out, b')"
  shows "next_idx_to_release b \<le> next_idx_to_release b'"
    and "buffer_verdict b' (next_idx_to_release b') = None"
    and "next_idx_to_release b \<le> i \<Longrightarrow> i < next_idx_to_release b' \<Longrightarrow> buffer_verdict b i \<noteq> None"
    and "next_idx_to_release b' \<le> i \<Longrightarrow> buffer_verdict b' i = buffer_verdict b i"
    and "out = log_segment (\<lambda>i. payload_of (buffer_verdict b i))
                 (next_idx_to_release b) (next_idx_to_release b')"
  using drain_indexed_releases [OF assms] unfolding releases_def by blast+

interpretation ob: resequencer next_idx_to_release buffer_verdict
  "\<lambda>i t b. case ingest dump i t b of Inl _ \<Rightarrow> None | Inr b' \<Rightarrow> Some b'"
  skip drain_indexed new_buffer
  for dump :: "'a \<Rightarrow> (string \<times> opaque) option"
proof (unfold_locales, goal_cases)
  case (3 b i t)
  then show ?case by (auto simp: ingest_undecided)
next
  case (9 b out b')
  then show ?case by (rule drain_indexed_releases')
next
  case (10 b out b')
  then show ?case by (rule drain_indexed_releases')
next
  case (11 b out b' i)
  then show ?case by (rule drain_indexed_releases'(3))
next
  case (12 b out b' i)
  then show ?case by (rule drain_indexed_releases'(4))
next
  case (13 b out b' i)
  then show ?case by (simp add: buffer_verdict_def)
next
  case (14 b out b')
  then show ?case by (rule drain_indexed_releases'(5))
qed (auto simp: new_buffer_def buffer_verdict_def [of "\<lparr>store = _, skipped = _, next_idx_to_release = _\<rparr>"]
      ingest_decided skip_verdict)

section \<open>Runs of a buffer\<close>

text \<open>What a consumer does with a buffer, in any order: store a payload, reject an index,
  drain.  A run collects everything the drains returned.\<close>

datatype 'a buffer_op = Ingest int 'a | Skip int | Drain

fun buffer_run ::
  "('a \<Rightarrow> (string \<times> opaque) option) \<Rightarrow> 'a buffer_op list \<Rightarrow> (int \<times> 'a) list \<Rightarrow> 'a ordered_buffer
     \<Rightarrow> 'a conflict + (int \<times> 'a) list \<times> 'a ordered_buffer" where
  "buffer_run dump [] out b = Inr (out, b)"
| "buffer_run dump (Ingest i t # ops) out b =
     (case ingest dump i t b of Inl e \<Rightarrow> Inl e | Inr b' \<Rightarrow> buffer_run dump ops out b')"
| "buffer_run dump (Skip i # ops) out b = buffer_run dump ops out (skip i b)"
| "buffer_run dump (Drain # ops) out b =
     (let (outs, b') = drain_indexed b in buffer_run dump ops (out @ outs) b')"

fun op_agrees :: "(int \<Rightarrow> 'a option) \<Rightarrow> 'a buffer_op \<Rightarrow> bool" where
  "op_agrees log (Ingest i t) = (log i = Some t)"
| "op_agrees log (Skip i) = (log i = None)"
| "op_agrees log Drain = True"

lemma buffer_run_in_step:
  "ob.in_step log out b \<Longrightarrow> list_all (op_agrees log) ops \<Longrightarrow>
     \<exists>out' b'. buffer_run dump ops out b = Inr (out', b') \<and> ob.in_step log out' b'"
proof (induction dump ops out b rule: buffer_run.induct)
  case (2 dump i t ops out b)
  with ob.in_step_put [of log out b i t dump] show ?case
    by (auto split: sum.splits)
next
  case (3 dump i ops out b)
  then show ?case using ob.in_step_reject [of log out b i] by simp
next
  case (4 dump ops out b)
  obtain outs b' where d: "drain_indexed b = (outs, b')" by fastforce
  then show ?case
    using 4 ob.in_step_release [OF _ d] by simp
qed auto

text \<open>An index is settled once it was released or has a verdict; it stays settled.\<close>

definition settled :: "'a ordered_buffer \<Rightarrow> int \<Rightarrow> bool" where
  "settled b i \<longleftrightarrow> i < next_idx_to_release b \<or> buffer_verdict b i \<noteq> None"

fun op_settles :: "'a buffer_op \<Rightarrow> int \<Rightarrow> bool" where
  "op_settles (Ingest i t) j \<longleftrightarrow> j = i"
| "op_settles (Skip i) j \<longleftrightarrow> j = i"
| "op_settles Drain j \<longleftrightarrow> False"

lemma settled_ingest:
  "ingest dump i t b = Inr b' \<Longrightarrow> settled b j \<or> j = i \<Longrightarrow> settled b' j"
  by (auto simp: ingest_def settled_def buffer_verdict_def split: if_splits option.splits)

lemma settled_skip: "settled b j \<or> j = i \<Longrightarrow> settled (skip i b) j"
  by (auto simp: skip_def settled_def buffer_verdict_def dict_has_def split: if_splits)

lemma settled_drain_indexed: "drain_indexed b = (outs, b') \<Longrightarrow> settled b j \<Longrightarrow> settled b' j"
  using drain_indexed_releases'(1,4) [of b outs b'] by (force simp: settled_def)

lemma buffer_run_settled:
  "buffer_run dump ops out b = Inr (out', b') \<Longrightarrow>
     settled b j \<or> (\<exists>x \<in> set ops. op_settles x j) \<Longrightarrow> settled b' j"
proof (induction dump ops out b rule: buffer_run.induct)
  case (2 dump i t ops out b)
  then show ?case using settled_ingest [of dump i t b] by (auto split: sum.splits)
next
  case (3 dump i ops out b)
  then show ?case using settled_skip [of b j i] by auto
next
  case (4 dump ops out b)
  obtain outs c where d: "drain_indexed b = (outs, c)" by fastforce
  then show ?case
    using 4 settled_drain_indexed [OF d] by auto
qed auto

lemma buffer_run_append:
  "buffer_run dump (xs @ ys) out b =
     (case buffer_run dump xs out b of Inl e \<Rightarrow> Inl e | Inr (out', b') \<Rightarrow> buffer_run dump ys out' b')"
  by (induction dump xs out b rule: buffer_run.induct) (auto split: sum.splits prod.splits)

section \<open>Properties\<close>

text \<open>
  C9. Order restoration.  Whatever the order, repetition and interleaving in which the entries
  of one event log are offered to a fresh \<open>OrderedBuffer\<close>, and wherever the consumer drains,
  no operation raises, and what the drains have returned is exactly the log up to the index
  the buffer waits for: every accepted entry once, in index order, rejected indices left out.
\<close>

theorem buffer_restores_order:
  assumes "list_all (op_agrees log) ops"
  shows "\<exists>out b. buffer_run dump ops [] new_buffer = Inr (out, b) \<and>
           out = log_segment log 0 (next_idx_to_release b) \<and>
           sorted_wrt (<) (map fst out)"
proof -
  from buffer_run_in_step [OF ob.in_step_fresh assms]
  obtain out b where "buffer_run dump ops [] new_buffer = Inr (out, b)" "ob.in_step log out b"
    by blast
  then show ?thesis
    by (auto simp: ob.in_step_def sorted_wrt_log_segment)
qed

theorem buffer_restores_order_witness:
  "\<exists>out b. buffer_run (\<lambda>_. None) [Ingest 2 CHR ''c'', Skip 1, Drain, Ingest 0 CHR ''a'', Drain]
             [] new_buffer = Inr (out, b) \<and>
           out = log_segment (\<lambda>i. if i = 1 then None else if i = 0 then Some CHR ''a'' else Some CHR ''c'')
                   0 (next_idx_to_release b) \<and>
           sorted_wrt (<) (map fst out)"
  by (rule buffer_restores_order) simp

text \<open>
  Progress.  Once every index below \<open>n\<close> was ingested or skipped (in any order, in any
  number of batches), the next drain releases all of them: the buffer cannot get stuck behind
  an entry it has seen.
\<close>

theorem buffer_progress:
  assumes "list_all (op_agrees log) ops"
    and "\<And>i. 0 \<le> i \<Longrightarrow> i < n \<Longrightarrow> \<exists>x \<in> set ops. op_settles x i"
  shows "\<exists>out b. buffer_run dump (ops @ [Drain]) [] new_buffer = Inr (out, b) \<and>
           n \<le> next_idx_to_release b \<and> out = log_segment log 0 (next_idx_to_release b)"
proof -
  from buffer_run_in_step [OF ob.in_step_fresh assms(1)]
  obtain out b where b: "buffer_run dump ops [] new_buffer = Inr (out, b)" "ob.in_step log out b"
    by blast
  obtain outs b' where d: "drain_indexed b = (outs, b')" by fastforce
  have "n \<le> next_idx_to_release b'"
  proof (rule ob.release_progress [OF d])
    fix i assume "next_idx_to_release b \<le> i" "i < n"
    with b assms(2) [of i] have "settled b i"
      by (intro buffer_run_settled [OF b(1)]) (auto simp: ob.in_step_def)
    with \<open>next_idx_to_release b \<le> i\<close> show "buffer_verdict b i \<noteq> None"
      by (simp add: settled_def)
  qed
  then show ?thesis
    using b d ob.in_step_release [OF b(2) d] by (simp add: buffer_run_append ob.in_step_def)
qed

theorem buffer_progress_witness:
  "\<exists>out b. buffer_run (\<lambda>_. None) ([Ingest 1 CHR ''b'', Ingest 0 CHR ''a''] @ [Drain]) [] new_buffer
             = Inr (out, b) \<and>
           2 \<le> next_idx_to_release b \<and>
           out = log_segment (\<lambda>i. if i = 0 then Some CHR ''a'' else Some CHR ''b'') 0 (next_idx_to_release b)"
  by (rule buffer_progress) auto

text \<open>Conflict detection and recovery.  Ingesting raises exactly when an unreleased, unskipped
  index already holds a payload that does not match; dropping the tail from that index with
  \<open>truncate_from\<close> makes the buffer accept the replayed payload, and nothing at or behind the
  index survives the truncation.
\<close>

theorem conflict_recovery:
  "((\<exists>e. ingest dump i t b = Inl e) \<longleftrightarrow>
      (next_idx_to_release b \<le> i \<and> i \<notin> set (skipped b) \<and>
       (\<exists>old. dict_get (store b) i = Some old \<and> \<not> messages_match dump old t))) \<and>
   (\<exists>b'. ingest dump i t (truncate_from i b) = Inr b' \<and> dict_get (store b') i = Some t) \<and>
   (\<forall>j. dict_get (store (truncate_from i b)) j = (if j < i then dict_get (store b) j else None)) \<and>
   next_idx_to_release (truncate_from i b) \<le> i"
proof (intro conjI)
  show "(\<exists>e. ingest dump i t b = Inl e) \<longleftrightarrow>
      (next_idx_to_release b \<le> i \<and> i \<notin> set (skipped b) \<and>
       (\<exists>old. dict_get (store b) i = Some old \<and> \<not> messages_match dump old t))"
    by (auto simp: ingest_def split: option.splits)
  show "\<exists>b'. ingest dump i t (truncate_from i b) = Inr b' \<and> dict_get (store b') i = Some t"
    by (auto simp: ingest_def truncate_from_def dict_get_filter_keys)
qed (simp_all add: truncate_from_def dict_get_filter_keys)

end
