(* ===== verification/Event_Router.thy ===== *)
theory Event_Router
  imports Event_Buffer Apply_Invariants
begin

text \<open>
  The event router of a node, \<^verbatim>\<open>src/skulk/routing/event_router.py\<close>: it turns the unordered
  stream of the master's broadcasts into the ordered stream of indexed events its consumers (worker
  and API) apply, asks for what is missing, bootstraps from a snapshot, and re-sends local events
  until the master echoes them.

  As in the election, the code is atomic between suspension points and each segment is one
  operation.  Times and delays are milliseconds.  Nack tasks and their cancel scopes are named by
  their position in the list of tasks.  \<open>dump\<close> is pydantic's JSON view of an event.
\<close>

section \<open>Model\<close>

type_synonym system_id = string

record 'g global_forwarder_event =
  gf_origin_idx :: int
  gf_origin :: node_id
  gf_session :: session_id
  gf_event :: "'g event"

record 'g local_forwarder_event =
  lf_origin_idx :: int
  lf_origin :: system_id
  lf_session :: session_id
  lf_event :: "'g event"

record 'g state_snapshot =
  ss_session_id :: session_id
  ss_last_event_applied_idx :: int
  ss_state :: "'g state"

text \<open>The field constraint and the validator of \<open>StateSnapshot\<close>.\<close>

definition validate_snapshot_index :: "'g state_snapshot \<Rightarrow> bool" where
  "validate_snapshot_index s \<longleftrightarrow> -1 \<le> ss_last_event_applied_idx s \<and>
     last_event_applied_idx (ss_state s) = ss_last_event_applied_idx s"

datatype sync_kind = SyncRequest | SyncResponse

record 'g state_sync_message =
  sy_kind :: sync_kind
  sy_requester :: system_id
  sy_session_id :: session_id
  sy_snapshot :: "'g state_snapshot option"
  sy_config_yaml :: "opaque option"

text \<open>The validator of \<open>StateSyncMessage\<close>.\<close>

definition validate_sync_shape :: "'g state_sync_message \<Rightarrow> bool" where
  "validate_sync_shape m =
     (if sy_kind m = SyncRequest \<and> (sy_snapshot m \<noteq> None \<or> sy_config_yaml m \<noteq> None) then False
      else if sy_kind m = SyncResponse \<and> sy_snapshot m = None then False
      else True)"

text \<open>A consumer's channel: what was put into it and whether its receiver was closed.\<close>

record 'g event_channel =
  ch_items :: "'g indexed_event list"
  ch_closed :: bool

datatype nack_phase = NackSpawned | NackSleeping int | NackDone

record nack_task =
  nk_since_idx :: int
  nk_phase :: nack_phase
  nk_cancel_called :: bool

datatype boot_phase = AwaitingSnapshot | Hydrated int | BootstrapComplete

record 'g event_router =
  rt_node_id :: node_id
  rt_session_id :: session_id
  rt_system_id :: system_id
  rt_internal_outbound :: "'g event_channel list"
  rt_event_buffer :: "'g event ordered_buffer"
  rt_out_for_delivery :: "(event_id, int \<times> nat \<times> 'g local_forwarder_event) dict"
  rt_retry_base :: int
  rt_retry_max_attempts :: nat
  rt_nack_tasks :: "nack_task list"
  rt_nack_cancel_scope :: "nat option"
  rt_nack_attempts :: nat
  rt_nack_base :: int
  rt_nack_cap :: int
  rt_bootstrap :: boot_phase

datatype 'g rt_output = RequestEventLog int | SendLocal "'g local_forwarder_event"

definition new_router :: "node_id \<Rightarrow> session_id \<Rightarrow> system_id \<Rightarrow> 'g event_router" where
  "new_router node sess system =
     \<lparr>rt_node_id = node, rt_session_id = sess, rt_system_id = system, rt_internal_outbound = [],
      rt_event_buffer = new_buffer, rt_out_for_delivery = [], rt_retry_base = 5000,
      rt_retry_max_attempts = 6, rt_nack_tasks = [], rt_nack_cancel_scope = None, rt_nack_attempts = 0,
      rt_nack_base = 500, rt_nack_cap = 10000, rt_bootstrap = AwaitingSnapshot\<rparr>"

text \<open>One entry of the retry loop; \<open>now\<close> is \<open>anyio.current_time()\<close>.  The entry comes from the
  shallow clone the loop iterates over.\<close>

definition simple_retry_entry ::
  "int \<Rightarrow> event_id \<Rightarrow> int \<times> nat \<times> 'g local_forwarder_event \<Rightarrow> 'g event_router
     \<Rightarrow> 'g event_router \<times> 'g rt_output list" where
  "simple_retry_entry now e_id entry st =
     (let (deadline, attempts, ev) = entry
      in if now \<le> deadline then (st, [])
         else if attempts \<ge> rt_retry_max_attempts st
         then (st\<lparr>rt_out_for_delivery := dict_pop e_id (rt_out_for_delivery st)\<rparr>, [])
         else let backoff = rt_retry_base st * 2 ^ attempts
              in (st\<lparr>rt_out_for_delivery := dict_set e_id (now + backoff, attempts + 1, ev) (rt_out_for_delivery st)\<rparr>,
                  [SendLocal ev]))"

definition receiver :: "'g event_router \<Rightarrow> 'g event_router" where
  "receiver st = st\<lparr>rt_internal_outbound := rt_internal_outbound st @ [\<lparr>ch_items = [], ch_closed = False\<rparr>]\<rparr>"

text \<open>One round of \<open>_ingest\<close>: \<open>next_origin\<close> is the loop's \<open>idx\<close>.\<close>

definition ingest_local ::
  "int \<Rightarrow> system_id \<Rightarrow> int \<Rightarrow> 'g event \<Rightarrow> 'g event_router \<Rightarrow> 'g event_router \<times> int \<times> 'g rt_output list" where
  "ingest_local now system next_origin ev st =
     (let f_ev = \<lparr>lf_origin_idx = next_origin, lf_origin = system, lf_session = rt_session_id st, lf_event = ev\<rparr>
      in (st\<lparr>rt_out_for_delivery :=
             dict_set (event_id ev) (now + rt_retry_base st, 0, f_ev) (rt_out_for_delivery st)\<rparr>,
          next_origin + 1, [SendLocal f_ev]))"

definition cancel_nack :: "'g event_router \<Rightarrow> 'g event_router" where
  "cancel_nack st = (case rt_nack_cancel_scope st of None \<Rightarrow> st
     | Some k \<Rightarrow> st\<lparr>rt_nack_tasks := (rt_nack_tasks st)[k := (rt_nack_tasks st ! k)\<lparr>nk_cancel_called := True\<rparr>]\<rparr>)"

definition spawn_nack :: "int \<Rightarrow> 'g event_router \<Rightarrow> 'g event_router" where
  "spawn_nack since st = st\<lparr>rt_nack_tasks := rt_nack_tasks st @
     [\<lparr>nk_since_idx = since, nk_phase = NackSpawned, nk_cancel_called = False\<rparr>]\<rparr>"

definition bootstrap_complete :: "'g event_router \<Rightarrow> bool" where
  "bootstrap_complete st = (rt_bootstrap st = BootstrapComplete)"

definition recover_from_conflicting_event :: "int \<Rightarrow> 'g event_router \<Rightarrow> 'g event_router" where
  "recover_from_conflicting_event i st =
     (let st1 = cancel_nack (st\<lparr>rt_event_buffer := truncate_from i (rt_event_buffer st), rt_nack_attempts := 0\<rparr>)
      in if bootstrap_complete st then spawn_nack i st1 else st1)"

text \<open>\<open>sender.send\<close> on every channel; those whose receiver is closed are collected and then popped,
  the last one first.\<close>

definition pop_at :: "nat \<Rightarrow> 'a list \<Rightarrow> 'a list" where
  "pop_at i xs = take i xs @ drop (Suc i) xs"

definition send_internal_event :: "'g indexed_event \<Rightarrow> 'g event_router \<Rightarrow> 'g event_router" where
  "send_internal_event ie st =
     (let sent = map (\<lambda>ch. if ch_closed ch then ch else ch\<lparr>ch_items := ch_items ch @ [ie]\<rparr>) (rt_internal_outbound st);
          to_clear = filter (\<lambda>i. ch_closed (rt_internal_outbound st ! i)) [0..<length (rt_internal_outbound st)]
      in st\<lparr>rt_internal_outbound := foldl (\<lambda>xs i. pop_at i xs) sent (rev to_clear)\<rparr>)"

definition release_ready_events :: "'g event_router \<Rightarrow> 'g event_router" where
  "release_ready_events st =
     (let (drained, buffer) = drain_indexed (rt_event_buffer st);
          st1 = st\<lparr>rt_event_buffer := buffer\<rparr>;
          st2 = (if drained \<noteq> [] then cancel_nack (st1\<lparr>rt_nack_attempts := 0\<rparr>) else st1);
          idle = (case rt_nack_cancel_scope st2 of None \<Rightarrow> True
                  | Some k \<Rightarrow> nk_cancel_called (rt_nack_tasks st2 ! k))
      in if drained = [] \<and> idle then spawn_nack (next_idx_to_release buffer) st2
         else foldl (\<lambda>s (i, e). send_internal_event \<lparr>idx = i, event = e\<rparr> s) st2 drained)"

text \<open>The body of the loop of \<open>_run_ext_in\<close>.\<close>

definition run_ext_in ::
  "('g event \<Rightarrow> (string \<times> opaque) option) \<Rightarrow> 'g global_forwarder_event \<Rightarrow> 'g event_router \<Rightarrow> 'g event_router" where
  "run_ext_in dump ev st =
     (if gf_session ev \<noteq> rt_session_id st then st
      else if gf_origin ev \<noteq> master_node_id (rt_session_id st) then st
      else case ingest dump (gf_origin_idx ev) (gf_event ev) (rt_event_buffer st) of
             Inl (ConflictingDuplicateIndexError i _ _) \<Rightarrow> recover_from_conflicting_event i st
           | Inr buffer \<Rightarrow>
               (let st1 = st\<lparr>rt_event_buffer := buffer,
                      rt_out_for_delivery := dict_pop (event_id (gf_event ev)) (rt_out_for_delivery st)\<rparr>
                in if bootstrap_complete st1 then release_ready_events st1 else st1))"

definition is_trusted_snapshot_origin :: "string option \<Rightarrow> 'g event_router \<Rightarrow> bool" where
  "is_trusted_snapshot_origin origin st =
     (if origin = Some (master_node_id (rt_session_id st)) then True
      else origin = None \<and> rt_node_id st = master_node_id (rt_session_id st))"

text \<open>One message in \<open>_await_snapshot\<close>: \<open>Inr None\<close> goes on waiting, \<open>Inr (Some s)\<close> returns \<open>s\<close>.\<close>

definition await_snapshot_message ::
  "string option \<Rightarrow> 'g state_sync_message \<Rightarrow> 'g event_router \<Rightarrow> py_error + 'g state_snapshot option" where
  "await_snapshot_message origin message st =
     (if sy_kind message \<noteq> SyncResponse then Inr None
      else if sy_requester message \<noteq> rt_system_id st then Inr None
      else if sy_session_id message \<noteq> rt_session_id st then Inr None
      else if \<not> is_trusted_snapshot_origin origin st then Inr None
      else case sy_snapshot message of
             None \<Rightarrow> Inl AssertionError
           | Some s \<Rightarrow> if ss_session_id s \<noteq> rt_session_id st then Inr None else Inr (Some s))"

definition hydrate_from_snapshot :: "event_id \<Rightarrow> 'g state_snapshot \<Rightarrow> 'g event_router \<Rightarrow> 'g event_router" where
  "hydrate_from_snapshot eid snapshot st =
     (let b = rt_event_buffer st;
          k = ss_last_event_applied_idx snapshot + 1;
          st1 = st\<lparr>rt_event_buffer := b\<lparr>next_idx_to_release := k,
                     store := dict_filter (\<lambda>i e. i \<ge> k) (store b)\<rparr>\<rparr>
      in if ss_last_event_applied_idx snapshot < 0 then st1
         else send_internal_event \<lparr>idx = ss_last_event_applied_idx snapshot,
                event = \<lparr>event_id = eid, event_body = StateSnapshotHydrated (ss_state snapshot)\<rparr>\<rparr> st1)"

text \<open>\<open>_bootstrap\<close>: the snapshot was received or not; then the flag is set and the log requested;
  then what is ready is released.\<close>

definition bootstrap_hydrate :: "event_id \<Rightarrow> 'g state_snapshot option \<Rightarrow> 'g event_router \<Rightarrow> 'g event_router" where
  "bootstrap_hydrate eid snapshot st =
     (case snapshot of
        None \<Rightarrow> st\<lparr>rt_bootstrap := Hydrated 0\<rparr>
      | Some s \<Rightarrow> (hydrate_from_snapshot eid s st)\<lparr>rt_bootstrap := Hydrated (ss_last_event_applied_idx s + 1)\<rparr>)"

definition bootstrap_finish :: "int \<Rightarrow> 'g event_router \<Rightarrow> 'g event_router \<times> 'g rt_output list" where
  "bootstrap_finish replay_start_idx st =
     (st\<lparr>rt_bootstrap := BootstrapComplete\<rparr>, [RequestEventLog replay_start_idx])"

text \<open>\<open>_nack_request\<close>: arm the delay, then either ask for the log or be cancelled.\<close>

definition nack_start :: "nat \<Rightarrow> 'g event_router \<Rightarrow> 'g event_router" where
  "nack_start k st =
     (let delay = min (rt_nack_cap st) (rt_nack_base st * 2 ^ rt_nack_attempts st)
      in st\<lparr>rt_nack_cancel_scope := Some k, rt_nack_attempts := rt_nack_attempts st + 1,
            rt_nack_tasks := (rt_nack_tasks st)[k := (rt_nack_tasks st ! k)\<lparr>nk_phase := NackSleeping delay\<rparr>]\<rparr>)"

definition nack_end :: "nat \<Rightarrow> 'g event_router \<Rightarrow> 'g event_router \<times> 'g rt_output list" where
  "nack_end k st =
     (let nk = rt_nack_tasks st ! k;
          since_idx = (if nk_since_idx nk < 0 then 0 else nk_since_idx nk);
          out = (if nk_cancel_called nk then [] else [RequestEventLog since_idx])
      in (st\<lparr>rt_nack_cancel_scope := (if rt_nack_cancel_scope st = Some k then None else rt_nack_cancel_scope st),
             rt_nack_tasks := (rt_nack_tasks st)[k := nk\<lparr>nk_phase := NackDone\<rparr>]\<rparr>, out))"

section \<open>Executions\<close>

datatype 'g rt_action =
    Inbound "'g global_forwarder_event"
  | HydrateBootstrap event_id "'g state_snapshot option"
  | FinishBootstrap
  | ReleaseReady
  | NackStart nat
  | NackEnd nat
  | CloseChannel nat
  | LocalEvent int system_id int "'g event"
  | RetryEntry int event_id "int \<times> nat \<times> 'g local_forwarder_event"

fun rt_step ::
  "('g event \<Rightarrow> (string \<times> opaque) option) \<Rightarrow> 'g rt_action \<Rightarrow> 'g event_router
     \<Rightarrow> ('g event_router \<times> 'g rt_output list) option" where
  "rt_step dump (Inbound ev) st = Some (run_ext_in dump ev st, [])"
| "rt_step dump (HydrateBootstrap eid s) st =
     (if rt_bootstrap st = AwaitingSnapshot then Some (bootstrap_hydrate eid s st, []) else None)"
| "rt_step dump FinishBootstrap st =
     (case rt_bootstrap st of Hydrated i \<Rightarrow> Some (bootstrap_finish i st) | _ \<Rightarrow> None)"
| "rt_step dump ReleaseReady st = (if bootstrap_complete st then Some (release_ready_events st, []) else None)"
| "rt_step dump (NackStart k) st =
     (if k < length (rt_nack_tasks st) \<and> nk_phase (rt_nack_tasks st ! k) = NackSpawned
      then Some (nack_start k st, []) else None)"
| "rt_step dump (NackEnd k) st =
     (if k < length (rt_nack_tasks st)
      then (case nk_phase (rt_nack_tasks st ! k) of NackSleeping _ \<Rightarrow> Some (nack_end k st) | _ \<Rightarrow> None)
      else None)"
| "rt_step dump (CloseChannel i) st =
     (if i < length (rt_internal_outbound st)
      then Some (st\<lparr>rt_internal_outbound :=
             (rt_internal_outbound st)[i := (rt_internal_outbound st ! i)\<lparr>ch_closed := True\<rparr>]\<rparr>, [])
      else None)"
| "rt_step dump (LocalEvent now system i e) st =
     (let (st', i', out) = ingest_local now system i e st in Some (st', out))"
| "rt_step dump (RetryEntry now e_id entry) st = Some (simple_retry_entry now e_id entry st)"

inductive rt_run ::
  "('g event \<Rightarrow> (string \<times> opaque) option) \<Rightarrow> 'g event_router \<Rightarrow> 'g rt_action list \<Rightarrow> 'g event_router \<Rightarrow> bool"
  for dump init where
  start: "rt_run dump init [] init"
| step: "rt_run dump init as st \<Longrightarrow> rt_step dump a st = Some (st', out) \<Longrightarrow> rt_run dump init (as @ [a]) st'"

section \<open>What consumers receive\<close>

lemma pop_at_append: "pop_at (length xs) (xs @ y # ys) = xs @ ys"
  by (simp add: pop_at_def)

text \<open>Popping the marked positions from the back keeps exactly the unmarked elements.\<close>

lemma pop_marked:
  "foldl (\<lambda>xs i. pop_at i xs) (xs @ zs) (rev (filter (\<lambda>i. P (xs ! i)) [0..<length xs])) =
     filter (\<lambda>x. \<not> P x) xs @ zs"
proof (induction xs arbitrary: zs rule: rev_induct)
  case (snoc x xs)
  have same: "filter (\<lambda>i. P ((xs @ [x]) ! i)) [0..<length xs] = filter (\<lambda>i. P (xs ! i)) [0..<length xs]"
    by (rule filter_cong) (auto simp: nth_append)
  show ?case
  proof (cases "P x")
    case True
    then show ?thesis using snoc [of zs] same by (simp add: pop_at_append)
  next
    case False
    then show ?thesis using snoc [of "x # zs"] same by simp
  qed
qed simp

lemma filter_open:
  "filter (\<lambda>ch. \<not> ch_closed ch) (map (\<lambda>ch. if ch_closed ch then ch else ch\<lparr>ch_items := ch_items ch @ [ie]\<rparr>) chs) =
     map (\<lambda>ch. ch\<lparr>ch_items := ch_items ch @ [ie]\<rparr>) (filter (\<lambda>ch. \<not> ch_closed ch) chs)"
  by (induction chs) auto

lemma send_internal_filter:
  "rt_internal_outbound (send_internal_event ie st) =
     map (\<lambda>ch. ch\<lparr>ch_items := ch_items ch @ [ie]\<rparr>) (filter (\<lambda>ch. \<not> ch_closed ch) (rt_internal_outbound st))"
proof -
  let ?f = "\<lambda>ch. if ch_closed ch then ch else ch\<lparr>ch_items := ch_items ch @ [ie]\<rparr>"
  let ?out = "rt_internal_outbound st"
  have idx: "filter (\<lambda>i. ch_closed (?out ! i)) [0..<length ?out] =
      filter (\<lambda>i. ch_closed (map ?f ?out ! i)) [0..<length (map ?f ?out)]"
    by (auto intro!: filter_cong split: if_splits)
  have "rt_internal_outbound (send_internal_event ie st) = filter (\<lambda>ch. \<not> ch_closed ch) (map ?f ?out)"
    using pop_marked [of "map ?f ?out" "[]" ch_closed]
    by (simp add: send_internal_event_def Let_def idx del: length_map)
  also have "\<dots> = map (\<lambda>ch. ch\<lparr>ch_items := ch_items ch @ [ie]\<rparr>) (filter (\<lambda>ch. \<not> ch_closed ch) ?out)"
    by (rule filter_open)
  finally show ?thesis .
qed

lemma send_internal_other:
  "rt_event_buffer (send_internal_event ie st) = rt_event_buffer st"
  "rt_session_id (send_internal_event ie st) = rt_session_id st"
  "rt_bootstrap (send_internal_event ie st) = rt_bootstrap st"
  by (simp_all add: send_internal_event_def Let_def)

abbreviation mk_indexed :: "int \<times> 'g event \<Rightarrow> 'g indexed_event" where
  "mk_indexed p \<equiv> \<lparr>idx = fst p, event = snd p\<rparr>"

text \<open>Every open channel holds exactly \<open>d\<close>.\<close>

definition delivered :: "'g indexed_event list \<Rightarrow> 'g event_router \<Rightarrow> bool" where
  "delivered d st \<longleftrightarrow> (\<forall>ch \<in> set (rt_internal_outbound st). \<not> ch_closed ch \<longrightarrow> ch_items ch = d)"

lemma delivered_send: "delivered d st \<Longrightarrow> delivered (d @ [ie]) (send_internal_event ie st)"
  by (auto simp: delivered_def send_internal_filter)

lemma delivered_sends:
  "delivered d st \<Longrightarrow> delivered (d @ map mk_indexed evs)
     (foldl (\<lambda>s (i, e). send_internal_event \<lparr>idx = i, event = e\<rparr> s) st evs)"
proof (induction evs arbitrary: d st)
  case (Cons p evs)
  then show ?case using delivered_send [OF Cons.prems, of "mk_indexed p"] by (cases p) fastforce
qed simp

lemma sends_other:
  "rt_event_buffer (foldl (\<lambda>s (i, e). send_internal_event \<lparr>idx = i, event = e\<rparr> s) st evs) = rt_event_buffer st \<and>
   rt_session_id (foldl (\<lambda>s (i, e). send_internal_event \<lparr>idx = i, event = e\<rparr> s) st evs) = rt_session_id st \<and>
   rt_bootstrap (foldl (\<lambda>s (i, e). send_internal_event \<lparr>idx = i, event = e\<rparr> s) st evs) = rt_bootstrap st"
  by (induction evs arbitrary: st) (auto simp: send_internal_other split: prod.splits)

section \<open>Replication\<close>

text \<open>The master's log as a function of the index.\<close>

definition log_of :: "'g event list \<Rightarrow> int \<Rightarrow> 'g event option" where
  "log_of mlog i = (if 0 \<le> i \<and> i < int (length mlog) then Some (mlog ! nat i) else None)"

definition log_upto :: "'g event list \<Rightarrow> int \<Rightarrow> 'g indexed_event list" where
  "log_upto mlog n = map mk_indexed (log_segment (log_of mlog) 0 n)"

text \<open>Which inputs come from the master: events of the session broadcast by the master are those of
  its log, and the snapshot is the one it served.\<close>

fun faithful :: "session_id \<Rightarrow> 'g event list \<Rightarrow> 'g state_snapshot option \<Rightarrow> 'g rt_action \<Rightarrow> bool" where
  "faithful sess mlog snap (Inbound ev) \<longleftrightarrow>
     (gf_session ev = sess \<and> gf_origin ev = master_node_id sess \<longrightarrow> log_of mlog (gf_origin_idx ev) = Some (gf_event ev))"
| "faithful sess mlog snap (HydrateBootstrap eid s) \<longleftrightarrow> s = snap"
| "faithful sess mlog snap _ \<longleftrightarrow> True"

definition snap_start :: "'g state_snapshot option \<Rightarrow> int" where
  "snap_start snap = (case snap of None \<Rightarrow> 0 | Some s \<Rightarrow> ss_last_event_applied_idx s + 1)"

definition snap_items :: "event_id \<Rightarrow> 'g state_snapshot option \<Rightarrow> 'g indexed_event list" where
  "snap_items eid snap = (case snap of None \<Rightarrow> []
     | Some s \<Rightarrow> if ss_last_event_applied_idx s < 0 then []
        else [\<lparr>idx = ss_last_event_applied_idx s, event = \<lparr>event_id = eid, event_body = StateSnapshotHydrated (ss_state s)\<rparr>\<rparr>])"

definition buffer_agrees :: "'g event list \<Rightarrow> 'g event ordered_buffer \<Rightarrow> bool" where
  "buffer_agrees mlog b \<longleftrightarrow> skipped b = [] \<and> (\<forall>i e. dict_get (store b) i = Some e \<longrightarrow> log_of mlog i = Some e)"

definition router_inv ::
  "session_id \<Rightarrow> 'g event list \<Rightarrow> 'g state_snapshot option \<Rightarrow> 'g event_router \<Rightarrow> bool" where
  "router_inv sess mlog snap st \<longleftrightarrow> rt_session_id st = sess \<and> buffer_agrees mlog (rt_event_buffer st) \<and>
     (if rt_bootstrap st = AwaitingSnapshot then next_idx_to_release (rt_event_buffer st) = 0 \<and> delivered [] st
      else snap_start snap \<le> next_idx_to_release (rt_event_buffer st) \<and>
        (\<exists>eid. delivered (snap_items eid snap @
            map mk_indexed (log_segment (log_of mlog) (snap_start snap) (next_idx_to_release (rt_event_buffer st)))) st))"

lemma buffer_agrees_drain:
  assumes "buffer_agrees mlog b" and "drain_indexed b = (out, b')"
  shows "buffer_agrees mlog b' \<and> next_idx_to_release b \<le> next_idx_to_release b' \<and>
     out = log_segment (log_of mlog) (next_idx_to_release b) (next_idx_to_release b')"
proof -
  note rel = drain_indexed_releases [OF assms(2), unfolded releases_def]
  have "payload_of (buffer_verdict b i) = log_of mlog i"
    if "next_idx_to_release b \<le> i" "i < next_idx_to_release b'" for i
    using rel that assms(1) by (fastforce simp: buffer_agrees_def buffer_verdict_def)
  then have out: "out = log_segment (log_of mlog) (next_idx_to_release b) (next_idx_to_release b')"
    using rel by (auto intro: log_segment_cong)
  have "buffer_agrees mlog b'"
    using assms
  proof (induction b arbitrary: out b' rule: drain_indexed.induct)
    case (1 b)
    show ?case
    proof (cases "dict_get (store b) (next_idx_to_release b)")
      case None
      then show ?thesis using 1(3,4) drain_indexed_rounds(3) [OF refl _ None] by (simp add: buffer_agrees_def)
    next
      case (Some e)
      let ?b = "b\<lparr>store := dict_pop (next_idx_to_release b) (store b), next_idx_to_release := next_idx_to_release b + 1\<rparr>"
      have sk: "next_idx_to_release b \<notin> set (skipped b)" using 1(3) by (simp add: buffer_agrees_def)
      obtain out' where "drain_indexed ?b = (out', b')"
        using 1(4) drain_indexed_rounds(2) [OF refl sk Some] by (cases "drain_indexed ?b") auto
      moreover have "buffer_agrees mlog ?b" using 1(3) by (simp add: buffer_agrees_def)
      ultimately show ?thesis using 1(2) [OF refl sk Some] by blast
    qed
  qed
  with out rel show ?thesis by blast
qed

lemma buffer_agrees_ingest:
  assumes "buffer_agrees mlog b" and "log_of mlog i = Some e"
  shows "\<exists>b'. ingest dump i e b = Inr b' \<and> buffer_agrees mlog b' \<and> next_idx_to_release b' = next_idx_to_release b"
  using assms by (auto simp: ingest_def buffer_agrees_def split: option.splits)

lemma cancel_nack_other [simp]:
  "rt_event_buffer (cancel_nack st) = rt_event_buffer st" "rt_session_id (cancel_nack st) = rt_session_id st"
  "rt_bootstrap (cancel_nack st) = rt_bootstrap st" "rt_internal_outbound (cancel_nack st) = rt_internal_outbound st"
  by (simp_all add: cancel_nack_def split: option.split)

lemma spawn_nack_other [simp]:
  "rt_event_buffer (spawn_nack i st) = rt_event_buffer st" "rt_session_id (spawn_nack i st) = rt_session_id st"
  "rt_bootstrap (spawn_nack i st) = rt_bootstrap st" "rt_internal_outbound (spawn_nack i st) = rt_internal_outbound st"
  by (simp_all add: spawn_nack_def)

lemma delivered_cong: "rt_internal_outbound st' = rt_internal_outbound st \<Longrightarrow> delivered d st' = delivered d st"
  by (simp add: delivered_def)

lemma release_inv:
  assumes "router_inv sess mlog snap st" and "rt_bootstrap st \<noteq> AwaitingSnapshot"
  shows "router_inv sess mlog snap (release_ready_events st)"
proof -
  obtain out b' where dr: "drain_indexed (rt_event_buffer st) = (out, b')" by fastforce
  let ?n = "next_idx_to_release (rt_event_buffer st)" and ?n' = "next_idx_to_release b'"
  let ?k = "snap_start snap"
  have agree: "buffer_agrees mlog b'" "?n \<le> ?n'" "out = log_segment (log_of mlog) ?n ?n'"
    using buffer_agrees_drain [OF _ dr] assms(1) by (auto simp: router_inv_def)
  obtain eid where kn: "?k \<le> ?n" and d: "delivered (snap_items eid snap @
      map mk_indexed (log_segment (log_of mlog) ?k ?n)) st"
    using assms by (auto simp: router_inv_def)
  have seg: "log_segment (log_of mlog) ?k ?n' = log_segment (log_of mlog) ?k ?n @ out"
    unfolding agree(3) by (rule log_segment_append [OF kn agree(2), symmetric])
  define st2 where "st2 = (if out \<noteq> [] then cancel_nack ((st\<lparr>rt_event_buffer := b'\<rparr>)\<lparr>rt_nack_attempts := 0\<rparr>)
      else st\<lparr>rt_event_buffer := b'\<rparr>)"
  have st2: "rt_event_buffer st2 = b'" "rt_session_id st2 = rt_session_id st" "rt_bootstrap st2 = rt_bootstrap st"
      "rt_internal_outbound st2 = rt_internal_outbound st"
    by (simp_all add: st2_def)
  define st3 where "st3 = release_ready_events st"
  have "rt_event_buffer st3 = b' \<and> rt_session_id st3 = rt_session_id st \<and> rt_bootstrap st3 = rt_bootstrap st \<and>
      delivered ((snap_items eid snap @ map mk_indexed (log_segment (log_of mlog) ?k ?n)) @ map mk_indexed out) st3"
  proof (cases "out = []")
    case True
    then have "rt_event_buffer st3 = b' \<and> rt_session_id st3 = rt_session_id st \<and> rt_bootstrap st3 = rt_bootstrap st \<and>
        rt_internal_outbound st3 = rt_internal_outbound st"
      unfolding st3_def by (simp add: release_ready_events_def dr Let_def split: option.split)
    then show ?thesis using True d delivered_cong [of st3 st] by simp
  next
    case False
    then have "st3 = foldl (\<lambda>s (i, e). send_internal_event \<lparr>idx = i, event = e\<rparr> s) st2 out"
      unfolding st3_def st2_def by (simp add: release_ready_events_def dr Let_def)
    note fold = this
    have "delivered (snap_items eid snap @ map mk_indexed (log_segment (log_of mlog) ?k ?n)) st2"
      using d delivered_cong [OF st2(4)] by blast
    from delivered_sends [OF this, of out] fold sends_other [of st2 out] st2 show ?thesis by simp
  qed
  then show ?thesis
    using assms agree kn unfolding st3_def [symmetric] by (auto simp: router_inv_def seg)
qed

lemma inbound_inv:
  assumes "router_inv sess mlog snap st" and "faithful sess mlog snap (Inbound ev)"
  shows "router_inv sess mlog snap (run_ext_in dump ev st)"
proof (cases "gf_session ev \<noteq> sess \<or> gf_origin ev \<noteq> master_node_id sess")
  case True
  then show ?thesis using assms(1) by (auto simp: run_ext_in_def router_inv_def)
next
  case False
  then have "log_of mlog (gf_origin_idx ev) = Some (gf_event ev)" using assms(2) by simp
  moreover have "buffer_agrees mlog (rt_event_buffer st)" using assms(1) by (simp add: router_inv_def)
  ultimately obtain b' where b': "ingest dump (gf_origin_idx ev) (gf_event ev) (rt_event_buffer st) = Inr b'"
      "buffer_agrees mlog b'" "next_idx_to_release b' = next_idx_to_release (rt_event_buffer st)"
    using buffer_agrees_ingest by blast
  let ?st = "st\<lparr>rt_event_buffer := b', rt_out_for_delivery := dict_pop (event_id (gf_event ev)) (rt_out_for_delivery st)\<rparr>"
  have inv: "router_inv sess mlog snap ?st"
    using assms(1) b' by (auto simp: router_inv_def delivered_def)
  have "run_ext_in dump ev st = (if bootstrap_complete ?st then release_ready_events ?st else ?st)"
    using False assms(1) b'(1) by (simp add: run_ext_in_def router_inv_def)
  then show ?thesis using inv release_inv [OF inv] by (auto simp: bootstrap_complete_def)
qed

lemma hydrate_inv:
  assumes "router_inv sess mlog snap st" and "rt_bootstrap st = AwaitingSnapshot"
  shows "router_inv sess mlog snap (bootstrap_hydrate eid snap st)"
proof (cases snap)
  case None
  then show ?thesis using assms
    by (auto simp: router_inv_def bootstrap_hydrate_def snap_start_def snap_items_def delivered_def)
next
  case (Some s)
  let ?k = "ss_last_event_applied_idx s + 1"
  let ?b = "(rt_event_buffer st)\<lparr>next_idx_to_release := ?k, store := dict_filter (\<lambda>i e. i \<ge> ?k) (store (rt_event_buffer st))\<rparr>"
  let ?st = "st\<lparr>rt_event_buffer := ?b\<rparr>"
  have b: "buffer_agrees mlog ?b"
    using assms(1) by (auto simp: router_inv_def buffer_agrees_def dict_get_filter_keys split: if_splits)
  have "delivered [] ?st" using assms by (simp add: router_inv_def delivered_def)
  then have "delivered (snap_items eid snap) (hydrate_from_snapshot eid s st)"
    using delivered_send [of "[]" ?st] by (simp add: Some hydrate_from_snapshot_def Let_def snap_items_def)
  moreover have "rt_event_buffer (hydrate_from_snapshot eid s st) = ?b \<and>
      rt_session_id (hydrate_from_snapshot eid s st) = rt_session_id st"
    by (simp add: hydrate_from_snapshot_def Let_def send_internal_other)
  ultimately show ?thesis
    using b assms(1) by (auto simp: router_inv_def bootstrap_hydrate_def Some snap_start_def delivered_def)
qed

lemma router_step_inv:
  assumes "router_inv sess mlog snap st" and "faithful sess mlog snap a" and "rt_step dump a st = Some (st', out)"
  shows "router_inv sess mlog snap st'"
proof (cases a)
  case (Inbound ev)
  then show ?thesis using inbound_inv [OF assms(1), of ev dump] assms(2,3) by simp
next
  case (HydrateBootstrap eid s)
  then show ?thesis using assms hydrate_inv [OF assms(1)] by (auto split: if_splits)
next
  case FinishBootstrap
  then show ?thesis using assms
    by (auto simp: bootstrap_finish_def router_inv_def delivered_def split: boot_phase.splits)
next
  case ReleaseReady
  then show ?thesis using assms release_inv [OF assms(1)] by (auto simp: bootstrap_complete_def split: if_splits)
next
  case (NackStart k)
  then show ?thesis using assms
    by (auto simp: nack_start_def Let_def router_inv_def delivered_def split: if_splits)
next
  case (NackEnd k)
  then show ?thesis using assms
    by (auto simp: nack_end_def Let_def router_inv_def delivered_def split: if_splits nack_phase.splits)
next
  case (CloseChannel i)
  let ?st = "st\<lparr>rt_internal_outbound :=
      (rt_internal_outbound st)[i := (rt_internal_outbound st ! i)\<lparr>ch_closed := True\<rparr>]\<rparr>"
  have st': "st' = ?st" using assms(3) CloseChannel by (auto split: if_splits)
  have closed: "delivered d ?st" if "delivered d st" for d
    using that by (auto simp: delivered_def dest!: subsetD [OF set_update_subset_insert])
  have "rt_bootstrap ?st = rt_bootstrap st" "rt_event_buffer ?st = rt_event_buffer st"
    "rt_session_id ?st = rt_session_id st" by simp_all
  then show ?thesis using assms(1) closed unfolding router_inv_def st' by (metis (no_types, lifting))
next
  case (LocalEvent now system i e)
  then show ?thesis using assms by (auto simp: ingest_local_def Let_def router_inv_def delivered_def)
next
  case (RetryEntry now e_id entry)
  then show ?thesis using assms
    by (auto simp: simple_retry_entry_def Let_def router_inv_def delivered_def split: prod.splits if_splits)
qed

text \<open>A router whose consumers have registered before it runs.\<close>

definition router_with_consumers :: "node_id \<Rightarrow> session_id \<Rightarrow> system_id \<Rightarrow> nat \<Rightarrow> 'g event_router" where
  "router_with_consumers node sess system n = (receiver ^^ n) (new_router node sess system)"

lemma receiver_inv: "router_inv sess mlog snap st \<Longrightarrow> rt_bootstrap st = AwaitingSnapshot \<Longrightarrow>
    router_inv sess mlog snap (receiver st) \<and> rt_bootstrap (receiver st) = AwaitingSnapshot"
  by (auto simp: receiver_def router_inv_def delivered_def)

lemma router_with_consumers_inv: "router_inv sess mlog snap (router_with_consumers node sess system n)"
proof -
  have "let st = (receiver ^^ n) (new_router node sess system) in
      router_inv sess mlog snap st \<and> rt_bootstrap st = AwaitingSnapshot"
  proof (induction n)
    case 0
    show ?case by (simp add: router_inv_def new_router_def new_buffer_def buffer_agrees_def delivered_def Let_def)
  next
    case (Suc n)
    then show ?case using receiver_inv [of sess mlog snap "(receiver ^^ n) (new_router node sess system)"]
      by (simp add: Let_def)
  qed
  then show ?thesis by (simp add: router_with_consumers_def Let_def)
qed

lemma router_run_inv:
  assumes "rt_run dump (router_with_consumers node sess system n) as st" and "list_all (faithful sess mlog snap) as"
  shows "router_inv sess mlog snap st"
  using assms
proof (induction rule: rt_run.induct)
  case start
  show ?case by (rule router_with_consumers_inv)
next
  case (step as st a st' out)
  then show ?case using router_step_inv [of sess mlog snap st a dump st' out] by simp
qed

text \<open>What an open channel of a consumer holds: nothing before the bootstrap, then the snapshot and the events after it.\<close>

lemma consumer_items:
  assumes "rt_run dump (router_with_consumers node sess system n) as st" "list_all (faithful sess mlog snap) as"
    "ch \<in> set (rt_internal_outbound st)" "\<not> ch_closed ch"
  shows "rt_bootstrap st = AwaitingSnapshot \<Longrightarrow> ch_items ch = []"
    and "rt_bootstrap st \<noteq> AwaitingSnapshot \<Longrightarrow> snap_start snap \<le> next_idx_to_release (rt_event_buffer st) \<and>
      (\<exists>eid. ch_items ch = snap_items eid snap @
         map mk_indexed (log_segment (log_of mlog) (snap_start snap) (next_idx_to_release (rt_event_buffer st))))"
proof -
  have inv: "router_inv sess mlog snap st" by (rule router_run_inv [OF assms(1,2)])
  then show "rt_bootstrap st = AwaitingSnapshot \<Longrightarrow> ch_items ch = []"
    using assms(3,4) by (auto simp: router_inv_def delivered_def)
  show "rt_bootstrap st \<noteq> AwaitingSnapshot \<Longrightarrow> snap_start snap \<le> next_idx_to_release (rt_event_buffer st) \<and>
      (\<exists>eid. ch_items ch = snap_items eid snap @
         map mk_indexed (log_segment (log_of mlog) (snap_start snap) (next_idx_to_release (rt_event_buffer st))))"
    using inv assms(3,4) by (auto simp: router_inv_def delivered_def)
qed

text \<open>Running a list of actions.\<close>

fun rt_exec ::
  "('g event \<Rightarrow> (string \<times> opaque) option) \<Rightarrow> 'g event_router \<Rightarrow> 'g rt_action list \<Rightarrow> 'g event_router option" where
  "rt_exec dump st [] = Some st"
| "rt_exec dump st (a # as) = (case rt_step dump a st of None \<Rightarrow> None | Some (st', out) \<Rightarrow> rt_exec dump st' as)"

lemma rt_exec_run:
  "rt_run dump init as st \<Longrightarrow> rt_exec dump st bs = Some st' \<Longrightarrow> rt_run dump init (as @ bs) st'"
proof (induction bs arbitrary: as st)
  case (Cons b bs)
  obtain s1 out where s1: "rt_step dump b st = Some (s1, out)" "rt_exec dump s1 bs = Some st'"
    using Cons.prems(2) by (auto split: option.splits)
  show ?case using Cons.IH [OF rt_run.step [OF Cons.prems(1) s1(1)] s1(2)] by simp
qed simp

definition demo_session :: session_id where
  "demo_session = \<lparr>master_node_id = ''m'', election_clock = 3\<rparr>"

definition demo_log :: "list_graph event list" where
  "demo_log = [\<lparr>event_id = ''e0'', event_body = TracingStateChanged True\<rparr>,
               \<lparr>event_id = ''e1'', event_body = TracingStateChanged False\<rparr>]"

definition broadcast :: "nat \<Rightarrow> list_graph rt_action" where
  "broadcast i = Inbound \<lparr>gf_origin_idx = int i, gf_origin = ''m'', gf_session = demo_session, gf_event = demo_log ! i\<rparr>"

definition demo_actions :: "list_graph rt_action list" where
  "demo_actions = [broadcast 1, HydrateBootstrap ''h'' None, FinishBootstrap, ReleaseReady, NackStart 0, broadcast 0, broadcast 1]"

definition demo_router :: "list_graph event_router" where
  "demo_router = the (rt_exec (\<lambda>_. None) (router_with_consumers ''n'' demo_session ''s'' 1) demo_actions)"

lemma demo_exec: "rt_exec (\<lambda>_. None) (router_with_consumers ''n'' demo_session ''s'' 1) demo_actions = Some demo_router"
  unfolding demo_router_def by code_simp

lemma demo_run: "rt_run (\<lambda>_. None) (router_with_consumers ''n'' demo_session ''s'' 1) demo_actions demo_router"
  using rt_exec_run [OF rt_run.start demo_exec] by simp

lemma demo_faithful: "list_all (faithful demo_session demo_log None) demo_actions"
  by (simp add: demo_actions_def broadcast_def demo_session_def log_of_def demo_log_def)

section \<open>Progress\<close>

text \<open>A broadcast of the session's master.\<close>

fun accepted_index :: "session_id \<Rightarrow> 'g rt_action \<Rightarrow> int \<Rightarrow> bool" where
  "accepted_index sess (Inbound ev) i \<longleftrightarrow>
     gf_session ev = sess \<and> gf_origin ev = master_node_id sess \<and> gf_origin_idx ev = i"
| "accepted_index sess _ i \<longleftrightarrow> False"

definition known :: "'g event_router \<Rightarrow> int \<Rightarrow> bool" where
  "known st i \<longleftrightarrow> i < next_idx_to_release (rt_event_buffer st) \<or> dict_has (store (rt_event_buffer st)) i"

definition stuck_at_gap :: "'g event_router \<Rightarrow> bool" where
  "stuck_at_gap st \<longleftrightarrow> \<not> dict_has (store (rt_event_buffer st)) (next_idx_to_release (rt_event_buffer st))"

lemma release_buffer: "rt_event_buffer (release_ready_events st) = snd (drain_indexed (rt_event_buffer st))"
  "rt_bootstrap (release_ready_events st) = rt_bootstrap st"
  by (auto simp: release_ready_events_def Let_def sends_other split: prod.splits option.split)

lemma release_known:
  assumes "router_inv sess mlog snap st"
  shows "(known st i \<longrightarrow> known (release_ready_events st) i) \<and> stuck_at_gap (release_ready_events st)"
proof -
  let ?b = "rt_event_buffer st"
  obtain out b' where dr: "drain_indexed ?b = (out, b')" by fastforce
  note rel = drain_indexed_releases [OF dr, unfolded releases_def]
  have agr: "buffer_agrees mlog ?b" using assms by (simp add: router_inv_def)
  have sk: "skipped ?b = []" "skipped b' = []"
    using agr buffer_agrees_drain [OF agr dr] by (simp_all add: buffer_agrees_def)
  have "dict_has (store b') i" if "dict_has (store ?b) i" "\<not> i < next_idx_to_release b'"
  proof -
    have "buffer_verdict b' i = buffer_verdict ?b i" "next_idx_to_release ?b \<le> i" using rel that(2) by auto
    then show ?thesis using that sk by (auto simp: buffer_verdict_def dict_has_def split: if_splits)
  qed
  moreover have "\<not> dict_has (store b') (next_idx_to_release b')"
    using rel sk by (auto simp: buffer_verdict_def dict_has_def)
  ultimately show ?thesis
    using rel by (auto simp: known_def stuck_at_gap_def release_buffer dr)
qed

lemma ingest_known:
  assumes "ingest dump i e b = Inr b'"
  shows "next_idx_to_release b' = next_idx_to_release b"
    and "skipped b = [] \<Longrightarrow> i < next_idx_to_release b' \<or> dict_has (store b') i"
    and "dict_has (store b) j \<Longrightarrow> dict_has (store b') j"
  using assms by (auto simp: ingest_def dict_has_def split: if_splits option.splits)

lemma inbound_buffer:
  assumes "router_inv sess mlog snap st" and "faithful sess mlog snap (Inbound ev)"
    and "gf_session ev = sess" "gf_origin ev = master_node_id sess"
  obtains b' st1 where "ingest dump (gf_origin_idx ev) (gf_event ev) (rt_event_buffer st) = Inr b'"
    "rt_event_buffer st1 = b'" "rt_bootstrap st1 = rt_bootstrap st" "router_inv sess mlog snap st1"
    "run_ext_in dump ev st = (if rt_bootstrap st = BootstrapComplete then release_ready_events st1 else st1)"
proof -
  have agr: "buffer_agrees mlog (rt_event_buffer st)" using assms(1) by (simp add: router_inv_def)
  obtain b' where b': "ingest dump (gf_origin_idx ev) (gf_event ev) (rt_event_buffer st) = Inr b'"
      "buffer_agrees mlog b'" "next_idx_to_release b' = next_idx_to_release (rt_event_buffer st)"
    using buffer_agrees_ingest [OF agr] assms(2-4) by fastforce
  let ?st = "st\<lparr>rt_event_buffer := b', rt_out_for_delivery := dict_pop (event_id (gf_event ev)) (rt_out_for_delivery st)\<rparr>"
  have inv: "router_inv sess mlog snap ?st" using assms(1) b' by (auto simp: router_inv_def delivered_def)
  have "rt_session_id st = sess" using assms(1) by (simp add: router_inv_def)
  then have run: "run_ext_in dump ev st = (if rt_bootstrap st = BootstrapComplete then release_ready_events ?st else ?st)"
    using b'(1) assms(3,4) by (simp add: run_ext_in_def bootstrap_complete_def)
  show thesis by (rule that [OF b'(1) _ _ inv run]) simp_all
qed

text \<open>What has been received is released or waits in the buffer, and once the bootstrap has
  released, the buffer waits for the first missing event only.\<close>

definition progress_inv :: "session_id \<Rightarrow> 'g state_snapshot option \<Rightarrow> 'g rt_action list \<Rightarrow> 'g event_router \<Rightarrow> bool" where
  "progress_inv sess snap as st \<longleftrightarrow>
     (\<forall>a \<in> set as. \<forall>i. accepted_index sess a i \<longrightarrow> known st i) \<and>
     (ReleaseReady \<in> set as \<longrightarrow> rt_bootstrap st = BootstrapComplete \<and> stuck_at_gap st)"

lemma progress_other:
  assumes "progress_inv sess snap as st" and "rt_event_buffer st' = rt_event_buffer st"
    and "ReleaseReady \<in> set as \<Longrightarrow> rt_bootstrap st' = rt_bootstrap st"
    and "\<And>i. \<not> accepted_index sess a i" "a \<noteq> ReleaseReady"
  shows "progress_inv sess snap (as @ [a]) st'"
  using assms by (auto simp: progress_inv_def known_def stuck_at_gap_def)

lemma progress_release:
  assumes "router_inv sess mlog snap st" and "progress_inv sess snap as st" and "rt_bootstrap st = BootstrapComplete"
  shows "progress_inv sess snap (as @ [ReleaseReady]) (release_ready_events st)"
  using assms(2,3) release_known [OF assms(1)] by (auto simp: progress_inv_def release_buffer)

lemma progress_inbound:
  assumes "router_inv sess mlog snap st" and "progress_inv sess snap as st" and "faithful sess mlog snap (Inbound ev)"
  shows "progress_inv sess snap (as @ [Inbound ev]) (run_ext_in dump ev st)"
proof (cases "gf_session ev = sess \<and> gf_origin ev = master_node_id sess")
  case False
  then have "run_ext_in dump ev st = st" using assms(1) by (auto simp: run_ext_in_def router_inv_def)
  then show ?thesis using assms(2) False by (intro progress_other [of _ _ _ st]) auto
next
  case True
  obtain b' st1 where st1: "ingest dump (gf_origin_idx ev) (gf_event ev) (rt_event_buffer st) = Inr b'"
    "rt_event_buffer st1 = b'" "rt_bootstrap st1 = rt_bootstrap st" "router_inv sess mlog snap st1"
    "run_ext_in dump ev st = (if rt_bootstrap st = BootstrapComplete then release_ready_events st1 else st1)"
    using inbound_buffer [OF assms(1,3)] True by blast
  have sk: "skipped (rt_event_buffer st) = []" using assms(1) by (simp add: router_inv_def buffer_agrees_def)
  have k1: "known st1 i" if "known st i \<or> i = gf_origin_idx ev" for i
    using that ingest_known [OF st1(1)] sk st1(2) by (auto simp: known_def)
  have k2: "known (run_ext_in dump ev st) i" if "known st i \<or> i = gf_origin_idx ev" for i
    using k1 [OF that] release_known [OF st1(4)] st1(5) by simp
  have "rt_bootstrap (run_ext_in dump ev st) = rt_bootstrap st"
    using st1(3,5) by (simp add: release_buffer(2))
  moreover have "stuck_at_gap (run_ext_in dump ev st)" if "rt_bootstrap st = BootstrapComplete"
    using st1(5) that release_known [OF st1(4)] by simp
  ultimately show ?thesis using assms(2) k2 by (auto simp: progress_inv_def)
qed

lemma progress_hydrate:
  assumes "progress_inv sess snap as st" and "rt_bootstrap st = AwaitingSnapshot"
    and "router_inv sess mlog snap st" and "0 \<le> snap_start snap"
  shows "progress_inv sess snap (as @ [HydrateBootstrap eid snap]) (bootstrap_hydrate eid snap st)"
proof -
  have zero: "next_idx_to_release (rt_event_buffer st) = 0" using assms(2,3) by (simp add: router_inv_def)
  have "known (bootstrap_hydrate eid snap st) i" if "known st i" for i
    using that zero assms(4)
    by (auto simp: known_def bootstrap_hydrate_def hydrate_from_snapshot_def Let_def send_internal_other
        dict_has_def dict_get_filter_keys snap_start_def split: option.splits)
  then show ?thesis using assms(1,2) by (auto simp: progress_inv_def)
qed

lemma progress_step:
  assumes "router_inv sess mlog snap st" and "progress_inv sess snap as st" and "faithful sess mlog snap a"
    and "0 \<le> snap_start snap" and "rt_step dump a st = Some (st', out)"
  shows "progress_inv sess snap (as @ [a]) st'"
proof (cases a)
  case (Inbound ev)
  then show ?thesis using progress_inbound [OF assms(1,2), of ev dump] assms(3,5) by simp
next
  case (HydrateBootstrap eid s)
  then show ?thesis using assms progress_hydrate [OF assms(2) _ assms(1,4)] by (auto split: if_splits)
next
  case FinishBootstrap
  then have "st' = st\<lparr>rt_bootstrap := BootstrapComplete\<rparr>" and "rt_bootstrap st \<noteq> BootstrapComplete"
    using assms(5) by (auto simp: bootstrap_finish_def split: boot_phase.splits)
  then show ?thesis
    using FinishBootstrap assms(2)
    by (intro progress_other [OF assms(2)]) (simp_all add: progress_inv_def)
next
  case ReleaseReady
  then show ?thesis
    using assms(5) progress_release [OF assms(1,2)] by (auto simp: bootstrap_complete_def split: if_splits)
next
  case (NackStart k)
  then show ?thesis using assms(5)
    by (intro progress_other [OF assms(2)]) (auto simp: nack_start_def Let_def split: if_splits)
next
  case (NackEnd k)
  then show ?thesis using assms(5)
    by (intro progress_other [OF assms(2)]) (auto simp: nack_end_def Let_def split: if_splits nack_phase.splits)
next
  case (CloseChannel i)
  then show ?thesis using assms(5) by (intro progress_other [OF assms(2)]) (auto split: if_splits)
next
  case (LocalEvent now system i e)
  then show ?thesis using assms(5)
    by (intro progress_other [OF assms(2)]) (auto simp: ingest_local_def Let_def)
next
  case (RetryEntry now e_id entry)
  then show ?thesis using assms(5)
    by (intro progress_other [OF assms(2)]) (auto simp: simple_retry_entry_def Let_def split: prod.splits if_splits)
qed

lemma progress_run:
  assumes "rt_run dump (router_with_consumers node sess system n) as st"
    and "list_all (faithful sess mlog snap) as" and "0 \<le> snap_start snap"
  shows "progress_inv sess snap as st"
  using assms
proof (induction rule: rt_run.induct)
  case (step as st a st' out)
  then show ?case using progress_step [OF router_run_inv [OF step(1)], of mlog snap as a dump st' out] by simp
qed (simp add: progress_inv_def)

text \<open>
  C2. Nothing that arrived is held back.  Once the bootstrap has released its buffer, and whenever
  all events of the master's log from the snapshot up to \<open>n\<close> have arrived, at whatever time and in
  whatever order (before, during or after the bootstrap), the router has released all of them:
  the next index to release is at least \<open>n\<close>.
\<close>

theorem consumers_receive_everything:
  assumes "rt_run dump (router_with_consumers node sess system c) as st"
    and "list_all (faithful sess mlog snap) as" and "\<forall>s. snap = Some s \<longrightarrow> validate_snapshot_index s"
    and "ReleaseReady \<in> set as"
    and "\<And>i. snap_start snap \<le> i \<Longrightarrow> i < n \<Longrightarrow> \<exists>a \<in> set as. accepted_index sess a i"
  shows "n \<le> next_idx_to_release (rt_event_buffer st)"
proof (rule ccontr)
  let ?i = "next_idx_to_release (rt_event_buffer st)"
  assume "\<not> n \<le> ?i"
  have "0 \<le> snap_start snap" using assms(3)
    by (auto simp: snap_start_def validate_snapshot_index_def split: option.splits)
  from progress_run [OF assms(1,2) this] have pr: "progress_inv sess snap as st" .
  then have "rt_bootstrap st = BootstrapComplete" "stuck_at_gap st" using assms(4) by (auto simp: progress_inv_def)
  moreover from this have "snap_start snap \<le> ?i"
    using router_run_inv [OF assms(1,2)] by (simp add: router_inv_def)
  then have "known st ?i" using assms(5) [of ?i] \<open>\<not> n \<le> ?i\<close> pr by (auto simp: progress_inv_def)
  ultimately show False by (simp add: known_def stuck_at_gap_def)
qed

theorem consumers_receive_everything_witness:
  "2 \<le> next_idx_to_release (rt_event_buffer demo_router)"
proof (rule consumers_receive_everything [OF demo_run demo_faithful])
  show "\<forall>s. (None :: list_graph state_snapshot option) = Some s \<longrightarrow> validate_snapshot_index s" by simp
  show "ReleaseReady \<in> set demo_actions" by (simp add: demo_actions_def)
  fix i :: int assume "snap_start (None :: list_graph state_snapshot option) \<le> i" "i < 2"
  then have "i = 0 \<or> i = 1" by (auto simp: snap_start_def)
  then show "\<exists>a \<in> set demo_actions. accepted_index demo_session a i"
    by (auto simp: demo_actions_def broadcast_def demo_session_def)
qed

section \<open>Delivery of local events\<close>

text \<open>\<open>m\<close> passes of the retry loop over an entry that is never echoed.\<close>

fun retry_passes :: "int list \<Rightarrow> event_id \<Rightarrow> 'g event_router \<Rightarrow> 'g event_router \<times> 'g rt_output list" where
  "retry_passes [] e_id st = (st, [])"
| "retry_passes (now # nows) e_id st =
     (case dict_get (rt_out_for_delivery st) e_id of
        None \<Rightarrow> retry_passes nows e_id st
      | Some entry \<Rightarrow>
          (let (st1, out1) = simple_retry_entry now e_id entry st;
               (st2, out2) = retry_passes nows e_id st1
           in (st2, out1 @ out2)))"

lemma retry_passes_bound:
  "(case dict_get (rt_out_for_delivery st) e_id of
      None \<Rightarrow> length (snd (retry_passes nows e_id st)) = 0
    | Some (deadline, attempts, ev) \<Rightarrow> attempts \<le> rt_retry_max_attempts st \<longrightarrow>
        length (snd (retry_passes nows e_id st)) + attempts \<le> rt_retry_max_attempts st \<and>
        set (snd (retry_passes nows e_id st)) \<subseteq> {SendLocal ev})"
proof (induction nows arbitrary: st)
  case Nil
  then show ?case by (simp split: option.split prod.split)
next
  case (Cons now nows)
  show ?case
  proof (cases "dict_get (rt_out_for_delivery st) e_id")
    case None
    then show ?thesis using Cons.IH [of st] by simp
  next
    case (Some entry)
    obtain deadline attempts ev where entry: "entry = (deadline, attempts, ev)" by (cases entry)
    obtain st1 out1 where st1: "simple_retry_entry now e_id entry st = (st1, out1)" by fastforce
    have "rt_retry_max_attempts st1 = rt_retry_max_attempts st"
      using st1 by (auto simp: simple_retry_entry_def entry Let_def split: if_splits)
    then show ?thesis
      using Cons.IH [of st1] st1 Some
      by (auto simp: simple_retry_entry_def entry Let_def case_prod_beta split: if_splits)
  qed
qed

text \<open>
  Retries are bounded.  An event that the master never echoes is sent once when it is
  published and re-sent at most \<open>retry_max_attempts\<close> times, however often the retry loop runs;
  every re-send carries the same forwarder event, so its origin index does not change.
\<close>

theorem undelivered_event_resends_bounded:
  "case ingest_local now system i e st of
     (st1, i', out) \<Rightarrow> i' = i + 1 \<and>
       (\<exists>f_ev. lf_event f_ev = e \<and> lf_origin_idx f_ev = i \<and> out = [SendLocal f_ev] \<and>
          set (snd (retry_passes nows (event_id e) st1)) \<subseteq> {SendLocal f_ev} \<and>
          length (snd (retry_passes nows (event_id e) st1)) \<le> rt_retry_max_attempts st)"
proof -
  let ?f = "\<lparr>lf_origin_idx = i, lf_origin = system, lf_session = rt_session_id st, lf_event = e\<rparr>"
  let ?st1 = "st\<lparr>rt_out_for_delivery :=
      dict_set (event_id e) (now + rt_retry_base st, 0, ?f) (rt_out_for_delivery st)\<rparr>"
  have "ingest_local now system i e st = (?st1, i + 1, [SendLocal ?f])"
    by (simp add: ingest_local_def Let_def)
  then show ?thesis using retry_passes_bound [where st = ?st1 and e_id = "event_id e" and nows = nows] by auto
qed

end
