(* ===== verification/Disk_Event_Log.thy ===== *)
theory Disk_Event_Log
  imports Prelude "HOL-Library.List_Lexorder" "HOL-Library.Char_ord"
begin

text \<open>
  The master's event log on disk, \<^verbatim>\<open>src/skulk/utils/disk_event_log.py\<close>: length-prefixed records
  in one active file, a bounded LRU cache from event index to byte offset, compaction, rotation into
  compressed archives, and a degraded mode that only counts.

  The object and its directory are one record.  \<open>active_file\<close> is what a reader of the active file
  sees after a flush; the write cursor is always at its end.  Encoder and decoder (\<open>msgspec\<close>,
  \<open>pydantic\<close>) are the parameters \<open>ser\<close> and \<open>des\<close>, \<open>None\<close> being their exception.  The outcome of
  each system call that can fail is an argument, so every operation is a function of the calls'
  outcomes.  A range is read to its end at once, as \<open>list(read_range(...))\<close> does.
\<close>

section \<open>Model\<close>

type_synonym bytes = "nat list"

definition HEADER_SIZE :: nat where "HEADER_SIZE = 4"
definition OFFSET_CACHE_SIZE :: nat where "OFFSET_CACHE_SIZE = 128"
definition MAX_ARCHIVES :: nat where "MAX_ARCHIVES = 5"
definition MAX_ARCHIVE_TOTAL_BYTES :: nat where "MAX_ARCHIVE_TOTAL_BYTES = 1024 * 1024 * 1024"
definition FREE_SPACE_FLOOR_BYTES :: int where "FREE_SPACE_FLOOR_BYTES = 2 * 1024 * 1024 * 1024"
definition DISK_CHECK_INTERVAL_APPENDS :: int where "DISK_CHECK_INTERVAL_APPENDS = 1024"
definition METADATA_WRITE_INTERVAL_APPENDS :: int where "METADATA_WRITE_INTERVAL_APPENDS = 256"

text \<open>\<open>AssertionFailed\<close>, \<open>ClosedFile\<close> (a \<open>ValueError\<close>), \<open>DiskError\<close> (an \<open>OSError\<close>),
  \<open>EncodeError\<close> (raised by the encoder) and \<open>TooLarge\<close> (\<open>OverflowError\<close> of \<open>to_bytes\<close>).\<close>

datatype log_error = AssertionFailed | ClosedFile | DiskError | EncodeError | TooLarge

text \<open>\<open>n.to_bytes(width, "big")\<close> and \<open>int.from_bytes(header, "big")\<close>\<close>

fun be_digits :: "nat \<Rightarrow> nat \<Rightarrow> bytes" where
  "be_digits 0 n = []"
| "be_digits (Suc k) n = be_digits k (n div 256) @ [n mod 256]"

definition to_bytes :: "nat \<Rightarrow> nat \<Rightarrow> bytes option" where
  "to_bytes width n = (if n < 256 ^ width then Some (be_digits width n) else None)"

definition unpack_header :: "bytes \<Rightarrow> nat" where
  "unpack_header header = foldl (\<lambda>n b. n * 256 + b) 0 header"

text \<open>Reading from the file \<open>c\<close> at cursor \<open>p\<close>; the second component is the new cursor.\<close>

definition skip_record :: "bytes \<Rightarrow> nat \<Rightarrow> bool \<times> nat" where
  "skip_record c p =
     (let header = take HEADER_SIZE (drop p c)
      in if length header < HEADER_SIZE then (False, p + length header)
         else (True, p + HEADER_SIZE + unpack_header header))"

datatype 'e read_result = ReadEvent 'e | AtEOF | DecodeFailed

definition read_record :: "(bytes \<Rightarrow> 'e option) \<Rightarrow> bytes \<Rightarrow> nat \<Rightarrow> 'e read_result \<times> nat" where
  "read_record des c p =
     (let header = take HEADER_SIZE (drop p c)
      in if length header < HEADER_SIZE then (AtEOF, p + length header)
         else let len = unpack_header header;
                  payload = take len (drop (p + HEADER_SIZE) c);
                  p' = p + HEADER_SIZE + length payload
              in if length payload < len then (AtEOF, p')
                 else case des payload of None \<Rightarrow> (DecodeFailed, p') | Some e \<Rightarrow> (ReadEvent e, p'))"

datatype file_handle = NoHandle | OpenHandle | ClosedHandle

record disk_event_log =
  offset_cache :: "(int, nat) dict"
  base_idx :: int
  log_count :: int
  persistence_failed :: bool
  appends_since_disk_check :: int
  log_file :: file_handle
  active_file :: "bytes option"
  metadata_file :: "(int \<times> int) option"
  archives :: "(string, nat) dict"

definition log_len :: "disk_event_log \<Rightarrow> int" where
  "log_len l = base_idx l + log_count l"

definition write_metadata :: "disk_event_log \<Rightarrow> disk_event_log" where
  "write_metadata l = l\<lparr>metadata_file := Some (base_idx l, log_count l)\<rparr>"

definition active_size_bytes :: "disk_event_log \<Rightarrow> nat" where
  "active_size_bytes l =
     (if persistence_failed l \<or> log_file l = NoHandle then 0
      else if log_file l = ClosedHandle then 0
      else case active_file l of None \<Rightarrow> 0 | Some c \<Rightarrow> length c)"

text \<open>\<open>OrderedDict.move_to_end\<close>: the last entry is the most recently used one.\<close>

definition move_to_end :: "'k \<Rightarrow> ('k, 'v) dict \<Rightarrow> ('k, 'v) dict" where
  "move_to_end k d = (case dict_get d k of None \<Rightarrow> d | Some v \<Rightarrow> dict_pop k d @ [(k, v)])"

definition cache_offset :: "int \<Rightarrow> nat \<Rightarrow> disk_event_log \<Rightarrow> disk_event_log" where
  "cache_offset i offset l =
     (let cache = move_to_end i (dict_set i offset (offset_cache l))
      in l\<lparr>offset_cache := (if length cache > OFFSET_CACHE_SIZE then tl cache else cache)\<rparr>)"

text \<open>The loop over the cache, and the loop that skips records.\<close>

definition scan_start :: "int \<Rightarrow> disk_event_log \<Rightarrow> int \<times> nat" where
  "scan_start target l =
     foldl (\<lambda>(i, offset) (cached_idx, cached_offset).
        if cached_idx < target then (cached_idx, cached_offset) else (i, offset)) (base_idx l, 0) (offset_cache l)"

fun skip_records :: "bytes \<Rightarrow> nat \<Rightarrow> nat \<Rightarrow> nat" where
  "skip_records c 0 p = p"
| "skip_records c (Suc n) p = skip_records c n (snd (skip_record c p))"

definition seek_to :: "bytes \<Rightarrow> int \<Rightarrow> disk_event_log \<Rightarrow> nat \<times> disk_event_log" where
  "seek_to c target l =
     (case dict_get (offset_cache l) target of
        Some offset \<Rightarrow> (offset, l\<lparr>offset_cache := move_to_end target (offset_cache l)\<rparr>)
      | None \<Rightarrow>
          (let (i, offset) = scan_start target l;
               p = skip_records c (nat (target - i)) offset
           in (p, cache_offset target p l)))"

definition enter_degraded_mode :: "disk_event_log \<Rightarrow> disk_event_log" where
  "enter_degraded_mode l =
     (if persistence_failed l then l
      else l\<lparr>persistence_failed := True,
             log_file := (if log_file l = NoHandle then NoHandle else ClosedHandle)\<rparr>)"

text \<open>Outcomes during an append: bytes that reached the file before a write failed, whether the
  metadata write fails, and the free space (\<open>None\<close>: the query fails).\<close>

record append_io =
  write_torn :: "bytes option"
  metadata_fails :: bool
  free_space :: "int option"

definition check_free_space :: "append_io \<Rightarrow> disk_event_log \<Rightarrow> disk_event_log" where
  "check_free_space io l =
     (let n = appends_since_disk_check l + 1
      in if n \<ge> DISK_CHECK_INTERVAL_APPENDS
         then (let l' = l\<lparr>appends_since_disk_check := 0\<rparr>
               in case free_space io of
                    None \<Rightarrow> l'
                  | Some free \<Rightarrow> if free < FREE_SPACE_FLOOR_BYTES then enter_degraded_mode l' else l')
         else l\<lparr>appends_since_disk_check := n\<rparr>)"

definition append_bytes :: "bytes \<Rightarrow> disk_event_log \<Rightarrow> disk_event_log" where
  "append_bytes bs l = l\<lparr>active_file := map_option (\<lambda>c. c @ bs) (active_file l), log_count := log_count l + 1\<rparr>"

definition log_append ::
  "('e \<Rightarrow> bytes option) \<Rightarrow> append_io \<Rightarrow> 'e \<Rightarrow> disk_event_log \<Rightarrow> disk_event_log \<times> (log_error + unit)" where
  "log_append ser io e l =
     (if persistence_failed l then (l\<lparr>log_count := log_count l + 1\<rparr>, Inr ())
      else if log_file l = NoHandle then (l, Inl AssertionFailed)
      else case ser e of
             None \<Rightarrow> (l, Inl EncodeError)
           | Some packed \<Rightarrow>
               (case to_bytes HEADER_SIZE (length packed) of
                  None \<Rightarrow> (l, Inl TooLarge)
                | Some header \<Rightarrow>
                    if log_file l = ClosedHandle then (l, Inl ClosedFile)
                    else case write_torn io of
                           Some torn \<Rightarrow> (enter_degraded_mode (append_bytes torn l), Inr ())
                         | None \<Rightarrow>
                             (let l1 = append_bytes (header @ packed) l;
                                  due = log_count l1 mod METADATA_WRITE_INTERVAL_APPENDS = 0
                              in if due \<and> metadata_fails io then (enter_degraded_mode l1, Inr ())
                                 else (check_free_space io (if due then write_metadata l1 else l1), Inr ()))))"

text \<open>The reading loop: the events, the cursor, and whether a record could not be decoded.\<close>

fun read_records :: "(bytes \<Rightarrow> 'e option) \<Rightarrow> bytes \<Rightarrow> nat \<Rightarrow> nat \<Rightarrow> 'e list \<times> nat \<times> bool" where
  "read_records des c 0 p = ([], p, False)"
| "read_records des c (Suc n) p =
     (case read_record des c p of
        (ReadEvent e, p') \<Rightarrow> (case read_records des c n p' of (es, q, failed) \<Rightarrow> (e # es, q, failed))
      | (AtEOF, p') \<Rightarrow> ([], p', False)
      | (DecodeFailed, p') \<Rightarrow> ([], p', True))"

text \<open>\<open>io\<close>: the flush and the opening of the file succeed.\<close>

definition read_range ::
  "(bytes \<Rightarrow> 'e option) \<Rightarrow> bool \<Rightarrow> int \<Rightarrow> int \<Rightarrow> disk_event_log \<Rightarrow> disk_event_log \<times> (log_error + 'e list)" where
  "read_range des io start end l =
     (if persistence_failed l then (l, Inr [])
      else if start < 0 \<or> end < 0 then (l, Inr [])
      else let start' = max start (base_idx l); end' = min end (log_len l)
           in if start' \<ge> end' then (l, Inr [])
              else if log_file l = NoHandle then (l, Inl AssertionFailed)
              else if log_file l = ClosedHandle then (l, Inl ClosedFile)
              else case active_file l of
                     None \<Rightarrow> (l, Inl DiskError)
                   | Some c \<Rightarrow>
                       if \<not> io then (l, Inl DiskError)
                       else let (p, l1) = seek_to c start' l;
                                (es, q, failed) = read_records des c (nat (end' - start')) p;
                                l2 = (if failed then l1\<lparr>offset_cache := []\<rparr> else l1)
                            in (if end' < log_len l2 then cache_offset end' q l2 else l2, Inr es))"

text \<open>Here a record that cannot be decoded raises; the flag says so, after the events before it.\<close>

definition read_all ::
  "(bytes \<Rightarrow> 'e option) \<Rightarrow> bool \<Rightarrow> disk_event_log \<Rightarrow> log_error + 'e list \<times> bool" where
  "read_all des io l =
     (if persistence_failed l \<or> log_count l = 0 then Inr ([], False)
      else if log_file l = NoHandle then Inl AssertionFailed
      else if log_file l = ClosedHandle then Inl ClosedFile
      else case active_file l of
             None \<Rightarrow> Inl DiskError
           | Some c \<Rightarrow> if \<not> io then Inl DiskError
                       else case read_records des c (nat (log_count l)) 0 of (es, q, failed) \<Rightarrow> Inr (es, failed))"

text \<open>The replacement file of a compaction.\<close>

fun encode_records :: "('e \<Rightarrow> bytes option) \<Rightarrow> 'e list \<Rightarrow> log_error + bytes" where
  "encode_records ser [] = Inr []"
| "encode_records ser (e # es) =
     (case ser e of
        None \<Rightarrow> Inl EncodeError
      | Some packed \<Rightarrow>
          (case to_bytes HEADER_SIZE (length packed) of
             None \<Rightarrow> Inl TooLarge
           | Some header \<Rightarrow>
               (case encode_records ser es of Inl x \<Rightarrow> Inl x | Inr rest \<Rightarrow> Inr (header @ packed @ rest))))"

text \<open>Where a compaction hits an \<open>OSError\<close>: while the replacement is written (after a number of
  records), while it is moved into place and reopened, or when the metadata is written.\<close>

datatype compact_io = CompactOk | WriteFails nat | ReopenFails | CompactMetadataFails

definition compact ::
  "('e \<Rightarrow> bytes option) \<Rightarrow> (bytes \<Rightarrow> 'e option) \<Rightarrow> bool \<Rightarrow> compact_io \<Rightarrow> int \<Rightarrow> disk_event_log
     \<Rightarrow> disk_event_log \<times> (log_error + unit)" where
  "compact ser des read_io io keep_from_idx l =
     (if persistence_failed l then (l, Inr ())
      else let absolute_end = log_len l;
               keep = min (max keep_from_idx (base_idx l)) absolute_end
           in if keep = base_idx l then (l, Inr ())
              else case read_range des read_io keep absolute_end (l\<lparr>offset_cache := []\<rparr>) of
                     (l1, Inl _) \<Rightarrow> (l1\<lparr>offset_cache := []\<rparr>, Inr ())
                   | (l1, Inr retained) \<Rightarrow>
                       if int (length retained) \<noteq> absolute_end - keep then (l1, Inr ())
                       else if log_file l1 = NoHandle then (l1, Inl AssertionFailed)
                       else case encode_records ser (case io of WriteFails k \<Rightarrow> take k retained | _ \<Rightarrow> retained) of
                              Inl x \<Rightarrow> (l1, Inl x)
                            | Inr content \<Rightarrow>
                                (let l2 = l1\<lparr>active_file := Some content\<rparr>;
                                     l3 = l2\<lparr>base_idx := keep, log_count := int (length retained), offset_cache := []\<rparr>
                                 in (case io of
                                       WriteFails k \<Rightarrow> enter_degraded_mode l1
                                     | ReopenFails \<Rightarrow> enter_degraded_mode l2
                                     | CompactMetadataFails \<Rightarrow> enter_degraded_mode l3
                                     | CompactOk \<Rightarrow> write_metadata l3, Inr ())))"

text \<open>Rotation.  \<open>compressed\<close> is the size of the new archive, or, when the copy fails, of the
  partial archive if one was created; \<open>unlinks\<close> says which files can be removed.\<close>

datatype compress_outcome = Compressed nat | CompressFails "nat option"

record rotate_io =
  archive_name :: string
  compress_result :: compress_outcome
  source_unlinks :: bool
  unlinks :: "string \<Rightarrow> bool"

fun unlink_all :: "(string \<Rightarrow> bool) \<Rightarrow> string list \<Rightarrow> (string, nat) dict \<Rightarrow> bool \<times> (string, nat) dict" where
  "unlink_all can [] d = (True, d)"
| "unlink_all can (f # fs) d = (if can f then unlink_all can fs (dict_pop f d) else (False, d))"

fun enforce_budget :: "(string \<Rightarrow> bool) \<Rightarrow> nat \<Rightarrow> (string \<times> nat) list \<Rightarrow> (string, nat) dict \<Rightarrow> (string, nat) dict" where
  "enforce_budget can total_bytes [] d = d"
| "enforce_budget can total_bytes ((f, n) # fs) d =
     (if total_bytes \<le> MAX_ARCHIVE_TOTAL_BYTES then d
      else if can f then enforce_budget can (total_bytes - n) fs (dict_pop f d) else d)"

definition prune_archives :: "(string \<Rightarrow> bool) \<Rightarrow> (string, nat) dict \<Rightarrow> (string, nat) dict" where
  "prune_archives can d =
     (let sorted_archives = sort_key fst d
      in case unlink_all can (map fst (take (length d - MAX_ARCHIVES) sorted_archives)) d of
           (False, d') \<Rightarrow> d'
         | (True, d') \<Rightarrow>
             (let rest = sort_key fst d' in enforce_budget can (sum_list (map snd rest)) rest d'))"

definition rotate :: "rotate_io \<Rightarrow> disk_event_log \<Rightarrow> disk_event_log" where
  "rotate io l =
     (let gone = (if source_unlinks io then None else active_file l)
      in case compress_result io of
           CompressFails None \<Rightarrow> l\<lparr>active_file := gone\<rparr>
         | CompressFails (Some n) \<Rightarrow>
             l\<lparr>active_file := gone, archives := dict_set (archive_name io) n (archives l)\<rparr>
         | Compressed n \<Rightarrow>
             (let archived = dict_set (archive_name io) n (archives l)
              in if source_unlinks io
                 then l\<lparr>active_file := None, archives := prune_archives (unlinks io) archived\<rparr>
                 else l\<lparr>archives := archived\<rparr>))"

text \<open>\<open>close_io\<close>: the flush on closing succeeds; \<open>remove_io\<close>: an empty active file can be removed;
  \<open>meta_io\<close>: so can the metadata file.\<close>

definition log_close ::
  "bool \<Rightarrow> bool \<Rightarrow> bool \<Rightarrow> rotate_io \<Rightarrow> disk_event_log \<Rightarrow> disk_event_log \<times> (log_error + unit)" where
  "log_close close_io remove_io meta_io rot l =
     (if persistence_failed l
      then (l\<lparr>log_file := (if log_file l = NoHandle then NoHandle else ClosedHandle)\<rparr>, Inr ())
      else if log_file l = NoHandle then (l, Inl AssertionFailed)
      else if log_file l = ClosedHandle then (l, Inr ())
      else let l1 = l\<lparr>log_file := ClosedHandle\<rparr>
           in if \<not> close_io then (l1, Inl DiskError)
              else if active_file l1 \<noteq> None \<and> log_count l1 \<le> 0 \<and> \<not> remove_io then (l1, Inl DiskError)
              else let l2 = (if active_file l1 \<noteq> None \<and> log_count l1 > 0 then rotate rot l1
                             else l1\<lparr>active_file := None\<rparr>)
                   in if metadata_file l2 \<noteq> None \<and> \<not> meta_io then (l2, Inl DiskError)
                      else (l2\<lparr>metadata_file := None\<rparr>, Inr ()))"

text \<open>\<open>__init__\<close> on a directory with the given files: which of its steps raise \<open>OSError\<close>.\<close>

record init_io =
  mkdir_ok :: bool
  unlink_metadata_ok :: bool
  open_ok :: bool
  init_metadata_ok :: bool

definition new_log ::
  "init_io \<Rightarrow> rotate_io \<Rightarrow> bytes option \<Rightarrow> (int \<times> int) option \<Rightarrow> (string, nat) dict \<Rightarrow> disk_event_log" where
  "new_log io rot active meta archs =
     (let l = \<lparr>offset_cache = [], base_idx = 0, log_count = 0, persistence_failed = False,
               appends_since_disk_check = 0, log_file = NoHandle, active_file = active,
               metadata_file = meta, archives = archs\<rparr>
      in if \<not> mkdir_ok io then enter_degraded_mode l
         else let l1 = (if active \<noteq> None then rotate rot l else l)
              in if meta \<noteq> None \<and> \<not> unlink_metadata_ok io then enter_degraded_mode l1
                 else let l2 = l1\<lparr>metadata_file := None\<rparr>
                      in if \<not> open_ok io then enter_degraded_mode l2
                         else let l3 = l2\<lparr>log_file := OpenHandle, active_file := Some []\<rparr>
                              in if \<not> init_metadata_ok io then enter_degraded_mode l3 else write_metadata l3)"

end
