(* ===== verification/Disk_Log_Refinement.thy ===== *)
theory Disk_Log_Refinement
  imports Disk_Event_Log
begin

text \<open>
  The log on disk implements a plain list of events with a start index.  The locale
  \<open>event_counter\<close> states what the master needs in every situation, failed writes included (the
  length counts the appends); \<open>event_store\<close> adds what a healthy log returns.  Both are interpreted
  on the disk log.
\<close>

section \<open>The interface\<close>

locale event_counter =
  fixes append :: "'io \<Rightarrow> 'e \<Rightarrow> 'l \<Rightarrow> 'l" and raises :: "'io \<Rightarrow> 'e \<Rightarrow> 'l \<Rightarrow> bool"
    and cut :: "'c \<Rightarrow> int \<Rightarrow> 'l \<Rightarrow> 'l" and len :: "'l \<Rightarrow> int"
  assumes append_len: "\<not> raises io e l \<Longrightarrow> len (append io e l) = len l + 1"
    and append_raises: "raises io e l \<Longrightarrow> append io e l = l"
    and cut_len: "len (cut c k l) = len l"

locale event_store = event_counter append raises cut len
  for append :: "'io \<Rightarrow> 'e \<Rightarrow> 'l \<Rightarrow> 'l" and raises and cut :: "'c \<Rightarrow> int \<Rightarrow> 'l \<Rightarrow> 'l" and len +
  fixes holds :: "'e list \<Rightarrow> 'l \<Rightarrow> bool" and start :: "'l \<Rightarrow> int"
    and fetch :: "int \<Rightarrow> int \<Rightarrow> 'l \<Rightarrow> 'l \<times> 'e list"
    and healthy :: "'io \<Rightarrow> bool" and cut_healthy :: "'c \<Rightarrow> bool" and storable :: "'e \<Rightarrow> bool"
  assumes start_nonneg: "holds es l \<Longrightarrow> 0 \<le> start l"
    and holds_len: "holds es l \<Longrightarrow> len l = start l + int (length es)"
    and holds_storable: "holds es l \<Longrightarrow> list_all storable es"
    and append_holds: "holds es l \<Longrightarrow> healthy io \<Longrightarrow> storable e \<Longrightarrow> \<not> raises io e l \<and>
          holds (es @ [e]) (append io e l) \<and> start (append io e l) = start l"
    and cut_holds: "holds es l \<Longrightarrow> cut_healthy c \<Longrightarrow>
          (let k' = min (max k (start l)) (len l)
           in holds (drop (nat (k' - start l)) es) (cut c k l) \<and> start (cut c k l) = k')"
    and fetch_holds: "holds es l \<Longrightarrow> 0 \<le> a \<Longrightarrow> 0 \<le> b \<Longrightarrow>
          (let a' = max a (start l); b' = min b (len l)
           in holds es (fst (fetch a b l)) \<and> start (fst (fetch a b l)) = start l \<and>
              snd (fetch a b l) = take (nat (b' - a')) (drop (nat (a' - start l)) es))"

section \<open>Records in a file\<close>

lemma length_be_digits [simp]: "length (be_digits k n) = k"
  by (induction k arbitrary: n) auto

lemma unpack_snoc: "unpack_header (bs @ [b]) = unpack_header bs * 256 + b"
  by (simp add: unpack_header_def)

lemma unpack_be_digits: "n < 256 ^ k \<Longrightarrow> unpack_header (be_digits k n) = n"
proof (induction k arbitrary: n)
  case 0
  then show ?case by (simp add: unpack_header_def)
next
  case (Suc k)
  then have "n div 256 < 256 ^ k" by (simp add: less_mult_imp_div_less mult.commute)
  with Suc.IH show ?case by (simp add: unpack_snoc)
qed

lemma unpack_be_digits_mod: "unpack_header (be_digits k n) = n mod 256 ^ k"
  by (induction k arbitrary: n) (simp_all add: unpack_snoc unpack_header_def mod_mult2_eq)

text \<open>The size check without the power, for evaluation.\<close>

lemma to_bytes_code [code]:
  "to_bytes width n = (let digits = be_digits width n in if unpack_header digits = n then Some digits else None)"
  by (auto simp: to_bytes_def Let_def unpack_be_digits_mod mod_eq_self_iff_div_eq_0 div_eq_0_iff)

text \<open>An event that encoder and decoder agree on and that fits a record, and its record.\<close>

definition codec_ok :: "('e \<Rightarrow> bytes option) \<Rightarrow> (bytes \<Rightarrow> 'e option) \<Rightarrow> 'e \<Rightarrow> bool" where
  "codec_ok ser des e \<longleftrightarrow> (case ser e of None \<Rightarrow> False | Some b \<Rightarrow> length b < 256 ^ 4 \<and> des b = Some e)"

definition record_bytes :: "('e \<Rightarrow> bytes option) \<Rightarrow> 'e \<Rightarrow> bytes" where
  "record_bytes ser e = (case ser e of None \<Rightarrow> [] | Some b \<Rightarrow> be_digits 4 (length b) @ b)"

definition file_bytes :: "('e \<Rightarrow> bytes option) \<Rightarrow> 'e list \<Rightarrow> bytes" where
  "file_bytes ser es = concat (map (record_bytes ser) es)"

definition offset_of :: "('e \<Rightarrow> bytes option) \<Rightarrow> 'e list \<Rightarrow> nat \<Rightarrow> nat" where
  "offset_of ser es k = length (file_bytes ser (take k es))"

lemma codec_okE:
  assumes "codec_ok ser des e"
  obtains b where "ser e = Some b" "length b < 256 ^ 4" "des b = Some e"
    "record_bytes ser e = be_digits 4 (length b) @ b"
  using assms by (auto simp: codec_ok_def record_bytes_def split: option.splits)

lemma file_bytes_Cons [simp]: "file_bytes ser (e # es) = record_bytes ser e @ file_bytes ser es"
  and file_bytes_append [simp]: "file_bytes ser (es @ fs) = file_bytes ser es @ file_bytes ser fs"
  and file_bytes_Nil [simp]: "file_bytes ser [] = []"
  by (simp_all add: file_bytes_def)

lemma offset_of_0 [simp]: "offset_of ser es 0 = 0"
  by (simp add: offset_of_def)

lemma offset_of_append: "k \<le> length es \<Longrightarrow> offset_of ser (es @ fs) k = offset_of ser es k"
  by (simp add: offset_of_def)

lemma offset_of_Suc: "k < length es \<Longrightarrow> offset_of ser es (Suc k) = offset_of ser es k + length (record_bytes ser (es ! k))"
  by (simp add: offset_of_def take_Suc_conv_app_nth)

lemma drop_offset:
  assumes "k < length es"
  shows "drop (offset_of ser es k) (file_bytes ser es) = record_bytes ser (es ! k) @ file_bytes ser (drop (Suc k) es)"
proof -
  have "file_bytes ser es = file_bytes ser (take k es) @ file_bytes ser (drop k es)"
    by (metis append_take_drop_id file_bytes_append)
  then have "drop (offset_of ser es k) (file_bytes ser es) = file_bytes ser (drop k es)"
    by (simp add: offset_of_def)
  also have "drop k es = es ! k # drop (Suc k) es" using assms by (simp add: Cons_nth_drop_Suc)
  finally show ?thesis by simp
qed

lemma header_at:
  assumes "k < length es" "ser (es ! k) = Some b" "length b < 256 ^ 4"
  shows "take 4 (drop (offset_of ser es k) (file_bytes ser es)) = be_digits 4 (length b)"
    and "take (length b) (drop (offset_of ser es k + 4) (file_bytes ser es)) = b"
  using drop_offset [OF assms(1), of ser] assms(2)
  by (simp_all add: record_bytes_def add.commute [of _ 4] flip: drop_drop)

lemma skip_record_at:
  assumes "k < length es" "codec_ok ser des (es ! k)"
  shows "skip_record (file_bytes ser es) (offset_of ser es k) = (True, offset_of ser es (Suc k))"
proof -
  obtain b where "ser (es ! k) = Some b" "length b < 256 ^ 4" "record_bytes ser (es ! k) = be_digits 4 (length b) @ b"
    using codec_okE [OF assms(2)] .
  then show ?thesis
    using header_at [of k es ser b] assms(1)
    by (simp add: skip_record_def HEADER_SIZE_def Let_def unpack_be_digits offset_of_Suc)
qed

lemma read_record_at:
  assumes "k < length es" "codec_ok ser des (es ! k)"
  shows "read_record des (file_bytes ser es) (offset_of ser es k) = (ReadEvent (es ! k), offset_of ser es (Suc k))"
proof -
  obtain b where "ser (es ! k) = Some b" "length b < 256 ^ 4" "des b = Some (es ! k)"
      "record_bytes ser (es ! k) = be_digits 4 (length b) @ b"
    using codec_okE [OF assms(2)] .
  then show ?thesis
    using header_at [of k es ser b] assms(1)
    by (simp add: read_record_def HEADER_SIZE_def Let_def unpack_be_digits offset_of_Suc del: length_take)
qed

lemma skip_records_at:
  "list_all (codec_ok ser des) es \<Longrightarrow> k + n \<le> length es \<Longrightarrow>
     skip_records (file_bytes ser es) n (offset_of ser es k) = offset_of ser es (k + n)"
proof (induction n arbitrary: k)
  case (Suc n)
  then show ?case by (simp add: skip_record_at [of k es ser des] list_all_length)
qed simp

lemma read_records_at:
  "list_all (codec_ok ser des) es \<Longrightarrow> k + n \<le> length es \<Longrightarrow>
     read_records des (file_bytes ser es) n (offset_of ser es k) = (take n (drop k es), offset_of ser es (k + n), False)"
proof (induction n arbitrary: k)
  case (Suc n)
  then have "drop k es = es ! k # drop (Suc k) es" by (simp add: Cons_nth_drop_Suc)
  with Suc show ?case by (simp add: read_record_at [of k es ser des] list_all_length)
qed simp

lemma encode_records_file: "list_all (codec_ok ser des) es \<Longrightarrow> encode_records ser es = Inr (file_bytes ser es)"
proof (induction es)
  case (Cons e es)
  obtain b where "ser e = Some b" "length b < 256 ^ 4" "record_bytes ser e = be_digits 4 (length b) @ b"
    using Cons.prems by (auto elim: codec_okE)
  with Cons show ?case by (simp add: to_bytes_def HEADER_SIZE_def)
qed simp

section \<open>The offset cache\<close>

definition cache_ok :: "('e \<Rightarrow> bytes option) \<Rightarrow> 'e list \<Rightarrow> int \<Rightarrow> (int, nat) dict \<Rightarrow> bool" where
  "cache_ok ser es base cache \<longleftrightarrow> dict_wf cache \<and> length cache \<le> OFFSET_CACHE_SIZE \<and>
     (\<forall>(i, offset) \<in> set cache. base \<le> i \<and> i \<le> base + int (length es) \<and> offset = offset_of ser es (nat (i - base)))"

lemma cache_ok_Nil [simp]: "cache_ok ser es base []"
  by (simp add: cache_ok_def)

lemma set_move_to_end: "dict_wf d \<Longrightarrow> set (move_to_end k d) = set d"
proof (cases "dict_get d k")
  case (Some v)
  assume "dict_wf d"
  then have "x \<in> set d \<Longrightarrow> fst x = k \<Longrightarrow> x = (k, v)" for x
    using map_of_SomeD [OF Some] by (cases x) (auto simp: dict_wf_def dest: eq_key_imp_eq_value)
  moreover have "(k, v) \<in> set d" using map_of_SomeD [OF Some] .
  moreover have "set (move_to_end k d) = {x \<in> set d. fst x \<noteq> k} \<union> {(k, v)}"
    using Some by (auto simp: move_to_end_def dict_pop_def)
  ultimately show ?thesis by blast
qed (simp add: move_to_end_def)

lemma dict_wf_move_to_end [dict_wf_intros]: "dict_wf d \<Longrightarrow> dict_wf (move_to_end k d)"
  by (auto simp: move_to_end_def dict_wf_def dict_pop_def distinct_map_filter split: option.splits)

lemma length_move_to_end: "dict_wf d \<Longrightarrow> length (move_to_end k d) = length d"
  using distinct_card [of d] distinct_card [of "move_to_end k d"] dict_wf_move_to_end [of d k]
  by (simp add: set_move_to_end dict_wf_def distinct_map)

lemma cache_ok_move: "cache_ok ser es base cache \<Longrightarrow> cache_ok ser es base (move_to_end k cache)"
  by (simp add: cache_ok_def set_move_to_end length_move_to_end dict_wf_move_to_end)

lemma cache_ok_append: "cache_ok ser es base cache \<Longrightarrow> cache_ok ser (es @ fs) base cache"
  by (auto simp: cache_ok_def offset_of_append)

lemma cache_ok_tl: "cache_ok ser es base cache \<Longrightarrow> cache_ok ser es base (tl cache)"
  by (cases cache) (auto simp: cache_ok_def dict_wf_def)

lemma cache_ok_store:
  assumes "cache_ok ser es base (offset_cache l)" "base \<le> i" "i \<le> base + int (length es)"
  shows "cache_ok ser es base (offset_cache (cache_offset i (offset_of ser es (nat (i - base))) l))"
proof -
  let ?d = "dict_set i (offset_of ser es (nat (i - base))) (offset_cache l)"
  have wf: "dict_wf ?d" using assms(1) by (simp add: cache_ok_def)
  have entries: "\<forall>(j, p) \<in> set (move_to_end i ?d). base \<le> j \<and> j \<le> base + int (length es) \<and> p = offset_of ser es (nat (j - base))"
    using assms set_dict_set_subset [of i _ "offset_cache l"] unfolding cache_ok_def set_move_to_end [OF wf] by blast
  have len: "length (move_to_end i ?d) \<le> Suc OFFSET_CACHE_SIZE"
    using assms(1) wf by (simp add: length_move_to_end length_dict_set cache_ok_def)
  have "dict_wf (tl (move_to_end i ?d))"
    using dict_wf_move_to_end [OF wf, of i] by (cases "move_to_end i ?d") (auto simp: dict_wf_def)
  moreover have "set (tl (move_to_end i ?d)) \<subseteq> set (move_to_end i ?d)"
    by (cases "move_to_end i ?d") auto
  ultimately show ?thesis
    using entries len dict_wf_move_to_end [OF wf, of i] unfolding cache_offset_def Let_def cache_ok_def by auto
qed

lemma scan_start_ok:
  assumes "cache_ok ser es (base_idx l) (offset_cache l)" "base_idx l \<le> target"
  obtains k where "scan_start target l = (base_idx l + int k, offset_of ser es k)" "base_idx l + int k \<le> target"
proof -
  let ?step = "\<lambda>(i, p) (j, q). if j < target then (j, q) else (i, p)"
  have "\<exists>k. foldl ?step (base_idx l + int k0, offset_of ser es k0) c = (base_idx l + int k, offset_of ser es k) \<and>
      base_idx l + int k \<le> target"
    if "set c \<subseteq> set (offset_cache l)" "base_idx l + int k0 \<le> target" for c k0
    using that
  proof (induction c arbitrary: k0)
    case (Cons x c)
    obtain j q where x: "x = (j, q)" by force
    then have "base_idx l \<le> j" "q = offset_of ser es (nat (j - base_idx l))"
      using Cons.prems(1) assms(1) by (auto simp: cache_ok_def)
    then show ?case
      using Cons.IH [of "nat (j - base_idx l)"] Cons.IH [of k0] Cons.prems x by (cases "j < target") auto
  qed auto
  from this [of "offset_cache l" 0] assms(2) that show thesis by (auto simp: scan_start_def)
qed

section \<open>A healthy log\<close>

definition log_holds :: "('e \<Rightarrow> bytes option) \<Rightarrow> (bytes \<Rightarrow> 'e option) \<Rightarrow> 'e list \<Rightarrow> disk_event_log \<Rightarrow> bool" where
  "log_holds ser des es l \<longleftrightarrow>
     \<not> persistence_failed l \<and> log_file l = OpenHandle \<and> active_file l = Some (file_bytes ser es) \<and>
     log_count l = int (length es) \<and> 0 \<le> base_idx l \<and> list_all (codec_ok ser des) es \<and>
     cache_ok ser es (base_idx l) (offset_cache l)"

lemma cache_offset_fields [simp]:
  "base_idx (cache_offset i p l) = base_idx l" "log_count (cache_offset i p l) = log_count l"
  "persistence_failed (cache_offset i p l) = persistence_failed l" "log_file (cache_offset i p l) = log_file l"
  "active_file (cache_offset i p l) = active_file l"
  by (simp_all add: cache_offset_def Let_def)

lemma seek_to_holds:
  assumes "log_holds ser des es l" "base_idx l \<le> target" "target \<le> log_len l"
  shows "\<exists>l'. seek_to (file_bytes ser es) target l = (offset_of ser es (nat (target - base_idx l)), l') \<and>
    log_holds ser des es l' \<and> base_idx l' = base_idx l \<and> log_count l' = log_count l"
proof -
  let ?k = "nat (target - base_idx l)"
  have cache: "cache_ok ser es (base_idx l) (offset_cache l)" and codec: "list_all (codec_ok ser des) es"
    using assms(1) by (simp_all add: log_holds_def)
  have bound: "target \<le> base_idx l + int (length es)"
    using assms(1,3) by (simp add: log_holds_def log_len_def)
  show ?thesis
  proof (cases "dict_get (offset_cache l) target")
    case (Some p)
    then have "p = offset_of ser es ?k" using cache map_of_SomeD by (force simp: cache_ok_def)
    then show ?thesis
      using Some assms(1) cache_ok_move [OF cache] by (simp add: seek_to_def log_holds_def)
  next
    case None
    obtain k where k: "scan_start target l = (base_idx l + int k, offset_of ser es k)" "base_idx l + int k \<le> target"
      using scan_start_ok [OF cache assms(2)] .
    have "k + nat (target - (base_idx l + int k)) = ?k" using k(2) by linarith
    then have "skip_records (file_bytes ser es) (nat (target - (base_idx l + int k))) (offset_of ser es k) = offset_of ser es ?k"
      using skip_records_at [OF codec, of k "nat (target - (base_idx l + int k))"] bound by simp
    then show ?thesis
      using None k assms(1) cache_ok_store [OF cache assms(2) bound] by (simp add: seek_to_def log_holds_def Let_def)
  qed
qed

lemma read_range_holds:
  assumes "log_holds ser des es l" "0 \<le> a" "0 \<le> b"
  shows "\<exists>l'. read_range des True a b l =
       (l', Inr (take (nat (min b (log_len l) - max a (base_idx l))) (drop (nat (max a (base_idx l) - base_idx l)) es))) \<and>
     log_holds ser des es l' \<and> base_idx l' = base_idx l \<and> log_count l' = log_count l"
proof (cases "max a (base_idx l) \<ge> min b (log_len l)")
  case True
  then have "nat (min b (log_len l) - max a (base_idx l)) = 0" by linarith
  with True assms show ?thesis unfolding read_range_def log_holds_def by (auto simp: Let_def)
next
  case False
  let ?a = "max a (base_idx l)" and ?b = "min b (log_len l)"
  let ?k = "nat (?a - base_idx l)" and ?n = "nat (?b - ?a)"
  have ab: "?a < ?b" and bounds: "base_idx l \<le> ?a" "?a \<le> log_len l" "base_idx l \<le> ?b" "?b \<le> log_len l" using False by auto
  obtain l1 where l1: "seek_to (file_bytes ser es) ?a l = (offset_of ser es ?k, l1)" "log_holds ser des es l1"
      "base_idx l1 = base_idx l" "log_count l1 = log_count l"
    using seek_to_holds [OF assms(1) bounds(1,2)] by blast
  have len: "log_len l = base_idx l + int (length es)" using assms(1) by (simp add: log_holds_def log_len_def)
  have kn: "?k + ?n = nat (?b - base_idx l)" "?k + ?n \<le> length es"
    using ab bounds len by (auto simp flip: nat_add_distrib)
  have "read_records des (file_bytes ser es) ?n (offset_of ser es ?k) =
      (take ?n (drop ?k es), offset_of ser es (nat (?b - base_idx l)), False)"
    using read_records_at [of ser des es ?k ?n] assms(1) kn by (simp add: log_holds_def)
  then have "read_range des True a b l =
      (if ?b < log_len l1 then cache_offset ?b (offset_of ser es (nat (?b - base_idx l))) l1 else l1, Inr (take ?n (drop ?k es)))"
    using assms False l1(1) by (simp add: read_range_def log_holds_def Let_def)
  moreover have "log_holds ser des es (cache_offset ?b (offset_of ser es (nat (?b - base_idx l))) l1)"
    using cache_ok_store [of ser es "base_idx l" l1 ?b] l1 bounds len by (simp add: log_holds_def)
  ultimately show ?thesis using l1 by auto
qed

definition healthy_append :: "append_io \<Rightarrow> bool" where
  "healthy_append io \<longleftrightarrow> write_torn io = None \<and> \<not> metadata_fails io \<and>
     (case free_space io of None \<Rightarrow> True | Some n \<Rightarrow> n \<ge> FREE_SPACE_FLOOR_BYTES)"

lemma append_holds:
  assumes "log_holds ser des es l" "healthy_append io" "codec_ok ser des e"
  shows "\<exists>l'. log_append ser io e l = (l', Inr ()) \<and> log_holds ser des (es @ [e]) l' \<and> base_idx l' = base_idx l"
proof -
  obtain b where b: "ser e = Some b" "length b < 256 ^ 4" "record_bytes ser e = be_digits 4 (length b) @ b"
    using codec_okE [OF assms(3)] .
  let ?l = "append_bytes (be_digits 4 (length b) @ b) l"
  have new: "log_holds ser des (es @ [e]) ?l" "base_idx ?l = base_idx l"
    using assms b by (auto simp: log_holds_def append_bytes_def cache_ok_append)
  have steps: "log_holds ser des fs (check_free_space io k) \<and> base_idx (check_free_space io k) = base_idx k"
    "log_holds ser des fs (write_metadata k) \<and> base_idx (write_metadata k) = base_idx k"
    if "log_holds ser des fs k" for fs k
    using that assms(2)
    by (auto simp: check_free_space_def log_holds_def healthy_append_def write_metadata_def Let_def split: option.splits)
  let ?k = "if log_count ?l mod METADATA_WRITE_INTERVAL_APPENDS = 0 then write_metadata ?l else ?l"
  have "log_append ser io e l = (check_free_space io ?k, Inr ())"
    using assms b by (simp add: log_append_def log_holds_def to_bytes_def HEADER_SIZE_def healthy_append_def Let_def)
  moreover have "log_holds ser des (es @ [e]) ?k" "base_idx ?k = base_idx l" using new steps(2) [OF new(1)] by auto
  ultimately show ?thesis using steps(1) by auto
qed

lemma compact_holds:
  fixes keep :: int
  assumes "log_holds ser des es l"
  defines "k \<equiv> min (max keep (base_idx l)) (log_len l)"
  shows "\<exists>l'. compact ser des True CompactOk keep l = (l', Inr ()) \<and>
    log_holds ser des (drop (nat (k - base_idx l)) es) l' \<and> base_idx l' = k"
proof (cases "k = base_idx l")
  case True
  with assms show ?thesis by (auto simp: compact_def Let_def log_holds_def)
next
  case False
  have len: "log_len l = base_idx l + int (length es)" using assms(1) by (simp add: log_holds_def log_len_def)
  then have k: "base_idx l < k" "k \<le> log_len l" "0 \<le> base_idx l" using False assms by (auto simp: log_holds_def)
  let ?l = "l\<lparr>offset_cache := []\<rparr>" and ?es = "drop (nat (k - base_idx l)) es"
  have "log_holds ser des es ?l" using assms(1) by (simp add: log_holds_def)
  from read_range_holds [OF this, of k "log_len l"] k obtain l1 where
    l1: "read_range des True k (log_len l) ?l = (l1, Inr ?es)" "log_holds ser des es l1" "base_idx l1 = base_idx l"
    using len by (auto simp: log_len_def)
  have "int (length ?es) = log_len l - k" using k len by simp
  moreover have codec: "list_all (codec_ok ser des) ?es"
    using assms(1) by (auto simp: log_holds_def list_all_length)
  ultimately have "compact ser des True CompactOk keep l =
      (write_metadata (l1\<lparr>active_file := Some (file_bytes ser ?es), base_idx := k, log_count := int (length ?es), offset_cache := []\<rparr>), Inr ())"
    using False l1 encode_records_file [OF codec] assms(1)
    by (simp add: compact_def Let_def log_holds_def flip: k_def)
  then show ?thesis using l1(2) codec k by (simp add: log_holds_def write_metadata_def)
qed

section \<open>Every log\<close>

lemma enter_degraded_mode_fields [simp]:
  "base_idx (enter_degraded_mode l) = base_idx l" "log_count (enter_degraded_mode l) = log_count l"
  "persistence_failed (enter_degraded_mode l)"
  by (simp_all add: enter_degraded_mode_def)

lemma log_len_degraded [simp]: "log_len (enter_degraded_mode l) = log_len l"
  by (simp add: log_len_def)

lemma log_len_append: "log_append ser io e l = (l', Inr ()) \<Longrightarrow> log_len l' = log_len l + 1"
  by (auto simp: log_append_def log_len_def append_bytes_def check_free_space_def write_metadata_def Let_def
      split: if_splits option.splits)

lemma append_raises_unchanged: "log_append ser io e l = (l', Inl x) \<Longrightarrow> l' = l"
  by (auto simp: log_append_def Let_def split: if_splits option.splits)

lemma seek_to_fields:
  "seek_to c i l = (p, l') \<Longrightarrow> base_idx l' = base_idx l \<and> log_count l' = log_count l"
  by (auto simp: seek_to_def Let_def split: option.splits prod.splits)

lemma read_range_fields:
  "read_range des io a b l = (l', r) \<Longrightarrow> base_idx l' = base_idx l \<and> log_count l' = log_count l"
  by (auto simp: read_range_def Let_def split: if_splits option.splits prod.splits dest!: seek_to_fields)

lemma log_len_compact: "log_len (fst (compact ser des read_io io k l)) = log_len l"
proof -
  let ?keep = "min (max k (base_idx l)) (log_len l)"
  obtain l1 r where r: "read_range des read_io ?keep (log_len l) (l\<lparr>offset_cache := []\<rparr>) = (l1, r)" by force
  have "base_idx l1 = base_idx l" "log_count l1 = log_count l" using read_range_fields [OF r] by simp_all
  then show ?thesis
    using r by (auto simp: compact_def Let_def log_len_def write_metadata_def split: sum.splits compact_io.splits)
qed

text \<open>The operations in the shape of the interface: the log after an operation, and its result.\<close>

definition disk_append :: "('e \<Rightarrow> bytes option) \<Rightarrow> append_io \<Rightarrow> 'e \<Rightarrow> disk_event_log \<Rightarrow> disk_event_log" where
  "disk_append ser io e l = fst (log_append ser io e l)"

definition append_raises :: "('e \<Rightarrow> bytes option) \<Rightarrow> append_io \<Rightarrow> 'e \<Rightarrow> disk_event_log \<Rightarrow> bool" where
  "append_raises ser io e l \<longleftrightarrow> snd (log_append ser io e l) \<noteq> Inr ()"

definition disk_compact ::
  "('e \<Rightarrow> bytes option) \<Rightarrow> (bytes \<Rightarrow> 'e option) \<Rightarrow> bool \<times> compact_io \<Rightarrow> int \<Rightarrow> disk_event_log \<Rightarrow> disk_event_log" where
  "disk_compact ser des io k l = fst (compact ser des (fst io) (snd io) k l)"

definition disk_read :: "(bytes \<Rightarrow> 'e option) \<Rightarrow> int \<Rightarrow> int \<Rightarrow> disk_event_log \<Rightarrow> disk_event_log \<times> 'e list" where
  "disk_read des a b l =
     (case read_range des True a b l of (l', r) \<Rightarrow> (l', case r of Inl x \<Rightarrow> [] | Inr es \<Rightarrow> es))"

interpretation disk: event_store "disk_append ser" "append_raises ser" "disk_compact ser des" log_len
  "log_holds ser des" base_idx "disk_read des" healthy_append "\<lambda>io. io = (True, CompactOk)" "codec_ok ser des"
  for ser :: "'e \<Rightarrow> bytes option" and des :: "bytes \<Rightarrow> 'e option"
proof (unfold_locales, goal_cases)
  case (1 io e l)
  then show ?case using log_len_append [of ser io e l "disk_append ser io e l"]
    by (simp add: append_raises_def disk_append_def prod_eq_iff)
next
  case (2 io e l)
  then show ?case using append_raises_unchanged [of ser io e l]
    by (cases "snd (log_append ser io e l)") (auto simp: append_raises_def disk_append_def prod_eq_iff)
next
  case (3 c k l)
  show ?case by (simp add: disk_compact_def log_len_compact)
next
  case (7 es l io e)
  from append_holds [OF 7] show ?case by (auto simp: disk_append_def append_raises_def)
next
  case (8 es l c k)
  from compact_holds [OF 8(1), of k] 8(2) show ?case by (auto simp: disk_compact_def)
next
  case (9 es l a b)
  from read_range_holds [OF 9] show ?case by (auto simp: disk_read_def)
qed (auto simp: log_holds_def log_len_def)

section \<open>Histories\<close>

text \<open>A history of operations with the outcomes of their system calls, on the log and on its
  specification: a start index and a list of events.\<close>

datatype 'e log_op = AppendOp append_io 'e | CompactOp "bool \<times> compact_io" int | ReadOp int int

fun log_step ::
  "('e \<Rightarrow> bytes option) \<Rightarrow> (bytes \<Rightarrow> 'e option) \<Rightarrow> 'e log_op \<Rightarrow> disk_event_log \<Rightarrow> disk_event_log \<times> 'e list" where
  "log_step ser des (AppendOp io e) l = (disk_append ser io e l, [])"
| "log_step ser des (CompactOp io k) l = (disk_compact ser des io k l, [])"
| "log_step ser des (ReadOp a b) l = disk_read des a b l"

fun run_log ::
  "('e \<Rightarrow> bytes option) \<Rightarrow> (bytes \<Rightarrow> 'e option) \<Rightarrow> 'e log_op list \<Rightarrow> disk_event_log \<Rightarrow> disk_event_log \<times> 'e list list" where
  "run_log ser des [] l = (l, [])"
| "run_log ser des (x # xs) l =
     (case log_step ser des x l of (l1, out) \<Rightarrow> case run_log ser des xs l1 of (l2, outs) \<Rightarrow> (l2, out # outs))"

fun spec_step :: "'e log_op \<Rightarrow> int \<times> 'e list \<Rightarrow> (int \<times> 'e list) \<times> 'e list" where
  "spec_step (AppendOp io e) (b, es) = ((b, es @ [e]), [])"
| "spec_step (CompactOp io k) (b, es) =
     (let k' = min (max k b) (b + int (length es)) in ((k', drop (nat (k' - b)) es), []))"
| "spec_step (ReadOp x y) (b, es) =
     ((b, es), if x < 0 \<or> y < 0 then []
               else map snd (filter (\<lambda>(i, e). x \<le> i \<and> i < y) (zip [b..b + int (length es) - 1] es)))"

fun run_spec :: "'e log_op list \<Rightarrow> int \<times> 'e list \<Rightarrow> (int \<times> 'e list) \<times> 'e list list" where
  "run_spec [] s = (s, [])"
| "run_spec (x # xs) s =
     (case spec_step x s of (s1, out) \<Rightarrow> case run_spec xs s1 of (s2, outs) \<Rightarrow> (s2, out # outs))"

fun op_healthy :: "('e \<Rightarrow> bytes option) \<Rightarrow> (bytes \<Rightarrow> 'e option) \<Rightarrow> 'e log_op \<Rightarrow> bool" where
  "op_healthy ser des (AppendOp io e) = (healthy_append io \<and> codec_ok ser des e)"
| "op_healthy ser des (CompactOp io k) = (io = (True, CompactOk))"
| "op_healthy ser des (ReadOp a b) = True"

definition healthy_init :: init_io where
  "healthy_init = \<lparr>mkdir_ok = True, unlink_metadata_ok = True, open_ok = True, init_metadata_ok = True\<rparr>"

lemma new_log_holds: "log_holds ser des [] (new_log healthy_init rot active meta archs) \<and>
  base_idx (new_log healthy_init rot active meta archs) = 0"
  by (auto simp: new_log_def healthy_init_def Let_def log_holds_def write_metadata_def rotate_def
      split: compress_outcome.splits option.splits)

lemma slice_by_index:
  "map snd (filter (\<lambda>(i, e). x \<le> i \<and> i < y) (zip [b..b + int (length es) - 1] es)) =
     take (nat (y - max x b)) (drop (nat (x - b)) es)"
proof (induction es arbitrary: b)
  case (Cons e es)
  have up: "[b..b + int (length (e # es)) - 1] = b # [b + 1..b + 1 + int (length es) - 1]"
    by (simp add: upto_rec1)
  consider "b < x" | "x \<le> b" "b < y" | "x \<le> b" "y \<le> b" by linarith
  then show ?case
  proof cases
    case 1
    then have "nat (x - b) = Suc (nat (x - (b + 1)))" "max x b = max x (b + 1)" by auto
    with 1 Cons [of "b + 1"] show ?thesis unfolding up by simp
  next
    case 2
    then have "nat (y - max x b) = Suc (nat (y - max x (b + 1)))" "nat (x - b) = 0" "nat (x - (b + 1)) = 0" by auto
    with 2 Cons [of "b + 1"] show ?thesis unfolding up by simp
  next
    case 3
    then have "nat (y - max x b) = 0" "nat (y - max x (b + 1)) = 0" by auto
    with 3 Cons [of "b + 1"] show ?thesis unfolding up by simp
  qed
qed simp

lemma clamped_slice:
  "take (nat (min y (b + int (length es)) - max x b)) (drop (nat (max x b - b)) es) =
     take (nat (y - max x b)) (drop (nat (x - b)) es)"
proof -
  have k: "nat (max x b - b) = nat (x - b)" by linarith
  have "min (nat (y - max x b)) (length (drop (nat (x - b)) es)) = nat (min y (b + int (length es)) - max x b)"
    unfolding length_drop by linarith
  moreover have "take n ys = take (min n (length ys)) ys" for n and ys :: "'a list"
    by (cases "n \<le> length ys") simp_all
  ultimately show ?thesis unfolding k by metis
qed

lemma disk_read_negative: "x < 0 \<or> y < 0 \<Longrightarrow> disk_read des x y l = (l, [])"
  by (auto simp: disk_read_def read_range_def)

lemma log_step_refines:
  assumes "log_holds ser des es l" "op_healthy ser des x"
  shows "\<exists>l' es' out. log_step ser des x l = (l', out) \<and> spec_step x (base_idx l, es) = ((base_idx l', es'), out) \<and>
    log_holds ser des es' l'"
proof (cases x)
  case (AppendOp io e)
  with disk.append_holds [OF assms(1), of io e] assms(2) show ?thesis by auto
next
  case (CompactOp io k)
  with disk.cut_holds [OF assms(1), of io k] assms(2) disk.holds_len [OF assms(1)] show ?thesis by (auto simp: Let_def)
next
  case (ReadOp a b)
  show ?thesis
  proof (cases "a < 0 \<or> b < 0")
    case True
    then show ?thesis using assms(1) ReadOp disk_read_negative [OF True] by auto
  next
    case False
    with disk.fetch_holds [OF assms(1), of a b] disk.holds_len [OF assms(1)] ReadOp show ?thesis
      by (auto simp: Let_def slice_by_index clamped_slice prod_eq_iff)
  qed
qed

lemma run_log_refines:
  assumes "log_holds ser des es l" "list_all (op_healthy ser des) xs"
  shows "\<exists>l' es' outs. run_log ser des xs l = (l', outs) \<and> run_spec xs (base_idx l, es) = ((base_idx l', es'), outs) \<and>
    log_holds ser des es' l'"
  using assms
proof (induction xs arbitrary: l es)
  case (Cons x xs)
  then obtain l1 es1 out where 1: "log_step ser des x l = (l1, out)" "spec_step x (base_idx l, es) = ((base_idx l1, es1), out)"
      "log_holds ser des es1 l1"
    using log_step_refines [of ser des es l x] by auto
  from Cons.IH [OF 1(3)] Cons.prems(2) 1(1,2) show ?case by fastforce
qed auto

text \<open>
  C5. The log on disk is a list.  Open a log in any directory and perform any history of appends,
  compactions and range reads whose system calls succeed, with events that encoder and decoder
  agree on: every read returns exactly the events whose absolute indices lie in the requested
  range, as kept by a plain list with a start index, and start index and length are the list's.
  Neither the offset cache, in any state of eviction, nor a compaction is ever visible.
\<close>

theorem disk_log_refines_list:
  assumes "list_all (op_healthy ser des) xs"
  shows "case run_spec xs (0, []) of ((b, es), outs) \<Rightarrow>
    case run_log ser des xs (new_log healthy_init rot active meta archs) of (l, outs') \<Rightarrow>
      outs' = outs \<and> base_idx l = b \<and> log_len l = b + int (length es) \<and>
      read_all des True l = Inr (es, False) \<and> length (offset_cache l) \<le> OFFSET_CACHE_SIZE"
proof -
  have "log_holds ser des [] (new_log healthy_init rot active meta archs)" using new_log_holds by blast
  from run_log_refines [OF this assms] obtain l es outs where
    "run_log ser des xs (new_log healthy_init rot active meta archs) = (l, outs)"
    "run_spec xs (0, []) = ((base_idx l, es), outs)" and l: "log_holds ser des es l"
    using new_log_holds [of ser des rot active meta archs] by auto
  moreover have "read_all des True l = Inr (es, False)"
    using l read_records_at [of ser des es 0 "length es"] by (auto simp: read_all_def log_holds_def)
  ultimately show ?thesis using disk.holds_len [OF l] l by (simp add: log_holds_def cache_ok_def)
qed

definition good_io :: append_io where
  "good_io = \<lparr>write_torn = None, metadata_fails = False, free_space = None\<rparr>"

definition no_rotation :: rotate_io where
  "no_rotation = \<lparr>archive_name = [], compress_result = CompressFails None, source_unlinks = True, unlinks = (\<lambda>_. True)\<rparr>"

definition nat_ser :: "nat \<Rightarrow> bytes option" where "nat_ser n = Some [n]"
definition nat_des :: "bytes \<Rightarrow> nat option" where "nat_des b = (case b of [n] \<Rightarrow> Some n | _ \<Rightarrow> None)"

definition demo_history :: "nat log_op list" where
  "demo_history = [AppendOp good_io 5, AppendOp good_io 6, AppendOp good_io 7, CompactOp (True, CompactOk) 1, AppendOp good_io 8, ReadOp 0 3]"

theorem disk_log_refines_list_witness:
  "snd (run_log nat_ser nat_des demo_history (new_log healthy_init no_rotation None None [])) = [[], [], [], [], [], [6, 7]]"
proof -
  have "list_all (op_healthy nat_ser nat_des) demo_history"
    by (simp add: demo_history_def healthy_append_def good_io_def codec_ok_def nat_ser_def nat_des_def)
  from disk_log_refines_list [OF this, of no_rotation None None "[]"]
  have "snd (run_log nat_ser nat_des demo_history (new_log healthy_init no_rotation None None [])) = snd (run_spec demo_history (0, []))"
    by (auto split: prod.splits)
  also have "\<dots> = [[], [], [], [], [], [6, 7]]" by code_simp
  finally show ?thesis .
qed

section \<open>Failures\<close>

definition counts_append :: "('e \<Rightarrow> bytes option) \<Rightarrow> 'e log_op \<Rightarrow> disk_event_log \<Rightarrow> nat" where
  "counts_append ser x l = (case x of AppendOp io e \<Rightarrow> if append_raises ser io e l then 0 else 1 | _ \<Rightarrow> 0)"

fun append_count :: "('e \<Rightarrow> bytes option) \<Rightarrow> (bytes \<Rightarrow> 'e option) \<Rightarrow> 'e log_op list \<Rightarrow> disk_event_log \<Rightarrow> nat" where
  "append_count ser des [] l = 0"
| "append_count ser des (x # xs) l = counts_append ser x l + append_count ser des xs (fst (log_step ser des x l))"

lemma log_len_read: "log_len (fst (disk_read des a b l)) = log_len l"
  using read_range_fields [of des True a b l] by (simp add: disk_read_def log_len_def split: prod.splits)

lemma log_len_step: "log_len (fst (log_step ser des x l)) = log_len l + int (counts_append ser x l)"
proof (cases x)
  case (AppendOp io e)
  then show ?thesis
    using disk.append_len [of ser io e l] disk.append_raises [of ser io e l] by (simp add: counts_append_def)
qed (simp_all add: counts_append_def log_len_read disk.cut_len)

lemma degraded_forever: "persistence_failed l \<Longrightarrow> persistence_failed (fst (log_step ser des x l))"
  by (cases x) (auto simp: disk_append_def log_append_def disk_compact_def compact_def disk_read_def read_range_def)

lemma append_total:
  assumes "codec_ok ser des e" "persistence_failed l \<or> log_file l = OpenHandle"
  shows "\<not> append_raises ser io e l"
proof -
  obtain b where "ser e = Some b" "length b < 256 ^ 4" using codec_okE [OF assms(1)] .
  with assms(2) show ?thesis
    by (auto simp: append_raises_def log_append_def to_bytes_def HEADER_SIZE_def Let_def split: option.splits)
qed

lemma fst_run_log [simp]: "fst (run_log ser des (x # xs) l) = fst (run_log ser des xs (fst (log_step ser des x l)))"
  by (simp split: prod.splits)

lemma run_log_len: "log_len (fst (run_log ser des xs l)) = log_len l + int (append_count ser des xs l)"
  by (induction xs arbitrary: l) (simp_all add: log_len_step del: run_log.simps(2))

lemma run_log_degraded: "persistence_failed l \<Longrightarrow> persistence_failed (fst (run_log ser des xs l))"
  by (induction xs arbitrary: l) (simp_all add: degraded_forever del: run_log.simps(2))

text \<open>
  Event indices survive every disk failure.  Take any history of operations, each write, flush,
  rename, metadata update or space query succeeding or failing in any combination.  The length of
  the log, from which the master derives the index of the next event, grows by exactly one for each
  append that returns and never otherwise; a failed or refused compaction does not change it; an
  append of an encodable event to an open or degraded log always returns; and a degraded log stays
  degraded, so it never serves a partial tail.
\<close>

theorem log_length_counts_appends:
  "log_len (fst (run_log ser des xs l)) = log_len l + int (append_count ser des xs l) \<and>
   (codec_ok ser des e \<and> (persistence_failed l \<or> log_file l = OpenHandle) \<longrightarrow> \<not> append_raises ser io e l) \<and>
   (persistence_failed l \<longrightarrow> persistence_failed (fst (run_log ser des xs l)) \<and>
      snd (disk_read des a b (fst (run_log ser des xs l))) = [])"
  using append_total [of ser des e l io] run_log_degraded [of l ser des xs]
  by (auto simp: run_log_len disk_read_def read_range_def)

definition full_disk :: append_io where
  "full_disk = \<lparr>write_torn = Some [0, 0], metadata_fails = True, free_space = None\<rparr>"

theorem log_length_counts_appends_witness:
  "\<not> append_raises nat_ser full_disk 6 (new_log healthy_init no_rotation None None []) \<and>
   log_len (fst (run_log nat_ser nat_des [AppendOp full_disk 6, AppendOp good_io 7]
      (new_log healthy_init no_rotation None None []))) = 2"
proof -
  have "codec_ok nat_ser nat_des 6" by (simp add: codec_ok_def nat_ser_def nat_des_def)
  moreover have "log_file (new_log healthy_init no_rotation None None []) = OpenHandle" by code_simp
  moreover have "log_len (new_log healthy_init no_rotation None None []) = 0" by code_simp
  moreover have "append_count nat_ser nat_des [AppendOp full_disk 6, AppendOp good_io 7] (new_log healthy_init no_rotation None None []) = 2"
    by (simp add: counts_append_def append_raises_def disk_append_def log_append_def new_log_def healthy_init_def
        nat_ser_def to_bytes_def HEADER_SIZE_def full_disk_def good_io_def write_metadata_def append_bytes_def
        enter_degraded_mode_def)
  ultimately show ?thesis
    using log_length_counts_appends [of nat_ser nat_des "[AppendOp full_disk 6, AppendOp good_io 7]"
        "new_log healthy_init no_rotation None None []" 6 full_disk] by simp
qed

text \<open>Rotation removes archives from the front of the list sorted by name.\<close>

lemma unlink_all_ok:
  "\<forall>f. can f \<Longrightarrow> unlink_all can fs d = (True, filter (\<lambda>(f, n). f \<notin> set fs) d)"
  by (induction fs arbitrary: d) (auto simp: dict_pop_def intro!: filter_cong)

lemma sort_key_distinct_drop:
  assumes "distinct (map fst xs)"
  shows "sort_key fst (filter (\<lambda>(f, n). f \<notin> set (map fst (take k (sort_key fst xs)))) xs) = drop k (sort_key fst xs)"
proof -
  let ?s = "sort_key fst xs" and ?P = "\<lambda>(f, n). f \<notin> set (map fst (take k (sort_key fst xs)))"
  have d: "distinct (map fst ?s)" using assms by (simp add: distinct_map)
  have "sort_key fst (filter ?P xs) = filter ?P ?s" by (simp add: filter_sort)
  also have "\<dots> = filter ?P (take k ?s) @ filter ?P (drop k ?s)" by (metis append_take_drop_id filter_append)
  also have "filter ?P (take k ?s) = []" by (force simp: filter_empty_conv)
  also have "filter ?P (drop k ?s) = drop k ?s"
  proof (rule filter_True, rule ballI)
    fix x assume x: "x \<in> set (drop k ?s)"
    have "set (map fst (take k ?s)) \<inter> set (map fst (drop k ?s)) = {}"
      using d by (metis append_take_drop_id distinct_append map_append)
    with x show "?P x" by (auto simp: case_prod_beta)
  qed
  finally show ?thesis by simp
qed

lemma enforce_budget_ok:
  "\<forall>f. can f \<Longrightarrow> \<exists>j. enforce_budget can (sum_list (map snd s)) s d =
        filter (\<lambda>(f, n). f \<notin> set (map fst (take j s))) d \<and>
      sum_list (map snd (drop j s)) \<le> MAX_ARCHIVE_TOTAL_BYTES \<and>
      (\<forall>i < j. MAX_ARCHIVE_TOTAL_BYTES < sum_list (map snd (drop i s)))"
proof (induction s arbitrary: d)
  case (Cons x s)
  obtain f n where x: "x = (f, n)" by force
  show ?case
  proof (cases "sum_list (map snd (x # s)) \<le> MAX_ARCHIVE_TOTAL_BYTES")
    case True
    then show ?thesis using x by (intro exI [of _ 0]) auto
  next
    case False
    obtain j where j: "enforce_budget can (sum_list (map snd s)) s (dict_pop f d) =
          filter (\<lambda>(f, n). f \<notin> set (map fst (take j s))) (dict_pop f d)"
        "sum_list (map snd (drop j s)) \<le> MAX_ARCHIVE_TOTAL_BYTES"
        "\<forall>i < j. MAX_ARCHIVE_TOTAL_BYTES < sum_list (map snd (drop i s))"
      using Cons by metis
    have "MAX_ARCHIVE_TOTAL_BYTES < sum_list (map snd (drop i (x # s)))" if "i < Suc j" for i
      using that j(3) False by (cases i) auto
    moreover have "enforce_budget can (sum_list (map snd (x # s))) (x # s) d =
        filter (\<lambda>(f, n). f \<notin> set (map fst (take (Suc j) (x # s)))) d"
      using False x j(1) Cons.prems by (auto simp: dict_pop_def intro!: filter_cong)
    ultimately show ?thesis using j(2) by (intro exI [of _ "Suc j"]) simp
  qed
qed (auto simp: MAX_ARCHIVE_TOTAL_BYTES_def)

lemma prune_archives_ok:
  assumes "\<forall>f. can f" "dict_wf d"
  defines "s \<equiv> sort_key fst d"
  obtains k where "sort_key fst (prune_archives can d) = drop k s" "length (drop k s) \<le> MAX_ARCHIVES"
    "sum_list (map snd (drop k s)) \<le> MAX_ARCHIVE_TOTAL_BYTES"
    "\<forall>i < k. MAX_ARCHIVES < length (drop i s) \<or> MAX_ARCHIVE_TOTAL_BYTES < sum_list (map snd (drop i s))"
proof -
  let ?k = "length d - MAX_ARCHIVES"
  let ?d = "filter (\<lambda>(f, n). f \<notin> set (map fst (take ?k s))) d"
  have len: "length s = length d" by (simp add: s_def)
  have first: "sort_key fst ?d = drop ?k s"
    using assms(2) sort_key_distinct_drop [of d ?k] by (simp add: dict_wf_def s_def)
  obtain j where j: "enforce_budget can (sum_list (map snd (drop ?k s))) (drop ?k s) ?d =
        filter (\<lambda>(f, n). f \<notin> set (map fst (take j (drop ?k s)))) ?d"
      "sum_list (map snd (drop j (drop ?k s))) \<le> MAX_ARCHIVE_TOTAL_BYTES"
      "\<forall>i < j. MAX_ARCHIVE_TOTAL_BYTES < sum_list (map snd (drop i (drop ?k s)))"
    using enforce_budget_ok [OF assms(1)] by blast
  have "prune_archives can d = filter (\<lambda>(f, n). f \<notin> set (map fst (take j (sort_key fst ?d)))) ?d"
    using j(1) first by (simp add: prune_archives_def Let_def unlink_all_ok [OF assms(1)] flip: s_def)
  moreover have "distinct (map fst ?d)" using assms(2) by (simp add: dict_wf_def distinct_map_filter)
  ultimately have "sort_key fst (prune_archives can d) = drop j (drop ?k s)"
    using sort_key_distinct_drop [of ?d j] first by simp
  moreover have "MAX_ARCHIVES < length (drop i s) \<or> MAX_ARCHIVE_TOTAL_BYTES < sum_list (map snd (drop i s))"
    if "i < ?k + j" for i
    using that j(3) [rule_format, of "i - ?k"] len by (cases "i < ?k") auto
  ultimately show thesis using j(2) len by (intro that [of "?k + j"]) (auto simp: add.commute)
qed

text \<open>
  Archives stay within their budget.  When a log is rotated and files can be removed, at most
  five archives remain, their sizes sum to at most one GiB, they are the newest ones (a suffix of
  the list sorted by time stamp), no more were removed than the two limits demand, and the active
  file is gone.
\<close>

theorem rotation_bounds_archives:
  assumes "dict_wf (archives l)" and "compress_result io = Compressed n" and "source_unlinks io"
    and "\<forall>f. unlinks io f"
  shows "let s = sort_key fst (dict_set (archive_name io) n (archives l)) in
    \<exists>k. sort_key fst (archives (rotate io l)) = drop k s \<and> length (drop k s) \<le> MAX_ARCHIVES \<and>
      sum_list (map snd (drop k s)) \<le> MAX_ARCHIVE_TOTAL_BYTES \<and>
      (\<forall>i < k. MAX_ARCHIVES < length (drop i s) \<or> MAX_ARCHIVE_TOTAL_BYTES < sum_list (map snd (drop i s))) \<and>
      active_file (rotate io l) = None"
proof -
  have "dict_wf (dict_set (archive_name io) n (archives l))" using assms(1) by simp
  then show ?thesis
    by (rule prune_archives_ok [OF assms(4)]) (use assms(2,3) in \<open>auto simp: rotate_def Let_def\<close>)
qed

definition old_archives :: "(string, nat) dict" where
  "old_archives = [(''e5'', 10), (''e4'', 10), (''e3'', 10), (''e2'', 10), (''e1'', 10)]"

definition archive_log :: disk_event_log where
  "archive_log = (new_log healthy_init no_rotation None None [])\<lparr>archives := old_archives\<rparr>"

definition rotation :: rotate_io where
  "rotation = \<lparr>archive_name = ''e6'', compress_result = Compressed 10, source_unlinks = True, unlinks = (\<lambda>_. True)\<rparr>"

theorem rotation_bounds_archives_witness: "length (sort_key fst (archives (rotate rotation archive_log))) \<le> MAX_ARCHIVES"
proof -
  have "archives archive_log = old_archives" by (simp add: archive_log_def)
  moreover have "dict_wf old_archives" by code_simp
  ultimately show ?thesis
    using rotation_bounds_archives [of archive_log rotation 10]
    by (auto simp: rotation_def Let_def simp del: length_drop length_sort)
qed

definition picky_des :: "bytes \<Rightarrow> nat option" where
  "picky_des b = (case b of [n] \<Rightarrow> if n = 0 then None else Some n | _ \<Rightarrow> None)"

definition three_records :: disk_event_log where
  "three_records = (new_log healthy_init no_rotation None None [])\<lparr>log_count := 3, active_file := Some (file_bytes nat_ser [0, 1, 2])\<rparr>"

text \<open>
  A read that fails to decode a record poisons the offset cache.  \<open>read_range\<close> clears the cache
  and leaves the loop, but then still records the cursor as the offset of the range's end.  Here
  the first of three records cannot be decoded; a later read of the third event returns the second
  one, while a log that never attempted the failing read returns the third.
\<close>

theorem failed_read_poisons_cache:
  "snd (read_range picky_des True 0 2 three_records) = Inr [] \<and>
   snd (read_range picky_des True 2 3 (fst (read_range picky_des True 0 2 three_records))) = Inr [1] \<and>
   snd (read_range picky_des True 2 3 three_records) = Inr [2]"
  by code_simp

end
