(* ===== verification/Master_Pipeline.thy ===== *)
theory Master_Pipeline
  imports Event_Router Disk_Log_Refinement
begin

text \<open>
  The master's event pipeline in \<^verbatim>\<open>src/skulk/master/main.py\<close>: reports of the nodes are brought
  into order per source, indexed, applied, logged and broadcast; followers that miss events ask for
  a replay of the log; snapshots of the state let the log be cut.

  One call of \<open>process_local_event\<close> is one round of the \<open>_event_processor\<close> loop.  The telemetry view,
  the growth monitor and rate-limited warnings, which the pipeline only feeds, are left out.
  \<open>stamp\<close> is the text of the master's clock.
\<close>

section \<open>Model\<close>

definition EVENT_LOG_REPLAY_BATCH_SIZE :: int where "EVENT_LOG_REPLAY_BATCH_SIZE = 10000"
definition SNAPSHOT_EVENT_CADENCE :: int where "SNAPSHOT_EVENT_CADENCE = 10000"
definition REPLAY_TAIL_RETENTION_EVENTS :: int where "REPLAY_TAIL_RETENTION_EVENTS = SNAPSHOT_EVENT_CADENCE"

record 'g master =
  ms_node_id :: node_id
  ms_session_id :: session_id
  ms_state :: "'g state"
  ms_buffer :: "(system_id, 'g event) multi_source_buffer"
  ms_log :: disk_event_log
  ms_command_task :: "(command_id, task_id) dict"
  ms_realtime :: "(command_id, instance_id) dict"
  ms_reservations :: "(instance_id, opaque) dict"
  ms_last_snapshot_idx :: int
  ms_cadence :: int
  ms_pending_replay :: "int option"
  ms_replay_running :: bool
  ms_active_next :: "int option"
  ms_active_end :: "int option"

datatype 'g master_error =
    ConflictError "'g event conflict"
  | ReducerError py_error
  | LogError log_error

text \<open>Outcomes of the calls of one indexed event: the clock's text, the append, whether the snapshot
  can be written, and the compaction.\<close>

record index_io =
  io_stamp :: string
  io_append :: append_io
  io_snapshot_ok :: bool
  io_compact :: "bool \<times> compact_io"

definition apply_indexed_event ::
  "'g rx_ops \<Rightarrow> (string \<Rightarrow> datetime option) \<Rightarrow> 'g indexed_event \<Rightarrow> 'g master \<Rightarrow> py_error + 'g master" where
  "apply_indexed_event rx p ie m =
     (case apply_event rx p (ms_state m) ie of
        Inl x \<Rightarrow> Inl x
      | Inr st \<Rightarrow>
          Inr (let m1 = m\<lparr>ms_state := st\<rparr>
               in case event_body (event ie) of
                    InstanceCreated inst \<Rightarrow> m1\<lparr>ms_reservations := dict_pop (inst_id inst) (ms_reservations m1)\<rparr>
                  | InstanceDeleted iid \<Rightarrow> m1\<lparr>ms_reservations := dict_pop iid (ms_reservations m1)\<rparr>
                  | _ \<Rightarrow> m1))"

text \<open>The event as it is logged and broadcast: \<open>event.when\<close> is overwritten after it was applied.\<close>

definition stamp_event :: "string \<Rightarrow> 'g event \<Rightarrow> 'g event" where
  "stamp_event stamp e =
     (case event_body e of
        NodeGatheredInfo node reported info \<Rightarrow> e\<lparr>event_body := NodeGatheredInfo node stamp info\<rparr>
      | _ \<Rightarrow> e)"

definition send_event :: "'g master \<Rightarrow> 'g indexed_event \<Rightarrow> 'g global_forwarder_event" where
  "send_event m ie = \<lparr>gf_origin_idx = idx ie, gf_origin = ms_node_id m, gf_session = ms_session_id m, gf_event = event ie\<rparr>"

definition persist_snapshot ::
  "('g event \<Rightarrow> bytes option) \<Rightarrow> (bytes \<Rightarrow> 'g event option) \<Rightarrow> bool \<Rightarrow> bool \<Rightarrow> bool \<times> compact_io \<Rightarrow> 'g master
     \<Rightarrow> log_error + 'g master" where
  "persist_snapshot ser des force write_ok cio m =
     (let snapshot_idx = last_event_applied_idx (ms_state m)
      in if snapshot_idx < 0 then Inr m
         else if \<not> force \<and> snapshot_idx - ms_last_snapshot_idx m < ms_cadence m then Inr m
         else if snapshot_idx = ms_last_snapshot_idx m then Inr m
         else if \<not> write_ok then Inr m
         else let keep_from_idx = max (snapshot_idx + 1 - REPLAY_TAIL_RETENTION_EVENTS) 0
              in case compact ser des (fst cio) (snd cio) keep_from_idx (ms_log m) of
                   (l, Inl x) \<Rightarrow> Inl x
                 | (l, Inr _) \<Rightarrow> Inr (m\<lparr>ms_log := l, ms_last_snapshot_idx := snapshot_idx\<rparr>))"

text \<open>The bookkeeping of commands for a task that is deleted or done.\<close>

definition finished_task :: "'g event_body \<Rightarrow> task_id option" where
  "finished_task b =
     (case b of
        TaskFailed tid t msg \<Rightarrow> Some tid
      | TaskStatusUpdated tid s \<Rightarrow> if s \<notin> {Pending, Running} then Some tid else None
      | _ \<Rightarrow> None)"

definition forget_commands :: "'g event_body \<Rightarrow> 'g master \<Rightarrow> 'g master" where
  "forget_commands b m =
     (let m1 = (case b of
                  TaskDeleted tid \<Rightarrow>
                    (let cmds = map fst (filter (\<lambda>(c, t). t = tid) (ms_command_task m))
                     in m\<lparr>ms_command_task := foldl (\<lambda>d c. dict_pop c d) (ms_command_task m) cmds,
                          ms_realtime := foldl (\<lambda>d c. dict_pop c d) (ms_realtime m) cmds\<rparr>)
                | _ \<Rightarrow> m)
      in case finished_task b of
           None \<Rightarrow> m1
         | Some tid \<Rightarrow>
             m1\<lparr>ms_realtime := foldl (\<lambda>d c. dict_pop c d) (ms_realtime m1)
                  (map fst (filter (\<lambda>(c, t). t = tid) (ms_command_task m1)))\<rparr>)"

text \<open>The task of a task-lifecycle event.\<close>

definition lifecycle_task :: "'g event_body \<Rightarrow> task_id option" where
  "lifecycle_task b =
     (case b of
        TaskStatusUpdated tid s \<Rightarrow> Some tid
      | TaskDeleted tid \<Rightarrow> Some tid
      | TaskFailed tid t msg \<Rightarrow> Some tid
      | _ \<Rightarrow> None)"

definition index_event ::
  "'g rx_ops \<Rightarrow> (string \<Rightarrow> datetime option) \<Rightarrow> ('g event \<Rightarrow> bytes option) \<Rightarrow> (bytes \<Rightarrow> 'g event option) \<Rightarrow> index_io
     \<Rightarrow> 'g event \<Rightarrow> 'g master \<Rightarrow> 'g master_error + 'g master \<times> 'g global_forwarder_event list" where
  "index_event rx p ser des io e m =
     (let i = log_len (ms_log m)
      in case apply_indexed_event rx p \<lparr>idx = i, event = e\<rparr> m of
           Inl x \<Rightarrow> Inl (ReducerError x)
         | Inr m1 \<Rightarrow>
             (let e' = stamp_event (io_stamp io) e
              in case log_append ser (io_append io) e' (ms_log m1) of
                   (l, Inl x) \<Rightarrow> Inl (LogError x)
                 | (l, Inr _) \<Rightarrow>
                     (case persist_snapshot ser des False (io_snapshot_ok io) (io_compact io) (m1\<lparr>ms_log := l\<rparr>) of
                        Inl x \<Rightarrow> Inl (LogError x)
                      | Inr m2 \<Rightarrow> Inr (m2, [send_event m1 \<lparr>idx = i, event = e'\<rparr>]))))"

definition process_event ::
  "'g rx_ops \<Rightarrow> (string \<Rightarrow> datetime option) \<Rightarrow> ('g event \<Rightarrow> bytes option) \<Rightarrow> (bytes \<Rightarrow> 'g event option) \<Rightarrow> index_io
     \<Rightarrow> 'g event \<Rightarrow> 'g master \<Rightarrow> 'g master_error + 'g master \<times> 'g global_forwarder_event list" where
  "process_event rx p ser des io e m =
     (let m1 = forget_commands (event_body e) m
      in case lifecycle_task (event_body e) of
           Some tid \<Rightarrow> if \<not> dict_has (tasks (ms_state m1)) tid then Inr (m1, []) else index_event rx p ser des io e m1
         | None \<Rightarrow> index_event rx p ser des io e m1)"

text \<open>The loop over the drained events; \<open>io k\<close> are the outcomes for the \<open>k\<close>-th of them.\<close>

fun process_events ::
  "'g rx_ops \<Rightarrow> (string \<Rightarrow> datetime option) \<Rightarrow> ('g event \<Rightarrow> bytes option) \<Rightarrow> (bytes \<Rightarrow> 'g event option)
     \<Rightarrow> (nat \<Rightarrow> index_io) \<Rightarrow> 'g event list \<Rightarrow> 'g master \<Rightarrow> 'g master_error + 'g master \<times> 'g global_forwarder_event list" where
  "process_events rx p ser des io [] m = Inr (m, [])"
| "process_events rx p ser des io (e # es) m =
     (case process_event rx p ser des (io 0) e m of
        Inl x \<Rightarrow> Inl x
      | Inr (m1, out) \<Rightarrow>
          (case process_events rx p ser des (io \<circ> Suc) es m1 of
             Inl x \<Rightarrow> Inl x
           | Inr (m2, outs) \<Rightarrow> Inr (m2, out @ outs)))"

definition process_local_event ::
  "('g event \<Rightarrow> (string \<times> opaque) option) \<Rightarrow> 'g rx_ops \<Rightarrow> (string \<Rightarrow> datetime option) \<Rightarrow> ('g event \<Rightarrow> bytes option)
     \<Rightarrow> (bytes \<Rightarrow> 'g event option) \<Rightarrow> (nat \<Rightarrow> index_io) \<Rightarrow> 'g local_forwarder_event \<Rightarrow> 'g master
     \<Rightarrow> 'g master_error + 'g master \<times> 'g global_forwarder_event list" where
  "process_local_event dump rx p ser des io le m =
     (if lf_session le \<noteq> ms_session_id m then Inr (m, [])
      else case (if \<not> is_persistable_control_event (event_body (lf_event le))
                 then Inr (ms_skip (lf_origin_idx le) (lf_origin le) (ms_buffer m))
                 else ms_ingest dump (lf_origin_idx le) (lf_event le) (lf_origin le) (ms_buffer m)) of
             Inl x \<Rightarrow> Inl (ConflictError x)
           | Inr buffer \<Rightarrow>
               (case ms_drain buffer of (es, buffer') \<Rightarrow> process_events rx p ser des io es (m\<lparr>ms_buffer := buffer'\<rparr>)))"

text \<open>Replay requests are coalesced onto one worker.\<close>

definition schedule_event_log_replay :: "int \<Rightarrow> 'g master \<Rightarrow> 'g master" where
  "schedule_event_log_replay since_idx m =
     (if (case (ms_active_next m, ms_active_end m) of
            (Some active_next, Some active_end) \<Rightarrow> active_next \<le> since_idx \<and> since_idx < active_end
          | _ \<Rightarrow> False) then m
      else m\<lparr>ms_pending_replay := (case ms_pending_replay m of None \<Rightarrow> Some since_idx | Some q \<Rightarrow> Some (min q since_idx)),
             ms_replay_running := True\<rparr>)"

text \<open>One round of the loop of \<open>_drain_event_log_replays\<close>, up to the first event that is sent: what
  \<open>_serve_event_log_replay\<close> is about to send.  Then each event that is sent moves \<open>ms_active_next\<close>, and
  the loop's end clears the range.\<close>

definition serve_event_log_replay ::
  "(bytes \<Rightarrow> 'g event option) \<Rightarrow> int \<Rightarrow> 'g master \<Rightarrow> 'g master \<times> 'g indexed_event list" where
  "serve_event_log_replay des requested_start m =
     (let retained_start = max requested_start (base_idx (ms_log m));
          replay_start = min retained_start (log_len (ms_log m));
          replay_end = min (replay_start + EVENT_LOG_REPLAY_BATCH_SIZE) (log_len (ms_log m));
          (l, es) = disk_read des replay_start replay_end (ms_log m)
      in (m\<lparr>ms_log := l, ms_active_next := Some replay_start, ms_active_end := Some replay_end\<rparr>,
          map (\<lambda>(i, e). \<lparr>idx = i, event = e\<rparr>) (zip [replay_start..replay_end - 1] es)))"

definition replay_round :: "(bytes \<Rightarrow> 'g event option) \<Rightarrow> 'g master \<Rightarrow> 'g master \<times> 'g indexed_event list" where
  "replay_round des m =
     (case ms_pending_replay m of
        Some requested_start \<Rightarrow> serve_event_log_replay des requested_start (m\<lparr>ms_pending_replay := None\<rparr>)
      | None \<Rightarrow> (m\<lparr>ms_active_next := None, ms_active_end := None, ms_replay_running := False\<rparr>, []))"

definition replay_sent :: "'g indexed_event \<Rightarrow> 'g master \<Rightarrow> 'g master \<times> 'g global_forwarder_event" where
  "replay_sent ie m = (m\<lparr>ms_active_next := Some (idx ie + 1)\<rparr>, send_event m ie)"

text \<open>\<open>_state_sync_processor\<close>; \<open>config\<close> is the text of the node's configuration.\<close>

definition state_sync_processor ::
  "opaque option \<Rightarrow> 'g state_sync_message \<Rightarrow> 'g master \<Rightarrow> 'g state_sync_message option" where
  "state_sync_processor config msg m =
     (if sy_kind msg \<noteq> SyncRequest then None
      else if sy_session_id msg \<noteq> ms_session_id m then None
      else Some \<lparr>sy_kind = SyncResponse, sy_requester = sy_requester msg, sy_session_id = ms_session_id m,
             sy_snapshot = Some \<lparr>ss_session_id = ms_session_id m,
                ss_last_event_applied_idx = last_event_applied_idx (ms_state m), ss_state = ms_state m\<rparr>,
             sy_config_yaml = config\<rparr>)"

end
