(* ===== verification/Master_Pipeline_Proofs.thy ===== *)
theory Master_Pipeline_Proofs
  imports Master_Pipeline
begin

text \<open>
  What the master logs and broadcasts reproduces its own state, up to the liveness clock; a replay
  re-sends exactly what was broadcast; and no replay request is lost.
\<close>

section \<open>The clock is not control state\<close>

definition same_but_clock :: "'g state \<Rightarrow> 'g state \<Rightarrow> bool" where
  "same_but_clock s t \<longleftrightarrow> s\<lparr>last_seen := []\<rparr> = t\<lparr>last_seen := []\<rparr> \<and> dict_keys (last_seen s) = dict_keys (last_seen t)"

lemma same_but_clock_iff:
  "same_but_clock s t \<longleftrightarrow> t = s\<lparr>last_seen := last_seen t\<rparr> \<and> dict_keys (last_seen s) = dict_keys (last_seen t)"
  by (cases s; cases t) (auto simp: same_but_clock_def)

lemma same_but_clock_refl [simp]: "same_but_clock s s"
  by (simp add: same_but_clock_def)

definition stamp_body :: "string \<Rightarrow> 'g event_body \<Rightarrow> 'g event_body" where
  "stamp_body stamp b = (case b of NodeGatheredInfo node reported info \<Rightarrow> NodeGatheredInfo node stamp info | _ \<Rightarrow> b)"

lemma dict_keys_update: "dict_keys d = dict_keys d' \<Longrightarrow> dict_keys (dict_set k v d) = dict_keys (dict_set k v' d')"
proof (induction d arbitrary: d')
  case (Cons x d)
  then show ?case by (cases d'; cases x) (auto simp: dict_set_def)
qed (auto simp: dict_set_def)

lemma dict_keys_filter: "dict_keys (dict_filter (\<lambda>k v. P k) d) = filter P (dict_keys d)"
  by (induction d) (auto simp: dict_filter_def)

lemma reap_keys:
  "dict_keys seen = dict_keys seen' \<Longrightarrow> reap rx seen cs t = reap rx seen' cs t"
proof (induction rx seen cs t rule: reap.induct)
  case (1 rx seen cs t)
  have "dict_has seen c = dict_has seen' c" for c using 1(3) by (simp add: dict_has_iff_keys del: set_map)
  then show ?case using 1 by (simp add: reap.simps [of rx seen cs t] reap.simps [of rx seen' cs t] Let_def)
qed

lemma event_apply_reclock:
  assumes "event_apply rx p b s = Inr s'" and "\<forall>node w info. b = NodeGatheredInfo node w info \<longrightarrow> p stamp \<noteq> None"
    and "dict_keys d = dict_keys (last_seen s)"
  shows "\<exists>d'. event_apply rx p (stamp_body stamp b) (s\<lparr>last_seen := d\<rparr>) = Inr (s'\<lparr>last_seen := d'\<rparr>) \<and>
    dict_keys d' = dict_keys (last_seen s')"
proof (cases b)
  case (NodeTimedOut node reason)
  with assms show ?thesis
    by (intro exI [of _ "dict_filter (\<lambda>key v. key \<noteq> node) d"])
      (auto simp: stamp_body_def apply_node_timed_out_def Let_def dict_keys_filter split: option.splits)
next
  case (NodeGatheredInfo node w info)
  obtain seen where "p stamp = Some seen" using assms(2) NodeGatheredInfo by blast
  with NodeGatheredInfo assms show ?thesis
    by (intro exI [of _ "dict_set node seen d"])
      (auto simp: stamp_body_def apply_node_gathered_info_def Let_def dict_keys_update
        split: option.splits gathered_info.splits if_splits)
next
  case (TopologyEdgeDeleted c)
  with assms show ?thesis
    by (intro exI [of _ d]) (auto simp: stamp_body_def apply_topology_edge_deleted_def reap_keys [OF assms(3)])
next
  case (NodeDownloadProgress dp)
  with assms show ?thesis
    by (intro exI [of _ d]) (auto simp: stamp_body_def apply_node_download_progress_def Let_def
        split: option.splits download_progress.splits)
next
  case (StateSnapshotHydrated x)
  with assms show ?thesis by (intro exI [of _ "last_seen s'"]) (auto simp: stamp_body_def)
qed (use assms in \<open>intro exI [of _ d];
  auto simp: stamp_body_def apply_instance_created_def apply_instance_failure_recorded_def apply_instance_deleted_def
    apply_staged_model_evicted_def apply_runner_status_updated_def apply_task_created_def
    apply_task_deleted_def apply_task_failed_def apply_task_status_updated_def apply_topology_edge_created_def
    apply_model_trust_approval_changed_def apply_steward_action_proposal_changed_def Let_def
    split: option.splits if_splits\<close>)+

lemma apply_event_reclock:
  assumes "apply_event rx p s \<lparr>idx = i, event = e\<rparr> = Inr s'"
    and "\<forall>node w info. event_body e = NodeGatheredInfo node w info \<longrightarrow> p stamp \<noteq> None" and "same_but_clock s t"
  shows "\<exists>t'. apply_event rx p t \<lparr>idx = i, event = stamp_event stamp e\<rparr> = Inr t' \<and> same_but_clock s' t'"
proof -
  have t: "t = s\<lparr>last_seen := last_seen t\<rparr>" and keys: "dict_keys (last_seen t) = dict_keys (last_seen s)"
    using assms(3) by (auto simp: same_but_clock_iff)
  have body: "event_body (stamp_event stamp e) = stamp_body stamp (event_body e)"
    by (simp add: stamp_event_def stamp_body_def split: event_body.splits)
  show ?thesis
  proof (cases "is_snapshot (event_body e)")
    case True
    then show ?thesis using assms(1) body by (auto simp: apply_event_def stamp_body_def split: event_body.splits)
  next
    case False
    from False assms(1) obtain s1 where s1: "last_event_applied_idx s = i - 1" "event_apply rx p (event_body e) s = Inr s1"
        "s' = s1\<lparr>last_event_applied_idx := i\<rparr>"
      by (auto simp: apply_event_def split: event_body.splits sum.splits if_splits)
    from event_apply_reclock [OF s1(2) assms(2) keys] t obtain d where
      d: "event_apply rx p (stamp_body stamp (event_body e)) t = Inr (s1\<lparr>last_seen := d\<rparr>)" "dict_keys d = dict_keys (last_seen s1)"
      by auto
    have "last_event_applied_idx t = i - 1" using t s1(1) by (metis state.ext_inject state.surjective state.update_convs(7))
    with d(1) False have "apply_event rx p t \<lparr>idx = i, event = stamp_event stamp e\<rparr> =
        Inr (s1\<lparr>last_seen := d, last_event_applied_idx := i\<rparr>)"
      by (auto simp: apply_event_def body stamp_body_def split: event_body.splits)
    moreover have "same_but_clock s' (s1\<lparr>last_seen := d, last_event_applied_idx := i\<rparr>)"
      using s1(3) d(2) by (simp add: same_but_clock_def)
    ultimately show ?thesis by blast
  qed
qed

section \<open>Runs of the pipeline\<close>

definition as_indexed :: "'g global_forwarder_event \<Rightarrow> 'g indexed_event" where
  "as_indexed g = \<lparr>idx = gf_origin_idx g, event = gf_event g\<rparr>"

text \<open>The next index of the log follows the last one the state applied.\<close>

definition in_order :: "'g master \<Rightarrow> bool" where
  "in_order m \<longleftrightarrow> log_len (ms_log m) = last_event_applied_idx (ms_state m) + 1"

fun master_run ::
  "('g event \<Rightarrow> (string \<times> opaque) option) \<Rightarrow> 'g rx_ops \<Rightarrow> (string \<Rightarrow> datetime option) \<Rightarrow> ('g event \<Rightarrow> bytes option)
     \<Rightarrow> (bytes \<Rightarrow> 'g event option) \<Rightarrow> ((nat \<Rightarrow> index_io) \<times> 'g local_forwarder_event) list \<Rightarrow> 'g master
     \<Rightarrow> 'g master_error + 'g master \<times> 'g global_forwarder_event list" where
  "master_run dump rx p ser des [] m = Inr (m, [])"
| "master_run dump rx p ser des ((io, le) # xs) m =
     (case process_local_event dump rx p ser des io le m of
        Inl x \<Rightarrow> Inl x
      | Inr (m1, out) \<Rightarrow>
          (case master_run dump rx p ser des xs m1 of Inl x \<Rightarrow> Inl x | Inr (m2, outs) \<Rightarrow> Inr (m2, out @ outs)))"

text \<open>What a part of the pipeline promises: it broadcasts what turns the old state into the new one.\<close>

definition faithful_step ::
  "'g rx_ops \<Rightarrow> (string \<Rightarrow> datetime option) \<Rightarrow> 'g master \<Rightarrow> 'g master \<Rightarrow> 'g global_forwarder_event list \<Rightarrow> bool" where
  "faithful_step rx p m m' out \<longleftrightarrow>
     (in_order m \<longrightarrow> in_order m') \<and> ms_node_id m' = ms_node_id m \<and> ms_session_id m' = ms_session_id m \<and>
     map gf_origin_idx out = [log_len (ms_log m)..log_len (ms_log m') - 1] \<and>
     log_len (ms_log m) \<le> log_len (ms_log m') \<and>
     list_all (\<lambda>g. gf_origin g = ms_node_id m \<and> gf_session g = ms_session_id m) out \<and>
     (\<forall>t. same_but_clock (ms_state m) t \<longrightarrow>
        (\<exists>t'. replay (apply_event rx p) t (map as_indexed out) = Inr t' \<and> same_but_clock (ms_state m') t'))"

lemma faithful_step_silent:
  "ms_state m' = ms_state m \<Longrightarrow> log_len (ms_log m') = log_len (ms_log m) \<Longrightarrow> ms_node_id m' = ms_node_id m \<Longrightarrow>
     ms_session_id m' = ms_session_id m \<Longrightarrow> faithful_step rx p m m' []"
  by (simp add: faithful_step_def in_order_def)

lemma faithful_step_trans:
  assumes "faithful_step rx p m m1 out" "faithful_step rx p m1 m2 outs"
  shows "faithful_step rx p m m2 (out @ outs)"
proof -
  have "[log_len (ms_log m)..log_len (ms_log m1) - 1] @ [log_len (ms_log m1)..log_len (ms_log m2) - 1] =
      [log_len (ms_log m)..log_len (ms_log m2) - 1]"
    using upto_split1 [of "log_len (ms_log m)" "log_len (ms_log m1)" "log_len (ms_log m2) - 1"] assms
    by (cases "log_len (ms_log m1) \<le> log_len (ms_log m2) - 1") (auto simp: faithful_step_def)
  moreover have "\<exists>t'. replay (apply_event rx p) t (map as_indexed (out @ outs)) = Inr t' \<and> same_but_clock (ms_state m2) t'"
    if "same_but_clock (ms_state m) t" for t
  proof -
    obtain t1 where "replay (apply_event rx p) t (map as_indexed out) = Inr t1" "same_but_clock (ms_state m1) t1"
      using assms(1) \<open>same_but_clock (ms_state m) t\<close> by (auto simp: faithful_step_def)
    moreover from this obtain t2 where "replay (apply_event rx p) t1 (map as_indexed outs) = Inr t2" "same_but_clock (ms_state m2) t2"
      using assms(2) by (auto simp: faithful_step_def)
    ultimately show ?thesis by (simp add: replay_append)
  qed
  ultimately show ?thesis using assms by (auto simp: faithful_step_def)
qed

lemma forget_commands_fields [simp]:
  "ms_state (forget_commands b m) = ms_state m" "ms_log (forget_commands b m) = ms_log m"
  "ms_node_id (forget_commands b m) = ms_node_id m" "ms_session_id (forget_commands b m) = ms_session_id m"
  by (auto simp: forget_commands_def Let_def split: option.splits event_body.splits)

lemma persist_snapshot_fields:
  assumes "persist_snapshot ser des force ok cio m = Inr m'"
  shows "ms_state m' = ms_state m \<and> ms_node_id m' = ms_node_id m \<and> ms_session_id m' = ms_session_id m \<and>
    log_len (ms_log m') = log_len (ms_log m)"
  using assms disk.cut_len [of ser des cio "max (last_event_applied_idx (ms_state m) + 1 - REPLAY_TAIL_RETENTION_EVENTS) 0" "ms_log m"]
  by (auto simp: persist_snapshot_def disk_compact_def Let_def split: if_splits prod.splits sum.splits)

lemma apply_indexed_event_fields:
  assumes "apply_indexed_event rx p ie m = Inr m'"
  shows "apply_event rx p (ms_state m) ie = Inr (ms_state m') \<and> ms_log m' = ms_log m \<and>
    ms_node_id m' = ms_node_id m \<and> ms_session_id m' = ms_session_id m"
  using assms by (auto simp: apply_indexed_event_def Let_def split: sum.splits event_body.splits)

lemma index_event_faithful:
  assumes "index_event rx p ser des io e m = Inr (m', out)" "p (io_stamp io) \<noteq> None"
  shows "faithful_step rx p m m' out"
proof -
  let ?i = "log_len (ms_log m)" and ?e = "stamp_event (io_stamp io) e"
  obtain m1 l where m1: "apply_indexed_event rx p \<lparr>idx = ?i, event = e\<rparr> m = Inr m1"
      and l: "log_append ser (io_append io) ?e (ms_log m1) = (l, Inr ())"
      and m': "persist_snapshot ser des False (io_snapshot_ok io) (io_compact io) (m1\<lparr>ms_log := l\<rparr>) = Inr m'"
      and out: "out = [send_event m1 \<lparr>idx = ?i, event = ?e\<rparr>]"
    using assms(1) by (auto simp: index_event_def Let_def split: sum.splits prod.splits)
  note f1 = apply_indexed_event_fields [OF m1] and f2 = persist_snapshot_fields [OF m', simplified]
  have len: "log_len (ms_log m') = ?i + 1" using log_len_append [OF l] f1 f2 by simp
  have "last_event_applied_idx (ms_state m1) = ?i"
    using reducer.step_position [OF conjunct1 [OF f1]] by simp
  then have "in_order m'" using len f2 by (simp add: in_order_def)
  moreover have "\<exists>t'. replay (apply_event rx p) t (map as_indexed out) = Inr t' \<and> same_but_clock (ms_state m') t'"
    if "same_but_clock (ms_state m) t" for t
    using apply_event_reclock [OF conjunct1 [OF f1] _ that, where stamp = "io_stamp io"] assms(2) out f2
    by (auto simp: as_indexed_def send_event_def)
  ultimately show ?thesis using out len f1 f2 by (auto simp: faithful_step_def send_event_def)
qed

lemma process_event_faithful:
  assumes "process_event rx p ser des io e m = Inr (m', out)" "p (io_stamp io) \<noteq> None"
  shows "faithful_step rx p m m' out"
proof -
  have forget: "faithful_step rx p m (forget_commands (event_body e) m) []" by (rule faithful_step_silent) simp_all
  show ?thesis
  proof (cases "m' = forget_commands (event_body e) m \<and> out = []")
    case False
    then have "index_event rx p ser des io e (forget_commands (event_body e) m) = Inr (m', out)"
      using assms(1) by (auto simp: process_event_def Let_def split: option.splits if_splits)
    from faithful_step_trans [OF forget index_event_faithful [OF this assms(2)]] show ?thesis by simp
  qed (use forget in simp)
qed

lemma process_events_faithful:
  assumes "process_events rx p ser des io es m = Inr (m', out)" "\<forall>k. p (io_stamp (io k)) \<noteq> None"
  shows "faithful_step rx p m m' out"
  using assms
proof (induction es arbitrary: io m out)
  case Nil
  then show ?case by (auto intro: faithful_step_silent)
next
  case (Cons e es)
  then obtain m1 o1 o2 where 1: "process_event rx p ser des (io 0) e m = Inr (m1, o1)"
      "process_events rx p ser des (io \<circ> Suc) es m1 = Inr (m', o2)" "out = o1 @ o2"
    by (auto split: sum.splits prod.splits)
  show ?case unfolding 1(3)
    by (rule faithful_step_trans [OF process_event_faithful [OF 1(1)] Cons.IH [OF 1(2)]]) (use Cons.prems(2) in auto)
qed

lemma process_local_event_faithful:
  assumes "process_local_event dump rx p ser des io le m = Inr (m', out)" "\<forall>k. p (io_stamp (io k)) \<noteq> None"
  shows "faithful_step rx p m m' out"
proof (cases "lf_session le = ms_session_id m")
  case False
  then show ?thesis using assms(1) by (auto simp: process_local_event_def intro: faithful_step_silent)
next
  case True
  then obtain es b where "process_events rx p ser des io es (m\<lparr>ms_buffer := b\<rparr>) = Inr (m', out)"
    using assms(1) by (auto simp: process_local_event_def split: sum.splits prod.splits if_splits)
  from faithful_step_trans [OF faithful_step_silent process_events_faithful [OF this assms(2)], of m]
  show ?thesis by simp
qed

lemma master_run_faithful:
  assumes "master_run dump rx p ser des xs m = Inr (m', out)" "\<forall>(io, le) \<in> set xs. \<forall>k. p (io_stamp (io k)) \<noteq> None"
  shows "faithful_step rx p m m' out"
  using assms
proof (induction xs arbitrary: m out)
  case Nil
  then show ?case by (auto intro: faithful_step_silent)
next
  case (Cons x xs)
  obtain io le where x: "x = (io, le)" by force
  with Cons.prems(1) obtain m1 o1 o2 where 1: "process_local_event dump rx p ser des io le m = Inr (m1, o1)"
      "master_run dump rx p ser des xs m1 = Inr (m', o2)" "out = o1 @ o2"
    by (auto split: sum.splits prod.splits)
  show ?case unfolding 1(3)
    by (rule faithful_step_trans [OF process_local_event_faithful [OF 1(1)] Cons.IH [OF 1(2)]]) (use Cons.prems(2) x in auto)
qed

text \<open>
  C4. What the master broadcasts reproduces its state.  Let the master process any reports of any
  nodes, in any order and with repetitions, while writes to its log, snapshots and compactions
  succeed or fail in any way.  As long as nothing raises, the broadcasts carry consecutive indices,
  the master's identity and session, and a follower that replays them from the state before gets
  the state after, except for the times in the liveness table: the same nodes are in it.
\<close>

theorem broadcasts_reproduce_state:
  assumes "master_run dump rx p ser des xs m = Inr (m', out)"
    and "\<forall>(io, le) \<in> set xs. \<forall>k. p (io_stamp (io k)) \<noteq> None" and "in_order m"
  shows "map gf_origin_idx out = [log_len (ms_log m)..log_len (ms_log m') - 1] \<and> in_order m' \<and>
    list_all (\<lambda>g. gf_origin g = ms_node_id m \<and> gf_session g = ms_session_id m) out \<and>
    (\<exists>t. replay (apply_event rx p) (ms_state m) (map as_indexed out) = Inr t \<and> same_but_clock (ms_state m') t)"
  using master_run_faithful [OF assms(1,2)] assms(3) by (auto simp: faithful_step_def)

section \<open>The log keeps what was broadcast\<close>

definition healthy_index :: "index_io \<Rightarrow> bool" where
  "healthy_index io \<longleftrightarrow> healthy_append (io_append io) \<and> io_compact io = (True, CompactOk)"

text \<open>The log grows by what is broadcast and loses at most a prefix, never of the last 10000 events.\<close>

definition logged_step ::
  "('g event \<Rightarrow> bytes option) \<Rightarrow> (bytes \<Rightarrow> 'g event option) \<Rightarrow> 'g master \<Rightarrow> 'g master \<Rightarrow> 'g global_forwarder_event list \<Rightarrow> bool" where
  "logged_step ser des m m' out \<longleftrightarrow>
     (\<forall>es. log_holds ser des es (ms_log m) \<and> list_all (\<lambda>g. codec_ok ser des (gf_event g)) out \<and> in_order m \<longrightarrow>
        base_idx (ms_log m) \<le> base_idx (ms_log m') \<and>
        base_idx (ms_log m') \<le> max (base_idx (ms_log m)) (log_len (ms_log m') - REPLAY_TAIL_RETENTION_EVENTS) \<and>
        log_holds ser des (drop (nat (base_idx (ms_log m') - base_idx (ms_log m))) (es @ map gf_event out)) (ms_log m'))"

lemma logged_step_silent: "ms_log m' = ms_log m \<Longrightarrow> logged_step ser des m m' []"
  by (simp add: logged_step_def)

lemma faithful_step_length: "faithful_step rx p m m' out \<Longrightarrow> log_len (ms_log m') = log_len (ms_log m) + int (length out)"
proof -
  assume f: "faithful_step rx p m m' out"
  then have le: "log_len (ms_log m) \<le> log_len (ms_log m')"
    and "length out = length [log_len (ms_log m)..log_len (ms_log m') - 1]"
    unfolding faithful_step_def by (simp, metis length_map)
  then have "length out = nat (log_len (ms_log m') - log_len (ms_log m))" by simp
  with le show ?thesis by linarith
qed

lemma logged_step_trans:
  assumes "logged_step ser des m m1 out" "logged_step ser des m1 m2 outs" "faithful_step rx p m m1 out" "faithful_step rx p m1 m2 outs"
  shows "logged_step ser des m m2 (out @ outs)"
  unfolding logged_step_def
proof (intro allI impI)
  fix es
  assume a: "log_holds ser des es (ms_log m) \<and> list_all (\<lambda>g. codec_ok ser des (gf_event g)) (out @ outs) \<and> in_order m"
  let ?b = "base_idx (ms_log m)" and ?b1 = "base_idx (ms_log m1)" and ?b2 = "base_idx (ms_log m2)"
  let ?es1 = "drop (nat (?b1 - ?b)) (es @ map gf_event out)"
  have 1: "?b \<le> ?b1" "?b1 \<le> max ?b (log_len (ms_log m1) - REPLAY_TAIL_RETENTION_EVENTS)" "log_holds ser des ?es1 (ms_log m1)"
    using assms(1) a by (auto simp: logged_step_def)
  have "in_order m1" using assms(3) a by (simp add: faithful_step_def)
  with 1 a have 2: "?b1 \<le> ?b2" "?b2 \<le> max ?b1 (log_len (ms_log m2) - REPLAY_TAIL_RETENTION_EVENTS)"
      "log_holds ser des (drop (nat (?b2 - ?b1)) (?es1 @ map gf_event outs)) (ms_log m2)"
    using assms(2) by (auto simp: logged_step_def)
  have "?b1 \<le> ?b + int (length es) + int (length out)"
    using disk.holds_len [OF 1(3)] disk.holds_len [of ser des es "ms_log m"] a faithful_step_length [OF assms(3)] by linarith
  then have "nat (?b1 - ?b) \<le> length (es @ map gf_event out)" by simp
  then have "?es1 @ map gf_event outs = drop (nat (?b1 - ?b)) (es @ map gf_event (out @ outs))" by simp
  moreover have "nat (?b2 - ?b1) + nat (?b1 - ?b) = nat (?b2 - ?b)" using 1(1) 2(1) by linarith
  ultimately have "drop (nat (?b2 - ?b1)) (?es1 @ map gf_event outs) = drop (nat (?b2 - ?b)) (es @ map gf_event (out @ outs))"
    by (simp only: drop_drop)
  with 1 2 show "?b \<le> ?b2 \<and> ?b2 \<le> max ?b (log_len (ms_log m2) - REPLAY_TAIL_RETENTION_EVENTS) \<and>
      log_holds ser des (drop (nat (?b2 - ?b)) (es @ map gf_event (out @ outs))) (ms_log m2)"
    using assms(4) by (auto simp: faithful_step_def)
qed

lemma persist_snapshot_log:
  assumes "persist_snapshot ser des force ok (True, CompactOk) m = Inr m'" "log_holds ser des es (ms_log m)" "in_order m"
  shows "base_idx (ms_log m) \<le> base_idx (ms_log m') \<and>
    base_idx (ms_log m') \<le> max (base_idx (ms_log m)) (log_len (ms_log m') - REPLAY_TAIL_RETENTION_EVENTS) \<and>
    log_holds ser des (drop (nat (base_idx (ms_log m') - base_idx (ms_log m))) es) (ms_log m')"
proof -
  let ?k = "max (log_len (ms_log m) - REPLAY_TAIL_RETENTION_EVENTS) 0"
  obtain l where l: "compact ser des True CompactOk ?k (ms_log m) = (l, Inr ())"
      "log_holds ser des (drop (nat (min (max ?k (base_idx (ms_log m))) (log_len (ms_log m)) - base_idx (ms_log m))) es) l"
      "base_idx l = min (max ?k (base_idx (ms_log m))) (log_len (ms_log m))"
    using compact_holds [OF assms(2)] by blast
  have "last_event_applied_idx (ms_state m) + 1 = log_len (ms_log m)" using assms(3) by (simp add: in_order_def)
  with assms(1) l(1) consider "ms_log m' = ms_log m" | "ms_log m' = l"
    by (auto simp: persist_snapshot_def Let_def split: if_splits)
  then show ?thesis
  proof cases
    case 2
    have "log_len l = log_len (ms_log m)" "0 \<le> base_idx (ms_log m)" "base_idx (ms_log m) \<le> log_len (ms_log m)"
      using disk.cut_len [of ser des "(True, CompactOk)" ?k "ms_log m"] l(1) disk.holds_len [OF assms(2)] disk.start_nonneg [OF assms(2)]
      by (auto simp: disk_compact_def)
    with 2 l show ?thesis by auto
  qed (use assms(2) in simp)
qed

lemma index_event_logged:
  assumes "index_event rx p ser des io e m = Inr (m', out)" "p (io_stamp io) \<noteq> None" "healthy_index io"
  shows "logged_step ser des m m' out"
  unfolding logged_step_def
proof (intro allI impI)
  fix es
  assume a: "log_holds ser des es (ms_log m) \<and> list_all (\<lambda>g. codec_ok ser des (gf_event g)) out \<and> in_order m"
  let ?i = "log_len (ms_log m)" and ?e = "stamp_event (io_stamp io) e"
  obtain m1 l where m1: "apply_indexed_event rx p \<lparr>idx = ?i, event = e\<rparr> m = Inr m1"
      and l: "log_append ser (io_append io) ?e (ms_log m1) = (l, Inr ())"
      and m': "persist_snapshot ser des False (io_snapshot_ok io) (io_compact io) (m1\<lparr>ms_log := l\<rparr>) = Inr m'"
      and out: "out = [send_event m1 \<lparr>idx = ?i, event = ?e\<rparr>]"
    using assms(1) by (auto simp: index_event_def Let_def split: sum.splits prod.splits)
  note f1 = apply_indexed_event_fields [OF m1]
  have ev: "map gf_event out = [?e]" and codec: "codec_ok ser des ?e" using out a by (auto simp: send_event_def)
  have grown: "log_holds ser des (es @ [?e]) l" "base_idx l = base_idx (ms_log m)"
    using append_holds [of ser des es "ms_log m" "io_append io" ?e] a codec assms(3) l f1 by (auto simp: healthy_index_def)
  have "in_order (m1\<lparr>ms_log := l\<rparr>)"
    using log_len_append [OF l] reducer.step_position [OF conjunct1 [OF f1]] f1 by (simp add: in_order_def)
  from persist_snapshot_log [OF _ _ this, of ser des False "io_snapshot_ok io" m' "es @ [?e]"] m' grown assms(3)
  show "base_idx (ms_log m) \<le> base_idx (ms_log m') \<and>
      base_idx (ms_log m') \<le> max (base_idx (ms_log m)) (log_len (ms_log m') - REPLAY_TAIL_RETENTION_EVENTS) \<and>
      log_holds ser des (drop (nat (base_idx (ms_log m') - base_idx (ms_log m))) (es @ map gf_event out)) (ms_log m')"
    by (simp add: ev healthy_index_def)
qed

lemma process_event_logged:
  assumes "process_event rx p ser des io e m = Inr (m', out)" "p (io_stamp io) \<noteq> None" "healthy_index io"
  shows "logged_step ser des m m' out"
proof (cases "m' = forget_commands (event_body e) m \<and> out = []")
  case False
  then have i: "index_event rx p ser des io e (forget_commands (event_body e) m) = Inr (m', out)"
    using assms(1) by (auto simp: process_event_def Let_def split: option.splits if_splits)
  have "logged_step ser des m m' ([] @ out)"
    by (rule logged_step_trans [OF logged_step_silent index_event_logged [OF i assms(2,3)]
          faithful_step_silent index_event_faithful [OF i assms(2)]]) simp_all
  then show ?thesis by simp
qed (simp add: logged_step_silent)

lemma process_events_logged:
  assumes "process_events rx p ser des io es m = Inr (m', out)" "\<forall>k. p (io_stamp (io k)) \<noteq> None" "\<forall>k. healthy_index (io k)"
  shows "logged_step ser des m m' out"
  using assms
proof (induction es arbitrary: io m out)
  case Nil
  then show ?case by (auto intro: logged_step_silent)
next
  case (Cons e es)
  then obtain m1 o1 o2 where 1: "process_event rx p ser des (io 0) e m = Inr (m1, o1)"
      "process_events rx p ser des (io \<circ> Suc) es m1 = Inr (m', o2)" "out = o1 @ o2"
    by (auto split: sum.splits prod.splits)
  show ?case unfolding 1(3)
    by (rule logged_step_trans [OF process_event_logged [OF 1(1)] Cons.IH [OF 1(2)]
          process_event_faithful [OF 1(1)] process_events_faithful [OF 1(2)]]) (use Cons.prems(2,3) in auto)
qed

lemma process_local_event_logged:
  assumes "process_local_event dump rx p ser des io le m = Inr (m', out)" "\<forall>k. p (io_stamp (io k)) \<noteq> None"
    "\<forall>k. healthy_index (io k)"
  shows "logged_step ser des m m' out"
proof (cases "lf_session le = ms_session_id m")
  case False
  then show ?thesis using assms(1) by (auto simp: process_local_event_def intro: logged_step_silent)
next
  case True
  then obtain es b where e: "process_events rx p ser des io es (m\<lparr>ms_buffer := b\<rparr>) = Inr (m', out)"
    using assms(1) by (auto simp: process_local_event_def split: sum.splits prod.splits if_splits)
  have "logged_step ser des m m' ([] @ out)"
    by (rule logged_step_trans [OF logged_step_silent process_events_logged [OF e assms(2,3)]
          faithful_step_silent process_events_faithful [OF e assms(2)]]) simp_all
  then show ?thesis by simp
qed

lemma master_run_logged:
  assumes "master_run dump rx p ser des xs m = Inr (m', out)"
    "\<forall>(io, le) \<in> set xs. \<forall>k. p (io_stamp (io k)) \<noteq> None \<and> healthy_index (io k)"
  shows "logged_step ser des m m' out"
  using assms
proof (induction xs arbitrary: m out)
  case Nil
  then show ?case by (auto intro: logged_step_silent)
next
  case (Cons x xs)
  obtain io le where x: "x = (io, le)" by force
  with Cons.prems(1) obtain m1 o1 o2 where 1: "process_local_event dump rx p ser des io le m = Inr (m1, o1)"
      "master_run dump rx p ser des xs m1 = Inr (m', o2)" "out = o1 @ o2"
    by (auto split: sum.splits prod.splits)
  show ?case unfolding 1(3)
    by (rule logged_step_trans [OF process_local_event_logged [OF 1(1)] Cons.IH [OF 1(2)]
          process_local_event_faithful [OF 1(1)] master_run_faithful [OF 1(2)]]) (use Cons.prems(2) x in auto)
qed

section \<open>Serving a replay\<close>

lemma zip_upto_drop:
  assumes "0 \<le> k" "k + n \<le> int (length xs)"
  shows "map (\<lambda>(i, e). f i e) (zip [b + k..b + k + n - 1] (take (nat n) (drop (nat k) xs))) =
    map (\<lambda>i. f i (xs ! nat (i - b))) [b + k..b + k + n - 1]"
proof (rule nth_equalityI)
  fix i assume "i < length (map (\<lambda>(i, e). f i e) (zip [b + k..b + k + n - 1] (take (nat n) (drop (nat k) xs))))"
  then have i: "int i < n" "nat k + i < length xs" using assms by auto
  then have "nat (k + int i) = nat k + i" using assms(1) by linarith
  moreover have "[b + k..b + k + n - 1] ! i = b + k + int i" using i by (simp add: nth_upto)
  moreover have "i < nat n" "i < length xs - nat k" "i < nat (b + k + n - (b + k))" using i by linarith+
  ultimately show "map (\<lambda>(i, e). f i e) (zip [b + k..b + k + n - 1] (take (nat n) (drop (nat k) xs))) ! i =
      map (\<lambda>i. f i (xs ! nat (i - b))) [b + k..b + k + n - 1] ! i"
    by simp
qed (use assms in simp)

lemma serve_replay_holds:
  assumes "log_holds ser des es (ms_log m)"
  shows "snd (serve_event_log_replay des r m) =
    (let a = min (max r (base_idx (ms_log m))) (log_len (ms_log m));
         b = min (a + EVENT_LOG_REPLAY_BATCH_SIZE) (log_len (ms_log m))
     in map (\<lambda>i. \<lparr>idx = i, event = es ! nat (i - base_idx (ms_log m))\<rparr>) [a..b - 1])"
proof -
  let ?s = "base_idx (ms_log m)"
  define a where "a = min (max r ?s) (log_len (ms_log m))"
  define b where "b = min (a + EVENT_LOG_REPLAY_BATCH_SIZE) (log_len (ms_log m))"
  have len: "log_len (ms_log m) = ?s + int (length es)" and s: "0 \<le> ?s"
    using disk.holds_len [OF assms] disk.start_nonneg [OF assms] by auto
  have ab: "?s \<le> a" "a \<le> b" "b \<le> log_len (ms_log m)" using len unfolding a_def b_def EVENT_LOG_REPLAY_BATCH_SIZE_def by auto
  have "snd (disk_read des a b (ms_log m)) = take (nat (b - a)) (drop (nat (a - ?s)) es)"
    using disk.fetch_holds [OF assms, of a b] ab s by (simp add: Let_def max_def min_def)
  moreover have "snd (serve_event_log_replay des r m) =
      map (\<lambda>(i, e). \<lparr>idx = i, event = e\<rparr>) (zip [a..b - 1] (snd (disk_read des a b (ms_log m))))"
    by (simp add: serve_event_log_replay_def Let_def a_def b_def split: prod.splits)
  ultimately have "snd (serve_event_log_replay des r m) = map (\<lambda>i. \<lparr>idx = i, event = es ! nat (i - ?s)\<rparr>) [a..b - 1]"
    using zip_upto_drop [of "a - ?s" "b - a" es "\<lambda>i e. \<lparr>idx = i, event = e\<rparr>" ?s] ab len by simp
  then show ?thesis unfolding Let_def a_def [symmetric] b_def [symmetric] .
qed

text \<open>
  C26. A replay re-sends exactly what was broadcast.  With a disk that works, whatever the master
  processed, a replay from any requested index sends, with its index, each event that was logged
  before or broadcast since, starting at the request (or at the oldest event retained) and up to
  10000 events; and the last 10000 events are never compacted away.
\<close>

theorem replay_resends_broadcasts:
  assumes "master_run dump rx p ser des xs m = Inr (m', out)"
    and "\<forall>(io, le) \<in> set xs. \<forall>k. p (io_stamp (io k)) \<noteq> None \<and> healthy_index (io k)"
    and "in_order m" and "log_holds ser des es (ms_log m)" and "list_all (\<lambda>g. codec_ok ser des (gf_event g)) out"
  shows "let logged = es @ map gf_event out;
      first = min (max r (base_idx (ms_log m'))) (log_len (ms_log m'));
      after = min (first + EVENT_LOG_REPLAY_BATCH_SIZE) (log_len (ms_log m'))
    in snd (serve_event_log_replay des r m') =
         map (\<lambda>i. \<lparr>idx = i, event = logged ! nat (i - base_idx (ms_log m))\<rparr>) [first..after - 1] \<and>
       base_idx (ms_log m') \<le> max (base_idx (ms_log m)) (log_len (ms_log m') - REPLAY_TAIL_RETENTION_EVENTS)"
proof -
  let ?b = "base_idx (ms_log m)" and ?b' = "base_idx (ms_log m')" and ?logged = "es @ map gf_event out"
  have b: "?b \<le> ?b'" "?b' \<le> max ?b (log_len (ms_log m') - REPLAY_TAIL_RETENTION_EVENTS)"
      and h: "log_holds ser des (drop (nat (?b' - ?b)) ?logged) (ms_log m')"
    using master_run_logged [OF assms(1,2)] assms(3-5) by (auto simp: logged_step_def)
  define first where "first = min (max r ?b') (log_len (ms_log m'))"
  define after where "after = min (first + EVENT_LOG_REPLAY_BATCH_SIZE) (log_len (ms_log m'))"
  have len: "log_len (ms_log m') = ?b' + int (length (drop (nat (?b' - ?b)) ?logged))" by (rule disk.holds_len [OF h])
  have same: "drop (nat (?b' - ?b)) ?logged ! nat (i - ?b') = ?logged ! nat (i - ?b)" if "i \<in> set [first..after - 1]" for i
  proof -
    have "?b' \<le> first" using len unfolding first_def by linarith
    moreover have "first \<le> i" "i < log_len (ms_log m')" using that unfolding after_def by auto
    ultimately have "nat (?b' - ?b) + nat (i - ?b') = nat (i - ?b)" "length (drop (nat (?b' - ?b)) ?logged) \<noteq> 0"
      using b(1) len by linarith+
    then show ?thesis by (metis nth_drop length_drop nat_le_linear diff_is_0_eq)
  qed
  have "snd (serve_event_log_replay des r m') =
      map (\<lambda>i. \<lparr>idx = i, event = drop (nat (?b' - ?b)) ?logged ! nat (i - ?b')\<rparr>) [first..after - 1]"
    unfolding serve_replay_holds [OF h] Let_def first_def after_def ..
  also have "\<dots> = map (\<lambda>i. \<lparr>idx = i, event = ?logged ! nat (i - ?b)\<rparr>) [first..after - 1]"
    by (rule map_cong [OF refl]) (simp only: same)
  finally show ?thesis using b(2) unfolding Let_def first_def after_def by blast
qed

section \<open>A concrete session\<close>

definition demo_parse :: "string \<Rightarrow> datetime option" where
  "demo_parse s = (if s = ''reported'' then Some 10 else if s = ''stamped'' then Some 99 else None)"

definition demo_report :: "list_graph event" where
  "demo_report = \<lparr>event_id = ''e'', event_body = NodeGatheredInfo ''n'' ''reported'' (NodeNetworkInterfaces [])\<rparr>"

definition demo_ser :: "list_graph event \<Rightarrow> bytes option" where "demo_ser e = Some [1]"
definition demo_des :: "bytes \<Rightarrow> list_graph event option" where "demo_des b = Some (stamp_event ''stamped'' demo_report)"

definition demo_io :: index_io where
  "demo_io = \<lparr>io_stamp = ''stamped'', io_append = good_io, io_snapshot_ok = True, io_compact = (True, CompactOk)\<rparr>"

definition demo_master :: "list_graph master" where
  "demo_master = \<lparr>ms_node_id = ''m'', ms_session_id = demo_session, ms_state = empty_state list_rx, ms_buffer = [],
     ms_log = new_log healthy_init no_rotation None None [], ms_command_task = [], ms_realtime = [], ms_reservations = [],
     ms_last_snapshot_idx = -1, ms_cadence = SNAPSHOT_EVENT_CADENCE, ms_pending_replay = None, ms_replay_running = False,
     ms_active_next = None, ms_active_end = None\<rparr>"

definition demo_local :: "list_graph local_forwarder_event" where
  "demo_local = \<lparr>lf_origin_idx = 0, lf_origin = ''s'', lf_session = demo_session, lf_event = demo_report\<rparr>"

definition demo_after :: "list_graph master" where
  "demo_after = (case master_run (\<lambda>_. None) list_rx demo_parse demo_ser demo_des [(\<lambda>_. demo_io, demo_local)] demo_master of
     Inl x \<Rightarrow> demo_master | Inr (m, out) \<Rightarrow> m)"

definition demo_broadcasts :: "list_graph global_forwarder_event list" where
  "demo_broadcasts = [\<lparr>gf_origin_idx = 0, gf_origin = ''m'', gf_session = demo_session, gf_event = stamp_event ''stamped'' demo_report\<rparr>]"

lemma demo_master_run:
  "master_run (\<lambda>_. None) list_rx demo_parse demo_ser demo_des [(\<lambda>_. demo_io, demo_local)] demo_master = Inr (demo_after, demo_broadcasts)"
  by code_simp

lemma demo_in_order: "in_order demo_master"
  by code_simp

theorem broadcasts_reproduce_state_witness:
  "\<exists>t. replay (apply_event list_rx demo_parse) (ms_state demo_master) (map as_indexed demo_broadcasts) = Inr t \<and>
     same_but_clock (ms_state demo_after) t"
  using broadcasts_reproduce_state [OF demo_master_run _ demo_in_order]
  by (simp add: demo_io_def demo_parse_def)

theorem replay_resends_broadcasts_witness:
  "snd (serve_event_log_replay demo_des 0 demo_after) = [\<lparr>idx = 0, event = stamp_event ''stamped'' demo_report\<rparr>]"
proof -
  have "log_holds demo_ser demo_des [] (ms_log demo_master)" "base_idx (ms_log demo_master) = 0"
    by (simp_all add: demo_master_def new_log_holds)
  moreover have "list_all (\<lambda>g. codec_ok demo_ser demo_des (gf_event g)) demo_broadcasts"
    by (simp add: demo_broadcasts_def codec_ok_def demo_ser_def demo_des_def)
  moreover have "base_idx (ms_log demo_after) = 0" "log_len (ms_log demo_after) = 1" by code_simp+
  moreover have "\<forall>(io, le) \<in> set [(\<lambda>_. demo_io, demo_local)]. \<forall>k. demo_parse (io_stamp (io k)) \<noteq> None \<and> healthy_index (io k)"
    by (simp add: demo_io_def demo_parse_def healthy_index_def healthy_append_def good_io_def)
  ultimately show ?thesis
    using replay_resends_broadcasts [OF demo_master_run _ demo_in_order, of "[]" 0]
    by (simp add: EVENT_LOG_REPLAY_BATCH_SIZE_def demo_broadcasts_def)
qed

text \<open>
  The liveness times of the master are not those of its followers.  A reading is applied with
  the time its sender put into it and only then overwritten with the master's time, so the log and
  every follower carry the master's time while the master itself judges the node by the sender's
  clock: here 10 at the master, 99 in the replay of its broadcasts.
\<close>

theorem master_clock_differs_from_log:
  "last_seen (ms_state demo_after) = [(''n'', 10)] \<and>
   map_sum id last_seen (replay (apply_event list_rx demo_parse) (ms_state demo_master) (map as_indexed demo_broadcasts)) = Inr [(''n'', 99)]"
  by code_simp

end
