(* ===== verification/Authority_Types.thy ===== *)
theory Authority_Types
  imports Prelude "HOL-Library.Product_Lexorder" "HOL-Library.List_Lexorder" "HOL-Library.Char_ord"
begin

text \<open>
  Membership, descriptors and quorum certificates of the replicated operator authority,
  \<^verbatim>\<open>src/skulk/operator/replication.py\<close>.

  SHA-256, canonical JSON and Ed25519 are not part of the repository: the record \<open>crypto\<close> holds the
  digest of a membership and of a descriptor, and signing and verification of votes and envelopes.
  Node installation ids are UUIDs, given by their integer value; counters constrained to be
  positive are natural numbers.
\<close>

section \<open>Data\<close>

type_synonym uuid = nat

datatype member_role = Voter | Learner

record authority_member =
  member_id :: uuid
  public_key :: string
  member_role :: member_role

record authority_membership =
  generation :: nat
  members :: "authority_member list"

record authority_commit_descriptor =
  cluster_id :: uuid
  authority_term :: nat
  commit_index :: nat
  previous_commit_digest :: string
  record_type :: string
  record_id :: string
  payload_digest :: string
  required_membership_digests :: "string list"

record authority_vote =
  vote_node :: uuid
  vote_signature :: string

record authority_quorum_certificate =
  cert_descriptor :: authority_commit_descriptor
  cert_votes :: "authority_vote list"

record authority_commit_position =
  pos_cluster :: uuid
  pos_term :: nat
  pos_index :: nat
  pos_digest :: string

text \<open>The cryptographic operations.  A membership is hashed as its generation and its members in
  order of their ids; a vote signs the descriptor and the voter's id; an envelope signs its message
  id, source, target and payload.\<close>

record 'p crypto =
  membership_hash :: "nat \<times> authority_member list \<Rightarrow> string"
  commit_hash :: "authority_commit_descriptor \<Rightarrow> string"
  sign_vote :: "string \<Rightarrow> authority_commit_descriptor \<times> uuid \<Rightarrow> string"
  verify_vote :: "string \<Rightarrow> authority_commit_descriptor \<times> uuid \<Rightarrow> string \<Rightarrow> bool"
  sign_envelope :: "string \<Rightarrow> uuid \<times> uuid \<times> uuid \<times> 'p \<Rightarrow> string"
  verify_envelope :: "string \<Rightarrow> uuid \<times> uuid \<times> uuid \<times> 'p \<Rightarrow> string \<Rightarrow> bool"

datatype authority_error =
    CertificateError
  | EnvelopeError
  | ConsensusError
  | ConflictError
  | IntegrityError
  | InvalidModel

section \<open>Operations\<close>

text \<open>\<open>_membership_is_unambiguous\<close> and the length constraints of \<open>AuthorityMembership\<close>\<close>

definition membership_is_unambiguous :: "authority_membership \<Rightarrow> bool" where
  "membership_is_unambiguous m \<longleftrightarrow>
     1 \<le> generation m \<and> 1 \<le> length (members m) \<and> length (members m) \<le> 128 \<and>
     distinct (map member_id (members m)) \<and> distinct (map public_key (members m)) \<and>
     list_ex (\<lambda>x. member_role x = Voter) (members m)"

definition voter_ids :: "authority_membership \<Rightarrow> uuid set" where
  "voter_ids m = set (map member_id (filter (\<lambda>x. member_role x = Voter) (members m)))"

definition quorum_size :: "authority_membership \<Rightarrow> nat" where
  "quorum_size m = card (voter_ids m) div 2 + 1"

definition authority_membership_digest :: "'p crypto \<Rightarrow> authority_membership \<Rightarrow> string" where
  "authority_membership_digest cr m = membership_hash cr (generation m, sort_key member_id (members m))"

definition authority_commit_digest :: "'p crypto \<Rightarrow> authority_commit_descriptor \<Rightarrow> string" where
  "authority_commit_digest cr d = commit_hash cr d"

definition create_authority_vote :: "'p crypto \<Rightarrow> authority_commit_descriptor \<Rightarrow> uuid \<Rightarrow> string \<Rightarrow> authority_vote" where
  "create_authority_vote cr d node key = \<lparr>vote_node = node, vote_signature = sign_vote cr key (d, node)\<rparr>"

text \<open>The position a descriptor occupies.\<close>

definition descriptor_position :: "'p crypto \<Rightarrow> authority_commit_descriptor \<Rightarrow> authority_commit_position" where
  "descriptor_position cr d = \<lparr>pos_cluster = cluster_id d, pos_term = authority_term d, pos_index = commit_index d,
     pos_digest = authority_commit_digest cr d\<rparr>"

definition validate_authority_descriptor ::
  "'p crypto \<Rightarrow> authority_commit_descriptor \<Rightarrow> authority_membership list \<Rightarrow> authority_commit_position
     \<Rightarrow> authority_error + authority_commit_position" where
  "validate_authority_descriptor cr d memberships previous =
     (if \<not> (1 \<le> length memberships \<and> length memberships \<le> 2) then Inl CertificateError
      else if cluster_id d \<noteq> pos_cluster previous then Inl CertificateError
      else if commit_index d \<noteq> pos_index previous + 1 then Inl CertificateError
      else if authority_term d < pos_term previous then Inl CertificateError
      else if previous_commit_digest d \<noteq> pos_digest previous then Inl CertificateError
      else let membership_digests = sort (map (authority_membership_digest cr) memberships)
           in if \<not> distinct membership_digests then Inl CertificateError
              else if required_membership_digests d \<noteq> membership_digests then Inl CertificateError
              else if length memberships = 2 \<and>
                      (let generations = sort (map generation memberships) in generations ! 1 \<noteq> generations ! 0 + 1)
              then Inl CertificateError
              else Inr (descriptor_position cr d))"

text \<open>The tables of members by id and of owners by key, \<open>None\<close> when they conflict.\<close>

fun member_tables ::
  "authority_member list \<Rightarrow> (uuid, authority_member) dict \<Rightarrow> (string, uuid) dict \<Rightarrow> (uuid, authority_member) dict option" where
  "member_tables [] by_id by_key = Some by_id"
| "member_tables (x # xs) by_id by_key =
     (if (case dict_get by_id (member_id x) of None \<Rightarrow> False | Some e \<Rightarrow> public_key e \<noteq> public_key x) then None
      else if (case dict_get by_key (public_key x) of None \<Rightarrow> False | Some i \<Rightarrow> i \<noteq> member_id x) then None
      else member_tables xs (dict_set (member_id x) x by_id) (dict_set (public_key x) (member_id x) by_key))"

text \<open>The loop over the votes.\<close>

fun check_votes ::
  "'p crypto \<Rightarrow> authority_commit_descriptor \<Rightarrow> (uuid, authority_member) dict \<Rightarrow> uuid set \<Rightarrow> authority_vote list
     \<Rightarrow> uuid set \<Rightarrow> authority_error + uuid set" where
  "check_votes cr d by_id voting [] valid = Inr valid"
| "check_votes cr d by_id voting (v # vs) valid =
     (case dict_get by_id (vote_node v) of
        None \<Rightarrow> Inl CertificateError
      | Some x \<Rightarrow>
          if vote_node v \<notin> voting then Inl CertificateError
          else if \<not> verify_vote cr (public_key x) (d, vote_node v) (vote_signature v) then Inl CertificateError
          else check_votes cr d by_id voting vs (insert (vote_node v) valid))"

definition voter_union :: "authority_membership list \<Rightarrow> uuid set" where
  "voter_union memberships = \<Union> (set (map voter_ids memberships))"

definition ids_satisfy_quorums :: "uuid set \<Rightarrow> authority_membership list \<Rightarrow> bool" where
  "ids_satisfy_quorums ids memberships = list_all (\<lambda>m. card (ids \<inter> voter_ids m) \<ge> quorum_size m) memberships"

definition verify_quorum_certificate ::
  "'p crypto \<Rightarrow> authority_quorum_certificate \<Rightarrow> authority_membership list \<Rightarrow> authority_commit_position
     \<Rightarrow> authority_error + authority_commit_position" where
  "verify_quorum_certificate cr cert memberships previous =
     (let d = cert_descriptor cert
      in case validate_authority_descriptor cr d memberships previous of
           Inl e \<Rightarrow> Inl e
         | Inr _ \<Rightarrow>
             (case member_tables (concat (map members memberships)) [] [] of
                None \<Rightarrow> Inl CertificateError
              | Some by_id \<Rightarrow>
                  (case check_votes cr d by_id (voter_union memberships) (cert_votes cert) {} of
                     Inl e \<Rightarrow> Inl e
                   | Inr valid \<Rightarrow>
                       if \<not> ids_satisfy_quorums valid memberships then Inl CertificateError
                       else Inr (descriptor_position cr d))))"

text \<open>\<open>_votes_are_unique\<close> and the length constraints of \<open>AuthorityQuorumCertificate\<close>\<close>

definition votes_are_unique :: "authority_quorum_certificate \<Rightarrow> bool" where
  "votes_are_unique cert \<longleftrightarrow> 1 \<le> length (cert_votes cert) \<and> length (cert_votes cert) \<le> 128 \<and>
     distinct (map vote_node (cert_votes cert))"

section \<open>Facts\<close>

text \<open>A membership up to the order of its members.\<close>

definition configuration :: "authority_membership \<Rightarrow> nat \<times> authority_member set" where
  "configuration m = (generation m, set (members m))"

lemma voter_ids_configuration: "configuration m = configuration m' \<Longrightarrow> voter_ids m = voter_ids m'"
  by (simp add: configuration_def voter_ids_def)

lemma quorum_size_configuration: "configuration m = configuration m' \<Longrightarrow> quorum_size m = quorum_size m'"
  using voter_ids_configuration [of m m'] by (simp add: quorum_size_def)

lemma finite_voter_ids [simp]: "finite (voter_ids m)"
  by (simp add: voter_ids_def)

text \<open>Two majorities of the same membership share a voter.\<close>

definition majority :: "authority_membership \<Rightarrow> uuid set \<Rightarrow> bool" where
  "majority m Q \<longleftrightarrow> Q \<subseteq> voter_ids m \<and> quorum_size m \<le> card Q"

lemma majorities_meet:
  assumes "majority m Q" "majority m R"
  shows "Q \<inter> R \<noteq> {}"
proof
  assume e: "Q \<inter> R = {}"
  have f: "finite Q" "finite R" using assms finite_subset [OF _ finite_voter_ids] by (auto simp: majority_def)
  have "card (Q \<union> R) \<le> card (voter_ids m)" using assms by (intro card_mono) (auto simp: majority_def)
  then have "card Q + card R \<le> card (voter_ids m)" using card_Un_disjoint [OF f e] by simp
  moreover have "card (voter_ids m) div 2 + 1 \<le> card Q" "card (voter_ids m) div 2 + 1 \<le> card R"
    using assms by (simp_all add: majority_def quorum_size_def)
  ultimately show False by linarith
qed

lemma check_votes_sound:
  "check_votes cr d by_id voting vs valid = Inr valid' \<Longrightarrow>
     valid' = valid \<union> vote_node ` set vs \<and>
     (\<forall>v \<in> set vs. \<exists>key. verify_vote cr key (d, vote_node v) (vote_signature v))"
  by (induction vs arbitrary: valid) (auto split: option.splits if_splits)

lemma verify_quorum_certificate_sound:
  assumes "verify_quorum_certificate cr cert ms previous = Inr p"
  shows "p = descriptor_position cr (cert_descriptor cert)"
    and "validate_authority_descriptor cr (cert_descriptor cert) ms previous = Inr p"
    and "\<forall>v \<in> set (cert_votes cert). \<exists>key. verify_vote cr key (cert_descriptor cert, vote_node v) (vote_signature v)"
    and "m \<in> set ms \<Longrightarrow> majority m (vote_node ` set (cert_votes cert) \<inter> voter_ids m)"
proof -
  obtain by_id valid where v: "check_votes cr (cert_descriptor cert) by_id (voter_union ms) (cert_votes cert) {} = Inr valid"
      "ids_satisfy_quorums valid ms" "p = descriptor_position cr (cert_descriptor cert)"
      "\<exists>q. validate_authority_descriptor cr (cert_descriptor cert) ms previous = Inr q"
    using assms by (auto simp: verify_quorum_certificate_def Let_def split: sum.splits option.splits if_splits)
  note s = check_votes_sound [OF v(1)]
  from v(3) show "p = descriptor_position cr (cert_descriptor cert)" .
  from v(3,4) show "validate_authority_descriptor cr (cert_descriptor cert) ms previous = Inr p"
    by (auto simp: validate_authority_descriptor_def Let_def split: if_splits)
  from s show "\<forall>v \<in> set (cert_votes cert). \<exists>key. verify_vote cr key (cert_descriptor cert, vote_node v) (vote_signature v)"
    by blast
  assume "m \<in> set ms"
  with s v(2) show "majority m (vote_node ` set (cert_votes cert) \<inter> voter_ids m)"
    by (auto simp: majority_def ids_satisfy_quorums_def list_all_iff)
qed

lemma validate_descriptorD:
  assumes "validate_authority_descriptor cr d ms previous = Inr p"
  shows "p = descriptor_position cr d" "commit_index d = pos_index previous + 1" "length ms = 1 \<or> length ms = 2"
    "required_membership_digests d = sort (map (authority_membership_digest cr) ms)"
    "cluster_id d = pos_cluster previous" "previous_commit_digest d = pos_digest previous"
  using assms by (auto simp: validate_authority_descriptor_def Let_def split: if_splits)

end
