(* ===== verification/Authority_Consensus.thy ===== *)
theory Authority_Consensus
  imports Authority_Types
begin

text \<open>
  The consensus protocol of the operator authority, \<^verbatim>\<open>src/skulk/operator/consensus.py\<close>: Paxos
  per log index with joint reconfiguration, over signed messages and a durable compare-and-set
  store (\<^verbatim>\<open>src/skulk/operator/consensus_store.py\<close>).

  A constructor of a validated model either returns the value or raises; its validator is a
  predicate of the same name.  An operation that may raise after it changed its object returns the
  object together with the result.  Fresh UUIDs are arguments.
\<close>

section \<open>State\<close>

record authority_ballot =
  ballot_counter :: nat
  ballot_proposer :: uuid

definition ballot_key :: "authority_ballot \<Rightarrow> nat \<times> nat" where
  "ballot_key b = (ballot_counter b, ballot_proposer b)"

record authority_committed_entry =
  entry_certificate :: authority_quorum_certificate
  entry_memberships :: "authority_membership list"

abbreviation entry_descriptor :: "authority_committed_entry \<Rightarrow> authority_commit_descriptor" where
  "entry_descriptor e \<equiv> cert_descriptor (entry_certificate e)"

definition memberships_match_descriptor :: "'p crypto \<Rightarrow> authority_committed_entry \<Rightarrow> bool" where
  "memberships_match_descriptor cr e \<longleftrightarrow>
     (let ms = entry_memberships e
      in 1 \<le> length ms \<and> length ms \<le> 2 \<and> sort_key generation ms = ms \<and>
         required_membership_digests (entry_descriptor e) = sort (map (authority_membership_digest cr) ms))"

record authority_consensus_state =
  bootstrap_position :: authority_commit_position
  bootstrap_membership :: authority_membership
  position :: authority_commit_position
  active_membership :: authority_membership
  promised_ballot :: "authority_ballot option"
  accepted_ballot :: "authority_ballot option"
  accepted_descriptor :: "authority_commit_descriptor option"
  accepted_memberships :: "authority_membership list option"
  committed_entries :: "authority_committed_entry list"

definition membership_order_ok :: "authority_membership list \<Rightarrow> bool" where
  "membership_order_ok ms \<longleftrightarrow>
     1 \<le> length ms \<and> length ms \<le> 2 \<and> sort_key generation ms = ms \<and>
     (length ms = 2 \<longrightarrow> generation (ms ! 1) = generation (ms ! 0) + 1)"

definition transition_memberships_ok :: "'p crypto \<Rightarrow> authority_membership \<Rightarrow> authority_membership list \<Rightarrow> bool" where
  "transition_memberships_ok cr active ms \<longleftrightarrow>
     membership_order_ok ms \<and> authority_membership_digest cr (ms ! 0) = authority_membership_digest cr active"

abbreviation raises :: "'e + 'a \<Rightarrow> bool" where
  "raises r \<equiv> (case r of Inl e \<Rightarrow> True | Inr x \<Rightarrow> False)"

definition all_or_none :: "'a option \<Rightarrow> 'b option \<Rightarrow> 'c option \<Rightarrow> bool" where
  "all_or_none x y z \<longleftrightarrow> (x = None \<longleftrightarrow> y = None) \<and> (y = None \<longleftrightarrow> z = None)"

definition accepted_state_is_complete :: "'p crypto \<Rightarrow> authority_consensus_state \<Rightarrow> bool" where
  "accepted_state_is_complete cr st \<longleftrightarrow>
     pos_index (bootstrap_position st) = 1 \<and>
     pos_cluster (bootstrap_position st) = pos_cluster (position st) \<and>
     pos_index (position st) \<ge> pos_index (bootstrap_position st) \<and>
     (pos_index (position st) = pos_index (bootstrap_position st) \<longrightarrow>
        position st = bootstrap_position st \<and> active_membership st = bootstrap_membership st) \<and>
     generation (active_membership st) \<ge> generation (bootstrap_membership st) \<and>
     all_or_none (accepted_ballot st) (accepted_descriptor st) (accepted_memberships st) \<and>
     (case (accepted_ballot st, accepted_descriptor st, accepted_memberships st) of
        (Some b, Some d, Some ms) \<Rightarrow>
          commit_index d = pos_index (position st) + 1 \<and> authority_term d \<le> ballot_counter b \<and>
          ballot_counter b > pos_term (position st) \<and> transition_memberships_ok cr (active_membership st) ms \<and>
          \<not> raises (validate_authority_descriptor cr d ms (position st))
      | _ \<Rightarrow> True) \<and>
     (case promised_ballot st of
        None \<Rightarrow> True
      | Some pb \<Rightarrow> ballot_counter pb \<ge> pos_term (position st) \<and>
          (case accepted_ballot st of None \<Rightarrow> True | Some ab \<Rightarrow> ballot_key ab \<le> ballot_key pb)) \<and>
     (committed_entries st \<noteq> [] \<longrightarrow>
        (let tail = entry_descriptor (last (committed_entries st))
         in commit_index tail = pos_index (position st) \<and> authority_commit_digest cr tail = pos_digest (position st)))"

definition bootstrap_state :: "authority_commit_position \<Rightarrow> authority_membership \<Rightarrow> authority_consensus_state" where
  "bootstrap_state pos m = \<lparr>bootstrap_position = pos, bootstrap_membership = m, position = pos, active_membership = m,
     promised_ballot = None, accepted_ballot = None, accepted_descriptor = None, accepted_memberships = None,
     committed_entries = []\<rparr>"

record authority_consensus_snapshot =
  revision :: nat
  snap_state :: authority_consensus_state

section \<open>Messages\<close>

record prepare_message =
  pr_cluster :: uuid
  pr_request :: uuid
  pr_ballot :: authority_ballot
  pr_descriptor :: authority_commit_descriptor
  pr_memberships :: "authority_membership list"

record promise_message =
  pm_cluster :: uuid
  pm_request :: uuid
  pm_ballot :: authority_ballot
  pm_index :: nat
  pm_accepted_ballot :: "authority_ballot option"
  pm_accepted_descriptor :: "authority_commit_descriptor option"
  pm_accepted_memberships :: "authority_membership list option"

record accept_message =
  ac_cluster :: uuid
  ac_request :: uuid
  ac_ballot :: authority_ballot
  ac_descriptor :: authority_commit_descriptor
  ac_memberships :: "authority_membership list"

record accepted_message =
  ad_cluster :: uuid
  ad_request :: uuid
  ad_ballot :: authority_ballot
  ad_vote :: authority_vote

record commit_message =
  ct_cluster :: uuid
  ct_request :: uuid
  ct_entry :: authority_committed_entry

record catch_up_request =
  cq_cluster :: uuid
  cq_request :: uuid
  cq_after :: nat

record catch_up_response =
  cs_cluster :: uuid
  cs_request :: uuid
  cs_entries :: "authority_committed_entry list"
  cs_has_more :: bool

datatype rejection_code = conflicting_accept | membership_mismatch | not_voter | stale_ballot | stale_position

record rejected_message =
  rj_cluster :: uuid
  rj_request :: uuid
  rj_code :: rejection_code
  rj_promised :: "authority_ballot option"
  rj_position :: authority_commit_position

datatype authority_payload =
    Prepare prepare_message
  | Promise promise_message
  | Accept accept_message
  | Accepted accepted_message
  | Commit commit_message
  | CatchUpRequest catch_up_request
  | CatchUpResponse catch_up_response
  | Rejected rejected_message

definition MAX_CATCH_UP_ENTRIES :: nat where "MAX_CATCH_UP_ENTRIES = 64"

definition message_descriptor_ok ::
  "'p crypto \<Rightarrow> uuid \<Rightarrow> authority_ballot \<Rightarrow> authority_commit_descriptor \<Rightarrow> authority_membership list \<Rightarrow> bool" where
  "message_descriptor_ok cr cluster ballot d ms \<longleftrightarrow>
     membership_order_ok ms \<and> cluster_id d = cluster \<and> authority_term d \<le> ballot_counter ballot \<and>
     required_membership_digests d = sort (map (authority_membership_digest cr) ms)"

text \<open>The validators of the messages.\<close>

fun payload_ok :: "'p crypto \<Rightarrow> authority_payload \<Rightarrow> bool" where
  "payload_ok cr (Prepare m) = message_descriptor_ok cr (pr_cluster m) (pr_ballot m) (pr_descriptor m) (pr_memberships m)"
| "payload_ok cr (Promise m) =
     (all_or_none (pm_accepted_ballot m) (pm_accepted_descriptor m) (pm_accepted_memberships m) \<and>
      (case (pm_accepted_ballot m, pm_accepted_descriptor m, pm_accepted_memberships m) of
         (Some b, Some d, Some ms) \<Rightarrow> message_descriptor_ok cr (pm_cluster m) b d ms \<and> commit_index d = pm_index m
       | _ \<Rightarrow> True))"
| "payload_ok cr (Accept m) = message_descriptor_ok cr (ac_cluster m) (ac_ballot m) (ac_descriptor m) (ac_memberships m)"
| "payload_ok cr (Commit m) = (cluster_id (entry_descriptor (ct_entry m)) = ct_cluster m)"
| "payload_ok cr (CatchUpResponse m) =
     (let indexes = map (\<lambda>e. commit_index (entry_descriptor e)) (cs_entries m)
      in length (cs_entries m) \<le> MAX_CATCH_UP_ENTRIES \<and>
         (indexes \<noteq> [] \<longrightarrow> indexes = [hd indexes..<hd indexes + length indexes]) \<and>
         list_all (\<lambda>e. cluster_id (entry_descriptor e) = cs_cluster m) (cs_entries m) \<and>
         (cs_has_more m \<longrightarrow> cs_entries m \<noteq> []))"
| "payload_ok cr _ = True"

fun payload_cluster :: "authority_payload \<Rightarrow> uuid" where
  "payload_cluster (Prepare m) = pr_cluster m"
| "payload_cluster (Promise m) = pm_cluster m"
| "payload_cluster (Accept m) = ac_cluster m"
| "payload_cluster (Accepted m) = ad_cluster m"
| "payload_cluster (Commit m) = ct_cluster m"
| "payload_cluster (CatchUpRequest m) = cq_cluster m"
| "payload_cluster (CatchUpResponse m) = cs_cluster m"
| "payload_cluster (Rejected m) = rj_cluster m"

fun payload_request :: "authority_payload \<Rightarrow> uuid" where
  "payload_request (Prepare m) = pr_request m"
| "payload_request (Promise m) = pm_request m"
| "payload_request (Accept m) = ac_request m"
| "payload_request (Accepted m) = ad_request m"
| "payload_request (Commit m) = ct_request m"
| "payload_request (CatchUpRequest m) = cq_request m"
| "payload_request (CatchUpResponse m) = cs_request m"
| "payload_request (Rejected m) = rj_request m"

record network_envelope =
  env_message_id :: uuid
  env_source :: uuid
  env_target :: uuid
  env_payload :: authority_payload
  env_signature :: string

type_synonym crypto_ops = "authority_payload crypto"

definition create_authority_envelope ::
  "crypto_ops \<Rightarrow> authority_payload \<Rightarrow> uuid \<Rightarrow> uuid \<Rightarrow> string \<Rightarrow> uuid \<Rightarrow> network_envelope" where
  "create_authority_envelope cr p source target key mid =
     \<lparr>env_message_id = mid, env_source = source, env_target = target, env_payload = p,
      env_signature = sign_envelope cr key (mid, source, target, p)\<rparr>"

definition verify_authority_envelope ::
  "crypto_ops \<Rightarrow> network_envelope \<Rightarrow> authority_membership list \<Rightarrow> authority_error + unit" where
  "verify_authority_envelope cr env memberships =
     (case member_tables (concat (map members memberships)) [] [] of
        None \<Rightarrow> Inl EnvelopeError
      | Some by_id \<Rightarrow>
          (case dict_get by_id (env_source env) of
             None \<Rightarrow> Inl EnvelopeError
           | Some x \<Rightarrow>
               if verify_envelope cr (public_key x)
                    (env_message_id env, env_source env, env_target env, env_payload env) (env_signature env)
               then Inr () else Inl EnvelopeError))"

section \<open>The collector of a proposer\<close>

record vote_collector =
  col_ballot :: authority_ballot
  col_request_id :: uuid
  col_previous :: authority_commit_position
  col_descriptor :: authority_commit_descriptor
  col_memberships :: "authority_membership list"
  col_promises :: "(uuid, promise_message) dict"
  col_votes :: "(uuid, authority_vote) dict"
  col_selected_descriptor :: "authority_commit_descriptor option"
  col_selected_memberships :: "authority_membership list option"
  col_rejections :: "(uuid, rejected_message) dict"

definition new_collector ::
  "crypto_ops \<Rightarrow> authority_ballot \<Rightarrow> authority_commit_descriptor \<Rightarrow> authority_membership list
     \<Rightarrow> authority_commit_position \<Rightarrow> uuid \<Rightarrow> authority_error + vote_collector" where
  "new_collector cr ballot d ms previous rid =
     (if \<not> membership_order_ok ms then Inl CertificateError
      else case validate_authority_descriptor cr d ms previous of
             Inl e \<Rightarrow> Inl e
           | Inr _ \<Rightarrow>
               if authority_term d \<noteq> ballot_counter ballot then Inl InvalidModel
               else if ballot_counter ballot \<le> pos_term previous then Inl InvalidModel
               else if ballot_proposer ballot \<notin> voter_ids (ms ! 0) then Inl InvalidModel
               else Inr \<lparr>col_ballot = ballot, col_request_id = rid, col_previous = previous, col_descriptor = d,
                          col_memberships = ms, col_promises = [], col_votes = [], col_selected_descriptor = None,
                          col_selected_memberships = None, col_rejections = []\<rparr>)"

definition prepare_targets :: "vote_collector \<Rightarrow> uuid set" where
  "prepare_targets col = voter_union (col_memberships col)"

definition prepare_ready :: "vote_collector \<Rightarrow> bool" where
  "prepare_ready col = ids_satisfy_quorums (set (dict_keys (col_promises col))) (col_memberships col)"

definition accept_ready :: "vote_collector \<Rightarrow> bool" where
  "accept_ready col =
     (case col_selected_memberships col of
        None \<Rightarrow> False
      | Some ms \<Rightarrow> ids_satisfy_quorums (set (dict_keys (col_votes col))) ms)"

definition prepare_message_of :: "vote_collector \<Rightarrow> prepare_message" where
  "prepare_message_of col =
     \<lparr>pr_cluster = cluster_id (col_descriptor col), pr_request = col_request_id col, pr_ballot = col_ballot col,
      pr_descriptor = col_descriptor col, pr_memberships = col_memberships col\<rparr>"

definition verify_response_envelope ::
  "crypto_ops \<Rightarrow> network_envelope \<Rightarrow> authority_membership list \<Rightarrow> vote_collector \<Rightarrow> authority_error + unit" where
  "verify_response_envelope cr env ms col =
     (if env_target env \<noteq> ballot_proposer (col_ballot col) then Inl EnvelopeError
      else case verify_authority_envelope cr env ms of
             Inl e \<Rightarrow> Inl e
           | Inr _ \<Rightarrow>
               if payload_cluster (env_payload env) \<noteq> cluster_id (col_descriptor col) then Inl ConsensusError
               else if payload_request (env_payload env) \<noteq> col_request_id col then Inl ConsensusError
               else Inr ())"

definition record_prepare_response ::
  "crypto_ops \<Rightarrow> network_envelope \<Rightarrow> vote_collector \<Rightarrow> authority_error + vote_collector" where
  "record_prepare_response cr env col =
     (case verify_response_envelope cr env (col_memberships col) col of
        Inl e \<Rightarrow> Inl e
      | Inr _ \<Rightarrow>
          (case env_payload env of
             Rejected m \<Rightarrow> Inr (col\<lparr>col_rejections := dict_set (env_source env) m (col_rejections col)\<rparr>)
           | Promise m \<Rightarrow>
               if pm_ballot m \<noteq> col_ballot col then Inl ConsensusError
               else if pm_index m \<noteq> pos_index (col_previous col) + 1 then Inl ConsensusError
               else if env_source env \<notin> prepare_targets col then Inl ConsensusError
               else Inr (col\<lparr>col_promises := dict_set (env_source env) m (col_promises col)\<rparr>)
           | _ \<Rightarrow> Inl ConsensusError))"

text \<open>The first promise with the greatest accepted ballot, as \<open>max\<close> finds it.\<close>

fun highest_accepted :: "promise_message list \<Rightarrow> authority_ballot option" where
  "highest_accepted [] = None"
| "highest_accepted (m # ms) =
     (case (pm_accepted_ballot m, highest_accepted ms) of
        (None, h) \<Rightarrow> h
      | (Some b, None) \<Rightarrow> Some b
      | (Some b, Some h) \<Rightarrow> if ballot_key h > ballot_key b then Some h else Some b)"

definition select_value ::
  "crypto_ops \<Rightarrow> vote_collector \<Rightarrow> authority_error + authority_commit_descriptor \<times> authority_membership list" where
  "select_value cr col =
     (let promises = dict_values (col_promises col)
      in case highest_accepted promises of
           None \<Rightarrow> Inr (col_descriptor col, col_memberships col)
         | Some hb \<Rightarrow>
             (let highest = filter (\<lambda>m. pm_accepted_ballot m = Some hb) promises;
                  digests = set (map (authority_commit_digest cr) (List.map_filter pm_accepted_descriptor highest))
              in if card digests \<noteq> 1 then Inl ConsensusError
                 else case (pm_accepted_descriptor (hd highest), pm_accepted_memberships (hd highest)) of
                        (Some d, Some ms) \<Rightarrow>
                          if \<not> membership_order_ok ms then Inl CertificateError
                          else (case validate_authority_descriptor cr d ms (col_previous col) of
                                  Inl e \<Rightarrow> Inl e
                                | Inr _ \<Rightarrow> Inr (d, ms))
                      | _ \<Rightarrow> Inl InvalidModel))"

definition accept_message_of ::
  "crypto_ops \<Rightarrow> vote_collector \<Rightarrow> vote_collector \<times> (authority_error + accept_message)" where
  "accept_message_of cr col =
     (if \<not> prepare_ready col then (col, Inl ConsensusError)
      else case select_value cr col of
             Inl e \<Rightarrow> (col, Inl e)
           | Inr (d, ms) \<Rightarrow>
               (let m = \<lparr>ac_cluster = cluster_id d, ac_request = col_request_id col, ac_ballot = col_ballot col,
                         ac_descriptor = d, ac_memberships = ms\<rparr>
                in (col\<lparr>col_selected_descriptor := Some d, col_selected_memberships := Some ms\<rparr>,
                    if payload_ok cr (Accept m) then Inr m else Inl InvalidModel)))"

definition record_accept_response ::
  "crypto_ops \<Rightarrow> network_envelope \<Rightarrow> vote_collector \<Rightarrow> authority_error + vote_collector" where
  "record_accept_response cr env col =
     (case (col_selected_memberships col, col_selected_descriptor col) of
        (Some ms, Some d) \<Rightarrow>
          (case verify_response_envelope cr env ms col of
             Inl e \<Rightarrow> Inl e
           | Inr _ \<Rightarrow>
               (case env_payload env of
                  Rejected m \<Rightarrow> Inr (col\<lparr>col_rejections := dict_set (env_source env) m (col_rejections col)\<rparr>)
                | Accepted m \<Rightarrow>
                    if ad_ballot m \<noteq> col_ballot col then Inl ConsensusError
                    else if vote_node (ad_vote m) \<noteq> env_source env then Inl ConsensusError
                    else if env_source env \<notin> voter_union ms then Inl ConsensusError
                    else if (case dict_get (col_votes col) (env_source env) of None \<Rightarrow> False | Some v \<Rightarrow> v \<noteq> ad_vote m)
                    then Inl ConsensusError
                    else Inr (col\<lparr>col_votes := dict_set (env_source env) (ad_vote m) (col_votes col)\<rparr>)
                | _ \<Rightarrow> Inl ConsensusError))
      | _ \<Rightarrow> Inl ConsensusError)"

definition certificate_of :: "crypto_ops \<Rightarrow> vote_collector \<Rightarrow> authority_error + authority_quorum_certificate" where
  "certificate_of cr col =
     (if \<not> accept_ready col then Inl ConsensusError
      else case (col_selected_descriptor col, col_selected_memberships col) of
             (Some d, Some ms) \<Rightarrow>
               (let cert = \<lparr>cert_descriptor = d, cert_votes = dict_values (sort_key fst (col_votes col))\<rparr>
                in if \<not> votes_are_unique cert then Inl InvalidModel
                   else case verify_quorum_certificate cr cert ms (col_previous col) of Inl e \<Rightarrow> Inl e | Inr _ \<Rightarrow> Inr cert)
           | _ \<Rightarrow> Inl ConsensusError)"

definition committed_entry_of :: "crypto_ops \<Rightarrow> vote_collector \<Rightarrow> authority_error + authority_committed_entry" where
  "committed_entry_of cr col =
     (case certificate_of cr col of
        Inl e \<Rightarrow> Inl e
      | Inr cert \<Rightarrow>
          (case col_selected_memberships col of
             None \<Rightarrow> Inl ConsensusError
           | Some ms \<Rightarrow>
               (let e = \<lparr>entry_certificate = cert, entry_memberships = ms\<rparr>
                in if memberships_match_descriptor cr e then Inr e else Inl InvalidModel)))"

section \<open>The store\<close>

text \<open>The loop of \<open>_validate_log_continuity\<close>: the position and membership a log leads to.\<close>

fun certified_head ::
  "'p crypto \<Rightarrow> authority_commit_position \<Rightarrow> authority_membership \<Rightarrow> authority_committed_entry list
     \<Rightarrow> (authority_commit_position \<times> authority_membership) option" where
  "certified_head cr pos active [] = Some (pos, active)"
| "certified_head cr pos active (e # es) =
     (if authority_membership_digest cr (entry_memberships e ! 0) \<noteq> authority_membership_digest cr active then None
      else case verify_quorum_certificate cr (entry_certificate e) (entry_memberships e) pos of
             Inl x \<Rightarrow> None
           | Inr pos' \<Rightarrow>
               certified_head cr pos' (if length (entry_memberships e) = 2 then entry_memberships e ! 1 else active) es)"

definition log_continuity :: "'p crypto \<Rightarrow> authority_consensus_state \<Rightarrow> bool" where
  "log_continuity cr st \<longleftrightarrow>
     (if committed_entries st = []
      then position st = bootstrap_position st \<and> active_membership st = bootstrap_membership st
      else map (\<lambda>e. commit_index (entry_descriptor e)) (committed_entries st) =
             [pos_index (bootstrap_position st) + 1..<pos_index (position st) + 1] \<and>
           certified_head cr (bootstrap_position st) (bootstrap_membership st) (committed_entries st) =
             Some (position st, active_membership st))"

definition compare_and_set ::
  "'p crypto \<Rightarrow> nat \<Rightarrow> authority_consensus_state \<Rightarrow> authority_consensus_snapshot
     \<Rightarrow> authority_error + authority_consensus_snapshot" where
  "compare_and_set cr expected_revision st current =
     (if \<not> log_continuity cr st then Inl IntegrityError
      else if revision current \<noteq> expected_revision then Inl ConflictError
      else if bootstrap_position st \<noteq> bootstrap_position (snap_state current) \<or>
              bootstrap_membership st \<noteq> bootstrap_membership (snap_state current) then Inl ConflictError
      else let retained = committed_entries (snap_state current)
           in if length (committed_entries st) < length retained \<or>
                 take (length retained) (committed_entries st) \<noteq> retained then Inl ConflictError
              else Inr \<lparr>revision = expected_revision + 1, snap_state = st\<rparr>)"

section \<open>The participant\<close>

type_synonym reply = "authority_error + network_envelope list"

definition persist ::
  "crypto_ops \<Rightarrow> authority_consensus_snapshot \<Rightarrow> authority_consensus_state \<Rightarrow> authority_error + authority_consensus_snapshot" where
  "persist cr snapshot st =
     (if \<not> accepted_state_is_complete cr st then Inl InvalidModel
      else case compare_and_set cr (revision snapshot) st snapshot of Inl e \<Rightarrow> Inl ConflictError | Inr s \<Rightarrow> Inr s)"

text \<open>\<open>_validate_phase_request\<close>: a raised error, a rejection, or none.\<close>

definition validate_phase_request ::
  "crypto_ops \<Rightarrow> uuid \<Rightarrow> authority_consensus_state \<Rightarrow> uuid \<Rightarrow> authority_ballot \<Rightarrow> authority_commit_descriptor
     \<Rightarrow> authority_membership list \<Rightarrow> authority_error + rejection_code option" where
  "validate_phase_request cr node st source ballot d ms =
     (if ballot_proposer ballot \<noteq> source then Inl EnvelopeError
      else if \<not> transition_memberships_ok cr (active_membership st) ms \<or>
              raises (validate_authority_descriptor cr d ms (position st)) then Inr (Some membership_mismatch)
      else if authority_term d > ballot_counter ballot then Inr (Some stale_ballot)
      else if ballot_counter ballot \<le> pos_term (position st) then Inr (Some stale_ballot)
      else if source \<notin> voter_ids (active_membership st) then Inr (Some not_voter)
      else if node \<notin> voter_union ms then Inr (Some not_voter)
      else Inr None)"

definition rejection :: "authority_consensus_state \<Rightarrow> uuid \<Rightarrow> rejection_code \<Rightarrow> authority_payload" where
  "rejection st rid code =
     Rejected \<lparr>rj_cluster = pos_cluster (position st), rj_request = rid, rj_code = code,
       rj_promised = promised_ballot st, rj_position = position st\<rparr>"

definition undercuts :: "authority_ballot \<Rightarrow> authority_consensus_state \<Rightarrow> bool" where
  "undercuts ballot st \<longleftrightarrow> (case promised_ballot st of None \<Rightarrow> False | Some pb \<Rightarrow> ballot_key ballot < ballot_key pb)"

definition state_with_promise :: "authority_consensus_state \<Rightarrow> authority_ballot \<Rightarrow> authority_consensus_state" where
  "state_with_promise st ballot = st\<lparr>promised_ballot := Some ballot\<rparr>"

definition state_with_accept ::
  "authority_consensus_state \<Rightarrow> authority_ballot \<Rightarrow> authority_commit_descriptor \<Rightarrow> authority_membership list
     \<Rightarrow> authority_consensus_state" where
  "state_with_accept st ballot d ms =
     st\<lparr>promised_ballot := Some ballot, accepted_ballot := Some ballot, accepted_descriptor := Some d,
        accepted_memberships := Some ms\<rparr>"

text \<open>The payload with which a participant answers.\<close>

definition handle_prepare ::
  "crypto_ops \<Rightarrow> uuid \<Rightarrow> authority_consensus_snapshot \<Rightarrow> uuid \<Rightarrow> prepare_message
     \<Rightarrow> authority_consensus_snapshot \<times> (authority_error + authority_payload)" where
  "handle_prepare cr node snapshot source m =
     (let st = snap_state snapshot
      in case validate_phase_request cr node st source (pr_ballot m) (pr_descriptor m) (pr_memberships m) of
           Inl e \<Rightarrow> (snapshot, Inl e)
         | Inr (Some code) \<Rightarrow> (snapshot, Inr (rejection st (pr_request m) code))
         | Inr None \<Rightarrow>
             if undercuts (pr_ballot m) st then (snapshot, Inr (rejection st (pr_request m) stale_ballot))
             else case persist cr snapshot (state_with_promise st (pr_ballot m)) of
                    Inl e \<Rightarrow> (snapshot, Inl e)
                  | Inr snapshot' \<Rightarrow>
                      (let p = Promise \<lparr>pm_cluster = pos_cluster (position st), pm_request = pr_request m,
                                 pm_ballot = pr_ballot m, pm_index = pos_index (position st) + 1,
                                 pm_accepted_ballot = accepted_ballot st, pm_accepted_descriptor = accepted_descriptor st,
                                 pm_accepted_memberships = accepted_memberships st\<rparr>
                       in (snapshot', if payload_ok cr p then Inr p else Inl InvalidModel)))"

definition handle_accept ::
  "crypto_ops \<Rightarrow> uuid \<Rightarrow> string \<Rightarrow> authority_consensus_snapshot \<Rightarrow> uuid \<Rightarrow> accept_message
     \<Rightarrow> authority_consensus_snapshot \<times> (authority_error + authority_payload)" where
  "handle_accept cr node key snapshot source m =
     (let st = snap_state snapshot
      in case validate_phase_request cr node st source (ac_ballot m) (ac_descriptor m) (ac_memberships m) of
           Inl e \<Rightarrow> (snapshot, Inl e)
         | Inr (Some code) \<Rightarrow> (snapshot, Inr (rejection st (ac_request m) code))
         | Inr None \<Rightarrow>
             if undercuts (ac_ballot m) st then (snapshot, Inr (rejection st (ac_request m) stale_ballot))
             else if accepted_ballot st = Some (ac_ballot m) \<and>
                     (case accepted_descriptor st of None \<Rightarrow> False
                      | Some d \<Rightarrow> authority_commit_digest cr d \<noteq> authority_commit_digest cr (ac_descriptor m))
             then (snapshot, Inr (rejection st (ac_request m) conflicting_accept))
             else case persist cr snapshot (state_with_accept st (ac_ballot m) (ac_descriptor m) (ac_memberships m)) of
                    Inl e \<Rightarrow> (snapshot, Inl e)
                  | Inr snapshot' \<Rightarrow>
                      (snapshot', Inr (Accepted \<lparr>ad_cluster = pos_cluster (position st), ad_request = ac_request m,
                         ad_ballot = ac_ballot m, ad_vote = create_authority_vote cr (ac_descriptor m) node key\<rparr>)))"

definition apply_entry ::
  "crypto_ops \<Rightarrow> authority_committed_entry \<Rightarrow> authority_consensus_snapshot \<Rightarrow> authority_error + authority_consensus_snapshot" where
  "apply_entry cr e snapshot =
     (let st = snap_state snapshot; d = entry_descriptor e
      in if commit_index d \<le> pos_index (position st)
         then (case find (\<lambda>c. commit_index (entry_descriptor c) = commit_index d) (committed_entries st) of
                 Some retained \<Rightarrow>
                   if authority_commit_digest cr (entry_descriptor retained) = authority_commit_digest cr d
                   then Inr snapshot else Inl ConsensusError
               | None \<Rightarrow> Inl ConsensusError)
         else if \<not> transition_memberships_ok cr (active_membership st) (entry_memberships e) then Inl CertificateError
         else case verify_quorum_certificate cr (entry_certificate e) (entry_memberships e) (position st) of
                Inl x \<Rightarrow> Inl x
              | Inr pos \<Rightarrow>
                  persist cr snapshot \<lparr>bootstrap_position = bootstrap_position st, bootstrap_membership = bootstrap_membership st,
                    position = pos,
                    active_membership = (if length (entry_memberships e) = 2 then entry_memberships e ! 1 else active_membership st),
                    promised_ballot = None, accepted_ballot = None, accepted_descriptor = None, accepted_memberships = None,
                    committed_entries = committed_entries st @ [e]\<rparr>)"

definition handle_commit ::
  "crypto_ops \<Rightarrow> authority_consensus_snapshot \<Rightarrow> commit_message
     \<Rightarrow> authority_consensus_snapshot \<times> (authority_error + authority_payload list)" where
  "handle_commit cr snapshot m =
     (let st = snap_state snapshot
      in if commit_index (entry_descriptor (ct_entry m)) > pos_index (position st) + 1
         then (snapshot, Inr [CatchUpRequest \<lparr>cq_cluster = pos_cluster (position st), cq_request = ct_request m,
                 cq_after = pos_index (position st)\<rparr>])
         else case apply_entry cr (ct_entry m) snapshot of
                Inl e \<Rightarrow> (snapshot, Inl e)
              | Inr snapshot' \<Rightarrow> (snapshot', Inr []))"

definition handle_catch_up_request ::
  "crypto_ops \<Rightarrow> authority_consensus_snapshot \<Rightarrow> catch_up_request \<Rightarrow> authority_error + authority_payload" where
  "handle_catch_up_request cr snapshot m =
     (let st = snap_state snapshot;
          available = filter (\<lambda>e. commit_index (entry_descriptor e) > cq_after m) (committed_entries st);
          entries = take MAX_CATCH_UP_ENTRIES available;
          p = CatchUpResponse \<lparr>cs_cluster = pos_cluster (position st), cs_request = cq_request m, cs_entries = entries,
                cs_has_more = (length available > length entries)\<rparr>
      in if payload_ok cr p then Inr p else Inl InvalidModel)"

text \<open>The loop over the entries of a page: an error leaves the entries applied so far.\<close>

fun apply_entries ::
  "crypto_ops \<Rightarrow> authority_committed_entry list \<Rightarrow> authority_consensus_snapshot
     \<Rightarrow> authority_consensus_snapshot \<times> authority_error option" where
  "apply_entries cr [] snapshot = (snapshot, None)"
| "apply_entries cr (e # es) snapshot =
     (case apply_entry cr e snapshot of
        Inl x \<Rightarrow> (snapshot, Some x)
      | Inr snapshot' \<Rightarrow> apply_entries cr es snapshot')"

definition handle_catch_up_response ::
  "crypto_ops \<Rightarrow> uuid \<Rightarrow> authority_consensus_snapshot \<Rightarrow> catch_up_response
     \<Rightarrow> authority_consensus_snapshot \<times> (authority_error + authority_payload list)" where
  "handle_catch_up_response cr rid snapshot m =
     (case apply_entries cr (cs_entries m) snapshot of
        (current, Some x) \<Rightarrow> (current, Inl x)
      | (current, None) \<Rightarrow>
          (current,
           if \<not> cs_has_more m then Inr []
           else Inr [CatchUpRequest \<lparr>cq_cluster = pos_cluster (position (snap_state current)), cq_request = rid,
                       cq_after = pos_index (position (snap_state current))\<rparr>]))"

definition handle_payload ::
  "crypto_ops \<Rightarrow> uuid \<Rightarrow> string \<Rightarrow> uuid \<Rightarrow> network_envelope \<Rightarrow> authority_consensus_snapshot
     \<Rightarrow> authority_consensus_snapshot \<times> (authority_error + authority_payload list)" where
  "handle_payload cr node key rid env snapshot =
     (case env_payload env of
        Prepare m \<Rightarrow> apsnd (map_sum id (\<lambda>p. [p])) (handle_prepare cr node snapshot (env_source env) m)
      | Accept m \<Rightarrow> apsnd (map_sum id (\<lambda>p. [p])) (handle_accept cr node key snapshot (env_source env) m)
      | Commit m \<Rightarrow> handle_commit cr snapshot m
      | CatchUpRequest m \<Rightarrow> (snapshot, map_sum id (\<lambda>p. [p]) (handle_catch_up_request cr snapshot m))
      | CatchUpResponse m \<Rightarrow> handle_catch_up_response cr rid snapshot m
      | _ \<Rightarrow> (snapshot, Inl EnvelopeError))"

definition handle ::
  "crypto_ops \<Rightarrow> uuid \<Rightarrow> string \<Rightarrow> uuid \<Rightarrow> uuid \<Rightarrow> network_envelope \<Rightarrow> authority_consensus_snapshot
     \<Rightarrow> authority_consensus_snapshot \<times> reply" where
  "handle cr node key mid rid env snapshot =
     (if env_target env \<noteq> node then (snapshot, Inl EnvelopeError)
      else if payload_cluster (env_payload env) \<noteq> pos_cluster (position (snap_state snapshot)) then (snapshot, Inl EnvelopeError)
      else case verify_authority_envelope cr env [active_membership (snap_state snapshot)] of
             Inl e \<Rightarrow> (snapshot, Inl e)
           | Inr _ \<Rightarrow>
               apsnd (map_sum id (map (\<lambda>p. create_authority_envelope cr p node (env_source env) key mid)))
                 (handle_payload cr node key rid env snapshot))"

end
