(* ===== verification/Authority_System.thy ===== *)
theory Authority_System
  imports Authority_Consensus
begin

text \<open>
  The operator authority as a transition system: participants, the collectors of any number of
  concurrent proposers and a network that loses, repeats and reorders messages; nodes may stop at any
  time and keep what they persisted.  The network holds what the nodes sent: an envelope somebody else
  made up does not verify.  The second half reads the network as sets of promises, proposals, votes
  and entries, and the logs as chains of positions.
\<close>

section \<open>The system\<close>

record authority_system =
  sys_store :: "uuid \<Rightarrow> authority_consensus_snapshot"
  sys_collectors :: "uuid \<Rightarrow> vote_collector option"
  sys_net :: "network_envelope set"

abbreviation node_state :: "authority_system \<Rightarrow> uuid \<Rightarrow> authority_consensus_state" where
  "node_state s a \<equiv> snap_state (sys_store s a)"

definition initial_system :: "authority_commit_position \<Rightarrow> authority_membership \<Rightarrow> authority_system" where
  "initial_system pos m = \<lparr>sys_store = (\<lambda>a. \<lparr>revision = 0, snap_state = bootstrap_state pos m\<rparr>),
     sys_collectors = (\<lambda>r. None), sys_net = {}\<rparr>"

definition replies :: "reply \<Rightarrow> network_envelope set" where
  "replies r = (case r of Inl e \<Rightarrow> {} | Inr es \<Rightarrow> set es)"

text \<open>What a proposer sends to some targets.\<close>

definition sent :: "crypto_ops \<Rightarrow> (uuid \<Rightarrow> string) \<Rightarrow> uuid \<Rightarrow> uuid set \<Rightarrow> (uuid \<Rightarrow> uuid) \<Rightarrow> authority_payload \<Rightarrow> network_envelope set" where
  "sent cr keys source targets mid p = (\<lambda>t. create_authority_envelope cr p source t (keys source) (mid t)) ` targets"

inductive auth_step :: "crypto_ops \<Rightarrow> (uuid \<Rightarrow> string) \<Rightarrow> authority_system \<Rightarrow> authority_system \<Rightarrow> bool" for cr keys where
  deliver: "env \<in> sys_net s \<Longrightarrow> handle cr a (keys a) mid rid env (sys_store s a) = (snapshot, r) \<Longrightarrow>
    auth_step cr keys s (s\<lparr>sys_store := (sys_store s)(a := snapshot), sys_net := sys_net s \<union> replies r\<rparr>)"
| start_round: "sys_collectors s rid = None \<Longrightarrow> new_collector cr ballot d ms previous rid = Inr col \<Longrightarrow>
    auth_step cr keys s (s\<lparr>sys_collectors := (sys_collectors s)(rid \<mapsto> col)\<rparr>)"
| send_prepare: "sys_collectors s rid = Some col \<Longrightarrow> payload_ok cr (Prepare (prepare_message_of col)) \<Longrightarrow>
    auth_step cr keys s (s\<lparr>sys_net := sys_net s \<union>
      sent cr keys (ballot_proposer (col_ballot col)) targets mid (Prepare (prepare_message_of col))\<rparr>)"
| promise_response: "sys_collectors s rid = Some col \<Longrightarrow> env \<in> sys_net s \<Longrightarrow> record_prepare_response cr env col = Inr col' \<Longrightarrow>
    auth_step cr keys s (s\<lparr>sys_collectors := (sys_collectors s)(rid \<mapsto> col')\<rparr>)"
| send_accept: "sys_collectors s rid = Some col \<Longrightarrow> accept_message_of cr col = (col', Inr m) \<Longrightarrow>
    auth_step cr keys s (s\<lparr>sys_collectors := (sys_collectors s)(rid \<mapsto> col'),
      sys_net := sys_net s \<union> sent cr keys (ballot_proposer (col_ballot col)) targets mid (Accept m)\<rparr>)"
| select_fails: "sys_collectors s rid = Some col \<Longrightarrow> accept_message_of cr col = (col', Inl e) \<Longrightarrow>
    auth_step cr keys s (s\<lparr>sys_collectors := (sys_collectors s)(rid \<mapsto> col')\<rparr>)"
| accept_response: "sys_collectors s rid = Some col \<Longrightarrow> env \<in> sys_net s \<Longrightarrow> record_accept_response cr env col = Inr col' \<Longrightarrow>
    auth_step cr keys s (s\<lparr>sys_collectors := (sys_collectors s)(rid \<mapsto> col')\<rparr>)"
| send_commit: "sys_collectors s rid = Some col \<Longrightarrow> committed_entry_of cr col = Inr e \<Longrightarrow>
    auth_step cr keys s (s\<lparr>sys_net := sys_net s \<union> sent cr keys (ballot_proposer (col_ballot col)) targets mid
      (Commit \<lparr>ct_cluster = cluster_id (entry_descriptor e), ct_request = rid, ct_entry = e\<rparr>)\<rparr>)"
| ask_catch_up: "auth_step cr keys s (s\<lparr>sys_net := sys_net s \<union> sent cr keys a targets mid (CatchUpRequest m)\<rparr>)"

inductive auth_reachable ::
  "crypto_ops \<Rightarrow> (uuid \<Rightarrow> string) \<Rightarrow> authority_commit_position \<Rightarrow> authority_membership \<Rightarrow> authority_system \<Rightarrow> bool"
  for cr keys pos m where
  initially: "auth_reachable cr keys pos m (initial_system pos m)"
| stepwise: "auth_reachable cr keys pos m s \<Longrightarrow> auth_step cr keys s s' \<Longrightarrow> auth_reachable cr keys pos m s'"

text \<open>Idealised cryptography: digests do not collide, and a signature verifies for the signed vote only.\<close>

definition sound_crypto :: "crypto_ops \<Rightarrow> bool" where
  "sound_crypto cr \<longleftrightarrow> inj (membership_hash cr) \<and> inj (commit_hash cr) \<and>
     (\<forall>key x pk y. verify_vote cr pk y (sign_vote cr key x) \<longrightarrow> y = x) \<and>
     (\<forall>key x. \<exists>pk. verify_vote cr pk x (sign_vote cr key x))"

lemma digest_configuration:
  "sound_crypto cr \<Longrightarrow> authority_membership_digest cr m = authority_membership_digest cr m' \<Longrightarrow> configuration m = configuration m'"
  unfolding sound_crypto_def authority_membership_digest_def configuration_def inj_def
  by (metis prod.inject set_sort)

lemma vote_binding:
  "sound_crypto cr \<Longrightarrow> create_authority_vote cr d a key = create_authority_vote cr d' a key \<Longrightarrow> d = d'"
  unfolding sound_crypto_def create_authority_vote_def by (metis authority_vote.ext_inject prod.inject)

lemma verified_vote:
  "sound_crypto cr \<Longrightarrow> verify_vote cr pk (d, a) (vote_signature (create_authority_vote cr d' a key)) \<Longrightarrow> d = d'"
  unfolding sound_crypto_def create_authority_vote_def by (metis authority_vote.select_convs(2) prod.inject)

section \<open>What the network holds\<close>

definition prepares :: "network_envelope set \<Rightarrow> prepare_message set" where
  "prepares net = {m. \<exists>env \<in> net. env_payload env = Prepare m}"

definition promises_of :: "network_envelope set \<Rightarrow> uuid \<Rightarrow> promise_message set" where
  "promises_of net a = {m. \<exists>env \<in> net. env_source env = a \<and> env_payload env = Promise m}"

definition proposals :: "network_envelope set \<Rightarrow> ((nat \<times> nat) \<times> authority_commit_descriptor) set" where
  "proposals net = {(b, d). \<exists>env \<in> net. \<exists>m. env_payload env = Accept m \<and> b = ballot_key (ac_ballot m) \<and> d = ac_descriptor m}"

definition acks :: "network_envelope set \<Rightarrow> uuid \<Rightarrow> ((nat \<times> nat) \<times> authority_vote) set" where
  "acks net a = {(b, v). \<exists>env \<in> net. \<exists>m. env_source env = a \<and> env_payload env = Accepted m \<and> b = ballot_key (ad_ballot m) \<and> v = ad_vote m}"

definition votes_of ::
  "crypto_ops \<Rightarrow> (uuid \<Rightarrow> string) \<Rightarrow> network_envelope set \<Rightarrow> uuid \<Rightarrow> ((nat \<times> nat) \<times> authority_commit_descriptor) set" where
  "votes_of cr keys net a = {(b, d). (b, create_authority_vote cr d a (keys a)) \<in> acks net a}"

fun payload_entries :: "authority_payload \<Rightarrow> authority_committed_entry set" where
  "payload_entries (Commit m) = {ct_entry m}"
| "payload_entries (CatchUpResponse m) = set (cs_entries m)"
| "payload_entries _ = {}"

definition net_entries :: "network_envelope set \<Rightarrow> authority_committed_entry set" where
  "net_entries net = (\<Union>env \<in> net. payload_entries (env_payload env))"

lemma views_union [simp]:
  "prepares (M \<union> N) = prepares M \<union> prepares N"
  "promises_of (M \<union> N) a = promises_of M a \<union> promises_of N a"
  "proposals (M \<union> N) = proposals M \<union> proposals N"
  "acks (M \<union> N) a = acks M a \<union> acks N a"
  "votes_of cr keys (M \<union> N) a = votes_of cr keys M a \<union> votes_of cr keys N a"
  "net_entries (M \<union> N) = net_entries M \<union> net_entries N"
  by (auto simp: prepares_def promises_of_def proposals_def acks_def votes_of_def net_entries_def)

lemma views_empty [simp]:
  "prepares {} = {}" "promises_of {} a = {}" "proposals {} = {}" "acks {} a = {}" "votes_of cr keys {} a = {}" "net_entries {} = {}"
  by (auto simp: prepares_def promises_of_def proposals_def acks_def votes_of_def net_entries_def)

text \<open>A bunch of messages that are no phase messages: only its entries matter.\<close>

fun is_phase :: "authority_payload \<Rightarrow> bool" where
  "is_phase (Prepare m) = True" | "is_phase (Promise m) = True" | "is_phase (Accept m) = True" | "is_phase (Accepted m) = True"
| "is_phase _ = False"

lemma views_quiet:
  assumes "\<forall>env \<in> N. \<not> is_phase (env_payload env)"
  shows "prepares N = {}" "promises_of N a = {}" "proposals N = {}" "acks N a = {}" "votes_of cr keys N a = {}"
  using assms by (force simp: prepares_def promises_of_def proposals_def acks_def votes_of_def)+

section \<open>Logs as chains\<close>

text \<open>The positions and memberships a log runs through.\<close>

fun log_heads ::
  "'p crypto \<Rightarrow> authority_commit_position \<Rightarrow> authority_membership \<Rightarrow> authority_committed_entry list
     \<Rightarrow> (authority_commit_position \<times> authority_membership) list" where
  "log_heads cr pos active [] = [(pos, active)]"
| "log_heads cr pos active (e # es) =
     (pos, active) # log_heads cr (descriptor_position cr (entry_descriptor e))
       (if length (entry_memberships e) = 2 then entry_memberships e ! 1 else active) es"

definition configs ::
  "crypto_ops \<Rightarrow> authority_commit_position \<Rightarrow> authority_membership \<Rightarrow> authority_system
     \<Rightarrow> (authority_commit_position \<times> authority_membership) set" where
  "configs cr pos m s = (\<Union>a. set (log_heads cr pos m (committed_entries (node_state s a))))"

lemma log_heads_append: "set (log_heads cr pos m es) \<subseteq> set (log_heads cr pos m (es @ fs))"
  by (induction es arbitrary: pos m) (cases fs; auto)+

text \<open>An entry extends a head to the next one.\<close>

definition extends_head ::
  "'p crypto \<Rightarrow> authority_commit_position \<times> authority_membership \<Rightarrow> authority_committed_entry
     \<Rightarrow> authority_commit_position \<times> authority_membership \<Rightarrow> bool" where
  "extends_head cr h e h' \<longleftrightarrow>
     authority_membership_digest cr (entry_memberships e ! 0) = authority_membership_digest cr (snd h) \<and>
     verify_quorum_certificate cr (entry_certificate e) (entry_memberships e) (fst h) = Inr (fst h') \<and>
     snd h' = (if length (entry_memberships e) = 2 then entry_memberships e ! 1 else snd h)"

lemma extends_headD:
  assumes "extends_head cr h e h'"
  shows "fst h' = descriptor_position cr (entry_descriptor e)" "pos_index (fst h') = pos_index (fst h) + 1"
    "commit_index (entry_descriptor e) = pos_index (fst h) + 1"
    "required_membership_digests (entry_descriptor e) = sort (map (authority_membership_digest cr) (entry_memberships e))"
    "length (entry_memberships e) = 1 \<or> length (entry_memberships e) = 2"
proof -
  have v: "verify_quorum_certificate cr (entry_certificate e) (entry_memberships e) (fst h) = Inr (fst h')"
    using assms by (simp add: extends_head_def)
  note q = verify_quorum_certificate_sound [OF v]
  note d = validate_descriptorD [OF q(2)]
  from q(1) d show "fst h' = descriptor_position cr (entry_descriptor e)" "pos_index (fst h') = pos_index (fst h) + 1"
    "commit_index (entry_descriptor e) = pos_index (fst h) + 1"
    "required_membership_digests (entry_descriptor e) = sort (map (authority_membership_digest cr) (entry_memberships e))"
    "length (entry_memberships e) = 1 \<or> length (entry_memberships e) = 2"
    by (simp_all add: descriptor_position_def)
qed

lemma certified_head_cons:
  assumes "certified_head cr p m (e # es) = Some h"
  obtains h' where "extends_head cr (p, m) e h'" "certified_head cr (fst h') (snd h') es = Some h"
    "log_heads cr p m (e # es) = (p, m) # log_heads cr (fst h') (snd h') es"
proof -
  let ?m = "if length (entry_memberships e) = 2 then entry_memberships e ! 1 else m"
  from assms obtain p' where p': "extends_head cr (p, m) e (p', ?m)" "certified_head cr p' ?m es = Some h"
    by (auto simp: extends_head_def split: if_splits sum.splits)
  from extends_headD(1) [OF p'(1)] have "log_heads cr p m (e # es) = (p, m) # log_heads cr p' ?m es" by simp
  with p' that [of "(p', ?m)"] show thesis by simp
qed

lemma certified_head_in_heads: "certified_head cr p m es = Some h \<Longrightarrow> h \<in> set (log_heads cr p m es)"
proof (induction es arbitrary: p m)
  case (Cons e es)
  from Cons.prems show ?case by (rule certified_head_cons) (use Cons.IH in auto)
qed simp

text \<open>Every entry of a log extends one of its heads, and every head but the first comes from an entry.\<close>

lemma log_entry_extends:
  "certified_head cr p m es = Some h \<Longrightarrow> e \<in> set es \<Longrightarrow>
     \<exists>h1 \<in> set (log_heads cr p m es). \<exists>h2 \<in> set (log_heads cr p m es). extends_head cr h1 e h2"
proof (induction es arbitrary: p m)
  case (Cons x es)
  from Cons.prems(1) obtain h' where h': "extends_head cr (p, m) x h'" "certified_head cr (fst h') (snd h') es = Some h"
      "log_heads cr p m (x # es) = (p, m) # log_heads cr (fst h') (snd h') es"
    by (rule certified_head_cons)
  have "h' \<in> set (log_heads cr (fst h') (snd h') es)" by (cases es) auto
  with h' Cons.IH [OF h'(2)] Cons.prems(2) show ?case by auto
qed simp

lemma log_head_origin:
  "certified_head cr p m es = Some h \<Longrightarrow> k \<in> set (log_heads cr p m es) \<Longrightarrow>
     k = (p, m) \<or> (\<exists>h1 \<in> set (log_heads cr p m es). \<exists>e \<in> set es. extends_head cr h1 e k)"
proof (induction es arbitrary: p m)
  case (Cons x es)
  from Cons.prems(1) obtain h' where h': "extends_head cr (p, m) x h'" "certified_head cr (fst h') (snd h') es = Some h"
      "log_heads cr p m (x # es) = (p, m) # log_heads cr (fst h') (snd h') es"
    by (rule certified_head_cons)
  with Cons.IH [OF h'(2)] Cons.prems(2) show ?case by auto
qed simp

lemma log_heads_index: "certified_head cr p m es = Some h \<Longrightarrow> k \<in> set (log_heads cr p m es) \<Longrightarrow> pos_index p \<le> pos_index (fst k)"
proof (induction es arbitrary: p m)
  case (Cons x es)
  from Cons.prems(1) obtain h' where h': "extends_head cr (p, m) x h'" "certified_head cr (fst h') (snd h') es = Some h"
      "log_heads cr p m (x # es) = (p, m) # log_heads cr (fst h') (snd h') es"
    by (rule certified_head_cons)
  from Cons.IH [OF h'(2), of] Cons.prems(2) h'(3) extends_headD(2) [OF h'(1)] show ?case by force
qed auto

lemma log_continuity_head:
  "log_continuity cr st \<Longrightarrow>
     certified_head cr (bootstrap_position st) (bootstrap_membership st) (committed_entries st) = Some (position st, active_membership st)"
  by (auto simp: log_continuity_def split: if_splits)

end
