(* ===== verification/Authority_Acceptor.thy ===== *)
theory Authority_Acceptor
  imports Authority_System
begin

text \<open>
  One participant as an acceptor: its durable state against the promises and votes it has sent.
  The three ways in which \<^verbatim>\<open>AuthorityConsensusParticipant\<close> changes its state, promising, accepting and
  applying an entry, keep \<open>acceptor_ok\<close>.
\<close>

definition acceptor_ok ::
  "crypto_ops \<Rightarrow> authority_commit_position \<Rightarrow> authority_membership \<Rightarrow> promise_message set
     \<Rightarrow> ((nat \<times> nat) \<times> authority_commit_descriptor) set \<Rightarrow> authority_consensus_state \<Rightarrow> bool" where
  "acceptor_ok cr pos m P V st \<longleftrightarrow>
     bootstrap_position st = pos \<and> bootstrap_membership st = m \<and> log_continuity cr st \<and> accepted_state_is_complete cr st \<and>
     (accepted_ballot st \<noteq> None \<longrightarrow> promised_ballot st \<noteq> None) \<and>
     (\<forall>b d. (b, d) \<in> V \<longrightarrow> commit_index d \<le> pos_index (position st) + 1) \<and>
     (\<forall>b d. (b, d) \<in> V \<longrightarrow> commit_index d = pos_index (position st) + 1 \<longrightarrow> (\<exists>ab. accepted_ballot st = Some ab \<and> b \<le> ballot_key ab)) \<and>
     (\<forall>b d d'. (b, d) \<in> V \<longrightarrow> (b, d') \<in> V \<longrightarrow> commit_index d = commit_index d' \<longrightarrow> d = d') \<and>
     (\<forall>ab ad. accepted_ballot st = Some ab \<longrightarrow> accepted_descriptor st = Some ad \<longrightarrow> (ballot_key ab, ad) \<in> V) \<and>
     (\<forall>pm. pm \<in> P \<longrightarrow> pm_index pm \<le> pos_index (position st) + 1) \<and>
     (\<forall>pm. pm \<in> P \<longrightarrow> pm_index pm = pos_index (position st) + 1 \<longrightarrow>
        (\<exists>pb. promised_ballot st = Some pb \<and> ballot_key (pm_ballot pm) \<le> ballot_key pb)) \<and>
     (\<forall>pm b d. pm \<in> P \<longrightarrow> (b, d) \<in> V \<longrightarrow> b < ballot_key (pm_ballot pm) \<longrightarrow> commit_index d = pm_index pm \<longrightarrow>
        (\<exists>ab. pm_accepted_ballot pm = Some ab \<and> b \<le> ballot_key ab)) \<and>
     (\<forall>pm ab. pm \<in> P \<longrightarrow> pm_accepted_ballot pm = Some ab \<longrightarrow> ballot_key ab \<le> ballot_key (pm_ballot pm)) \<and>
     (\<forall>pm ab. pm \<in> P \<longrightarrow> pm_accepted_ballot pm = Some ab \<longrightarrow>
        (\<exists>ad. pm_accepted_descriptor pm = Some ad \<and> (ballot_key ab, ad) \<in> V \<and> commit_index ad = pm_index pm))"

lemma acceptor_okD:
  assumes "acceptor_ok cr pos m P V st"
  shows "bootstrap_position st = pos" "bootstrap_membership st = m" "log_continuity cr st" "accepted_state_is_complete cr st"
    "accepted_ballot st \<noteq> None \<Longrightarrow> promised_ballot st \<noteq> None"
    "(b, d) \<in> V \<Longrightarrow> commit_index d \<le> pos_index (position st) + 1"
    "(b, d) \<in> V \<Longrightarrow> commit_index d = pos_index (position st) + 1 \<Longrightarrow> \<exists>ab. accepted_ballot st = Some ab \<and> b \<le> ballot_key ab"
    "(b, d) \<in> V \<Longrightarrow> (b, d') \<in> V \<Longrightarrow> commit_index d = commit_index d' \<Longrightarrow> d = d'"
    "accepted_ballot st = Some ab \<Longrightarrow> accepted_descriptor st = Some ad \<Longrightarrow> (ballot_key ab, ad) \<in> V"
    "pm \<in> P \<Longrightarrow> pm_index pm \<le> pos_index (position st) + 1"
    "pm \<in> P \<Longrightarrow> pm_index pm = pos_index (position st) + 1 \<Longrightarrow>
       \<exists>pb. promised_ballot st = Some pb \<and> ballot_key (pm_ballot pm) \<le> ballot_key pb"
    "pm \<in> P \<Longrightarrow> (b, d) \<in> V \<Longrightarrow> b < ballot_key (pm_ballot pm) \<Longrightarrow> commit_index d = pm_index pm \<Longrightarrow>
       \<exists>ab. pm_accepted_ballot pm = Some ab \<and> b \<le> ballot_key ab"
    "pm \<in> P \<Longrightarrow> pm_accepted_ballot pm = Some ab \<Longrightarrow> ballot_key ab \<le> ballot_key (pm_ballot pm)"
    "pm \<in> P \<Longrightarrow> pm_accepted_ballot pm = Some ab \<Longrightarrow>
       \<exists>ad. pm_accepted_descriptor pm = Some ad \<and> (ballot_key ab, ad) \<in> V \<and> commit_index ad = pm_index pm"
  using assms unfolding acceptor_ok_def by blast+

lemma acceptor_okI:
  assumes "bootstrap_position st = pos" "bootstrap_membership st = m" "log_continuity cr st" "accepted_state_is_complete cr st"
    "accepted_ballot st \<noteq> None \<Longrightarrow> promised_ballot st \<noteq> None"
    "\<And>b d. (b, d) \<in> V \<Longrightarrow> commit_index d \<le> pos_index (position st) + 1"
    "\<And>b d. (b, d) \<in> V \<Longrightarrow> commit_index d = pos_index (position st) + 1 \<Longrightarrow> \<exists>ab. accepted_ballot st = Some ab \<and> b \<le> ballot_key ab"
    "\<And>b d d'. (b, d) \<in> V \<Longrightarrow> (b, d') \<in> V \<Longrightarrow> commit_index d = commit_index d' \<Longrightarrow> d = d'"
    "\<And>ab ad. accepted_ballot st = Some ab \<Longrightarrow> accepted_descriptor st = Some ad \<Longrightarrow> (ballot_key ab, ad) \<in> V"
    "\<And>pm. pm \<in> P \<Longrightarrow> pm_index pm \<le> pos_index (position st) + 1"
    "\<And>pm. pm \<in> P \<Longrightarrow> pm_index pm = pos_index (position st) + 1 \<Longrightarrow>
       \<exists>pb. promised_ballot st = Some pb \<and> ballot_key (pm_ballot pm) \<le> ballot_key pb"
    "\<And>pm b d. pm \<in> P \<Longrightarrow> (b, d) \<in> V \<Longrightarrow> b < ballot_key (pm_ballot pm) \<Longrightarrow> commit_index d = pm_index pm \<Longrightarrow>
       \<exists>ab. pm_accepted_ballot pm = Some ab \<and> b \<le> ballot_key ab"
    "\<And>pm ab. pm \<in> P \<Longrightarrow> pm_accepted_ballot pm = Some ab \<Longrightarrow> ballot_key ab \<le> ballot_key (pm_ballot pm)"
    "\<And>pm ab. pm \<in> P \<Longrightarrow> pm_accepted_ballot pm = Some ab \<Longrightarrow>
       \<exists>ad. pm_accepted_descriptor pm = Some ad \<and> (ballot_key ab, ad) \<in> V \<and> commit_index ad = pm_index pm"
  shows "acceptor_ok cr pos m P V st"
  unfolding acceptor_ok_def by (intro conjI allI impI; rule assms; assumption)

lemma acceptor_ok_subset:
  assumes "acceptor_ok cr pos m P V st" "P' \<subseteq> P"
  shows "acceptor_ok cr pos m P' V st"
proof -
  have s: "pm \<in> P' \<Longrightarrow> pm \<in> P" for pm using assms(2) by blast
  note D = acceptor_okD [OF assms(1)]
  show ?thesis
    by (rule acceptor_okI; (drule s)?; rule D; assumption)
qed

lemma ballot_key_eq [simp]: "ballot_key (b :: authority_ballot) = ballot_key b' \<longleftrightarrow> b = b'"
  by (auto simp: ballot_key_def intro: authority_ballot.equality)

lemma undercutsD: "\<not> undercuts b st \<Longrightarrow> promised_ballot st = Some pb \<Longrightarrow> ballot_key pb \<le> ballot_key b"
  by (auto simp: undercuts_def)

lemma accepted_complete:
  assumes "accepted_state_is_complete cr st" "accepted_ballot st = Some ab"
  shows "\<exists>ad. accepted_descriptor st = Some ad \<and> commit_index ad = pos_index (position st) + 1 \<and>
    (\<forall>pb. promised_ballot st = Some pb \<longrightarrow> ballot_key ab \<le> ballot_key pb)"
  using assms unfolding accepted_state_is_complete_def all_or_none_def by (auto split: option.splits)

lemma persistD:
  assumes "persist cr snap st = Inr snap'"
  shows "snap_state snap' = st" "accepted_state_is_complete cr st" "log_continuity cr st"
    "bootstrap_position st = bootstrap_position (snap_state snap)" "bootstrap_membership st = bootstrap_membership (snap_state snap)"
  using assms by (auto simp: persist_def compare_and_set_def Let_def split: if_splits sum.splits)

text \<open>The accepted value of a valid acceptor was voted for, at the next index and below the promise.\<close>

lemma accepted_voted:
  assumes ok: "acceptor_ok cr pos m P V st" and "accepted_ballot st = Some ab"
  shows "\<exists>ad pb. accepted_descriptor st = Some ad \<and> (ballot_key ab, ad) \<in> V \<and> commit_index ad = pos_index (position st) + 1 \<and>
    promised_ballot st = Some pb \<and> ballot_key ab \<le> ballot_key pb"
proof -
  obtain pb where "promised_ballot st = Some pb" using acceptor_okD(5) [OF ok] assms(2) by auto
  then show ?thesis using accepted_complete [OF acceptor_okD(4) [OF ok] assms(2)] acceptor_okD(9) [OF ok assms(2)] by blast
qed

section \<open>Promising\<close>

definition promise_for :: "authority_consensus_state \<Rightarrow> prepare_message \<Rightarrow> promise_message" where
  "promise_for st m = \<lparr>pm_cluster = pos_cluster (position st), pm_request = pr_request m, pm_ballot = pr_ballot m,
     pm_index = pos_index (position st) + 1, pm_accepted_ballot = accepted_ballot st,
     pm_accepted_descriptor = accepted_descriptor st, pm_accepted_memberships = accepted_memberships st\<rparr>"

lemma acceptor_promises:
  assumes ok: "acceptor_ok cr pos m P V st" and u: "\<not> undercuts (pr_ballot q) st"
    and c: "accepted_state_is_complete cr (state_with_promise st (pr_ballot q))" "log_continuity cr (state_with_promise st (pr_ballot q))"
  shows "acceptor_ok cr pos m (insert (promise_for st q) P) V (state_with_promise st (pr_ballot q))"
proof -
  let ?b = "ballot_key (pr_ballot q)" and ?i = "pos_index (position st) + 1"
  note D = acceptor_okD [OF ok]
  have acc: "ballot_key ab \<le> ?b" if "accepted_ballot st = Some ab" for ab
    using accepted_voted [OF ok that] undercutsD [OF u] order_trans by blast
  have prom: "ballot_key (pm_ballot pm) \<le> ?b" if "pm \<in> P" "pm_index pm = ?i" for pm
    using D(11) [OF that] undercutsD [OF u] order_trans by blast
  show ?thesis
  proof (rule acceptor_okI, goal_cases)
    case (12 pm b d) then show ?case using D(7) [of b d] D(12) [of pm b d] by (auto simp: promise_for_def)
  next
    case (13 pm ab) then show ?case using acc D(13) [of pm ab] by (auto simp: promise_for_def)
  next
    case (14 pm ab) then show ?case using accepted_voted [OF ok, of ab] D(14) [of pm ab] by (auto simp: promise_for_def)
  qed (use c D(1-3) D(6-11) prom in \<open>auto simp: state_with_promise_def promise_for_def\<close>)
qed

section \<open>Accepting\<close>

lemma acceptor_accepts:
  assumes sc: "sound_crypto cr" and ok: "acceptor_ok cr pos m P V st" and u: "\<not> undercuts b st"
    and nc: "\<And>ad. accepted_ballot st = Some b \<Longrightarrow> accepted_descriptor st = Some ad \<Longrightarrow> authority_commit_digest cr ad = authority_commit_digest cr d"
    and i: "commit_index d = pos_index (position st) + 1"
    and c: "accepted_state_is_complete cr (state_with_accept st b d ms)" "log_continuity cr (state_with_accept st b d ms)"
  shows "acceptor_ok cr pos m P (insert (ballot_key b, d) V) (state_with_accept st b d ms)"
proof -
  note D = acceptor_okD [OF ok]
  have below: "ballot_key ab \<le> ballot_key b" if "accepted_ballot st = Some ab" for ab
    using accepted_voted [OF ok that] undercutsD [OF u] order_trans by blast
  have prom: "ballot_key (pm_ballot pm) \<le> ballot_key b" if "pm \<in> P" "pm_index pm = pos_index (position st) + 1" for pm
    using D(11) [OF that] undercutsD [OF u] order_trans by blast
  have same: "d' = d" if v: "(ballot_key b, d') \<in> V" "commit_index d' = commit_index d" for d'
  proof -
    obtain ab where ab: "accepted_ballot st = Some ab" "ballot_key b \<le> ballot_key ab" using D(7) [OF v(1)] v(2) i by auto
    with below have "ballot_key ab = ballot_key b" by (meson order_antisym)
    then have "ab = b" by simp
    with ab accepted_voted [OF ok ab(1)] obtain ad where ad: "accepted_descriptor st = Some ad" "(ballot_key b, ad) \<in> V"
        "commit_index ad = commit_index d" using i by auto
    have "ad = d" using nc [OF _ ad(1)] ab(1) \<open>ab = b\<close> sc by (auto simp: sound_crypto_def authority_commit_digest_def inj_def)
    with D(8) [OF v(1) ad(2)] v(2) show ?thesis by simp
  qed
  have old: "b' \<le> ballot_key b" if "(b', d') \<in> V" "commit_index d' = pos_index (position st) + 1" for b' d'
    using D(7) [OF that] below order_trans by blast
  show ?thesis
  proof (rule acceptor_okI, goal_cases)
    case (12 pm b' d') then show ?case using D(12) [of pm b' d'] prom [of pm] i by (auto simp: leD)
  next
    case (14 pm ab) then show ?case using D(14) [of pm ab] by auto
  qed (use c D(1-3) D(6) D(8) D(10) D(13) same old prom i in \<open>auto simp: state_with_accept_def\<close>)
qed

section \<open>Applying entries\<close>

lemma acceptor_applies:
  assumes ok: "acceptor_ok cr pos m P V (snap_state snap)" and ap: "apply_entry cr e snap = Inr snap'"
  shows "acceptor_ok cr pos m P V (snap_state snap')"
    and "\<exists>fs. committed_entries (snap_state snap') = committed_entries (snap_state snap) @ fs \<and> set fs \<subseteq> {e}"
proof -
  let ?st = "snap_state snap"
  note D = acceptor_okD [OF ok]
  consider "snap' = snap"
    | p ms where "verify_quorum_certificate cr (entry_certificate e) (entry_memberships e) (position ?st) = Inr p"
        "persist cr snap \<lparr>bootstrap_position = bootstrap_position ?st, bootstrap_membership = bootstrap_membership ?st,
           position = p, active_membership = ms, promised_ballot = None, accepted_ballot = None, accepted_descriptor = None,
           accepted_memberships = None, committed_entries = committed_entries ?st @ [e]\<rparr> = Inr snap'"
    using ap by (fastforce simp: apply_entry_def Let_def split: if_splits option.splits sum.splits)
  note cases = this
  show "\<exists>fs. committed_entries (snap_state snap') = committed_entries ?st @ fs \<and> set fs \<subseteq> {e}"
    by (cases rule: cases) (use persistD in auto)
  show "acceptor_ok cr pos m P V (snap_state snap')"
  proof (cases rule: cases)
    case 1
    then show ?thesis using ok by simp
  next
    case (2 p ms)
    note q = persistD [OF 2(2)]
    have i: "pos_index p = pos_index (position ?st) + 1"
      using verify_quorum_certificate_sound(1,2) [OF 2(1)] validate_descriptorD(2) by (fastforce simp: descriptor_position_def)
    show ?thesis
    proof (rule acceptor_okI, goal_cases)
      case (6 b d) then show ?case using D(6) [of b d] q(1) i by simp
    next
      case (7 b d) then show ?case using D(6) [of b d] q(1) i by simp
    next
      case (10 pm) then show ?case using D(10) [of pm] q(1) i by simp
    next
      case (11 pm) then show ?case using D(10) [of pm] q(1) i by simp
    qed (use q D(1,2,8) D(12-14) in auto)
  qed
qed

lemma acceptor_applies_all:
  assumes "acceptor_ok cr pos m P V (snap_state snap)"
  shows "acceptor_ok cr pos m P V (snap_state (fst (apply_entries cr es snap)))"
    and "\<exists>fs. committed_entries (snap_state (fst (apply_entries cr es snap))) = committed_entries (snap_state snap) @ fs \<and> set fs \<subseteq> set es"
proof -
  have "acceptor_ok cr pos m P V (snap_state (fst (apply_entries cr es snap))) \<and>
    (\<exists>fs. committed_entries (snap_state (fst (apply_entries cr es snap))) = committed_entries (snap_state snap) @ fs \<and> set fs \<subseteq> set es)"
    using assms
  proof (induction es arbitrary: snap)
    case (Cons e es)
    show ?case
    proof (cases "apply_entry cr e snap")
      case (Inl x)
      then show ?thesis using Cons.prems by simp
    next
      case (Inr snap')
      obtain fs gs where "committed_entries (snap_state snap') = committed_entries (snap_state snap) @ fs" "set fs \<subseteq> {e}"
          "committed_entries (snap_state (fst (apply_entries cr es snap'))) = committed_entries (snap_state snap') @ gs" "set gs \<subseteq> set es"
        using acceptor_applies(2) [OF Cons.prems Inr] Cons.IH [OF acceptor_applies(1) [OF Cons.prems Inr]] by blast
      then have "committed_entries (snap_state (fst (apply_entries cr (e # es) snap))) = committed_entries (snap_state snap) @ fs @ gs \<and>
          set (fs @ gs) \<subseteq> set (e # es)" using Inr by auto
      then show ?thesis using Inr Cons.IH [OF acceptor_applies(1) [OF Cons.prems Inr]] by auto
    qed
  qed simp
  then show "acceptor_ok cr pos m P V (snap_state (fst (apply_entries cr es snap)))"
    "\<exists>fs. committed_entries (snap_state (fst (apply_entries cr es snap))) = committed_entries (snap_state snap) @ fs \<and> set fs \<subseteq> set es"
    by blast+
qed

section \<open>What a participant does with an envelope\<close>

definition applied_only ::
  "crypto_ops \<Rightarrow> authority_payload \<Rightarrow> authority_consensus_snapshot \<Rightarrow> authority_consensus_snapshot \<Rightarrow> authority_payload set \<Rightarrow> bool" where
  "applied_only cr p snap snap' qs \<longleftrightarrow>
     (\<exists>es. set es \<subseteq> payload_entries p \<and> snap' = fst (apply_entries cr es snap)) \<and>
     (\<forall>q \<in> qs. \<not> is_phase q \<and> payload_entries q \<subseteq> set (committed_entries (snap_state snap')))"

lemma applied_nothing:
  "\<forall>q \<in> qs. \<not> is_phase q \<and> payload_entries q \<subseteq> set (committed_entries (snap_state snap)) \<Longrightarrow> applied_only cr p snap snap qs"
  unfolding applied_only_def by (intro conjI exI [of _ "[]"]) auto

definition answers :: "authority_error + 'a list \<Rightarrow> 'a set" where
  "answers r = (case r of Inl e \<Rightarrow> {} | Inr ps \<Rightarrow> set ps)"

lemma rejection_quiet [simp]: "\<not> is_phase (rejection st rid code)" "payload_entries (rejection st rid code) = {}"
  by (simp_all add: rejection_def)

lemma handle_commit_quiet:
  "handle_commit cr snap m = (snap', r) \<Longrightarrow> applied_only cr (Commit m) snap snap' (answers r)"
proof (cases "commit_index (entry_descriptor (ct_entry m)) > pos_index (position (snap_state snap)) + 1 \<or>
    raises (apply_entry cr (ct_entry m) snap)")
  case True
  then show "applied_only cr (Commit m) snap snap' (answers r)" if "handle_commit cr snap m = (snap', r)"
    using that by (auto simp: handle_commit_def Let_def answers_def split: if_splits sum.splits intro!: applied_nothing)
next
  case False
  then show "applied_only cr (Commit m) snap snap' (answers r)" if "handle_commit cr snap m = (snap', r)"
    using that
    by (auto simp: handle_commit_def Let_def answers_def applied_only_def split: if_splits sum.splits intro!: exI [of _ "[ct_entry m]"])
qed

lemma handle_catch_up_quiet:
  "applied_only cr (CatchUpRequest m) snap snap (answers (map_sum id (\<lambda>p. [p]) (handle_catch_up_request cr snap m)))"
  by (rule applied_nothing) (auto simp: handle_catch_up_request_def Let_def answers_def dest: in_set_takeD)

lemma handle_catch_up_response_quiet:
  "handle_catch_up_response cr rid snap m = (snap', r) \<Longrightarrow> applied_only cr (CatchUpResponse m) snap snap' (answers r)"
  unfolding handle_catch_up_response_def applied_only_def
  by (auto simp: answers_def split: prod.splits option.splits if_splits sum.splits intro!: exI [of _ "cs_entries m"])

definition phase_admitted :: "crypto_ops \<Rightarrow> uuid \<Rightarrow> authority_consensus_state \<Rightarrow> uuid \<Rightarrow> authority_ballot \<Rightarrow> authority_commit_descriptor
    \<Rightarrow> authority_membership list \<Rightarrow> bool" where
  "phase_admitted cr a st source b d ms \<longleftrightarrow> validate_phase_request cr a st source b d ms = Inr None \<and> \<not> undercuts b st"

lemma phase_admittedD:
  assumes "phase_admitted cr a st source b d ms"
  shows "\<not> undercuts b st" "transition_memberships_ok cr (active_membership st) ms" "commit_index d = pos_index (position st) + 1"
  using assms unfolding phase_admitted_def validate_phase_request_def validate_authority_descriptor_def
  by (auto simp: Let_def split: if_splits sum.splits)

definition promises :: "crypto_ops \<Rightarrow> uuid \<Rightarrow> uuid \<Rightarrow> prepare_message \<Rightarrow> authority_consensus_snapshot \<Rightarrow> authority_consensus_snapshot
    \<Rightarrow> authority_payload set \<Rightarrow> bool" where
  "promises cr a source q snap snap' qs \<longleftrightarrow>
     phase_admitted cr a (snap_state snap) source (pr_ballot q) (pr_descriptor q) (pr_memberships q) \<and>
     persist cr snap (state_with_promise (snap_state snap) (pr_ballot q)) = Inr snap' \<and>
     qs \<subseteq> {Promise (promise_for (snap_state snap) q)}"

lemma handle_prepare_cases:
  assumes "handle_prepare cr a snap source q = (snap', r)"
  shows "applied_only cr (Prepare q) snap snap' (answers (map_sum id (\<lambda>p. [p]) r)) \<or>
    promises cr a source q snap snap' (answers (map_sum id (\<lambda>p. [p]) r))"
  using assms unfolding handle_prepare_def Let_def
  by (auto simp: promises_def phase_admitted_def promise_for_def answers_def split: if_splits sum.splits option.splits
    intro!: applied_nothing)

definition accepts :: "crypto_ops \<Rightarrow> uuid \<Rightarrow> string \<Rightarrow> uuid \<Rightarrow> accept_message \<Rightarrow> authority_consensus_snapshot \<Rightarrow> authority_consensus_snapshot
    \<Rightarrow> authority_payload set \<Rightarrow> bool" where
  "accepts cr a key source q snap snap' qs \<longleftrightarrow>
     phase_admitted cr a (snap_state snap) source (ac_ballot q) (ac_descriptor q) (ac_memberships q) \<and>
     (\<forall>ad. accepted_ballot (snap_state snap) = Some (ac_ballot q) \<longrightarrow> accepted_descriptor (snap_state snap) = Some ad \<longrightarrow>
        authority_commit_digest cr ad = authority_commit_digest cr (ac_descriptor q)) \<and>
     persist cr snap (state_with_accept (snap_state snap) (ac_ballot q) (ac_descriptor q) (ac_memberships q)) = Inr snap' \<and>
     qs = {Accepted \<lparr>ad_cluster = pos_cluster (position (snap_state snap)), ad_request = ac_request q,
             ad_ballot = ac_ballot q, ad_vote = create_authority_vote cr (ac_descriptor q) a key\<rparr>}"

lemma handle_accept_cases:
  assumes "handle_accept cr a key snap source q = (snap', r)"
  shows "applied_only cr (Accept q) snap snap' (answers (map_sum id (\<lambda>p. [p]) r)) \<or>
    accepts cr a key source q snap snap' (answers (map_sum id (\<lambda>p. [p]) r))"
  using assms unfolding handle_accept_def Let_def
  by (auto simp: accepts_def phase_admitted_def answers_def split: if_splits sum.splits option.splits
    intro!: applied_nothing)

text \<open>Every answer of a participant is one of the three.\<close>

lemma handle_cases:
  assumes "handle cr a key mid rid env snap = (snap', r)"
  obtains qs where "replies r = (\<lambda>p. create_authority_envelope cr p a (env_source env) key mid) ` qs"
    "applied_only cr (env_payload env) snap snap' qs \<or>
     (\<exists>q. env_payload env = Prepare q \<and> promises cr a (env_source env) q snap snap' qs) \<or>
     (\<exists>q. env_payload env = Accept q \<and> accepts cr a key (env_source env) q snap snap' qs)"
proof -
  consider e where "r = Inl e" "snap' = snap"
    | pr where "handle_payload cr a key rid env snap = (snap', pr)"
        "r = map_sum id (map (\<lambda>p. create_authority_envelope cr p a (env_source env) key mid)) pr"
    using assms unfolding handle_def by (auto split: if_splits sum.splits prod.splits simp: apsnd_def map_prod_def)
  then show thesis
  proof cases
    case 1
    then show thesis using that [of "{}"] applied_nothing [of "{}"] by (auto simp: replies_def)
  next
    case 2
    have "applied_only cr (env_payload env) snap snap' (answers pr) \<or>
     (\<exists>q. env_payload env = Prepare q \<and> promises cr a (env_source env) q snap snap' (answers pr)) \<or>
     (\<exists>q. env_payload env = Accept q \<and> accepts cr a key (env_source env) q snap snap' (answers pr))"
    proof (cases "env_payload env")
      case (Prepare q)
      obtain x where x: "handle_prepare cr a snap (env_source env) q = (snap', x)" "pr = map_sum id (\<lambda>p. [p]) x"
        using 2(1) Prepare by (cases "handle_prepare cr a snap (env_source env) q") (auto simp: handle_payload_def)
      show ?thesis using handle_prepare_cases [OF x(1)] x(2) Prepare by auto
    next
      case (Accept q)
      obtain x where x: "handle_accept cr a key snap (env_source env) q = (snap', x)" "pr = map_sum id (\<lambda>p. [p]) x"
        using 2(1) Accept by (cases "handle_accept cr a key snap (env_source env) q") (auto simp: handle_payload_def)
      show ?thesis using handle_accept_cases [OF x(1)] x(2) Accept by auto
    next
      case (Commit q)
      then show ?thesis using handle_commit_quiet 2(1) by (simp add: handle_payload_def)
    next
      case (CatchUpRequest q)
      then show ?thesis using handle_catch_up_quiet [of cr q snap] 2(1) by (auto simp: handle_payload_def)
    next
      case (CatchUpResponse q)
      then show ?thesis using handle_catch_up_response_quiet 2(1) by (simp add: handle_payload_def)
    qed (use 2(1) applied_nothing [of "{}"] in \<open>auto simp: handle_payload_def answers_def\<close>)
    moreover have "replies r = (\<lambda>p. create_authority_envelope cr p a (env_source env) key mid) ` answers pr"
      using 2(2) by (cases pr) (auto simp: replies_def answers_def)
    ultimately show thesis using that by blast
  qed
qed

end
