(* ===== verification/Authority_Invariant.thy ===== *)
theory Authority_Invariant
  imports Authority_Acceptor
begin

text \<open>
  The invariant of the operator authority: each participant is a sound acceptor, each collector holds
  what the network holds, each proposal is justified by a quorum of promises and each entry by votes of
  one ballot.  Everything but the acceptors only grows, which \<open>extends\<close> states once for all steps.
\<close>

section \<open>The invariant\<close>

definition report :: "promise_message \<Rightarrow> ((nat \<times> nat) \<times> authority_commit_descriptor) option" where
  "report pm = (case (pm_accepted_ballot pm, pm_accepted_descriptor pm) of
     (Some ab, Some ad) \<Rightarrow> Some (ballot_key ab, ad) | _ \<Rightarrow> None)"

definition promised_at ::
  "network_envelope set \<Rightarrow> nat \<Rightarrow> uuid \<Rightarrow> nat \<times> nat \<Rightarrow> ((nat \<times> nat) \<times> authority_commit_descriptor) option \<Rightarrow> bool" where
  "promised_at net i a b acc \<longleftrightarrow>
     (\<exists>pm \<in> promises_of net a. ballot_key (pm_ballot pm) = b \<and> pm_index pm = i \<and> report pm = acc)"

definition quorum_at :: "(authority_commit_position \<times> authority_membership) set \<Rightarrow> nat \<Rightarrow> uuid set \<Rightarrow> bool" where
  "quorum_at C i Q \<longleftrightarrow> (\<exists>h \<in> C. pos_index (fst h) + 1 = i \<and> majority (snd h) Q)"

text \<open>A proposal is free, or repeats the highest value its quorum reported.\<close>

definition justified ::
  "(authority_commit_position \<times> authority_membership) set \<Rightarrow> network_envelope set \<Rightarrow> nat \<times> nat
     \<Rightarrow> authority_commit_descriptor \<Rightarrow> bool" where
  "justified C net b d \<longleftrightarrow>
     (\<exists>Q f. quorum_at C (commit_index d) Q \<and> (\<forall>a \<in> Q. promised_at net (commit_index d) a b (f a)) \<and>
        ((\<forall>a \<in> Q. f a = None) \<or>
         (\<exists>hb < b. (hb, d) \<in> proposals net \<and>
            (\<forall>a \<in> Q. \<forall>ab av. f a = Some (ab, av) \<longrightarrow> ab < hb \<or> ab = hb \<and> av = d))))"

text \<open>What a collector never changes.\<close>

definition same_round :: "vote_collector \<Rightarrow> vote_collector \<Rightarrow> bool" where
  "same_round col col' \<longleftrightarrow> col_ballot col' = col_ballot col \<and> col_request_id col' = col_request_id col \<and>
     col_previous col' = col_previous col \<and> col_descriptor col' = col_descriptor col \<and> col_memberships col' = col_memberships col"

definition promise_backed ::
  "crypto_ops \<Rightarrow> (authority_commit_position \<times> authority_membership) set \<Rightarrow> (uuid \<Rightarrow> vote_collector option) \<Rightarrow> promise_message \<Rightarrow> bool" where
  "promise_backed cr C cols pm \<longleftrightarrow>
     (\<exists>col. cols (pm_request pm) = Some col \<and> col_ballot col = pm_ballot pm \<and>
        (\<exists>(p, M) \<in> C. pos_index p + 1 = pm_index pm \<and>
           authority_membership_digest cr (col_memberships col ! 0) = authority_membership_digest cr M))"

definition collector_ok :: "crypto_ops \<Rightarrow> network_envelope set \<Rightarrow> uuid \<Rightarrow> vote_collector \<Rightarrow> bool" where
  "collector_ok cr net r col \<longleftrightarrow>
     col_request_id col = r \<and> membership_order_ok (col_memberships col) \<and>
     commit_index (col_descriptor col) = pos_index (col_previous col) + 1 \<and>
     (\<forall>(a, pm) \<in> set (col_promises col). pm \<in> promises_of net a \<and> pm_ballot pm = col_ballot col \<and>
        pm_index pm = pos_index (col_previous col) + 1 \<and> pm_request pm = r) \<and>
     (\<forall>(a, v) \<in> set (col_votes col). (ballot_key (col_ballot col), v) \<in> acks net a \<and> vote_node v = a)"

definition entry_backed :: "network_envelope set \<Rightarrow> authority_committed_entry \<Rightarrow> bool" where
  "entry_backed net e \<longleftrightarrow> (\<exists>b. \<forall>v \<in> set (cert_votes (entry_certificate e)). (b, v) \<in> acks net (vote_node v))"

definition all_entries :: "authority_system \<Rightarrow> authority_committed_entry set" where
  "all_entries s = net_entries (sys_net s) \<union> (\<Union>a. set (committed_entries (node_state s a)))"

definition messages_ok ::
  "crypto_ops \<Rightarrow> (uuid \<Rightarrow> string) \<Rightarrow> (authority_commit_position \<times> authority_membership) set \<Rightarrow> authority_system \<Rightarrow> bool" where
  "messages_ok cr keys C s \<longleftrightarrow>
     (\<forall>a b v. (b, v) \<in> acks (sys_net s) a \<longrightarrow> (\<exists>d. v = create_authority_vote cr d a (keys a) \<and> (b, d) \<in> proposals (sys_net s))) \<and>
     (\<forall>q \<in> prepares (sys_net s). \<exists>col. sys_collectors s (pr_request q) = Some col \<and> q = prepare_message_of col) \<and>
     (\<forall>a. \<forall>pm \<in> promises_of (sys_net s) a. promise_backed cr C (sys_collectors s) pm) \<and>
     (\<forall>r col. sys_collectors s r = Some col \<longrightarrow> collector_ok cr (sys_net s) r col) \<and>
     (\<forall>b d. (b, d) \<in> proposals (sys_net s) \<longrightarrow> justified C (sys_net s) b d) \<and>
     (\<forall>e \<in> all_entries s. entry_backed (sys_net s) e)"

definition acceptors_ok ::
  "crypto_ops \<Rightarrow> (uuid \<Rightarrow> string) \<Rightarrow> authority_commit_position \<Rightarrow> authority_membership \<Rightarrow> authority_system \<Rightarrow> bool" where
  "acceptors_ok cr keys pos m s \<longleftrightarrow>
     (\<forall>a. acceptor_ok cr pos m (promises_of (sys_net s) a) (votes_of cr keys (sys_net s) a) (node_state s a))"

definition auth_inv ::
  "crypto_ops \<Rightarrow> (uuid \<Rightarrow> string) \<Rightarrow> authority_commit_position \<Rightarrow> authority_membership \<Rightarrow> authority_system \<Rightarrow> bool" where
  "auth_inv cr keys pos m s \<longleftrightarrow> acceptors_ok cr keys pos m s \<and> messages_ok cr keys (configs cr pos m s) s"

section \<open>What only grows\<close>

definition grows_to :: "(uuid \<Rightarrow> vote_collector option) \<Rightarrow> (uuid \<Rightarrow> vote_collector option) \<Rightarrow> bool" where
  "grows_to cols cols' \<longleftrightarrow> (\<forall>r col. cols r = Some col \<longrightarrow> (\<exists>col'. cols' r = Some col' \<and> same_round col col'))"

lemma views_mono:
  assumes "M \<subseteq> N"
  shows "prepares M \<subseteq> prepares N" "promises_of M a \<subseteq> promises_of N a" "proposals M \<subseteq> proposals N" "acks M a \<subseteq> acks N a"
    "votes_of cr keys M a \<subseteq> votes_of cr keys N a"
  using assms by (auto simp: prepares_def promises_of_def proposals_def acks_def votes_of_def)

lemma justified_mono:
  assumes "justified C M b d" "C \<subseteq> D" "M \<subseteq> N"
  shows "justified D N b d"
proof -
  have q: "quorum_at C i Q \<Longrightarrow> quorum_at D i Q" for i Q using assms(2) by (auto simp: quorum_at_def)
  have p: "promised_at M i a b x \<Longrightarrow> promised_at N i a b x" for i a b x
    using views_mono(2) [OF assms(3), of a] by (auto simp: promised_at_def)
  have "(hb, d) \<in> proposals M \<Longrightarrow> (hb, d) \<in> proposals N" for hb using views_mono(3) [OF assms(3)] by blast
  with assms(1) q p show ?thesis unfolding justified_def by meson
qed

lemma promise_backed_mono:
  assumes "promise_backed cr C cols pm" "C \<subseteq> D" "grows_to cols cols'"
  shows "promise_backed cr D cols' pm"
proof -
  obtain col p M where col: "cols (pm_request pm) = Some col" "col_ballot col = pm_ballot pm" "(p, M) \<in> C" "pos_index p + 1 = pm_index pm"
      "authority_membership_digest cr (col_memberships col ! 0) = authority_membership_digest cr M"
    using assms(1) unfolding promise_backed_def by blast
  with assms(3) obtain col' where "cols' (pm_request pm) = Some col'" "same_round col col'" unfolding grows_to_def by blast
  with col assms(2) show ?thesis unfolding promise_backed_def same_round_def by fastforce
qed

lemma collector_ok_mono: "collector_ok cr M r col \<Longrightarrow> M \<subseteq> N \<Longrightarrow> collector_ok cr N r col"
  using views_mono(2) [of M N] views_mono(4) [of M N] unfolding collector_ok_def by fast

lemma entry_backed_mono: "entry_backed M e \<Longrightarrow> M \<subseteq> N \<Longrightarrow> entry_backed N e"
  using views_mono(4) [of M N] unfolding entry_backed_def by blast

lemma prepare_of_same_round: "same_round col col' \<Longrightarrow> prepare_message_of col' = prepare_message_of col"
  by (simp add: same_round_def prepare_message_of_def)

text \<open>The messages of a step: what was there stays sound, so only the new has to be looked at.\<close>

lemma messages_okI:
  assumes ok: "messages_ok cr keys C s" and C: "C \<subseteq> D" and g: "grows_to (sys_collectors s) (sys_collectors s')"
    and net: "sys_net s' = sys_net s \<union> N"
    and acks: "\<And>a b v. (b, v) \<in> acks N a \<Longrightarrow> \<exists>d. v = create_authority_vote cr d a (keys a) \<and> (b, d) \<in> proposals (sys_net s)"
    and preps: "\<And>q. q \<in> prepares N \<Longrightarrow> \<exists>col. sys_collectors s (pr_request q) = Some col \<and> q = prepare_message_of col"
    and proms: "\<And>a pm. pm \<in> promises_of N a \<Longrightarrow> promise_backed cr C (sys_collectors s) pm"
    and cols: "\<And>r col. sys_collectors s' r = Some col \<Longrightarrow> collector_ok cr (sys_net s) r col"
    and props: "\<And>b d. (b, d) \<in> proposals N \<Longrightarrow> justified C (sys_net s) b d"
    and entries: "\<And>e. e \<in> all_entries s' \<Longrightarrow> e \<in> all_entries s \<or> entry_backed (sys_net s) e"
  shows "messages_ok cr keys D s'"
proof -
  have sub: "sys_net s \<subseteq> sys_net s'" using net by simp
  note O = ok [unfolded messages_ok_def]
  show ?thesis unfolding messages_ok_def
  proof (intro conjI allI ballI impI, goal_cases)
    case (1 a b v)
    then have "(b, v) \<in> acks (sys_net s) a \<or> (b, v) \<in> acks N a" using net by simp
    then obtain d where "v = create_authority_vote cr d a (keys a)" "(b, d) \<in> proposals (sys_net s)" using O acks by blast
    then show ?case using views_mono(3) [OF sub] by blast
  next
    case (2 q)
    then have "q \<in> prepares (sys_net s) \<or> q \<in> prepares N" using net by simp
    then obtain col where "sys_collectors s (pr_request q) = Some col" "q = prepare_message_of col" using O preps by blast
    with g show ?case unfolding grows_to_def using prepare_of_same_round by metis
  next
    case (3 a pm)
    then have "pm \<in> promises_of (sys_net s) a \<or> pm \<in> promises_of N a" using net by simp
    then have "promise_backed cr C (sys_collectors s) pm" using O proms by blast
    then show ?case using promise_backed_mono [OF _ C g] by blast
  next
    case (4 r col)
    then show ?case using cols collector_ok_mono [OF _ sub] by blast
  next
    case (5 b d)
    then have "(b, d) \<in> proposals (sys_net s) \<or> (b, d) \<in> proposals N" using net by simp
    then have "justified C (sys_net s) b d" using O props by blast
    then show ?case using justified_mono [OF _ C sub] by blast
  next
    case (6 e)
    then show ?case using entries O entry_backed_mono [OF _ sub] by blast
  qed
qed

lemma messages_okD:
  assumes "messages_ok cr keys C s"
  shows "(b, v) \<in> acks (sys_net s) a \<Longrightarrow> \<exists>d. v = create_authority_vote cr d a (keys a) \<and> (b, d) \<in> proposals (sys_net s)"
    "q \<in> prepares (sys_net s) \<Longrightarrow> \<exists>col. sys_collectors s (pr_request q) = Some col \<and> q = prepare_message_of col"
    "pm \<in> promises_of (sys_net s) a \<Longrightarrow> promise_backed cr C (sys_collectors s) pm"
    "sys_collectors s r = Some col \<Longrightarrow> collector_ok cr (sys_net s) r col"
    "(b, d) \<in> proposals (sys_net s) \<Longrightarrow> justified C (sys_net s) b d"
    "e \<in> all_entries s \<Longrightarrow> entry_backed (sys_net s) e"
  using assms unfolding messages_ok_def by blast+

section \<open>Steps of a participant\<close>

abbreviation delivered :: "authority_system \<Rightarrow> uuid \<Rightarrow> authority_consensus_snapshot \<Rightarrow> network_envelope set \<Rightarrow> authority_system" where
  "delivered s a snap N \<equiv> s\<lparr>sys_store := (sys_store s)(a := snap), sys_net := sys_net s \<union> N\<rparr>"

abbreviation answer_set :: "crypto_ops \<Rightarrow> uuid \<Rightarrow> uuid \<Rightarrow> string \<Rightarrow> uuid \<Rightarrow> authority_payload set \<Rightarrow> network_envelope set" where
  "answer_set cr a target key mid qs \<equiv> (\<lambda>p. create_authority_envelope cr p a target key mid) ` qs"

lemma grows_to_refl [simp]: "grows_to cols cols"
  by (simp add: grows_to_def same_round_def)

lemma configs_delivered:
  assumes "committed_entries (snap_state snap) = committed_entries (node_state s a) @ fs"
  shows "configs cr pos m s \<subseteq> configs cr pos m (delivered s a snap N)"
proof -
  have "set (log_heads cr pos m (committed_entries (node_state s c))) \<subseteq>
      set (log_heads cr pos m (committed_entries (node_state (delivered s a snap N) c)))" for c
    using assms log_heads_append [of cr pos m "committed_entries (node_state s a)" fs] by (cases "c = a") auto
  then show ?thesis unfolding configs_def by (rule UN_mono [OF subset_refl])
qed

lemma active_in_configs:
  assumes "acceptor_ok cr pos m P V (node_state s a)"
  shows "(position (node_state s a), active_membership (node_state s a)) \<in> configs cr pos m s"
  using certified_head_in_heads [OF log_continuity_head [OF acceptor_okD(3) [OF assms]]] acceptor_okD(1,2) [OF assms]
  unfolding configs_def by auto

lemma acceptors_delivered:
  assumes "acceptors_ok cr keys pos m s"
    and "acceptor_ok cr pos m (promises_of (sys_net s) a \<union> promises_of N a) (votes_of cr keys (sys_net s) a \<union> votes_of cr keys N a) (snap_state snap)"
    and "\<forall>env \<in> N. env_source env = a"
  shows "acceptors_ok cr keys pos m (delivered s a snap N)"
proof -
  have "promises_of N c = {}" "votes_of cr keys N c = {}" if "c \<noteq> a" for c
    using assms(3) that by (auto simp: promises_of_def votes_of_def acks_def)
  with assms(1,2) show ?thesis unfolding acceptors_ok_def by simp
qed

lemma answer_source: "\<forall>env \<in> answer_set cr a target key mid qs. env_source env = a"
  by (auto simp: create_authority_envelope_def)

lemma deliver_quiet:
  assumes inv: "auth_inv cr keys pos m s" and env: "env \<in> sys_net s"
    and ap: "applied_only cr (env_payload env) (sys_store s a) snap qs" and N: "N = answer_set cr a target key mid qs"
  shows "auth_inv cr keys pos m (delivered s a snap N)"
proof -
  have ok: "acceptor_ok cr pos m (promises_of (sys_net s) a) (votes_of cr keys (sys_net s) a) (node_state s a)"
    and msg: "messages_ok cr keys (configs cr pos m s) s" using inv by (auto simp: auth_inv_def acceptors_ok_def)
  obtain es where es: "set es \<subseteq> payload_entries (env_payload env)" "snap = fst (apply_entries cr es (sys_store s a))"
    using ap by (auto simp: applied_only_def)
  obtain fs where fs: "committed_entries (snap_state snap) = committed_entries (node_state s a) @ fs" "set fs \<subseteq> set es"
    using acceptor_applies_all(2) [OF ok, of es] es(2) by auto
  have q: "\<forall>e \<in> N. \<not> is_phase (env_payload e)" "net_entries N \<subseteq> set (committed_entries (snap_state snap))"
    using ap N unfolding applied_only_def net_entries_def by (auto simp: create_authority_envelope_def)
  have acc: "acceptors_ok cr keys pos m (delivered s a snap N)"
    by (rule acceptors_delivered) (use inv acceptor_applies_all(1) [OF ok, of es] es(2) views_quiet [OF q(1)] answer_source N
      in \<open>auto simp: auth_inv_def\<close>)
  have log: "set (committed_entries (snap_state snap)) \<subseteq> all_entries s"
    using fs es(1) env unfolding all_entries_def net_entries_def by auto
  have ent: "all_entries (delivered s a snap N) \<subseteq> all_entries s"
    using log q(2) unfolding all_entries_def by (auto split: if_splits)
  have "messages_ok cr keys (configs cr pos m (delivered s a snap N)) (delivered s a snap N)"
    by (rule messages_okI [OF msg configs_delivered [OF fs(1)], of _ N])
      (use views_quiet [OF q(1)] ent messages_okD(4) [OF msg] in auto)
  with acc show ?thesis by (simp add: auth_inv_def)
qed

lemma deliver_promise:
  assumes inv: "auth_inv cr keys pos m s" and env: "env \<in> sys_net s" "env_payload env = Prepare q"
    and pr: "promises cr a source q (sys_store s a) snap qs" and N: "N = answer_set cr a target key mid qs"
  shows "auth_inv cr keys pos m (delivered s a snap N)"
proof -
  let ?st = "node_state s a"
  have ok: "acceptor_ok cr pos m (promises_of (sys_net s) a) (votes_of cr keys (sys_net s) a) ?st"
    and msg: "messages_ok cr keys (configs cr pos m s) s" using inv by (auto simp: auth_inv_def acceptors_ok_def)
  have adm: "phase_admitted cr a ?st source (pr_ballot q) (pr_descriptor q) (pr_memberships q)"
    and per: "persist cr (sys_store s a) (state_with_promise ?st (pr_ballot q)) = Inr snap"
    and qs: "qs \<subseteq> {Promise (promise_for ?st q)}" using pr by (auto simp: promises_def)
  note P = persistD [OF per] and A = phase_admittedD [OF adm]
  have views: "promises_of N a \<subseteq> {promise_for ?st q}" "promises_of N c = {} \<or> c = a" "votes_of cr keys N c = {}" "prepares N = {}" "proposals N = {}"
      "acks N c = {}" "net_entries N = {}" for c
    using qs N by (auto simp: prepares_def promises_of_def proposals_def acks_def votes_of_def net_entries_def create_authority_envelope_def)
  have "acceptor_ok cr pos m (insert (promise_for ?st q) (promises_of (sys_net s) a)) (votes_of cr keys (sys_net s) a) (snap_state snap)"
    using acceptor_promises [OF ok A(1)] P(1-3) by simp
  then have "acceptor_ok cr pos m (promises_of (sys_net s) a \<union> promises_of N a) (votes_of cr keys (sys_net s) a \<union> votes_of cr keys N a) (snap_state snap)"
    unfolding views(3) Un_empty_right by (rule acceptor_ok_subset) (use views(1) in blast)
  then have acc: "acceptors_ok cr keys pos m (delivered s a snap N)"
    by (intro acceptors_delivered) (use inv answer_source N in \<open>auto simp: auth_inv_def\<close>)
  have log: "committed_entries (snap_state snap) = committed_entries ?st @ []" using P(1) by (simp add: state_with_promise_def)
  have ent: "all_entries (delivered s a snap N) = all_entries s" using log views(7) unfolding all_entries_def by (auto split: if_splits)
  have "q \<in> prepares (sys_net s)" using env by (auto simp: prepares_def)
  then obtain col where col: "sys_collectors s (pr_request q) = Some col" "q = prepare_message_of col" using messages_okD(2) [OF msg] by blast
  have "promise_backed cr (configs cr pos m s) (sys_collectors s) (promise_for ?st q)"
    unfolding promise_backed_def promise_for_def
    using col A(2) active_in_configs [OF ok] by (auto simp: prepare_message_of_def transition_memberships_ok_def intro!: bexI)
  then have "messages_ok cr keys (configs cr pos m (delivered s a snap N)) (delivered s a snap N)"
    by (intro messages_okI [OF msg configs_delivered [OF log], of _ N])
      (use views ent messages_okD(4) [OF msg] in auto)
  with acc show ?thesis by (simp add: auth_inv_def)
qed

lemma deliver_accept:
  assumes sc: "sound_crypto cr" and inv: "auth_inv cr keys pos m s" and env: "env \<in> sys_net s" "env_payload env = Accept q"
    and pr: "accepts cr a (keys a) source q (sys_store s a) snap qs" and N: "N = answer_set cr a target key mid qs"
  shows "auth_inv cr keys pos m (delivered s a snap N)"
proof -
  let ?st = "node_state s a"
  have ok: "acceptor_ok cr pos m (promises_of (sys_net s) a) (votes_of cr keys (sys_net s) a) ?st"
    and msg: "messages_ok cr keys (configs cr pos m s) s" using inv by (auto simp: auth_inv_def acceptors_ok_def)
  have adm: "phase_admitted cr a ?st source (ac_ballot q) (ac_descriptor q) (ac_memberships q)"
    and nc: "\<And>ad. accepted_ballot ?st = Some (ac_ballot q) \<Longrightarrow> accepted_descriptor ?st = Some ad \<Longrightarrow>
        authority_commit_digest cr ad = authority_commit_digest cr (ac_descriptor q)"
    and per: "persist cr (sys_store s a) (state_with_accept ?st (ac_ballot q) (ac_descriptor q) (ac_memberships q)) = Inr snap"
    and qs: "qs = {Accepted \<lparr>ad_cluster = pos_cluster (position ?st), ad_request = ac_request q,
             ad_ballot = ac_ballot q, ad_vote = create_authority_vote cr (ac_descriptor q) a (keys a)\<rparr>}"
    using pr by (auto simp: accepts_def)
  note P = persistD [OF per] and A = phase_admittedD [OF adm]
  have views: "promises_of N c = {}" "prepares N = {}" "proposals N = {}" "net_entries N = {}"
      "acks N c = (if c = a then {(ballot_key (ac_ballot q), create_authority_vote cr (ac_descriptor q) a (keys a))} else {})" for c
    using qs N by (auto simp: prepares_def promises_of_def proposals_def acks_def votes_of_def net_entries_def create_authority_envelope_def)
  have votes: "votes_of cr keys N a = {(ballot_key (ac_ballot q), ac_descriptor q)}"
    unfolding votes_of_def views(5) using vote_binding [OF sc] by auto
  have "acceptor_ok cr pos m (promises_of (sys_net s) a) (insert (ballot_key (ac_ballot q), ac_descriptor q) (votes_of cr keys (sys_net s) a)) (snap_state snap)"
    using acceptor_accepts [OF sc ok A(1) nc A(3)] P(1-3) by simp
  then have acc: "acceptors_ok cr keys pos m (delivered s a snap N)"
    by (intro acceptors_delivered) (use inv views(1) votes answer_source N in \<open>auto simp: auth_inv_def\<close>)
  have log: "committed_entries (snap_state snap) = committed_entries ?st @ []" using P(1) by (simp add: state_with_accept_def)
  have ent: "all_entries (delivered s a snap N) = all_entries s" using log views(4) unfolding all_entries_def by (auto split: if_splits)
  have "(ballot_key (ac_ballot q), ac_descriptor q) \<in> proposals (sys_net s)" using env by (auto simp: proposals_def)
  then have "messages_ok cr keys (configs cr pos m (delivered s a snap N)) (delivered s a snap N)"
    by (intro messages_okI [OF msg configs_delivered [OF log], of _ N])
      (use views ent messages_okD(4) [OF msg] in \<open>auto split: if_splits\<close>)
  with acc show ?thesis by (simp add: auth_inv_def)
qed

lemma deliver_inv:
  assumes sc: "sound_crypto cr" and inv: "auth_inv cr keys pos m s" and env: "env \<in> sys_net s"
    and h: "handle cr a (keys a) mid rid env (sys_store s a) = (snap, r)"
  shows "auth_inv cr keys pos m (delivered s a snap (replies r))"
  using handle_cases [OF h] deliver_quiet [OF inv env] deliver_promise [OF inv env] deliver_accept [OF sc inv env] by metis

section \<open>Steps of a proposer\<close>

abbreviation round_of :: "authority_system \<Rightarrow> uuid \<Rightarrow> vote_collector \<Rightarrow> network_envelope set \<Rightarrow> authority_system" where
  "round_of s r col N \<equiv> s\<lparr>sys_collectors := (sys_collectors s)(r \<mapsto> col), sys_net := sys_net s \<union> N\<rparr>"

lemma proposer_step:
  assumes inv: "auth_inv cr keys pos m s"
    and col: "collector_ok cr (sys_net s) r col" "\<And>c. sys_collectors s r = Some c \<Longrightarrow> same_round c col"
    and N: "\<And>a. promises_of N a = {}" "\<And>a. acks N a = {}"
    and preps: "\<And>q. q \<in> prepares N \<Longrightarrow> \<exists>col. sys_collectors s (pr_request q) = Some col \<and> q = prepare_message_of col"
    and props: "\<And>b d. (b, d) \<in> proposals N \<Longrightarrow> justified (configs cr pos m s) (sys_net s) b d"
    and entries: "\<And>e. e \<in> net_entries N \<Longrightarrow> entry_backed (sys_net s) e"
  shows "auth_inv cr keys pos m (round_of s r col N)"
proof -
  have msg: "messages_ok cr keys (configs cr pos m s) s" and acc: "acceptors_ok cr keys pos m s" using inv by (auto simp: auth_inv_def)
  have c: "configs cr pos m (round_of s r col N) = configs cr pos m s" by (simp add: configs_def)
  have v: "votes_of cr keys N a = {}" for a using N(2) by (simp add: votes_of_def)
  have g: "grows_to (sys_collectors s) (sys_collectors (round_of s r col N))"
    using col(2) by (auto simp: grows_to_def same_round_def)
  have "messages_ok cr keys (configs cr pos m s) (round_of s r col N)"
    by (rule messages_okI [OF msg subset_refl g, of N])
      (use N preps props entries col(1) messages_okD(4) [OF msg] in \<open>auto simp: all_entries_def split: if_splits\<close>)
  then show ?thesis using acc N(1) v by (simp add: auth_inv_def c acceptors_ok_def)
qed

lemma sent_views:
  "promises_of (sent cr keys a T mid p) c \<subseteq> {q. p = Promise q}"
  "acks (sent cr keys a T mid p) c \<subseteq> {(b, v). \<exists>q. p = Accepted q}"
  "prepares (sent cr keys a T mid p) \<subseteq> {q. p = Prepare q}"
  "proposals (sent cr keys a T mid p) \<subseteq> {(b, d). \<exists>q. p = Accept q \<and> b = ballot_key (ac_ballot q) \<and> d = ac_descriptor q}"
  "net_entries (sent cr keys a T mid p) \<subseteq> payload_entries p"
  by (auto simp: sent_def promises_of_def acks_def prepares_def proposals_def net_entries_def create_authority_envelope_def)

lemma same_round_refl [simp]: "same_round col col"
  by (simp add: same_round_def)

lemma new_collector_ok:
  "new_collector cr ballot d ms previous rid = Inr col \<Longrightarrow> collector_ok cr net rid col"
  by (auto simp: new_collector_def collector_ok_def dest: validate_descriptorD(2) split: if_splits sum.splits)

lemma verify_responseD:
  "verify_response_envelope cr env ms col = Inr u \<Longrightarrow> payload_request (env_payload env) = col_request_id col"
  by (auto simp: verify_response_envelope_def split: if_splits sum.splits)

lemma collector_promise:
  assumes "collector_ok cr net r col" "env \<in> net" "record_prepare_response cr env col = Inr col'"
  shows "collector_ok cr net r col' \<and> same_round col col'"
proof -
  consider q where "col' = col\<lparr>col_rejections := q\<rparr>"
    | pm where "env_payload env = Promise pm" "pm_ballot pm = col_ballot col" "pm_index pm = pos_index (col_previous col) + 1"
        "pm_request pm = col_request_id col" "col' = col\<lparr>col_promises := dict_set (env_source env) pm (col_promises col)\<rparr>"
    using assms(3) unfolding record_prepare_response_def
    by (auto split: sum.splits authority_payload.splits if_splits dest: verify_responseD)
  then show ?thesis
  proof cases
    case 1
    then show ?thesis using assms(1) by (auto simp: collector_ok_def same_round_def)
  next
    case 2
    have "pm \<in> promises_of net (env_source env)" using 2(1) assms(2) by (auto simp: promises_of_def)
    then show ?thesis using 2 assms(1) set_dict_set_subset [of "env_source env" pm "col_promises col"]
      unfolding collector_ok_def same_round_def by auto
  qed
qed

lemma collector_vote:
  assumes "collector_ok cr net r col" "env \<in> net" "record_accept_response cr env col = Inr col'"
  shows "collector_ok cr net r col' \<and> same_round col col'"
proof -
  consider q where "col' = col\<lparr>col_rejections := q\<rparr>"
    | am where "env_payload env = Accepted am" "ad_ballot am = col_ballot col" "vote_node (ad_vote am) = env_source env"
        "col' = col\<lparr>col_votes := dict_set (env_source env) (ad_vote am) (col_votes col)\<rparr>"
    using assms(3) unfolding record_accept_response_def
    by (auto split: sum.splits authority_payload.splits if_splits option.splits)
  then show ?thesis
  proof cases
    case 1
    then show ?thesis using assms(1) by (auto simp: collector_ok_def same_round_def)
  next
    case 2
    have "(ballot_key (col_ballot col), ad_vote am) \<in> acks net (env_source env)" using 2(1,2) assms(2) by (force simp: acks_def)
    then show ?thesis using 2 assms(1) set_dict_set_subset [of "env_source env" "ad_vote am" "col_votes col"]
      unfolding collector_ok_def same_round_def by auto
  qed
qed

lemma collector_select:
  assumes "collector_ok cr net r col" "accept_message_of cr col = (col', x)"
  shows "collector_ok cr net r col' \<and> same_round col col'"
  using assms by (auto simp: accept_message_of_def Let_def collector_ok_def same_round_def split: if_splits sum.splits)

lemma committed_entry_backed:
  assumes "collector_ok cr net r col" "committed_entry_of cr col = Inr e"
  shows "entry_backed net e"
proof -
  have "set (cert_votes (entry_certificate e)) \<subseteq> snd ` set (col_votes col)"
    using assms(2) by (auto simp: committed_entry_of_def certificate_of_def Let_def split: if_splits sum.splits option.splits)
  with assms(1) show ?thesis unfolding entry_backed_def collector_ok_def by (intro exI [of _ "ballot_key (col_ballot col)"]) fastforce
qed

section \<open>The value of a round\<close>

lemma highest_accepted_None: "highest_accepted ms = None \<Longrightarrow> pm \<in> set ms \<Longrightarrow> pm_accepted_ballot pm = None"
  by (induction ms) (auto split: option.splits if_splits)

lemma highest_accepted_Some:
  "highest_accepted ms = Some hb \<Longrightarrow>
     (\<exists>pm \<in> set ms. pm_accepted_ballot pm = Some hb) \<and>
     (\<forall>pm \<in> set ms. \<forall>ab. pm_accepted_ballot pm = Some ab \<longrightarrow> ballot_key ab \<le> ballot_key hb)"
proof (induction ms arbitrary: hb)
  case (Cons pm ms)
  show ?case
  proof (cases "highest_accepted ms")
    case None
    then show ?thesis using Cons.prems highest_accepted_None [OF None] by (fastforce split: option.splits)
  next
    case (Some h)
    then show ?thesis using Cons.prems Cons.IH [OF Some] by (fastforce split: option.splits if_splits)
  qed
qed simp

text \<open>What the collector selects: its own value when nothing was reported, otherwise the value of the
  greatest reported ballot.\<close>

lemma select_value_cases:
  assumes sc: "sound_crypto cr" and sel: "select_value cr col = Inr (d, ms)"
  obtains (free) "\<forall>pm \<in> set (dict_values (col_promises col)). pm_accepted_ballot pm = None" "d = col_descriptor col"
  | (bound) hb pm where "pm \<in> set (dict_values (col_promises col))" "pm_accepted_ballot pm = Some hb" "pm_accepted_descriptor pm = Some d"
      "commit_index d = pos_index (col_previous col) + 1"
      "\<And>pm' ab ad. pm' \<in> set (dict_values (col_promises col)) \<Longrightarrow> pm_accepted_ballot pm' = Some ab \<Longrightarrow> pm_accepted_descriptor pm' = Some ad \<Longrightarrow>
         ballot_key ab < ballot_key hb \<or> ab = hb \<and> ad = d"
proof (cases "highest_accepted (dict_values (col_promises col))")
  case None
  then show thesis using free highest_accepted_None [OF None] sel by (simp add: select_value_def)
next
  case (Some hb)
  let ?ps = "dict_values (col_promises col)"
  let ?hs = "filter (\<lambda>m. pm_accepted_ballot m = Some hb) ?ps"
  let ?ds = "set (map (authority_commit_digest cr) (List.map_filter pm_accepted_descriptor ?hs))"
  note H = highest_accepted_Some [OF Some]
  have one: "card ?ds = 1" and hd: "pm_accepted_descriptor (hd ?hs) = Some d"
    and "\<not> raises (validate_authority_descriptor cr d ms (col_previous col))"
    using sel Some by (auto simp: select_value_def Let_def split: if_splits option.splits sum.splits)
  then have i: "commit_index d = pos_index (col_previous col) + 1" by (auto dest: validate_descriptorD(2) split: sum.splits)
  have ne: "?hs \<noteq> []" using H by (auto simp: filter_empty_conv)
  then have h: "hd ?hs \<in> set ?ps" "pm_accepted_ballot (hd ?hs) = Some hb" using list.set_sel(1) [OF ne] by auto
  have same: "ad = d" if "pm' \<in> set ?ps" "pm_accepted_ballot pm' = Some hb" "pm_accepted_descriptor pm' = Some ad" for pm' ad
  proof -
    have "authority_commit_digest cr ad \<in> ?ds" "authority_commit_digest cr d \<in> ?ds"
      using that h hd by (force simp: List.map_filter_def)+
    with one have "authority_commit_digest cr ad = authority_commit_digest cr d" by (metis card_1_singletonE singletonD)
    then show ?thesis using sc by (auto simp: sound_crypto_def authority_commit_digest_def inj_def)
  qed
  have "ballot_key ab < ballot_key hb \<or> ab = hb \<and> ad = d"
    if "pm' \<in> set ?ps" "pm_accepted_ballot pm' = Some ab" "pm_accepted_descriptor pm' = Some ad" for pm' ab ad
  proof -
    have "ballot_key ab \<le> ballot_key hb" using H that by blast
    then consider "ballot_key ab < ballot_key hb" | "ab = hb" by (auto simp: le_less)
    then show ?thesis using same that by cases auto
  qed
  then show thesis using bound [OF h hd i] by blast
qed

lemma vote_proposed:
  assumes "sound_crypto cr" "messages_ok cr keys C s" "(b, d) \<in> votes_of cr keys (sys_net s) a"
  shows "(b, d) \<in> proposals (sys_net s)"
  using messages_okD(1) [OF assms(2), of b _ a] assms(3) vote_binding [OF assms(1)] unfolding votes_of_def by fastforce

text \<open>The quorum behind a round that may enter its second phase.\<close>

lemma ready_quorum:
  assumes sc: "sound_crypto cr" and msg: "messages_ok cr keys C s" and col: "sys_collectors s r = Some col" and rd: "prepare_ready col"
  obtains Q where "quorum_at C (pos_index (col_previous col) + 1) Q" "Q \<subseteq> set (dict_keys (col_promises col))"
proof -
  let ?M = "col_memberships col ! 0" and ?ids = "set (dict_keys (col_promises col))"
  let ?Q = "?ids \<inter> voter_ids ?M"
  have ok: "collector_ok cr (sys_net s) r col" using messages_okD(4) [OF msg col] .
  have "?M \<in> set (col_memberships col)" using ok by (intro nth_mem) (auto simp: collector_ok_def membership_order_ok_def)
  with rd have maj: "majority ?M ?Q" by (auto simp: prepare_ready_def ids_satisfy_quorums_def list_all_iff majority_def)
  then have "?Q \<noteq> {}" by (auto simp: majority_def quorum_size_def)
  then obtain a pm where "(a, pm) \<in> set (col_promises col)" by auto
  with ok have pm: "pm \<in> promises_of (sys_net s) a" "pm_index pm = pos_index (col_previous col) + 1" "pm_request pm = r"
    by (auto simp: collector_ok_def)
  then obtain p M where "(p, M) \<in> C" "pos_index p + 1 = pm_index pm" "authority_membership_digest cr ?M = authority_membership_digest cr M"
    using messages_okD(3) [OF msg pm(1)] col unfolding promise_backed_def by auto
  moreover have "majority M ?Q" if "authority_membership_digest cr ?M = authority_membership_digest cr M"
    using maj digest_configuration [OF sc that] voter_ids_configuration [of ?M M] quorum_size_configuration [of ?M M]
    by (simp add: majority_def)
  ultimately have "quorum_at C (pos_index (col_previous col) + 1) ?Q" using pm(2) by (force simp: quorum_at_def)
  then show thesis using that by blast
qed

lemma selection_justified:
  assumes sc: "sound_crypto cr" and inv: "auth_inv cr keys pos m s" and col: "sys_collectors s r = Some col"
    and rd: "prepare_ready col" and sel: "select_value cr col = Inr (d, ms)"
  shows "justified (configs cr pos m s) (sys_net s) (ballot_key (col_ballot col)) d"
proof -
  let ?ps = "col_promises col" and ?n = "pos_index (col_previous col) + 1" and ?b = "ballot_key (col_ballot col)" and ?C = "configs cr pos m s"
  let ?f = "\<lambda>a. report (the (dict_get ?ps a))"
  have msg: "messages_ok cr keys ?C s" and acc: "acceptors_ok cr keys pos m s" using inv by (auto simp: auth_inv_def)
  have ok: "collector_ok cr (sys_net s) r col" using messages_okD(4) [OF msg col] .
  have held: "pm \<in> promises_of (sys_net s) a \<and> pm_ballot pm = col_ballot col \<and> pm_index pm = ?n" if "(a, pm) \<in> set ?ps" for a pm
    using ok that by (auto simp: collector_ok_def)
  obtain Q where Q: "quorum_at ?C ?n Q" "Q \<subseteq> set (dict_keys ?ps)" by (rule ready_quorum [OF sc msg col rd])
  have get: "\<exists>pm. dict_get ?ps a = Some pm \<and> (a, pm) \<in> set ?ps" if "a \<in> Q" for a
    using that Q(2) by (metis dict_has_def dict_has_iff_keys map_of_SomeD not_None_eq subsetD)
  have prom: "\<forall>a \<in> Q. promised_at (sys_net s) ?n a ?b (?f a)"
    using get held unfolding promised_at_def by fastforce
  show ?thesis using sc sel
  proof (cases rule: select_value_cases)
    case free
    have "\<forall>a \<in> Q. ?f a = None" using get free(1) by (force simp: report_def)
    then show ?thesis using Q(1) prom ok free(2) unfolding justified_def collector_ok_def by (intro exI [of _ Q] exI [of _ ?f]) simp
  next
    case (bound hb pm)
    then obtain a where a: "(a, pm) \<in> set ?ps" by auto
    note D = acceptor_okD(13,14) [OF acc [unfolded acceptors_ok_def, rule_format, of a]]
    have hb: "ballot_key hb \<le> ?b" "(ballot_key hb, d) \<in> votes_of cr keys (sys_net s) a"
      using D [of pm hb] held [OF a] bound(2,3) by auto
    have old: "(ballot_key hb, d) \<in> proposals (sys_net s)" using vote_proposed [OF sc msg hb(2)] .
    show ?thesis
    proof (cases "ballot_key hb = ?b")
      case True
      then show ?thesis using messages_okD(5) [OF msg] old by simp
    next
      case False
      have lt: "ballot_key hb < ?b" using hb(1) False by (rule le_neq_trans)
      have "ab < ballot_key hb \<or> ab = ballot_key hb \<and> av = d" if c: "c \<in> Q" and fc: "?f c = Some (ab, av)" for c ab av
      proof -
        obtain pm' where pm': "dict_get ?ps c = Some pm'" "pm' \<in> set (dict_values ?ps)" using get [OF c] by force
        then obtain ab' where "pm_accepted_ballot pm' = Some ab'" "pm_accepted_descriptor pm' = Some av" "ab = ballot_key ab'"
          using fc by (auto simp: report_def split: option.splits)
        then show ?thesis using bound(5) [OF pm'(2), of ab' av] by auto
      qed
      then show ?thesis unfolding justified_def bound(4)
        using Q(1) prom old lt by (intro exI [of _ Q] exI [of _ ?f] conjI disjI2 exI [of _ "ballot_key hb"]) auto
    qed
  qed
qed

section \<open>Every reachable state\<close>

lemma auth_step_inv:
  assumes sc: "sound_crypto cr" and inv: "auth_inv cr keys pos m s" and st: "auth_step cr keys s s'"
  shows "auth_inv cr keys pos m s'"
  using st
proof cases
  case (deliver env a mid rid snap r)
  then show ?thesis using deliver_inv [OF sc inv] by simp
next
  case (start_round rid ballot d ms previous col)
  then show ?thesis using proposer_step [OF inv new_collector_ok [OF start_round(3)], of "{}"] by simp
next
  case (send_prepare rid col targets mid)
  let ?N = "sent cr keys (ballot_proposer (col_ballot col)) targets mid (Prepare (prepare_message_of col))"
  have ok: "collector_ok cr (sys_net s) rid col" using inv send_prepare messages_okD(4) by (auto simp: auth_inv_def)
  have "auth_inv cr keys pos m (round_of s rid col ?N)"
    using send_prepare(2) ok sent_views [of cr keys "ballot_proposer (col_ballot col)" targets mid "Prepare (prepare_message_of col)"]
    by (intro proposer_step [OF inv ok]) (auto simp: prepare_message_of_def collector_ok_def)
  moreover have "s' = round_of s rid col ?N" using send_prepare by (auto simp: fun_upd_idem)
  ultimately show ?thesis by simp
next
  case (promise_response rid col env col')
  have "collector_ok cr (sys_net s) rid col" using inv promise_response messages_okD(4) by (auto simp: auth_inv_def)
  then show ?thesis using collector_promise promise_response proposer_step [OF inv, of rid col' "{}"] by fastforce
next
  case (send_accept rid col col' q targets mid)
  let ?N = "sent cr keys (ballot_proposer (col_ballot col)) targets mid (Accept q)"
  have ok: "collector_ok cr (sys_net s) rid col" using inv send_accept messages_okD(4) by (auto simp: auth_inv_def)
  have q: "prepare_ready col" "\<exists>ms. select_value cr col = Inr (ac_descriptor q, ms)" "ac_ballot q = col_ballot col"
    using send_accept(3) by (auto simp: accept_message_of_def Let_def split: if_splits sum.splits)
  have j: "justified (configs cr pos m s) (sys_net s) (ballot_key (ac_ballot q)) (ac_descriptor q)"
    using selection_justified [OF sc inv send_accept(2) q(1)] q(2,3) by auto
  have "auth_inv cr keys pos m (round_of s rid col' ?N)"
    using collector_select [OF ok send_accept(3)] send_accept(2) j sent_views [of cr keys "ballot_proposer (col_ballot col)" targets mid "Accept q"]
    by (intro proposer_step [OF inv]) auto
  then show ?thesis using send_accept(1) by simp
next
  case (select_fails rid col col' e)
  have "collector_ok cr (sys_net s) rid col" using inv select_fails messages_okD(4) by (auto simp: auth_inv_def)
  then show ?thesis using collector_select select_fails proposer_step [OF inv, of rid col' "{}"] by fastforce
next
  case (accept_response rid col env col')
  have "collector_ok cr (sys_net s) rid col" using inv accept_response messages_okD(4) by (auto simp: auth_inv_def)
  then show ?thesis using collector_vote accept_response proposer_step [OF inv, of rid col' "{}"] by fastforce
next
  case (send_commit rid col e targets mid)
  let ?p = "Commit \<lparr>ct_cluster = cluster_id (entry_descriptor e), ct_request = rid, ct_entry = e\<rparr>"
  let ?N = "sent cr keys (ballot_proposer (col_ballot col)) targets mid ?p"
  have ok: "collector_ok cr (sys_net s) rid col" using inv send_commit messages_okD(4) by (auto simp: auth_inv_def)
  have "auth_inv cr keys pos m (round_of s rid col ?N)"
    using send_commit(2) committed_entry_backed [OF ok send_commit(3)]
      sent_views [of cr keys "ballot_proposer (col_ballot col)" targets mid ?p]
    by (intro proposer_step [OF inv ok]) auto
  moreover have "s' = round_of s rid col ?N" using send_commit by (auto simp: fun_upd_idem)
  ultimately show ?thesis by simp
next
  case (ask_catch_up a targets mid q)
  let ?N = "sent cr keys a targets mid (CatchUpRequest q)"
  have v: "promises_of ?N c = {}" "acks ?N c = {}" "prepares ?N = {}" "proposals ?N = {}" "net_entries ?N = {}" for c
    using sent_views [of cr keys a targets mid "CatchUpRequest q"] by auto
  then have "votes_of cr keys ?N c = {}" for c by (simp add: votes_of_def)
  moreover have "configs cr pos m s' = configs cr pos m s" using ask_catch_up by (simp add: configs_def)
  moreover have "messages_ok cr keys (configs cr pos m s) s'"
    by (rule messages_okI [of cr keys "configs cr pos m s" s _ _ ?N])
      (use inv v messages_okD(4) ask_catch_up in \<open>auto simp: auth_inv_def all_entries_def\<close>)
  ultimately show ?thesis using inv v(1) ask_catch_up by (simp add: auth_inv_def acceptors_ok_def)
qed

lemma initial_inv:
  assumes "pos_index pos = 1"
  shows "auth_inv cr keys pos m (initial_system pos m)"
proof -
  have "acceptor_ok cr pos m {} {} (bootstrap_state pos m)"
    using assms by (simp add: acceptor_ok_def bootstrap_state_def log_continuity_def accepted_state_is_complete_def all_or_none_def)
  then show ?thesis by (simp add: auth_inv_def acceptors_ok_def messages_ok_def initial_system_def all_entries_def bootstrap_state_def)
qed

lemma reachable_inv:
  assumes "sound_crypto cr" "pos_index pos = 1" "auth_reachable cr keys pos m s"
  shows "auth_inv cr keys pos m s"
  using assms(3) by induction (use initial_inv assms(2) auth_step_inv assms(1) in blast)+

end
