(* ===== verification/Authority_Example.thy ===== *)
theory Authority_Example
  imports Authority_System
begin

text \<open>
  A concrete instance of the cryptographic parameters, with digests that spell out what they stand for,
  and a run of the authority with one voter and one learner.  They show that the hypotheses of the
  agreement theorem can be met by a system that commits.
\<close>

section \<open>Digests that spell out their argument\<close>

text \<open>A code word says where it ends.\<close>

definition delimited :: "('a \<Rightarrow> string) \<Rightarrow> bool" where
  "delimited enc \<longleftrightarrow> (\<forall>x y r t. enc x @ r = enc y @ t \<longrightarrow> x = y \<and> r = t)"

lemma delimitedD: "delimited enc \<Longrightarrow> enc x @ r = enc y @ t \<Longrightarrow> x = y \<and> r = t"
  unfolding delimited_def by blast

fun enc_nat :: "nat \<Rightarrow> string" where
  "enc_nat 0 = ''.''"
| "enc_nat (Suc n) = CHR ''1'' # enc_nat n"

definition enc_string :: "string \<Rightarrow> string" where
  "enc_string s = enc_nat (length s) @ s"

definition enc_list :: "('a \<Rightarrow> string) \<Rightarrow> 'a list \<Rightarrow> string" where
  "enc_list enc xs = enc_nat (length xs) @ concat (map enc xs)"

definition enc_member :: "authority_member \<Rightarrow> string" where
  "enc_member x = enc_nat (member_id x) @ enc_string (public_key x) @ (case member_role x of Voter \<Rightarrow> ''v'' | Learner \<Rightarrow> ''l'')"

definition enc_membership :: "nat \<times> authority_member list \<Rightarrow> string" where
  "enc_membership x = enc_nat (fst x) @ enc_list enc_member (snd x)"

definition enc_descriptor :: "authority_commit_descriptor \<Rightarrow> string" where
  "enc_descriptor d = enc_nat (cluster_id d) @ enc_nat (authority_term d) @ enc_nat (commit_index d) @
     enc_string (previous_commit_digest d) @ enc_string (record_type d) @ enc_string (record_id d) @
     enc_string (payload_digest d) @ enc_list enc_string (required_membership_digests d)"

definition enc_vote :: "string \<Rightarrow> authority_commit_descriptor \<times> uuid \<Rightarrow> string" where
  "enc_vote key x = enc_string key @ enc_descriptor (fst x) @ enc_nat (snd x)"

lemma delimited_nat: "delimited enc_nat"
proof -
  have "enc_nat x @ r = enc_nat y @ t \<Longrightarrow> x = y \<and> r = t" for x y r t
  proof (induction x arbitrary: y)
    case 0 then show ?case by (cases y) auto
  next
    case (Suc x) then show ?case by (cases y) auto
  qed
  then show ?thesis unfolding delimited_def by blast
qed

lemma delimited_string: "delimited enc_string"
  unfolding delimited_def enc_string_def by (auto dest: delimitedD [OF delimited_nat])

lemma delimited_list:
  assumes "delimited enc"
  shows "delimited (enc_list enc)"
proof -
  have "length xs = length ys \<Longrightarrow> concat (map enc xs) @ r = concat (map enc ys) @ t \<Longrightarrow> xs = ys \<and> r = t" for xs ys r t
    by (induction xs ys rule: list_induct2) (auto dest: delimitedD [OF assms])
  then show ?thesis unfolding delimited_def enc_list_def by (metis append_assoc delimitedD [OF delimited_nat])
qed

lemma delimited_member: "delimited enc_member"
  unfolding delimited_def enc_member_def
  by (auto dest!: delimitedD [OF delimited_nat] delimitedD [OF delimited_string] split: member_role.splits intro: authority_member.equality)

lemma delimited_descriptor: "delimited enc_descriptor"
  unfolding delimited_def enc_descriptor_def
  by (auto dest!: delimitedD [OF delimited_nat] delimitedD [OF delimited_string] delimitedD [OF delimited_list [OF delimited_string]]
    intro: authority_commit_descriptor.equality)

lemma delimited_inj: "delimited enc \<Longrightarrow> inj enc"
  unfolding inj_def by (metis delimitedD)

lemma enc_membership_inj: "inj enc_membership"
proof -
  have "x = y" if "enc_membership x @ [] = enc_membership y @ []" for x y
    using that unfolding enc_membership_def append_assoc
    by (auto dest!: delimitedD [OF delimited_nat] injD [OF delimited_inj [OF delimited_list [OF delimited_member]]] intro: prod_eqI)
  then show ?thesis by (simp add: inj_def)
qed

lemma enc_vote_inj: "enc_vote key x = enc_vote key' y \<Longrightarrow> key = key' \<and> x = y"
  using delimitedD [OF delimited_nat, of "snd x" "[]" "snd y" "[]"] unfolding enc_vote_def
  by (auto dest!: delimitedD [OF delimited_string] delimitedD [OF delimited_descriptor] intro: prod_eqI)

definition plain_crypto :: crypto_ops where
  "plain_crypto = \<lparr>membership_hash = enc_membership, commit_hash = enc_descriptor,
     sign_vote = enc_vote, verify_vote = (\<lambda>pk x sig. sig = enc_vote pk x),
     sign_envelope = (\<lambda>key x. key), verify_envelope = (\<lambda>pk x sig. sig = pk)\<rparr>"

lemma plain_crypto_sound: "sound_crypto plain_crypto"
  using enc_membership_inj delimited_inj [OF delimited_descriptor]
  by (auto simp: sound_crypto_def plain_crypto_def dest!: enc_vote_inj)

section \<open>Scheduled runs\<close>

text \<open>A schedule names the steps of a run; messages are named by their place in the list of all messages sent.\<close>

datatype action =
    Deliver uuid nat
  | Start uuid authority_ballot authority_commit_descriptor "authority_membership list" authority_commit_position
  | SendPrepare uuid "uuid list"
  | TakePromise uuid nat
  | SendAccept uuid "uuid list"
  | TakeVote uuid nat
  | SendCommit uuid "uuid list"

record run_state =
  run_store :: "(uuid, authority_consensus_snapshot) dict"
  run_cols :: "(uuid, vote_collector) dict"
  run_net :: "network_envelope list"

definition stored :: "authority_consensus_snapshot \<Rightarrow> run_state \<Rightarrow> uuid \<Rightarrow> authority_consensus_snapshot" where
  "stored snap0 x a = (case dict_get (run_store x) a of None \<Rightarrow> snap0 | Some s \<Rightarrow> s)"

definition sys_of :: "authority_consensus_snapshot \<Rightarrow> run_state \<Rightarrow> authority_system" where
  "sys_of snap0 x = \<lparr>sys_store = stored snap0 x, sys_collectors = dict_get (run_cols x), sys_net = set (run_net x)\<rparr>"

definition send_all :: "crypto_ops \<Rightarrow> (uuid \<Rightarrow> string) \<Rightarrow> uuid \<Rightarrow> uuid list \<Rightarrow> authority_payload \<Rightarrow> run_state \<Rightarrow> run_state" where
  "send_all cr keys source targets p x = x\<lparr>run_net := run_net x @ map (\<lambda>t. create_authority_envelope cr p source t (keys source) 0) targets\<rparr>"

fun take_step :: "crypto_ops \<Rightarrow> (uuid \<Rightarrow> string) \<Rightarrow> authority_consensus_snapshot \<Rightarrow> action \<Rightarrow> run_state \<Rightarrow> run_state option" where
  "take_step cr keys snap0 (Deliver a k) x =
     (if k < length (run_net x)
      then (case handle cr a (keys a) 0 0 (run_net x ! k) (stored snap0 x a) of
              (snap, r) \<Rightarrow> Some (x\<lparr>run_store := dict_set a snap (run_store x),
                 run_net := run_net x @ (case r of Inl e \<Rightarrow> [] | Inr es \<Rightarrow> es)\<rparr>))
      else None)"
| "take_step cr keys snap0 (Start r b d ms previous) x =
     (case (dict_get (run_cols x) r, new_collector cr b d ms previous r) of
        (None, Inr col) \<Rightarrow> Some (x\<lparr>run_cols := dict_set r col (run_cols x)\<rparr>) | _ \<Rightarrow> None)"
| "take_step cr keys snap0 (SendPrepare r ts) x =
     (case dict_get (run_cols x) r of
        None \<Rightarrow> None
      | Some col \<Rightarrow>
          if payload_ok cr (Prepare (prepare_message_of col))
          then Some (send_all cr keys (ballot_proposer (col_ballot col)) ts (Prepare (prepare_message_of col)) x) else None)"
| "take_step cr keys snap0 (TakePromise r k) x =
     (case dict_get (run_cols x) r of
        None \<Rightarrow> None
      | Some col \<Rightarrow>
          if k < length (run_net x)
          then (case record_prepare_response cr (run_net x ! k) col of
                  Inl e \<Rightarrow> None | Inr col' \<Rightarrow> Some (x\<lparr>run_cols := dict_set r col' (run_cols x)\<rparr>)) else None)"
| "take_step cr keys snap0 (SendAccept r ts) x =
     (case dict_get (run_cols x) r of
        None \<Rightarrow> None
      | Some col \<Rightarrow>
          (case accept_message_of cr col of
             (col', Inl e) \<Rightarrow> None
           | (col', Inr q) \<Rightarrow>
               Some ((send_all cr keys (ballot_proposer (col_ballot col)) ts (Accept q) x)\<lparr>run_cols := dict_set r col' (run_cols x)\<rparr>)))"
| "take_step cr keys snap0 (TakeVote r k) x =
     (case dict_get (run_cols x) r of
        None \<Rightarrow> None
      | Some col \<Rightarrow>
          if k < length (run_net x)
          then (case record_accept_response cr (run_net x ! k) col of
                  Inl e \<Rightarrow> None | Inr col' \<Rightarrow> Some (x\<lparr>run_cols := dict_set r col' (run_cols x)\<rparr>)) else None)"
| "take_step cr keys snap0 (SendCommit r ts) x =
     (case dict_get (run_cols x) r of
        None \<Rightarrow> None
      | Some col \<Rightarrow>
          (case committed_entry_of cr col of
             Inl e \<Rightarrow> None
           | Inr e \<Rightarrow> Some (send_all cr keys (ballot_proposer (col_ballot col)) ts
                        (Commit \<lparr>ct_cluster = cluster_id (entry_descriptor e), ct_request = r, ct_entry = e\<rparr>) x)))"

fun take_steps :: "crypto_ops \<Rightarrow> (uuid \<Rightarrow> string) \<Rightarrow> authority_consensus_snapshot \<Rightarrow> action list \<Rightarrow> run_state \<Rightarrow> run_state option" where
  "take_steps cr keys snap0 [] x = Some x"
| "take_steps cr keys snap0 (c # cs) x =
     (case take_step cr keys snap0 c x of None \<Rightarrow> None | Some y \<Rightarrow> take_steps cr keys snap0 cs y)"

lemma sys_of_select [simp]:
  "sys_store (sys_of snap0 x) = stored snap0 x" "sys_collectors (sys_of snap0 x) = dict_get (run_cols x)" "sys_net (sys_of snap0 x) = set (run_net x)"
  by (simp_all add: sys_of_def)

lemma sys_of_send_all [simp]:
  "set (run_net (send_all cr keys a ts p x)) = set (run_net x) \<union> sent cr keys a (set ts) (\<lambda>t. 0) p"
  "run_cols (send_all cr keys a ts p x) = run_cols x" "run_store (send_all cr keys a ts p x) = run_store x"
  by (auto simp: send_all_def sent_def)

lemma sys_of_eqI:
  assumes "\<And>a. sys_store s a = stored snap0 x a" "sys_collectors s = dict_get (run_cols x)" "sys_net s = set (run_net x)"
  shows "s = sys_of snap0 x"
  using assms by (intro authority_system.equality) auto

lemma dict_get_dict_set: "(dict_get d)(k \<mapsto> v) = dict_get (dict_set k v d)"
  by auto

lemma take_step_sound:
  assumes "take_step cr keys snap0 c x = Some y"
  shows "auth_step cr keys (sys_of snap0 x) (sys_of snap0 y)"
proof (cases c)
  case (Deliver a k)
  then obtain snap r where h: "k < length (run_net x)" "handle cr a (keys a) 0 0 (run_net x ! k) (stored snap0 x a) = (snap, r)"
      "y = x\<lparr>run_store := dict_set a snap (run_store x), run_net := run_net x @ (case r of Inl e \<Rightarrow> [] | Inr es \<Rightarrow> es)\<rparr>"
    using assms by (auto split: if_splits prod.splits)
  have "sys_of snap0 y = (sys_of snap0 x)\<lparr>sys_store := (sys_store (sys_of snap0 x))(a := snap), sys_net := sys_net (sys_of snap0 x) \<union> replies r\<rparr>"
    by (rule sys_of_eqI [symmetric]) (auto simp: h(3) stored_def replies_def split: sum.splits)
  then show ?thesis using auth_step.deliver [of "run_net x ! k" "sys_of snap0 x" cr a keys 0 0 snap r] h(1,2) by simp
next
  case (Start r b d ms previous)
  then obtain col where h: "dict_get (run_cols x) r = None" "new_collector cr b d ms previous r = Inr col"
      "y = x\<lparr>run_cols := dict_set r col (run_cols x)\<rparr>"
    using assms by (auto split: option.splits sum.splits)
  have "sys_of snap0 y = (sys_of snap0 x)\<lparr>sys_collectors := (sys_collectors (sys_of snap0 x))(r \<mapsto> col)\<rparr>"
    by (rule sys_of_eqI [symmetric]) (simp_all add: h(3) stored_def dict_get_dict_set del: dict_get_set)
  then show ?thesis using auth_step.start_round [of "sys_of snap0 x" r cr b d ms previous col keys] h(1,2) by simp
next
  case (SendPrepare r ts)
  then obtain col where h: "dict_get (run_cols x) r = Some col" "payload_ok cr (Prepare (prepare_message_of col))"
      "y = send_all cr keys (ballot_proposer (col_ballot col)) ts (Prepare (prepare_message_of col)) x"
    using assms by (auto split: option.splits if_splits)
  have "sys_of snap0 y = (sys_of snap0 x)\<lparr>sys_net := sys_net (sys_of snap0 x) \<union>
      sent cr keys (ballot_proposer (col_ballot col)) (set ts) (\<lambda>t. 0) (Prepare (prepare_message_of col))\<rparr>"
    by (rule sys_of_eqI [symmetric]) (simp_all add: h(3) stored_def)
  then show ?thesis using auth_step.send_prepare [of "sys_of snap0 x" r col cr keys "set ts" "\<lambda>t. 0"] h(1,2) by simp
next
  case (TakePromise r k)
  then obtain col col' where h: "dict_get (run_cols x) r = Some col" "k < length (run_net x)"
      "record_prepare_response cr (run_net x ! k) col = Inr col'" "y = x\<lparr>run_cols := dict_set r col' (run_cols x)\<rparr>"
    using assms by (auto split: option.splits if_splits sum.splits)
  have "sys_of snap0 y = (sys_of snap0 x)\<lparr>sys_collectors := (sys_collectors (sys_of snap0 x))(r \<mapsto> col')\<rparr>"
    by (rule sys_of_eqI [symmetric]) (simp_all add: h(4) stored_def dict_get_dict_set del: dict_get_set)
  then show ?thesis using auth_step.promise_response [of "sys_of snap0 x" r col "run_net x ! k" cr col' keys] h(1-3) by simp
next
  case (SendAccept r ts)
  then obtain col col' q where h: "dict_get (run_cols x) r = Some col" "accept_message_of cr col = (col', Inr q)"
      "y = (send_all cr keys (ballot_proposer (col_ballot col)) ts (Accept q) x)\<lparr>run_cols := dict_set r col' (run_cols x)\<rparr>"
    using assms by (auto split: option.splits prod.splits sum.splits)
  have "sys_of snap0 y = (sys_of snap0 x)\<lparr>sys_collectors := (sys_collectors (sys_of snap0 x))(r \<mapsto> col'), sys_net := sys_net (sys_of snap0 x) \<union>
      sent cr keys (ballot_proposer (col_ballot col)) (set ts) (\<lambda>t. 0) (Accept q)\<rparr>"
    by (rule sys_of_eqI [symmetric]) (simp_all add: h(3) stored_def dict_get_dict_set del: dict_get_set)
  then show ?thesis using auth_step.send_accept [of "sys_of snap0 x" r col cr col' q keys "set ts" "\<lambda>t. 0"] h(1,2) by simp
next
  case (TakeVote r k)
  then obtain col col' where h: "dict_get (run_cols x) r = Some col" "k < length (run_net x)"
      "record_accept_response cr (run_net x ! k) col = Inr col'" "y = x\<lparr>run_cols := dict_set r col' (run_cols x)\<rparr>"
    using assms by (auto split: option.splits if_splits sum.splits)
  have "sys_of snap0 y = (sys_of snap0 x)\<lparr>sys_collectors := (sys_collectors (sys_of snap0 x))(r \<mapsto> col')\<rparr>"
    by (rule sys_of_eqI [symmetric]) (simp_all add: h(4) stored_def dict_get_dict_set del: dict_get_set)
  then show ?thesis using auth_step.accept_response [of "sys_of snap0 x" r col "run_net x ! k" cr col' keys] h(1-3) by simp
next
  case (SendCommit r ts)
  then obtain col e where h: "dict_get (run_cols x) r = Some col" "committed_entry_of cr col = Inr e"
      "y = send_all cr keys (ballot_proposer (col_ballot col)) ts
         (Commit \<lparr>ct_cluster = cluster_id (entry_descriptor e), ct_request = r, ct_entry = e\<rparr>) x"
    using assms by (auto split: option.splits sum.splits)
  have "sys_of snap0 y = (sys_of snap0 x)\<lparr>sys_net := sys_net (sys_of snap0 x) \<union> sent cr keys (ballot_proposer (col_ballot col)) (set ts) (\<lambda>t. 0)
      (Commit \<lparr>ct_cluster = cluster_id (entry_descriptor e), ct_request = r, ct_entry = e\<rparr>)\<rparr>"
    by (rule sys_of_eqI [symmetric]) (simp_all add: h(3) stored_def)
  then show ?thesis using auth_step.send_commit [of "sys_of snap0 x" r col cr e keys "set ts" "\<lambda>t. 0"] h(1,2) by simp
qed

definition fresh_run :: run_state where
  "fresh_run = \<lparr>run_store = [], run_cols = [], run_net = []\<rparr>"

abbreviation fresh_snap :: "authority_commit_position \<Rightarrow> authority_membership \<Rightarrow> authority_consensus_snapshot" where
  "fresh_snap pos m \<equiv> \<lparr>revision = 0, snap_state = bootstrap_state pos m\<rparr>"

lemma take_steps_reachable:
  assumes "take_steps cr keys (fresh_snap pos m) cs fresh_run = Some x"
  shows "auth_reachable cr keys pos m (sys_of (fresh_snap pos m) x)"
proof -
  have "auth_reachable cr keys pos m (sys_of (fresh_snap pos m) y) \<Longrightarrow> take_steps cr keys (fresh_snap pos m) cs y = Some x \<Longrightarrow> ?thesis" for y
  proof (induction cs arbitrary: y)
    case (Cons c cs)
    then obtain z where z: "take_step cr keys (fresh_snap pos m) c y = Some z" "take_steps cr keys (fresh_snap pos m) cs z = Some x"
      by (auto split: option.splits)
    show ?case using Cons.IH [OF auth_reachable.stepwise [OF Cons.prems(1) take_step_sound [OF z(1)]] z(2)] .
  qed simp
  moreover have "sys_of (fresh_snap pos m) fresh_run = initial_system pos m"
    by (auto simp: sys_of_def initial_system_def fresh_run_def stored_def)
  ultimately show ?thesis using assms auth_reachable.initially by metis
qed

section \<open>Three voters, four rounds\<close>

definition ex_members :: authority_membership where
  "ex_members = \<lparr>generation = 1, members = map (\<lambda>(i, k). \<lparr>member_id = i, public_key = k, member_role = Voter\<rparr>) [(1, ''a''), (2, ''b''), (3, ''c'')]\<rparr>"

definition ex_keys :: "uuid \<Rightarrow> string" where
  "ex_keys a = (if a = 1 then ''a'' else if a = 2 then ''b'' else ''c'')"

definition ex_pos :: authority_commit_position where
  "ex_pos = \<lparr>pos_cluster = 9, pos_term = 1, pos_index = 1, pos_digest = ''g''\<rparr>"

definition ex_ballot :: "nat \<Rightarrow> uuid \<Rightarrow> authority_ballot" where
  "ex_ballot n a = \<lparr>ballot_counter = n, ballot_proposer = a\<rparr>"

definition ex_descriptor :: "nat \<Rightarrow> string \<Rightarrow> authority_commit_descriptor" where
  "ex_descriptor n rec = \<lparr>cluster_id = 9, authority_term = n, commit_index = 2, previous_commit_digest = ''g'',
     record_type = ''t'', record_id = rec, payload_digest = ''p'',
     required_membership_digests = [authority_membership_digest plain_crypto ex_members]\<rparr>"

text \<open>Round \<open>r\<close> of a proposer: it prepares with two voters and gets the votes of the ones named last.  The
  number of messages sent before the round is \<open>k\<close>.\<close>

definition ex_round :: "uuid \<Rightarrow> uuid \<Rightarrow> string \<Rightarrow> nat \<Rightarrow> uuid \<Rightarrow> uuid \<Rightarrow> uuid list \<Rightarrow> action list" where
  "ex_round r proposer rec k a b vs =
     [Start r (ex_ballot r proposer) (ex_descriptor r rec) [ex_members] ex_pos, SendPrepare r [a, b],
      Deliver a k, Deliver b (k + 1), TakePromise r (k + 2), TakePromise r (k + 3), SendAccept r vs] @
     map (\<lambda>j. Deliver (vs ! j) (k + 4 + j)) [0..<length vs] @
     map (\<lambda>j. TakeVote r (k + 4 + length vs + j)) [0..<length vs]"

definition ex_schedule :: "action list" where
  "ex_schedule = ex_round 2 1 ''x'' 0 1 2 [1] @ ex_round 3 2 ''y'' 6 2 3 [2] @ ex_round 4 1 ''z'' 12 1 3 [3] @
     ex_round 5 2 ''w'' 18 1 2 [1, 2] @ [SendCommit 5 [1, 2, 3], Deliver 1 26, Deliver 2 27]"

text \<open>The votes for the first value, of node 1 in the first round and of node 3 in the third, and a
  message that carries them to node 3.\<close>

definition vote_of :: "network_envelope \<Rightarrow> authority_vote option" where
  "vote_of env = (case env_payload env of Accepted m \<Rightarrow> Some (ad_vote m) | _ \<Rightarrow> None)"

definition stray_entry :: "run_state \<Rightarrow> authority_committed_entry" where
  "stray_entry x = \<lparr>entry_certificate = \<lparr>cert_descriptor = ex_descriptor 2 ''x'',
       cert_votes = [the (vote_of (run_net x ! 5)), the (vote_of (run_net x ! 17))]\<rparr>,
     entry_memberships = [ex_members]\<rparr>"

definition stray_commit :: "run_state \<Rightarrow> network_envelope" where
  "stray_commit x = create_authority_envelope plain_crypto
     (Commit \<lparr>ct_cluster = 9, ct_request = 5, ct_entry = stray_entry x\<rparr>) 2 3 (ex_keys 2) 0"

lemma vote_of_acks:
  assumes "k < length net" "vote_of (net ! k) \<noteq> None"
  shows "the (vote_of (net ! k)) \<in> (\<Union>a. snd ` acks (set net) a)"
proof -
  obtain m where m: "env_payload (net ! k) = Accepted m" using assms(2) by (auto simp: vote_of_def split: authority_payload.splits)
  then have "(ballot_key (ad_ballot m), ad_vote m) \<in> acks (set net) (env_source (net ! k))"
    using nth_mem [OF assms(1)] unfolding acks_def by blast
  then show ?thesis using m by (force simp: vote_of_def)
qed

text \<open>The run before the third node learns of the commit, evaluated once.\<close>

abbreviation ex_snap :: authority_consensus_snapshot where
  "ex_snap \<equiv> fresh_snap ex_pos ex_members"

abbreviation ex_log :: "run_state \<Rightarrow> uuid \<Rightarrow> authority_commit_descriptor list" where
  "ex_log x a \<equiv> map entry_descriptor (committed_entries (snap_state (stored ex_snap x a)))"

definition ex_run :: run_state where
  "ex_run = the (take_steps plain_crypto ex_keys ex_snap ex_schedule fresh_run)"

definition ex_outcome :: "run_state \<Rightarrow> bool" where
  "ex_outcome x \<longleftrightarrow>
     ex_log x 1 = [ex_descriptor 3 ''y''] \<and> ex_log x 2 = [ex_descriptor 3 ''y''] \<and>
     pos_index (position (snap_state (stored ex_snap x 1))) = pos_index (position (snap_state (stored ex_snap x 2))) \<and>
     17 < length (run_net x) \<and> vote_of (run_net x ! 5) \<noteq> None \<and> vote_of (run_net x ! 17) \<noteq> None \<and>
     (case handle plain_crypto 3 (ex_keys 3) 0 0 (stray_commit x) (stored ex_snap x 3) of
        (snap, r) \<Rightarrow> r = Inr [] \<and> map entry_descriptor (committed_entries (snap_state snap)) = [ex_descriptor 2 ''x''])"

lemma ex_evaluated: "case take_steps plain_crypto ex_keys ex_snap ex_schedule fresh_run of None \<Rightarrow> False | Some x \<Rightarrow> ex_outcome x"
  by code_simp

lemma ex_run_outcome: "ex_outcome ex_run"
  using ex_evaluated by (auto simp: ex_run_def split: option.splits)

lemma ex_reachable: "auth_reachable plain_crypto ex_keys ex_pos ex_members (sys_of ex_snap ex_run)"
  using ex_evaluated by (auto simp: ex_run_def intro: take_steps_reachable split: option.splits)

end
