(* ===== verification/Authority_Agreement.thy ===== *)
theory Authority_Agreement
  imports Authority_Invariant Authority_Example "HOL-Library.Multiset"
begin

text \<open>
  Agreement of the operator authority.  The locale \<open>single_decree\<close> states what one log index needs for
  two decisions to coincide; it is interpreted on the reachable states of the authority, where the voters of an
  index are those of the membership the log has reached before it.
\<close>

section \<open>One decision\<close>

locale single_decree =
  fixes good :: "'s \<Rightarrow> 'i \<Rightarrow> bool"
    and quorum :: "'s \<Rightarrow> 'i \<Rightarrow> 'a set \<Rightarrow> bool"
    and voted :: "'s \<Rightarrow> 'i \<Rightarrow> 'a \<Rightarrow> 'b::wellorder \<Rightarrow> 'v \<Rightarrow> bool"
    and proposed :: "'s \<Rightarrow> 'i \<Rightarrow> 'b \<Rightarrow> 'v \<Rightarrow> bool"
    and promised :: "'s \<Rightarrow> 'i \<Rightarrow> 'a \<Rightarrow> 'b \<Rightarrow> ('b \<times> 'v) option \<Rightarrow> bool"
  assumes quorums_meet: "good s i \<Longrightarrow> quorum s i Q \<Longrightarrow> quorum s i R \<Longrightarrow> Q \<inter> R \<noteq> {}"
    and one_vote: "good s i \<Longrightarrow> voted s i a b v \<Longrightarrow> voted s i a b w \<Longrightarrow> v = w"
    and vote_proposed: "good s i \<Longrightarrow> voted s i a b v \<Longrightarrow> proposed s i b v"
    and promise_reports: "good s i \<Longrightarrow> promised s i a b acc \<Longrightarrow> voted s i a c w \<Longrightarrow> c < b \<Longrightarrow>
          \<exists>ab av. acc = Some (ab, av) \<and> c \<le> ab"
    and report_voted: "good s i \<Longrightarrow> promised s i a b (Some (ab, av)) \<Longrightarrow> voted s i a ab av"
    and proposal_safe: "good s i \<Longrightarrow> proposed s i b v \<Longrightarrow>
          \<exists>Q f. quorum s i Q \<and> (\<forall>a \<in> Q. promised s i a b (f a)) \<and>
            ((\<forall>a \<in> Q. f a = None) \<or>
             (\<exists>hb < b. proposed s i hb v \<and> (\<forall>a \<in> Q. \<forall>ab av. f a = Some (ab, av) \<longrightarrow> ab < hb \<or> ab = hb \<and> av = v)))"
begin

definition decided :: "'s \<Rightarrow> 'i \<Rightarrow> 'b \<Rightarrow> 'v \<Rightarrow> bool" where
  "decided s i b v \<longleftrightarrow> (\<exists>Q. quorum s i Q \<and> (\<forall>a \<in> Q. voted s i a b v))"

text \<open>What is decided at a ballot is the only value proposed at any later one.\<close>

lemma later_proposals:
  assumes "good s i" "decided s i b v"
  shows "proposed s i c w \<Longrightarrow> b < c \<Longrightarrow> w = v"
proof (induction c arbitrary: w rule: less_induct)
  case (less c)
  obtain C where C: "quorum s i C" "\<forall>a \<in> C. voted s i a b v" using assms(2) by (auto simp: decided_def)
  obtain Q f where Q: "quorum s i Q" "\<forall>a \<in> Q. promised s i a c (f a)"
      and sel: "(\<forall>a \<in> Q. f a = None) \<or>
        (\<exists>hb < c. proposed s i hb w \<and> (\<forall>a \<in> Q. \<forall>ab av. f a = Some (ab, av) \<longrightarrow> ab < hb \<or> ab = hb \<and> av = w))"
    using proposal_safe [OF assms(1) less.prems(1)] by blast
  obtain a where a: "a \<in> C" "a \<in> Q" using quorums_meet [OF assms(1) C(1) Q(1)] by blast
  then obtain ab av where acc: "f a = Some (ab, av)" "b \<le> ab"
    using promise_reports [OF assms(1), of a c "f a" b v] Q(2) C(2) less.prems(2) by blast
  with sel a(2) obtain hb where hb: "hb < c" "proposed s i hb w" "ab < hb \<or> ab = hb \<and> av = w" by fastforce
  show ?case
  proof (cases "b < hb")
    case True
    then show ?thesis using less.IH [OF hb(1,2)] by simp
  next
    case False
    with hb(3) acc(2) have eq: "ab = b" "av = w" by auto
    have "voted s i a b w" using report_voted [OF assms(1), of a c ab av] Q(2) a(2) acc(1) eq by metis
    then show ?thesis using one_vote [OF assms(1)] C(2) a(1) by blast
  qed
qed

lemma agreement:
  assumes "good s i" "decided s i b v" "decided s i c w"
  shows "v = w"
proof -
  obtain Q R where Q: "quorum s i Q" "\<forall>a \<in> Q. voted s i a b v" and R: "quorum s i R" "\<forall>a \<in> R. voted s i a c w"
    using assms(2,3) by (auto simp: decided_def)
  obtain a where a: "a \<in> Q" "a \<in> R" using quorums_meet [OF assms(1) Q(1) R(1)] by blast
  have p: "proposed s i b v" "proposed s i c w" using vote_proposed [OF assms(1)] Q(2) R(2) a by blast+
  consider "b < c" | "c < b" | "b = c" by fastforce
  then show ?thesis
  proof cases
    case 3
    then show ?thesis using one_vote [OF assms(1), of a b v w] Q(2) R(2) a by blast
  qed (use later_proposals [OF assms(1)] assms(2,3) p in \<open>blast+\<close>)
qed

end

section \<open>One log index\<close>

text \<open>The heads before an index name one membership.\<close>

definition one_membership :: "crypto_ops \<Rightarrow> (authority_commit_position \<times> authority_membership) set \<Rightarrow> nat \<Rightarrow> bool" where
  "one_membership cr C i \<longleftrightarrow>
     (\<forall>h \<in> C. \<forall>h' \<in> C. pos_index (fst h) + 1 = i \<longrightarrow> pos_index (fst h') + 1 = i \<longrightarrow>
        authority_membership_digest cr (snd h) = authority_membership_digest cr (snd h'))"

type_synonym deployment = "crypto_ops \<times> (uuid \<Rightarrow> string) \<times> authority_commit_position \<times> authority_membership \<times> authority_system"

fun index_settled :: "deployment \<Rightarrow> nat \<Rightarrow> bool" where
  "index_settled (cr, keys, pos, m, s) i \<longleftrightarrow>
     sound_crypto cr \<and> auth_inv cr keys pos m s \<and> one_membership cr (configs cr pos m s) i"

fun index_quorum :: "deployment \<Rightarrow> nat \<Rightarrow> uuid set \<Rightarrow> bool" where
  "index_quorum (cr, keys, pos, m, s) i Q = quorum_at (configs cr pos m s) i Q"

fun index_voted :: "deployment \<Rightarrow> nat \<Rightarrow> uuid \<Rightarrow> nat \<times> nat \<Rightarrow> authority_commit_descriptor \<Rightarrow> bool" where
  "index_voted (cr, keys, pos, m, s) i a b d \<longleftrightarrow> (b, d) \<in> votes_of cr keys (sys_net s) a \<and> commit_index d = i"

fun index_proposed :: "deployment \<Rightarrow> nat \<Rightarrow> nat \<times> nat \<Rightarrow> authority_commit_descriptor \<Rightarrow> bool" where
  "index_proposed (cr, keys, pos, m, s) i b d \<longleftrightarrow> (b, d) \<in> proposals (sys_net s) \<and> commit_index d = i"

fun index_promised ::
  "deployment \<Rightarrow> nat \<Rightarrow> uuid \<Rightarrow> nat \<times> nat \<Rightarrow> ((nat \<times> nat) \<times> authority_commit_descriptor) option \<Rightarrow> bool" where
  "index_promised (cr, keys, pos, m, s) i a b acc = promised_at (sys_net s) i a b acc"

lemma quorums_at_meet:
  assumes "sound_crypto cr" "one_membership cr C i" "quorum_at C i Q" "quorum_at C i R"
  shows "Q \<inter> R \<noteq> {}"
proof -
  obtain h h' where *: "h \<in> C" "pos_index (fst h) + 1 = i" "majority (snd h) Q" "h' \<in> C" "pos_index (fst h') + 1 = i" "majority (snd h') R"
    using assms(3,4) unfolding quorum_at_def by blast
  then have "authority_membership_digest cr (snd h) = authority_membership_digest cr (snd h')"
    using assms(2) unfolding one_membership_def by blast
  then have c: "configuration (snd h) = configuration (snd h')" by (rule digest_configuration [OF assms(1)])
  have "majority (snd h) R" using voter_ids_configuration [OF c] quorum_size_configuration [OF c] *(6) by (simp add: majority_def)
  with *(3) show ?thesis by (rule majorities_meet)
qed

interpretation authority: single_decree index_settled index_quorum index_voted index_proposed index_promised
proof (unfold_locales, goal_cases)
  case (1 x i Q R)
  then show ?case using quorums_at_meet by (cases x) auto
next
  case (2 x i a b v w)
  obtain cr keys pos m s where x: "x = (cr, keys, pos, m, s)" by (cases x)
  have "acceptor_ok cr pos m (promises_of (sys_net s) a) (votes_of cr keys (sys_net s) a) (node_state s a)"
    using 2(1) by (simp add: x auth_inv_def acceptors_ok_def)
  then show ?case using 2(2,3) acceptor_okD(8) [of cr pos m _ _ _ b v w] by (simp add: x)
next
  case (3 x i a b v)
  obtain cr keys pos m s where x: "x = (cr, keys, pos, m, s)" by (cases x)
  show ?case using 3 vote_proposed [of cr keys "configs cr pos m s" s b v a] by (simp add: x auth_inv_def)
next
  case (4 x i a b acc c w)
  obtain cr keys pos m s where x: "x = (cr, keys, pos, m, s)" by (cases x)
  obtain pm where pm: "pm \<in> promises_of (sys_net s) a" "ballot_key (pm_ballot pm) = b" "pm_index pm = i" "report pm = acc"
    using 4 x by (auto simp: promised_at_def)
  have ok: "acceptor_ok cr pos m (promises_of (sys_net s) a) (votes_of cr keys (sys_net s) a) (node_state s a)"
    using 4 x by (auto simp: auth_inv_def acceptors_ok_def)
  obtain ab where ab: "pm_accepted_ballot pm = Some ab" "c \<le> ballot_key ab"
    using acceptor_okD(12) [OF ok pm(1), of c w] 4(3,4) x pm(2,3) by auto
  obtain ad where "pm_accepted_descriptor pm = Some ad" using acceptor_okD(14) [OF ok pm(1) ab(1)] by blast
  with ab have "acc = Some (ballot_key ab, ad) \<and> c \<le> ballot_key ab" using pm(4) by (simp add: report_def)
  then show ?case by blast
next
  case (5 x i a b ab av)
  obtain cr keys pos m s where x: "x = (cr, keys, pos, m, s)" by (cases x)
  obtain pm where pm: "pm \<in> promises_of (sys_net s) a" "pm_index pm = i" "report pm = Some (ab, av)"
    using 5 x by (auto simp: promised_at_def)
  then obtain ab' where "pm_accepted_ballot pm = Some ab'" "pm_accepted_descriptor pm = Some av" "ab = ballot_key ab'"
    by (auto simp: report_def split: option.splits)
  moreover have "acceptor_ok cr pos m (promises_of (sys_net s) a) (votes_of cr keys (sys_net s) a) (node_state s a)"
    using 5 x by (auto simp: auth_inv_def acceptors_ok_def)
  ultimately show ?case using acceptor_okD(14) pm x by fastforce
next
  case (6 x i b v)
  obtain cr keys pos m s where x: "x = (cr, keys, pos, m, s)" by (cases x)
  then have "justified (configs cr pos m s) (sys_net s) b v" "commit_index v = i"
    using 6 messages_okD(5) [of cr keys "configs cr pos m s" s b v] by (auto simp: auth_inv_def)
  then show ?case using x unfolding justified_def by auto
qed

section \<open>The logs\<close>

lemma heads_of_node:
  assumes "auth_inv cr keys pos m s"
  shows "certified_head cr pos m (committed_entries (node_state s a)) = Some (position (node_state s a), active_membership (node_state s a))"
  using assms log_continuity_head acceptor_okD(1-3) unfolding auth_inv_def acceptors_ok_def by metis

text \<open>An entry of a log was decided at its index.\<close>

lemma entry_decided:
  assumes sc: "sound_crypto cr" and inv: "auth_inv cr keys pos m s" and e: "e \<in> set (committed_entries (node_state s a))"
    and h: "h \<in> configs cr pos m s" "extends_head cr h e h'"
  shows "\<exists>b. authority.decided (cr, keys, pos, m, s) (commit_index (entry_descriptor e)) b (entry_descriptor e)"
proof -
  let ?d = "entry_descriptor e" and ?M = "entry_memberships e ! 0" and ?vs = "set (cert_votes (entry_certificate e))"
  have msg: "messages_ok cr keys (configs cr pos m s) s" using inv by (simp add: auth_inv_def)
  have v: "verify_quorum_certificate cr (entry_certificate e) (entry_memberships e) (fst h) = Inr (fst h')"
    using h(2) by (simp add: extends_head_def)
  note S = verify_quorum_certificate_sound [OF v] and X = extends_headD [OF h(2)]
  let ?Q = "vote_node ` ?vs \<inter> voter_ids ?M"
  have "?M \<in> set (entry_memberships e)" using X(5) by (intro nth_mem) auto
  then have "majority ?M ?Q" by (rule S(4))
  moreover have "configuration ?M = configuration (snd h)"
    by (rule digest_configuration [OF sc]) (use h(2) in \<open>simp add: extends_head_def\<close>)
  ultimately have "majority (snd h) ?Q"
    using voter_ids_configuration [of ?M "snd h"] quorum_size_configuration [of ?M "snd h"] by (simp add: majority_def)
  then have Q: "quorum_at (configs cr pos m s) (commit_index ?d) ?Q" using h(1) X(3) unfolding quorum_at_def by force
  obtain b where b: "\<And>w. w \<in> ?vs \<Longrightarrow> (b, w) \<in> acks (sys_net s) (vote_node w)"
    using messages_okD(6) [OF msg, of e] e by (auto simp: entry_backed_def all_entries_def)
  have "(b, ?d) \<in> votes_of cr keys (sys_net s) c" if c: "c \<in> ?Q" for c
  proof -
    obtain w where w: "w \<in> ?vs" "c = vote_node w" using c by blast
    obtain d' where d': "w = create_authority_vote cr d' c (keys c)" using messages_okD(1) [OF msg b [OF w(1)]] w(2) by blast
    obtain pk where "verify_vote cr pk (?d, c) (vote_signature w)" using S(3) w by blast
    with d' have "?d = d'" using verified_vote [OF sc] by blast
    with d' b [OF w(1)] w(2) show ?thesis by (simp add: votes_of_def)
  qed
  with Q show ?thesis unfolding authority.decided_def by (intro exI [of _ b] exI [of _ ?Q]) simp
qed

text \<open>What two logs hold before an index settles what they hold at it.\<close>

lemma next_head_agrees:
  assumes sc: "sound_crypto cr" and inv: "auth_inv cr keys pos m s"
    and e: "e \<in> set (committed_entries (node_state s a))" "h \<in> configs cr pos m s" "extends_head cr h e k"
    and f: "f \<in> set (committed_entries (node_state s c))" "h' \<in> configs cr pos m s" "extends_head cr h' f k'"
    and i: "pos_index (fst h) = pos_index (fst h')"
    and one: "one_membership cr (configs cr pos m s) (pos_index (fst h) + 1)"
  shows "entry_descriptor e = entry_descriptor f" "fst k = fst k'"
    "authority_membership_digest cr (snd k) = authority_membership_digest cr (snd k')"
proof -
  let ?dig = "authority_membership_digest cr"
  note E = extends_headD [OF e(3)] and F = extends_headD [OF f(3)]
  have idx: "commit_index (entry_descriptor e) = commit_index (entry_descriptor f)" using E(3) F(3) i by simp
  have good: "index_settled (cr, keys, pos, m, s) (commit_index (entry_descriptor e))" using sc inv one E(3) by simp
  show d: "entry_descriptor e = entry_descriptor f"
    using entry_decided [OF sc inv e] entry_decided [OF sc inv f] authority.agreement [OF good] idx by metis
  show "fst k = fst k'" using E(1) F(1) d by simp
  have old: "?dig (snd h) = ?dig (snd h')"
    by (rule one [unfolded one_membership_def, rule_format]) (use e(2) f(2) i in simp_all)
  have fst0: "?dig (entry_memberships e ! 0) = ?dig (entry_memberships f ! 0)" using e(3) f(3) old by (simp add: extends_head_def)
  have "sort (map ?dig (entry_memberships e)) = sort (map ?dig (entry_memberships f))" using E(4) F(4) d by simp
  then have "mset (map ?dig (entry_memberships e)) = mset (map ?dig (entry_memberships f))" by (metis mset_sort)
  with E(5) F(5) fst0 show "?dig (snd k) = ?dig (snd k')"
    using e(3) f(3) old by (auto simp: extends_head_def length_Suc_conv numeral_2_eq_2)
qed

lemma heads_agree:
  assumes sc: "sound_crypto cr" and inv: "auth_inv cr keys pos m s"
  shows "k \<in> configs cr pos m s \<Longrightarrow> k' \<in> configs cr pos m s \<Longrightarrow> pos_index (fst k) = n \<Longrightarrow> pos_index (fst k') = n \<Longrightarrow>
    fst k = fst k' \<and> authority_membership_digest cr (snd k) = authority_membership_digest cr (snd k')"
proof (induction n arbitrary: k k' rule: less_induct)
  case (less n)
  have origin: "x = (pos, m) \<or> (\<exists>c e h. e \<in> set (committed_entries (node_state s c)) \<and> h \<in> configs cr pos m s \<and>
      extends_head cr h e x \<and> pos_index (fst h) < pos_index (fst x))" if x: "x \<in> configs cr pos m s" for x
  proof -
    obtain c where c: "x \<in> set (log_heads cr pos m (committed_entries (node_state s c)))" using x by (auto simp: configs_def)
    from log_head_origin [OF heads_of_node [OF inv] c] consider "x = (pos, m)"
      | h e where "h \<in> set (log_heads cr pos m (committed_entries (node_state s c)))" "e \<in> set (committed_entries (node_state s c))" "extends_head cr h e x"
      by blast
    then show ?thesis
    proof cases
      case 2
      then have "h \<in> configs cr pos m s" "pos_index (fst h) < pos_index (fst x)" using extends_headD(2) [OF 2(3)] by (auto simp: configs_def)
      with 2 show ?thesis by blast
    qed simp
  qed
  have low: "pos_index pos \<le> pos_index (fst x)" if "x \<in> configs cr pos m s" for x
    using that log_heads_index [OF heads_of_node [OF inv], of x] unfolding configs_def by blast
  show ?case
  proof (cases "n = pos_index pos")
    case True
    then have "k = (pos, m)" "k' = (pos, m)" using origin less.prems low by (metis leD)+
    then show ?thesis by simp
  next
    case False
    then obtain c e h c' e' h' where *: "e \<in> set (committed_entries (node_state s c))" "h \<in> configs cr pos m s" "extends_head cr h e k"
        "e' \<in> set (committed_entries (node_state s c'))" "h' \<in> configs cr pos m s" "extends_head cr h' e' k'"
      using origin [OF less.prems(1)] origin [OF less.prems(2)] less.prems(3,4) by force
    have i: "pos_index (fst h) + 1 = n" "pos_index (fst h') + 1 = n"
      using extends_headD(2) [OF *(3)] extends_headD(2) [OF *(6)] less.prems by auto
    have "one_membership cr (configs cr pos m s) n"
      unfolding one_membership_def by (intro ballI impI, rule less.IH [THEN conjunct2, of "n - 1"]) auto
    then show ?thesis using next_head_agrees [OF sc inv *] i by simp
  qed
qed

text \<open>C3.  Any two nodes of the operator authority that hold an entry for the same log index hold the same
  descriptor there, whatever messages were lost, repeated or reordered, however many proposers
  ran at once and through every change of the membership; and nodes at the same position index are at the
  same position with the same membership.\<close>

theorem authority_agreement:
  assumes "sound_crypto cr" "pos_index pos = 1" "auth_reachable cr keys pos m s"
  shows "(\<forall>e \<in> set (committed_entries (node_state s a)). \<forall>f \<in> set (committed_entries (node_state s c)).
            commit_index (entry_descriptor e) = commit_index (entry_descriptor f) \<longrightarrow> entry_descriptor e = entry_descriptor f) \<and>
         (pos_index (position (node_state s a)) = pos_index (position (node_state s c)) \<longrightarrow>
            position (node_state s a) = position (node_state s c) \<and>
            configuration (active_membership (node_state s a)) = configuration (active_membership (node_state s c)))"
proof -
  note inv = reachable_inv [OF assms]
  have head: "(position (node_state s x), active_membership (node_state s x)) \<in> configs cr pos m s" for x
    using inv unfolding auth_inv_def acceptors_ok_def by (intro active_in_configs) blast
  have "entry_descriptor e = entry_descriptor f"
    if ef: "e \<in> set (committed_entries (node_state s a))" "f \<in> set (committed_entries (node_state s c))"
      "commit_index (entry_descriptor e) = commit_index (entry_descriptor f)" for e f
  proof -
    obtain h k h' k' where h: "h \<in> configs cr pos m s" "extends_head cr h e k" "h' \<in> configs cr pos m s" "extends_head cr h' f k'"
      using log_entry_extends [OF heads_of_node [OF inv] ef(1)] log_entry_extends [OF heads_of_node [OF inv] ef(2)]
      unfolding configs_def by blast
    have i: "pos_index (fst h) = pos_index (fst h')" using extends_headD(3) [OF h(2)] extends_headD(3) [OF h(4)] ef(3) by simp
    have "one_membership cr (configs cr pos m s) (pos_index (fst h) + 1)"
      unfolding one_membership_def by (intro ballI impI, rule heads_agree [OF assms(1) inv, THEN conjunct2]) auto
    then show ?thesis by (rule next_head_agrees(1) [OF assms(1) inv ef(1) h(1,2) ef(2) h(3,4) i])
  qed
  moreover have "position (node_state s a) = position (node_state s c) \<and>
      configuration (active_membership (node_state s a)) = configuration (active_membership (node_state s c))"
    if "pos_index (position (node_state s a)) = pos_index (position (node_state s c))"
  proof -
    from heads_agree [OF assms(1) inv head [of a] head [of c]] that
    have "position (node_state s a) = position (node_state s c)"
      "authority_membership_digest cr (active_membership (node_state s a)) = authority_membership_digest cr (active_membership (node_state s c))"
      by simp_all
    then show ?thesis using digest_configuration [OF assms(1)] by blast
  qed
  ultimately show ?thesis by blast
qed

theorem authority_agreement_witness:
  "auth_reachable plain_crypto ex_keys ex_pos ex_members (sys_of ex_snap ex_run) \<and>
   map entry_descriptor (committed_entries (node_state (sys_of ex_snap ex_run) 1)) = [ex_descriptor 3 ''y''] \<and>
   position (node_state (sys_of ex_snap ex_run) 1) = position (node_state (sys_of ex_snap ex_run) 2)"
  using authority_agreement [OF plain_crypto_sound _ ex_reachable, of 1 2] ex_reachable ex_run_outcome
  by (simp add: ex_outcome_def ex_pos_def)

text \<open>A certificate does not prove that its value was committed: votes carry no ballot, so votes that
  honest voters cast in different rounds add up to a certificate for a value that lost.  Here nodes
  1 and 2 have committed one value, every vote of the stray certificate is one its voter sent, and node 3
  commits the other value when a voter sends it that certificate.\<close>

theorem stray_certificate_commits:
  "auth_reachable plain_crypto ex_keys ex_pos ex_members (sys_of ex_snap ex_run) \<and>
   map entry_descriptor (committed_entries (node_state (sys_of ex_snap ex_run) 1)) = [ex_descriptor 3 ''y''] \<and>
   map entry_descriptor (committed_entries (node_state (sys_of ex_snap ex_run) 2)) = [ex_descriptor 3 ''y''] \<and>
   set (cert_votes (entry_certificate (stray_entry ex_run))) \<subseteq> (\<Union>a. snd ` acks (sys_net (sys_of ex_snap ex_run)) a) \<and>
   (case handle plain_crypto 3 (ex_keys 3) 0 0 (stray_commit ex_run) (sys_store (sys_of ex_snap ex_run) 3) of
      (snap, r) \<Rightarrow> r = Inr [] \<and> map entry_descriptor (committed_entries (snap_state snap)) = [ex_descriptor 2 ''x''])"
proof -
  have "set (cert_votes (entry_certificate (stray_entry ex_run))) \<subseteq> (\<Union>a. snd ` acks (set (run_net ex_run)) a)"
    using ex_run_outcome vote_of_acks [of 5 "run_net ex_run"] vote_of_acks [of 17 "run_net ex_run"]
    by (simp add: stray_entry_def ex_outcome_def)
  then show ?thesis using ex_reachable ex_run_outcome by (simp add: ex_outcome_def)
qed

end
