(* ===== verification/Cycle_Filter.thy ===== *)
theory Cycle_Filter
  imports Placement_Memory
begin

text \<open>
  The memory filter over candidate cycles, \<open>_per_node_required_memory\<close> and \<open>filter_cycles_by_memory\<close> of
  \<^verbatim>\<open>src/skulk/master/placement_utils.py\<close>.  The human-readable rejection lines are values of a datatype with the
  figures the lines print.
\<close>

section \<open>What a node must hold\<close>

definition node_usable_memory :: "(rat \<Rightarrow> rat) \<Rightarrow> memory_usage \<Rightarrow> memory option \<Rightarrow> memory" where
  "node_usable_memory fl mem vram_usable =
     (case vram_usable of
        Some v \<Rightarrow> v
      | None \<Rightarrow> min (ram_available mem) (mem_mul fl (ram_total mem) (GPU_WORKING_SET_FRACTION fl)))"

text \<open>\<open>_node_usable_memory(node_memory[n], node_vram.get(n))\<close> for a node with memory information.\<close>

definition usable_in :: "(rat \<Rightarrow> rat) \<Rightarrow> (node_id, memory_usage) dict \<Rightarrow> (node_id, memory) dict \<Rightarrow> node_id \<Rightarrow> memory" where
  "usable_in fl node_memory node_vram node =
     node_usable_memory fl (the (dict_get node_memory node)) (dict_get node_vram node)"

definition uses_cfg_parallel :: "model_card \<Rightarrow> nat \<Rightarrow> bool" where
  "uses_cfg_parallel mcard ws \<longleftrightarrow> uses_cfg mcard \<and> ws \<ge> 2 \<and> ws mod 2 = 0"

definition effective_pipeline_stage_count :: "model_card \<Rightarrow> nat \<Rightarrow> nat" where
  "effective_pipeline_stage_count mcard ws = (if uses_cfg_parallel mcard ws then ws div 2 else ws)"

definition layer_share :: "model_card \<Rightarrow> int \<Rightarrow> memory" where
  "layer_share mcard layers = storage_size mcard * layers div int (card_n_layers mcard)"

text \<open>The position of each rank of the ring in its pipeline group: the second group runs backwards.\<close>

definition mirrored_ranks :: "nat \<Rightarrow> nat list" where
  "mirrored_ranks n = [0..<n] @ rev [0..<n]"

definition per_node_required_memory ::
  "(rat \<Rightarrow> rat) \<Rightarrow> node_id list \<Rightarrow> (node_id, memory_usage) dict \<Rightarrow> model_card \<Rightarrow> sharding \<Rightarrow> (node_id, memory) dict
     \<Rightarrow> bool \<Rightarrow> (node_id, memory) dict \<Rightarrow> py_error + (node_id, memory) dict" where
  "per_node_required_memory fl cycle node_memory mcard shd node_vram exact_pipeline_layers fixed_memory_by_node =
     (let required = storage_size mcard
      in if shd = Tensor
         then (if cycle = [] then Inl ZeroDivisionError
               else Inr (dict_of_pairs (map (\<lambda>n. (n, mem_div fl required (int (length cycle)))) cycle)))
         else if \<not> list_all (dict_has node_memory) cycle then Inl KeyError
         else let usable = (\<lambda>n. max 0 (usable_in fl node_memory node_vram n - dict_default 0 fixed_memory_by_node n));
                  total_usable = sum_list (map usable cycle)
              in if total_usable = 0 then Inr (dict_of_pairs (map (\<lambda>n. (n, required)) cycle))
                 else if \<not> exact_pipeline_layers
                 then Inr (dict_of_pairs (map (\<lambda>n. (n, mem_mul fl required (mem_ratio fl (usable n) total_usable))) cycle))
                 else if uses_cfg_parallel mcard (length cycle)
                 then let group = take (length cycle div 2) cycle
                      in if sum_list (map usable group) = 0 then Inr (dict_of_pairs (map (\<lambda>n. (n, required)) cycle))
                         else (case allocate_pipeline_layers fl mcard (memory_fractions fl (map usable group)) of
                                 Inl e \<Rightarrow> Inl e
                               | Inr allocations \<Rightarrow> Inr (dict_of_pairs (map (\<lambda>(n, rank). (n, layer_share mcard (allocations ! rank)))
                                   (zip cycle (mirrored_ranks (length cycle div 2))))))
                 else (case allocate_pipeline_layers fl mcard (memory_fractions fl (map usable cycle)) of
                         Inl e \<Rightarrow> Inl e
                       | Inr allocations \<Rightarrow> Inr (dict_of_pairs (map (\<lambda>(n, layers). (n, layer_share mcard layers)) (zip cycle allocations)))))"

section \<open>The filter\<close>

datatype overload =
    NoServingSettings node_id
  | NeedsMore node_id (needs: memory) (can_use: memory)

datatype cycle_rejection =
    TooManyStages "node_id list" nat
  | UnsafeSplit "node_id list" nat nat
  | Overloaded "node_id list" "overload list"

record cycle_diagnostics =
  pending_info_node_ids :: "node_id list"
  rejection_reasons :: "cycle_rejection list"

record fit_inputs =
  fit_memory :: "(node_id, memory_usage) dict"
  fit_card :: model_card
  fit_sharding :: sharding
  fit_budget :: int
  fit_vram :: "(node_id, memory) dict"
  fit_exact :: bool
  fit_fixed :: "(node_id, memory) dict"
  fit_backends :: "(node_id, string option) dict"
  fit_settings :: "(node_id, llama_settings option) dict"

definition kv_ratio :: "(rat \<Rightarrow> rat) \<Rightarrow> fit_inputs \<Rightarrow> rat" where
  "kv_ratio fl q =
     (let required = storage_size (fit_card q)
      in if required = 0 then 0
         else fl (of_int (estimate_kv_cache_bytes (fit_card q) (int (card_n_layers (fit_card q))) (fit_budget q)) / of_int required))"

definition required_with_overhead ::
  "(rat \<Rightarrow> rat) \<Rightarrow> fit_inputs \<Rightarrow> node_id \<Rightarrow> string option \<Rightarrow> llama_settings option \<Rightarrow> memory \<Rightarrow> memory" where
  "required_with_overhead fl q node backend settings share =
     (let mcard = fit_card q; required = storage_size mcard;
          node_kv_ratio = (if cache_geometry mcard \<noteq> None
            then fl (of_int (per_token_kv_bytes mcard backend settings * fit_budget q) / of_int required) else kv_ratio fl q);
          recurrent_share = (if cache_geometry mcard \<noteq> None
            then mem_mul fl (estimate_recurrent_cache_bytes mcard backend settings) (mem_ratio fl share required) else 0)
      in mem_mul fl share (memory_overhead_factor fl mcard) + mem_mul fl share node_kv_ratio + recurrent_share
         + MEMORY_OVERHEAD_FLOOR + estimate_music_workspace mcard backend + dict_default 0 (fit_fixed q) node)"

definition node_overload :: "(rat \<Rightarrow> rat) \<Rightarrow> fit_inputs \<Rightarrow> node_id \<Rightarrow> memory \<Rightarrow> py_error + overload option" where
  "node_overload fl q node share =
     (let backend = dict_default None (fit_backends q) node;
          settings = dict_default None (fit_settings q) node;
          available = usable_in fl (fit_memory q) (fit_vram q) node;
          required = required_with_overhead fl q node backend settings share
      in if cache_geometry (fit_card q) \<noteq> None \<and> settings = None \<and>
            (case backend of Some b \<Rightarrow> startswith b ''llama_server'' | None \<Rightarrow> False)
         then Inr (Some (NoServingSettings node))
         else if cache_geometry (fit_card q) \<noteq> None \<and> storage_size (fit_card q) = 0 then Inl ZeroDivisionError
         else Inr (if required > available then Some (NeedsMore node required available) else None))"

fun node_overloads :: "(rat \<Rightarrow> rat) \<Rightarrow> fit_inputs \<Rightarrow> (node_id, memory) dict \<Rightarrow> py_error + overload list" where
  "node_overloads fl q [] = Inr []"
| "node_overloads fl q ((node, share) # rest) =
     (case node_overload fl q node share of
        Inl e \<Rightarrow> Inl e
      | Inr o' \<Rightarrow> (case node_overloads fl q rest of
                     Inl e \<Rightarrow> Inl e
                   | Inr os \<Rightarrow> Inr (case o' of Some x \<Rightarrow> x # os | None \<Rightarrow> os)))"

datatype verdict = MissingInfo "node_id list" | Rejected cycle_rejection | Fits

definition check_cycle :: "(rat \<Rightarrow> rat) \<Rightarrow> fit_inputs \<Rightarrow> node_id list \<Rightarrow> py_error + verdict" where
  "check_cycle fl q cycle =
     (let mcard = fit_card q;
          missing = filter (\<lambda>n. \<not> dict_has (fit_memory q) n) cycle;
          stages = effective_pipeline_stage_count mcard (length cycle);
          exact_pipeline = (fit_exact q \<and> fit_sharding q = Pipeline)
      in if missing \<noteq> [] then Inr (MissingInfo missing)
         else if exact_pipeline \<and> stages > card_n_layers mcard then Inr (Rejected (TooManyStages cycle stages))
         else if exact_pipeline \<and> (case max_pipeline_split_layer mcard of Some limit \<Rightarrow> int stages - 1 > int limit | None \<Rightarrow> False)
         then Inr (Rejected (UnsafeSplit cycle stages (the (max_pipeline_split_layer mcard))))
         else (case per_node_required_memory fl cycle (fit_memory q) mcard (fit_sharding q) (fit_vram q) (fit_exact q) (fit_fixed q) of
                 Inl e \<Rightarrow> Inl e
               | Inr shares \<Rightarrow>
                   (case node_overloads fl q shares of
                      Inl e \<Rightarrow> Inl e
                    | Inr os \<Rightarrow> Inr (if os \<noteq> [] then Rejected (Overloaded cycle os) else Fits))))"

fun add_missing :: "node_id list \<Rightarrow> node_id list \<Rightarrow> node_id list" where
  "add_missing pending [] = pending"
| "add_missing pending (n # ns) = add_missing (if n \<in> set pending then pending else pending @ [n]) ns"

fun filter_cycles ::
  "(rat \<Rightarrow> rat) \<Rightarrow> fit_inputs \<Rightarrow> node_id list list \<Rightarrow> cycle_diagnostics \<Rightarrow> py_error + node_id list list \<times> cycle_diagnostics" where
  "filter_cycles fl q [] diag = Inr ([], diag)"
| "filter_cycles fl q (cycle # cycles) diag =
     (case check_cycle fl q cycle of
        Inl e \<Rightarrow> Inl e
      | Inr (MissingInfo ns) \<Rightarrow>
          filter_cycles fl q cycles (diag\<lparr>pending_info_node_ids := add_missing (pending_info_node_ids diag) ns\<rparr>)
      | Inr (Rejected r) \<Rightarrow> filter_cycles fl q cycles (diag\<lparr>rejection_reasons := rejection_reasons diag @ [r]\<rparr>)
      | Inr Fits \<Rightarrow> (case filter_cycles fl q cycles diag of Inl e \<Rightarrow> Inl e | Inr (kept, d) \<Rightarrow> Inr (cycle # kept, d)))"

definition filter_cycles_by_memory ::
  "(rat \<Rightarrow> rat) \<Rightarrow> fit_inputs \<Rightarrow> node_id list list \<Rightarrow> py_error + node_id list list \<times> cycle_diagnostics" where
  "filter_cycles_by_memory fl q cycles = filter_cycles fl q cycles \<lparr>pending_info_node_ids = [], rejection_reasons = []\<rparr>"

text \<open>\<open>min\<close> of an empty list of candidates raises \<open>ValueError\<close>.\<close>

definition get_smallest_cycles :: "node_id list list \<Rightarrow> py_error + node_id list list" where
  "get_smallest_cycles cycles =
     (if cycles = [] then Inl ValueError
      else Inr (filter (\<lambda>c. length c = Min (set (map length cycles))) cycles))"

end
