(* ===== verification/Placement_Hosts.thy ===== *)
theory Placement_Hosts
  imports Cluster_State Memory_Estimate Topology_Graph
begin

text \<open>
  Which addresses the members of a placement dial: the address helpers, ring host lists, RDMA device matrix, JACCL
  coordinators and RPC donor endpoints of \<^verbatim>\<open>src/skulk/master/placement_utils.py\<close>, with the part of Python's
  \<^verbatim>\<open>ipaddress\<close> module they use.
\<close>

section \<open>IP addresses\<close>

datatype ip_addr = IPv4 nat | IPv6 nat

text \<open>\<open>s.split(c)\<close>\<close>

fun split_on :: "char \<Rightarrow> string \<Rightarrow> string list" where
  "split_on c [] = [[]]"
| "split_on c (x # xs) = (if x = c then [] # split_on c xs else (x # hd (split_on c xs)) # tl (split_on c xs))"

definition decimal_digit :: "char \<Rightarrow> nat option" where
  "decimal_digit c = (let n = of_char c in if 48 \<le> n \<and> n \<le> 57 then Some (n - 48) else None)"

definition hex_digit :: "char \<Rightarrow> nat option" where
  "hex_digit c = (let n = of_char c in if 48 \<le> n \<and> n \<le> 57 then Some (n - 48)
     else if 97 \<le> n \<and> n \<le> 102 then Some (n - 87)
     else if 65 \<le> n \<and> n \<le> 70 then Some (n - 55) else None)"

definition parse_base :: "nat \<Rightarrow> (char \<Rightarrow> nat option) \<Rightarrow> string \<Rightarrow> nat option" where
  "parse_base b digit s =
     (if s = [] \<or> list_ex (\<lambda>c. digit c = None) s then None else Some (foldl (\<lambda>n c. n * b + the (digit c)) 0 s))"

definition parse_octet :: "string \<Rightarrow> nat option" where
  "parse_octet s =
     (if length s > 3 \<or> (s \<noteq> ''0'' \<and> s \<noteq> [] \<and> hd s = CHR ''0'') then None
      else case parse_base 10 decimal_digit s of Some n \<Rightarrow> if n > 255 then None else Some n | None \<Rightarrow> None)"

definition parse_ipv4 :: "string \<Rightarrow> nat option" where
  "parse_ipv4 s =
     (let octets = map parse_octet (split_on CHR ''.'' s)
      in if length octets \<noteq> 4 \<or> None \<in> set octets then None else Some (foldl (\<lambda>n x. n * 256 + the x) 0 octets))"

definition parse_hextet :: "string \<Rightarrow> nat option" where
  "parse_hextet s = (if length s > 4 then None else parse_base 16 hex_digit s)"

text \<open>A trailing dotted quad stands for the last two groups of sixteen bits.\<close>

datatype hextet = Text string | Value nat

definition ipv6_parts :: "string \<Rightarrow> hextet list option" where
  "ipv6_parts s =
     (let parts = split_on CHR '':'' s
      in if length parts < 3 then None
         else if CHR ''.'' \<in> set (last parts)
         then (case parse_ipv4 (last parts) of
                 None \<Rightarrow> None
               | Some v \<Rightarrow> Some (map Text (butlast parts) @ [Value (v div 65536), Value (v mod 65536)]))
         else Some (map Text parts))"

definition is_empty_part :: "hextet \<Rightarrow> bool" where
  "is_empty_part h = (h = Text [])"

fun hextet_value :: "hextet \<Rightarrow> nat option" where
  "hextet_value (Text s) = parse_hextet s"
| "hextet_value (Value v) = Some v"

definition join_hextets :: "hextet list \<Rightarrow> nat \<Rightarrow> hextet list \<Rightarrow> nat option" where
  "join_hextets hi skipped lo =
     (let vs = map hextet_value (hi @ replicate skipped (Value 0) @ lo)
      in if None \<in> set vs then None else Some (foldl (\<lambda>n v. n * 65536 + the v) 0 vs))"

definition parse_ipv6_digits :: "string \<Rightarrow> nat option" where
  "parse_ipv6_digits s =
     (case ipv6_parts s of
        None \<Rightarrow> None
      | Some parts \<Rightarrow>
          if length parts > 9 then None
          else case filter (\<lambda>i. is_empty_part (parts ! i)) [1..<length parts - 1] of
                 [] \<Rightarrow> if length parts \<noteq> 8 \<or> is_empty_part (hd parts) \<or> is_empty_part (last parts) then None
                       else join_hextets parts 0 []
               | [i] \<Rightarrow>
                   (let hi = (if is_empty_part (hd parts) then i - 1 else i);
                        lo = length parts - i - 1;
                        lo' = (if is_empty_part (last parts) then lo - 1 else lo)
                    in if (is_empty_part (hd parts) \<and> hi \<noteq> 0) \<or> (is_empty_part (last parts) \<and> lo' \<noteq> 0) \<or> hi + lo' \<ge> 8 then None
                       else join_hextets (take hi parts) (8 - (hi + lo')) (drop (length parts - lo') parts))
               | _ \<Rightarrow> None)"

definition parse_ipv6 :: "string \<Rightarrow> nat option" where
  "parse_ipv6 s =
     (if CHR ''/'' \<in> set s then None
      else case split_on CHR ''%'' s of
             [a] \<Rightarrow> parse_ipv6_digits a
           | [a, scope] \<Rightarrow> if scope = [] then None else parse_ipv6_digits a
           | _ \<Rightarrow> None)"

text \<open>\<open>ipaddress.ip_address(ip)\<close>; \<open>None\<close> is its \<open>ValueError\<close>.\<close>

definition py_ip_address :: "string \<Rightarrow> ip_addr option" where
  "py_ip_address s =
     (case parse_ipv4 s of Some v \<Rightarrow> Some (IPv4 v) | None \<Rightarrow> map_option IPv6 (parse_ipv6 s))"

text \<open>Tailscale: \<open>100.64.0.0/10\<close> and \<open>fd7a:115c:a1e0::/48\<close>.\<close>

definition is_vpn_address :: "string \<Rightarrow> bool" where
  "is_vpn_address ip =
     (case py_ip_address ip of
        None \<Rightarrow> False
      | Some (IPv4 v) \<Rightarrow> v div 2 ^ 22 = (100 * 2 ^ 24 + 64 * 2 ^ 16) div 2 ^ 22
      | Some (IPv6 v) \<Rightarrow> v div 2 ^ 80 = 0xfd7a115ca1e0)"

definition is_routable_rpc_donor_address :: "string \<Rightarrow> bool" where
  "is_routable_rpc_donor_address ip =
     (case py_ip_address ip of
        Some (IPv4 v) \<Rightarrow> v div 2 ^ 16 \<noteq> 169 * 2 ^ 8 + 254 \<and> v div 2 ^ 24 \<noteq> 127
      | _ \<Rightarrow> False)"

section \<open>Choosing an address\<close>

type_synonym network_map = "(node_id, network_interface_info list) dict"

definition find_connection_ip :: "'g rx_ops \<Rightarrow> node_id \<Rightarrow> node_id \<Rightarrow> 'g topology \<Rightarrow> py_error + string list" where
  "find_connection_ip rx node_i node_j t =
     (let conns = filter (\<lambda>e. case e of SocketConnection _ sess \<Rightarrow> \<not> sess | _ \<Rightarrow> False) (get_all_connections_between rx node_i node_j t);
          ips = map (\<lambda>e. ip_address (sink_multiaddr e)) conns
      in if None \<in> set ips then Inl ValueError else Inr (map the ips))"

definition RING_TRANSPORT_PRIORITY :: "(string, nat) dict" where
  "RING_TRANSPORT_PRIORITY = [(''thunderbolt'', 0), (''maybe_ethernet'', 1), (''ethernet'', 2), (''wifi'', 3), (''unknown'', 4), (''vpn'', 5)]"

definition JACCL_TRANSPORT_PRIORITY :: "(string, nat) dict" where
  "JACCL_TRANSPORT_PRIORITY = [(''ethernet'', 0), (''wifi'', 1), (''unknown'', 2), (''maybe_ethernet'', 3), (''thunderbolt'', 4), (''vpn'', 5)]"

definition transport_rank :: "(string, nat) dict \<Rightarrow> network_interface_info list \<Rightarrow> string \<Rightarrow> nat" where
  "transport_rank priority ifaces ip =
     (let ip_to_type = dict_of_pairs (map (\<lambda>i. (iface_ip_address i, iface_type i)) ifaces)
      in if is_vpn_address ip then the (dict_get priority ''vpn'')
         else dict_default (the (dict_get priority ''unknown'')) priority (dict_default ''unknown'' ip_to_type ip))"

text \<open>\<open>min(xs, key=key)\<close>: the first of the least.\<close>

definition min_key :: "('a \<Rightarrow> nat) \<Rightarrow> 'a list \<Rightarrow> 'a" where
  "min_key key xs = foldl (\<lambda>b x. if key x < key b then x else b) (hd xs) (tl xs)"

definition find_ip_prioritised ::
  "'g rx_ops \<Rightarrow> node_id \<Rightarrow> node_id \<Rightarrow> 'g topology \<Rightarrow> network_map \<Rightarrow> bool \<Rightarrow> bool \<Rightarrow> py_error + string option" where
  "find_ip_prioritised rx node other t network ring require_routable =
     (case find_connection_ip rx node other t of
        Inl e \<Rightarrow> Inl e
      | Inr found \<Rightarrow>
          (let ips = (if require_routable then filter is_routable_rpc_donor_address found else found)
           in if ips = [] then Inr None
              else Inr (Some (min_key (transport_rank (if ring then RING_TRANSPORT_PRIORITY else JACCL_TRANSPORT_PRIORITY)
                                         (dict_default [] network other)) ips))))"

section \<open>Host lists\<close>

text \<open>A loop whose body may raise.\<close>

fun collect_results :: "(py_error + 'a) list \<Rightarrow> py_error + 'a list" where
  "collect_results [] = Inr []"
| "collect_results (r # rs) =
     (case r of Inl e \<Rightarrow> Inl e | Inr x \<Rightarrow> (case collect_results rs of Inl e \<Rightarrow> Inl e | Inr xs \<Rightarrow> Inr (x # xs)))"

definition ring_host ::
  "'g rx_ops \<Rightarrow> node_id list \<Rightarrow> 'g topology \<Rightarrow> int \<Rightarrow> network_map \<Rightarrow> nat \<Rightarrow> nat \<Rightarrow> py_error + host" where
  "ring_host rx cycle t lport network rank k =
     (let ws = length cycle; left_rank = (rank + ws - 1) mod ws; right_rank = (rank + 1) mod ws
      in if k = rank then Inr \<lparr>host_ip = ''0.0.0.0'', host_port = lport\<rparr>
         else if k \<noteq> left_rank \<and> k \<noteq> right_rank then Inr \<lparr>host_ip = ''198.51.100.1'', host_port = 0\<rparr>
         else case find_ip_prioritised rx (cycle ! rank) (cycle ! k) t network True False of
                Inl e \<Rightarrow> Inl e
              | Inr None \<Rightarrow> Inl ValueError
              | Inr (Some ip) \<Rightarrow> Inr \<lparr>host_ip = ip, host_port = lport\<rparr>)"

definition get_mlx_ring_hosts_by_node ::
  "'g rx_ops \<Rightarrow> node_id list \<Rightarrow> 'g topology \<Rightarrow> int \<Rightarrow> network_map \<Rightarrow> py_error + (node_id, host list) dict" where
  "get_mlx_ring_hosts_by_node rx cycle t lport network =
     (case collect_results (map (\<lambda>rank. collect_results (map (ring_host rx cycle t lport network rank) [0..<length cycle]))
                              [0..<length cycle]) of
        Inl e \<Rightarrow> Inl e
      | Inr rows \<Rightarrow> Inr (dict_of_pairs (zip cycle rows)))"

text \<open>The first RDMA connection from one node to another.\<close>

definition rdma_interface_between :: "'g rx_ops \<Rightarrow> 'g topology \<Rightarrow> node_id \<Rightarrow> node_id \<Rightarrow> string option" where
  "rdma_interface_between rx t node_i node_j =
     map_option source_rdma_iface (find is_rdma (get_all_connections_between rx node_i node_j t))"

definition get_mlx_jaccl_devices_matrix :: "'g rx_ops \<Rightarrow> node_id list \<Rightarrow> 'g topology \<Rightarrow> py_error + string option list list" where
  "get_mlx_jaccl_devices_matrix rx cycle t =
     collect_results (map (\<lambda>i. collect_results (map (\<lambda>j.
        if i = j then Inr None
        else case rdma_interface_between rx t (cycle ! i) (cycle ! j) of
               None \<Rightarrow> Inl ValueError
             | Some iface \<Rightarrow> Inr (Some iface)) [0..<length cycle])) [0..<length cycle])"

text \<open>Decimal digits of a port number.\<close>

fun nat_digits :: "nat \<Rightarrow> string" where
  "nat_digits n = (if n < 10 then [char_of (48 + n)] else nat_digits (n div 10) @ [char_of (48 + n mod 10)])"

declare nat_digits.simps [simp del]

definition endpoint :: "string \<Rightarrow> nat \<Rightarrow> string" where
  "endpoint ip p = ip @ '':'' @ nat_digits p"

definition get_mlx_jaccl_coordinators ::
  "'g rx_ops \<Rightarrow> node_id \<Rightarrow> nat \<Rightarrow> 'g topology \<Rightarrow> network_map \<Rightarrow> py_error + (node_id, string) dict" where
  "get_mlx_jaccl_coordinators rx coordinator coordinator_port t network =
     (case collect_results (map (\<lambda>n.
             if n = coordinator then Inr (n, endpoint ''0.0.0.0'' coordinator_port)
             else case find_ip_prioritised rx n coordinator t network False False of
                    Inl e \<Rightarrow> Inl e
                  | Inr None \<Rightarrow> Inl ValueError
                  | Inr (Some ip) \<Rightarrow> Inr (n, endpoint ip coordinator_port)) (list_nodes rx t)) of
        Inl e \<Rightarrow> Inl e
      | Inr pairs \<Rightarrow> Inr (dict_of_pairs pairs))"

definition get_llama_rpc_donor_endpoints ::
  "'g rx_ops \<Rightarrow> node_id list \<Rightarrow> node_id \<Rightarrow> 'g topology \<Rightarrow> network_map \<Rightarrow> (node_id, nat) dict \<Rightarrow> py_error + (node_id, string) dict" where
  "get_llama_rpc_donor_endpoints rx cycle driver t network donor_ports =
     (case collect_results (map (\<lambda>n.
             case find_ip_prioritised rx driver n t network True True of
               Inl e \<Rightarrow> Inl e
             | Inr None \<Rightarrow> Inl ValueError
             | Inr (Some ip) \<Rightarrow> (case dict_get donor_ports n of None \<Rightarrow> Inl KeyError | Some p \<Rightarrow> Inr (n, endpoint ip p)))
           (filter (\<lambda>n. n \<noteq> driver) cycle)) of
        Inl e \<Rightarrow> Inl e
      | Inr pairs \<Rightarrow> Inr (dict_of_pairs pairs))"

section \<open>The overlay network is a last resort\<close>

lemma fold_min:
  fixes key :: "'a \<Rightarrow> nat"
  defines "f \<equiv> foldl (\<lambda>b x. if key x < key b then x else b)"
  shows "f b ys \<in> insert b (set ys)" "x \<in> insert b (set ys) \<Longrightarrow> key (f b ys) \<le> key x"
proof -
  show "f b ys \<in> insert b (set ys)" unfolding f_def
  proof (induction ys arbitrary: b)
    case (Cons y ys)
    show ?case using Cons.IH [of "if key y < key b then y else b"] by (cases "key y < key b") auto
  qed simp
  have "key (f b ys) \<le> key b \<and> (\<forall>x \<in> set ys. key (f b ys) \<le> key x)" unfolding f_def
  proof (induction ys arbitrary: b)
    case (Cons y ys)
    show ?case using Cons.IH [of "if key y < key b then y else b"] by (cases "key y < key b") auto
  qed simp
  then show "x \<in> insert b (set ys) \<Longrightarrow> key (f b ys) \<le> key x" by auto
qed

lemma min_key_spec:
  assumes "xs \<noteq> []"
  shows "min_key key xs \<in> set xs" "x \<in> set xs \<Longrightarrow> key (min_key key xs) \<le> key x"
proof -
  obtain b ys where "xs = b # ys" using assms by (cases xs) auto
  then show "min_key key xs \<in> set xs" "x \<in> set xs \<Longrightarrow> key (min_key key xs) \<le> key x"
    using fold_min [where key = key and b = b and ys = ys] by (simp_all add: min_key_def)
qed

lemma rank_below_vpn:
  assumes "\<not> is_vpn_address ip" "\<forall>i \<in> set ifaces. iface_type i \<noteq> ''vpn''" "priority \<in> {RING_TRANSPORT_PRIORITY, JACCL_TRANSPORT_PRIORITY}"
  shows "transport_rank priority ifaces ip < 5"
proof -
  let ?d = "dict_of_pairs (map (\<lambda>i. (iface_ip_address i, iface_type i)) ifaces)"
  have "v \<noteq> ''vpn''" if "(k, v) \<in> set (foldl (\<lambda>d (k, v). dict_set k v d) d ps)" "\<forall>(k, v) \<in> set d. v \<noteq> ''vpn''" "\<forall>(k, v) \<in> set ps. v \<noteq> ''vpn''" for k v d ps
    using that
  proof (induction ps arbitrary: d)
    case (Cons p ps)
    have "\<forall>(k, v) \<in> set (dict_set (fst p) (snd p) d). v \<noteq> ''vpn''" using Cons.prems(2,3) set_dict_set_subset [of "fst p" "snd p" d] by fastforce
    then show ?case using Cons.IH [of "dict_set (fst p) (snd p) d"] Cons.prems by (cases p) auto
  qed auto
  then have "dict_get ?d ip \<noteq> Some ''vpn''" using assms(2) map_of_SomeD [of ?d ip] by (fastforce simp: dict_of_pairs_def)
  then have "dict_default ''unknown'' ?d ip \<noteq> ''vpn''" by (auto simp: dict_default_def split: option.split)
  then show ?thesis using assms(1,3)
    by (auto simp: transport_rank_def Let_def RING_TRANSPORT_PRIORITY_def JACCL_TRANSPORT_PRIORITY_def dict_default_def split: option.splits if_splits)
qed

text \<open>An overlay address is the last resort.  The chosen address is one of the observed candidates, no candidate
  ranks before it, and it is an address of the overlay network only when every candidate is.  No address is chosen
  only when there is no candidate.\<close>

theorem overlay_is_last_resort:
  assumes "find_connection_ip rx node other t = Inr found"
    "\<forall>i \<in> set (dict_default [] network other). iface_type i \<noteq> ''vpn''"
  shows "case find_ip_prioritised rx node other t network ring require_routable of
      Inl e \<Rightarrow> False
    | Inr None \<Rightarrow> filter (\<lambda>ip. require_routable \<longrightarrow> is_routable_rpc_donor_address ip) found = []
    | Inr (Some ip) \<Rightarrow> ip \<in> set found \<and> (require_routable \<longrightarrow> is_routable_rpc_donor_address ip) \<and>
        (is_vpn_address ip \<longrightarrow> list_all is_vpn_address (filter (\<lambda>ip. require_routable \<longrightarrow> is_routable_rpc_donor_address ip) found))"
proof -
  let ?ips = "filter (\<lambda>ip. require_routable \<longrightarrow> is_routable_rpc_donor_address ip) found"
  let ?P = "if ring then RING_TRANSPORT_PRIORITY else JACCL_TRANSPORT_PRIORITY"
  let ?key = "transport_rank ?P (dict_default [] network other)"
  have run: "find_ip_prioritised rx node other t network ring require_routable = Inr (if ?ips = [] then None else Some (min_key ?key ?ips))"
    using assms(1) by (cases require_routable) (simp_all add: find_ip_prioritised_def Let_def)
  have "list_all is_vpn_address ?ips" if ne: "?ips \<noteq> []" and vpn: "is_vpn_address (min_key ?key ?ips)"
    unfolding list_all_iff
  proof (rule ballI, rule ccontr)
    fix ip assume ip: "ip \<in> set ?ips" "\<not> is_vpn_address ip"
    have "?key ip < 5" using rank_below_vpn [OF ip(2) assms(2)] by auto
    moreover have "?key (min_key ?key ?ips) = 5" using vpn by (simp add: transport_rank_def RING_TRANSPORT_PRIORITY_def JACCL_TRANSPORT_PRIORITY_def)
    ultimately show False using min_key_spec(2) [OF ne ip(1), of ?key] by simp
  qed
  then show ?thesis using run min_key_spec(1) [of ?ips ?key] by auto
qed

definition link_pair :: "list_graph topology" where
  "link_pair =
     (let link = (\<lambda>x y ip. \<lparr>conn_source = x, conn_sink = y, conn_edge = SocketConnection \<lparr>address = ''/ip4/'' @ ip @ ''/tcp/4001''\<rparr> False\<rparr>)
      in foldl (\<lambda>t c. add_connection list_rx c t) (new_topology list_rx)
           [link ''a'' ''b'' ''100.100.0.2'', link ''a'' ''b'' ''192.168.0.2'', link ''b'' ''a'' ''192.168.0.1''])"

lemma link_pair_vpn: "is_vpn_address ''100.100.0.2''" "\<not> is_vpn_address ''192.168.0.2''" "\<not> is_vpn_address ''192.168.0.1''"
  by (simp_all add: is_vpn_address_def py_ip_address_def parse_ipv4_def parse_octet_def parse_base_def decimal_digit_def)

lemma link_pair_found:
  "find_connection_ip list_rx ''a'' ''b'' link_pair = Inr [''100.100.0.2'', ''192.168.0.2'']"
  "find_connection_ip list_rx ''b'' ''a'' link_pair = Inr [''192.168.0.1'']"
  by code_simp+

theorem overlay_is_last_resort_witness:
  "find_connection_ip list_rx ''a'' ''b'' link_pair = Inr [''100.100.0.2'', ''192.168.0.2''] \<and> is_vpn_address ''100.100.0.2'' \<and>
   (\<exists>ip. find_ip_prioritised list_rx ''a'' ''b'' link_pair [] True False = Inr (Some ip) \<and> \<not> is_vpn_address ip)"
  using overlay_is_last_resort [OF link_pair_found(1), where network = "[]" and ring = True and require_routable = False]
    link_pair_found(1) link_pair_vpn by (auto simp: dict_default_def split: sum.splits option.splits)

section \<open>Rings close\<close>

lemma collect_results_Inr: "collect_results rs = Inr xs \<longleftrightarrow> rs = map Inr xs"
proof (induction rs arbitrary: xs)
  case (Cons r rs)
  show ?case
  proof (cases r)
    case (Inr x)
    then show ?thesis using Cons.IH by (cases xs; cases "collect_results rs") auto
  qed auto
qed auto

lemma collect_results_Inl: "collect_results rs = Inl e \<Longrightarrow> Inl e \<in> set rs"
  by (induction rs) (auto split: sum.splits)

definition ring_neighbour :: "nat \<Rightarrow> nat \<Rightarrow> nat \<Rightarrow> bool" where
  "ring_neighbour ws rank k \<longleftrightarrow> k \<noteq> rank \<and> (k = (rank + ws - 1) mod ws \<or> k = (rank + 1) mod ws)"

lemma ring_host_cases:
  "ring_host rx cycle t lport network rank k = Inr h \<Longrightarrow>
     if k = rank then h = \<lparr>host_ip = ''0.0.0.0'', host_port = lport\<rparr>
     else if ring_neighbour (length cycle) rank k
     then host_port h = lport \<and> find_ip_prioritised rx (cycle ! rank) (cycle ! k) t network True False = Inr (Some (host_ip h))
     else h = \<lparr>host_ip = ''198.51.100.1'', host_port = 0\<rparr>"
  by (auto simp: ring_host_def ring_neighbour_def Let_def split: sum.splits option.splits if_splits)

text \<open>The host lists of a ring.  On success every member of the cycle has a list with one entry per rank: its own
  entry is the wildcard address at the shared port, both neighbours appear under the address chosen for dialling them
  and all other ranks under an unroutable placeholder.  The only failure is a neighbour that cannot be dialled.\<close>

theorem ring_hosts_close:
  assumes "distinct cycle"
  shows "case get_mlx_ring_hosts_by_node rx cycle t lport network of
      Inl e \<Rightarrow> \<exists>rank k. rank < length cycle \<and> k < length cycle \<and> ring_neighbour (length cycle) rank k \<and>
        (\<forall>ip. find_ip_prioritised rx (cycle ! rank) (cycle ! k) t network True False \<noteq> Inr (Some ip))
    | Inr hosts \<Rightarrow> dict_keys hosts = cycle \<and> (\<forall>rank < length cycle. \<exists>row. dict_get hosts (cycle ! rank) = Some row \<and>
        length row = length cycle \<and> (\<forall>k < length cycle.
          if k = rank then row ! k = \<lparr>host_ip = ''0.0.0.0'', host_port = lport\<rparr>
          else if ring_neighbour (length cycle) rank k
          then host_port (row ! k) = lport \<and>
            find_ip_prioritised rx (cycle ! rank) (cycle ! k) t network True False = Inr (Some (host_ip (row ! k)))
          else row ! k = \<lparr>host_ip = ''198.51.100.1'', host_port = 0\<rparr>))"
proof -
  let ?n = "length cycle"
  let ?row = "\<lambda>rank. collect_results (map (ring_host rx cycle t lport network rank) [0..<?n])"
  show ?thesis
  proof (cases "collect_results (map ?row [0..<?n])")
    case (Inl e)
    then obtain rank where rank: "rank < ?n" "?row rank = Inl e" using collect_results_Inl [OF Inl] by auto
    then obtain k where k: "k < ?n" "ring_host rx cycle t lport network rank k = Inl e" using collect_results_Inl [OF rank(2)] by auto
    have "ring_neighbour ?n rank k" "\<forall>ip. find_ip_prioritised rx (cycle ! rank) (cycle ! k) t network True False \<noteq> Inr (Some ip)"
      using k(2) by (auto simp: ring_host_def ring_neighbour_def Let_def split: if_splits)
    then show ?thesis using rank(1) k(1) Inl by (auto simp: get_mlx_ring_hosts_by_node_def)
  next
    case (Inr rows)
    then have rows: "map ?row [0..<?n] = map Inr rows" by (simp add: collect_results_Inr)
    have len: "length rows = ?n" using arg_cong [OF rows, of length] by simp
    have row: "map (ring_host rx cycle t lport network rank) [0..<?n] = map Inr (rows ! rank)" if "rank < ?n" for rank
      using that len arg_cong [OF rows, of "\<lambda>xs. xs ! rank"] by (simp add: collect_results_Inr)
    have keys: "map fst (zip cycle rows) = cycle" using len by simp
    have hosts: "get_mlx_ring_hosts_by_node rx cycle t lport network = Inr (zip cycle rows)"
      using Inr assms keys by (simp add: get_mlx_ring_hosts_by_node_def dict_of_pairs_distinct)
    have "\<exists>r. dict_get (zip cycle rows) (cycle ! rank) = Some r \<and> length r = ?n \<and> (\<forall>k < ?n.
          if k = rank then r ! k = \<lparr>host_ip = ''0.0.0.0'', host_port = lport\<rparr>
          else if ring_neighbour ?n rank k
          then host_port (r ! k) = lport \<and> find_ip_prioritised rx (cycle ! rank) (cycle ! k) t network True False = Inr (Some (host_ip (r ! k)))
          else r ! k = \<lparr>host_ip = ''198.51.100.1'', host_port = 0\<rparr>)" if rank: "rank < ?n" for rank
    proof -
      have "dict_get (zip cycle rows) (cycle ! rank) = Some (rows ! rank)" using map_of_zip_nth [of cycle rows rank] len assms rank by simp
      moreover have "length (rows ! rank) = ?n" using arg_cong [OF row [OF rank], of length] by simp
      moreover have "ring_host rx cycle t lport network rank k = Inr (rows ! rank ! k)" if "k < ?n" for k
        using arg_cong [OF row [OF rank], of "\<lambda>xs. xs ! k"] that calculation(2) by simp
      ultimately show ?thesis using ring_host_cases [of rx cycle t lport network rank] by (intro exI [of _ "rows ! rank"]) blast
    qed
    then show ?thesis using hosts keys by simp
  qed
qed

theorem ring_hosts_close_witness:
  "\<exists>hosts. get_mlx_ring_hosts_by_node list_rx [''a'', ''b''] link_pair 24000 [] = Inr hosts \<and> dict_keys hosts = [''a'', ''b'']"
proof -
  have dial: "find_ip_prioritised list_rx ''a'' ''b'' link_pair [] True False = Inr (Some ''192.168.0.2'')"
      "find_ip_prioritised list_rx ''b'' ''a'' link_pair [] True False = Inr (Some ''192.168.0.1'')"
    by (simp_all add: find_ip_prioritised_def link_pair_found min_key_def transport_rank_def link_pair_vpn dict_default_def
        RING_TRANSPORT_PRIORITY_def dict_of_pairs_def)
  have run: "\<exists>hosts. get_mlx_ring_hosts_by_node list_rx [''a'', ''b''] link_pair 24000 [] = Inr hosts"
    by (simp add: get_mlx_ring_hosts_by_node_def ring_host_def dial Let_def)
  have "distinct [''a'', ''b'']" by simp
  then show ?thesis
    using ring_hosts_close [of "[''a'', ''b'']" list_rx link_pair "[]" 24000] run by auto
qed

end
