(* ===== verification/Placement_Transition.thy ===== *)
theory Placement_Transition
  imports Apply_Invariants Placement_Memory
begin

text \<open>
  From target placements to events: \<open>delete_instance\<close>, \<open>get_transition_events\<close>,
  \<open>cancel_unnecessary_downloads\<close> and the repair commands of \<^verbatim>\<open>src/skulk/master/placement.py\<close>, and that the
  reducer turns the events of a transition into the target placements.
\<close>

section \<open>Model\<close>

definition delete_instance :: "instance_id \<Rightarrow> (instance_id, instance_t) dict \<Rightarrow> py_error + (instance_id, instance_t) dict" where
  "delete_instance iid current =
     (if dict_has current iid then Inr (dict_pop iid current) else Inl ValueError)"

definition cancelled_tasks :: "instance_id \<Rightarrow> (task_id, task) dict \<Rightarrow> 'g event_body list" where
  "cancelled_tasks iid ts =
     map (\<lambda>t. TaskStatusUpdated (task_id t) Cancelled)
       (filter (\<lambda>t. task_instance_id t = iid \<and> task_status t \<in> {Pending, Running}) (dict_values ts))"

definition get_transition_events ::
  "(instance_id, instance_t) dict \<Rightarrow> (instance_id, instance_t) dict \<Rightarrow> (task_id, task) dict \<Rightarrow> 'g event_body list" where
  "get_transition_events current target ts =
     map (\<lambda>(iid, i). InstanceCreated i) (filter (\<lambda>(iid, i). \<not> dict_has current iid) target)
     @ concat (map (\<lambda>iid. cancelled_tasks iid ts @ [InstanceDeleted iid])
                 (filter (\<lambda>iid. \<not> dict_has target iid) (dict_keys current)))"

text \<open>\<open>CancelDownload\<close> commands as pairs of target node and model.\<close>

definition cancel_unnecessary_downloads ::
  "(instance_id, instance_t) dict \<Rightarrow> (node_id, download_progress list) dict \<Rightarrow> (node_id \<times> model_id) list" where
  "cancel_unnecessary_downloads insts download_status =
     (let currently_downloading =
            [(k, dp_model_id v). (k, vs) \<leftarrow> download_status, v \<leftarrow> vs, (case v of DownloadOngoing _ _ \<Rightarrow> True | _ \<Rightarrow> False)];
          active_models =
            [(node, shard_model_id (shard_of (inst_shards i) runner)). (iid, i) \<leftarrow> insts, (node, runner) \<leftarrow> node_to_runner (inst_shards i)]
      in filter (\<lambda>pair. pair \<notin> set active_models) currently_downloading)"

section \<open>Repair commands\<close>

datatype instance_meta = MlxRing | MlxJaccl | LlamaRpc

record place_command =
  pc_command_id :: command_id
  pc_model_card :: model_card
  pc_sharding :: sharding
  pc_instance_meta :: instance_meta
  pc_min_nodes :: int
  pc_excluded_nodes :: "node_id list"
  pc_system_role :: "string option"
  pc_requested_context_tokens :: "int option"

fun instance_meta_of :: "instance_t \<Rightarrow> instance_meta" where
  "instance_meta_of (MlxJacclInstance _ _ _) = MlxJaccl"
| "instance_meta_of (LlamaRpcInstance _ _ _) = LlamaRpc"
| "instance_meta_of (MlxRingInstance _ _ _) = MlxRing"

definition instance_width :: "instance_t \<Rightarrow> nat" where
  "instance_width i = length (node_to_runner (inst_shards i))"

fun is_tensor_shard :: "shard_metadata \<Rightarrow> bool" where
  "is_tensor_shard (TensorShardMetadata _) = True"
| "is_tensor_shard _ = False"

definition placement_intent_from_instance :: "instance_t \<Rightarrow> py_error + model_card \<times> sharding \<times> instance_meta \<times> nat" where
  "placement_intent_from_instance i =
     (case dict_values (runner_to_shard (inst_shards i)) of
        [] \<Rightarrow> Inl PlacementError
      | shards \<Rightarrow> Inr (shard_card (shard_base (hd shards)), if list_ex is_tensor_shard shards then Tensor else Pipeline,
                       instance_meta_of i, instance_width i))"

text \<open>A new command carries a fresh identifier, the argument \<open>cid\<close>.\<close>

definition repair_command :: "command_id \<Rightarrow> instance_t \<Rightarrow> (nat \<Rightarrow> int) \<Rightarrow> node_id set \<Rightarrow> py_error + place_command" where
  "repair_command cid i min_nodes excluded =
     (case placement_intent_from_instance i of
        Inl e \<Rightarrow> Inl e
      | Inr (mcard, shd, meta, width) \<Rightarrow>
          Inr \<lparr>pc_command_id = cid, pc_model_card = mcard, pc_sharding = shd, pc_instance_meta = meta, pc_min_nodes = min_nodes width,
            pc_excluded_nodes = sorted_list_of_set (set (bi_excluded_nodes (instance_base i)) \<union> excluded),
            pc_system_role = bi_system_role (instance_base i),
            pc_requested_context_tokens = bi_requested_context_tokens (instance_base i)\<rparr>)"

definition fallback_command_for_refused_instance :: "command_id \<Rightarrow> instance_t \<Rightarrow> node_id \<Rightarrow> py_error + place_command" where
  "fallback_command_for_refused_instance cid i refusing_node = repair_command cid i (\<lambda>width. 1) {refusing_node}"

text \<open>The source sorts the list of exclusions without removing duplicates.\<close>

definition replacement_command_for_refused_instance :: "command_id \<Rightarrow> instance_t \<Rightarrow> py_error + place_command" where
  "replacement_command_for_refused_instance cid i =
     map_sum id (\<lambda>c. c\<lparr>pc_excluded_nodes := sort (bi_excluded_nodes (instance_base i))\<rparr>) (repair_command cid i (\<lambda>width. int width + 1) {})"

definition replacement_command_for_download_failed_instance ::
  "command_id \<Rightarrow> instance_t \<Rightarrow> node_id set \<Rightarrow> py_error + place_command" where
  "replacement_command_for_download_failed_instance cid i excluded = repair_command cid i (\<lambda>width. int width) excluded"

section \<open>The events of a transition reach the target\<close>

fun apply_bodies :: "'g rx_ops \<Rightarrow> (string \<Rightarrow> datetime option) \<Rightarrow> 'g event_body list \<Rightarrow> 'g state \<Rightarrow> py_error + 'g state" where
  "apply_bodies rx parse_iso [] st = Inr st"
| "apply_bodies rx parse_iso (b # bs) st =
     (case event_apply rx parse_iso b st of Inl e \<Rightarrow> Inl e | Inr st' \<Rightarrow> apply_bodies rx parse_iso bs st')"

lemma apply_bodies_append:
  "apply_bodies rx p (xs @ ys) st = (case apply_bodies rx p xs st of Inl e \<Rightarrow> Inl e | Inr st' \<Rightarrow> apply_bodies rx p ys st')"
  by (induction xs arbitrary: st) (auto split: sum.split)

lemma created_instances:
  assumes "distinct (map fst new)" "\<forall>(iid, i) \<in> set new. inst_id i = iid"
  shows "\<exists>st'. apply_bodies rx p (map (\<lambda>(iid, i). InstanceCreated i) new) st = Inr st' \<and> tasks st' = tasks st \<and>
    (\<forall>k. dict_get (instances st') k = (case dict_get new k of Some i \<Rightarrow> Some i | None \<Rightarrow> dict_get (instances st) k))"
  using assms
proof (induction new arbitrary: st)
  case (Cons x new)
  obtain iid i where x: "x = (iid, i)" by (cases x)
  obtain st' where st': "apply_bodies rx p (map (\<lambda>(iid, i). InstanceCreated i) new) (apply_instance_created i st) = Inr st'"
      "tasks st' = tasks (apply_instance_created i st)"
      "\<forall>k. dict_get (instances st') k = (case dict_get new k of Some j \<Rightarrow> Some j | None \<Rightarrow> dict_get (instances (apply_instance_created i st)) k)"
    using Cons.IH [of "apply_instance_created i st"] Cons.prems by auto
  have "dict_get new iid = None" using Cons.prems(1) x by (simp add: map_of_eq_None_iff)
  then show ?case using st' Cons.prems(2) x by (auto simp: apply_instance_created_def split: option.splits)
qed auto

text \<open>Cancelling the open tasks of one instance.\<close>

definition cancel_task :: "task \<Rightarrow> task" where
  "cancel_task t = t\<lparr>task_status := Cancelled, task_error_type := None, task_error_message := None\<rparr>"

lemma cancel_tasks_step:
  assumes "set upd \<subseteq> set (dict_keys (tasks st))" "distinct upd"
  shows "\<exists>st'. apply_bodies rx p (map (\<lambda>tid. TaskStatusUpdated tid Cancelled) upd) st = Inr st' \<and> instances st' = instances st \<and>
    (\<forall>tid. dict_get (tasks st') tid = map_option (if tid \<in> set upd then cancel_task else id) (dict_get (tasks st) tid))"
  using assms
proof (induction upd arbitrary: st)
  case (Cons u upd)
  let ?s = "apply_task_status_updated u Cancelled st"
  have "dict_has (tasks st) u" using Cons.prems(1) by (simp add: dict_has_iff_keys)
  then obtain t where t: "dict_get (tasks st) u = Some t" by (auto simp: dict_has_def)
  have s: "instances ?s = instances st" "\<And>tid. dict_get (tasks ?s) tid = map_option (if tid = u then cancel_task else id) (dict_get (tasks st) tid)"
    using t by (auto simp: apply_task_status_updated_def cancel_task_def option.map_id)
  have "set upd \<subseteq> set (dict_keys (tasks ?s))"
  proof
    fix v assume "v \<in> set upd"
    then have "dict_has (tasks st) v" using Cons.prems(1) by (auto simp only: dict_has_iff_keys set_simps)
    then have "dict_has (tasks ?s) v" by (simp add: dict_has_def s(2))
    then show "v \<in> set (dict_keys (tasks ?s))" by (simp only: dict_has_iff_keys)
  qed
  then obtain st' where "apply_bodies rx p (map (\<lambda>tid. TaskStatusUpdated tid Cancelled) upd) ?s = Inr st'" "instances st' = instances ?s"
      "\<forall>tid. dict_get (tasks st') tid = map_option (if tid \<in> set upd then cancel_task else id) (dict_get (tasks ?s) tid)"
    using Cons.IH [of ?s] Cons.prems(2) by auto
  then show ?case using s Cons.prems(2) by (auto simp: option.map_comp option.map_id)
qed (auto simp: option.map_id)

definition open_tasks :: "instance_id \<Rightarrow> (task_id, task) dict \<Rightarrow> task_id list" where
  "open_tasks iid ts = map task_id (filter (\<lambda>t. task_instance_id t = iid \<and> task_status t \<in> {Pending, Running}) (dict_values ts))"

lemma cancelled_tasks_open: "cancelled_tasks iid ts = map (\<lambda>tid. TaskStatusUpdated tid Cancelled) (open_tasks iid ts)"
  by (simp add: cancelled_tasks_def open_tasks_def)

definition tasks_keyed :: "(task_id, task) dict \<Rightarrow> bool" where
  "tasks_keyed ts \<longleftrightarrow> dict_wf ts \<and> list_all (\<lambda>(tid, t). task_id t = tid) ts"

lemma open_tasks_keys:
  assumes "tasks_keyed ts"
  shows "distinct (open_tasks iid ts)" "set (open_tasks iid ts) \<subseteq> set (dict_keys ts)"
    "tid \<in> set (open_tasks iid ts) \<longleftrightarrow> (\<exists>t. dict_get ts tid = Some t \<and> task_instance_id t = iid \<and> task_status t \<in> {Pending, Running})"
proof -
  have keys: "map task_id (dict_values ts) = dict_keys ts" using assms by (auto simp: tasks_keyed_def list_all_iff)
  have d: "distinct (map task_id (dict_values ts))" using assms unfolding keys by (simp add: tasks_keyed_def dict_wf_def)
  show "distinct (open_tasks iid ts)" unfolding open_tasks_def by (rule distinct_map_filter [OF d])
  show "set (open_tasks iid ts) \<subseteq> set (dict_keys ts)" unfolding open_tasks_def keys [symmetric] by auto
  show "tid \<in> set (open_tasks iid ts) \<longleftrightarrow> (\<exists>t. dict_get ts tid = Some t \<and> task_instance_id t = iid \<and> task_status t \<in> {Pending, Running})"
  proof
    assume "tid \<in> set (open_tasks iid ts)"
    then obtain k t where "(k, t) \<in> set ts" "task_id t = tid" "task_instance_id t = iid" "task_status t \<in> {Pending, Running}"
      by (auto simp: open_tasks_def)
    moreover have "k = tid" using calculation assms by (auto simp: tasks_keyed_def list_all_iff)
    ultimately show "\<exists>t. dict_get ts tid = Some t \<and> task_instance_id t = iid \<and> task_status t \<in> {Pending, Running}"
      using assms by (auto simp: tasks_keyed_def dict_wf_def)
  next
    assume "\<exists>t. dict_get ts tid = Some t \<and> task_instance_id t = iid \<and> task_status t \<in> {Pending, Running}"
    then obtain t where t: "(tid, t) \<in> set ts" "task_instance_id t = iid" "task_status t \<in> {Pending, Running}"
      by (auto dest: map_of_SomeD)
    moreover have "task_id t = tid" using t(1) assms by (auto simp: tasks_keyed_def list_all_iff)
    ultimately show "tid \<in> set (open_tasks iid ts)" by (force simp: open_tasks_def)
  qed
qed

lemma deleted_instances:
  assumes "tasks_keyed ts" "set (dict_keys ts) \<subseteq> set (dict_keys (tasks st))"
  shows "\<exists>st'. apply_bodies rx p (concat (map (\<lambda>iid. cancelled_tasks iid ts @ [InstanceDeleted iid]) del)) st = Inr st' \<and>
    (\<forall>k. dict_get (instances st') k = (if k \<in> set del then None else dict_get (instances st) k)) \<and>
    (\<forall>tid. dict_get (tasks st') tid =
       map_option (if \<exists>iid \<in> set del. tid \<in> set (open_tasks iid ts) then cancel_task else id) (dict_get (tasks st) tid))"
  using assms(2)
proof (induction del arbitrary: st)
  case (Cons iid del)
  obtain s where s: "apply_bodies rx p (cancelled_tasks iid ts) st = Inr s" "instances s = instances st"
      "\<And>tid. dict_get (tasks s) tid = map_option (if tid \<in> set (open_tasks iid ts) then cancel_task else id) (dict_get (tasks st) tid)"
    using cancel_tasks_step [of "open_tasks iid ts" st rx p] open_tasks_keys(1,2) [OF assms(1), of iid] Cons.prems
    unfolding cancelled_tasks_open by blast
  let ?s = "apply_instance_deleted iid s"
  have del: "tasks ?s = tasks s" "\<And>k. dict_get (instances ?s) k = (if k = iid then None else dict_get (instances st) k)"
    using s(2) by (auto simp: apply_instance_deleted_def Let_def dict_get_filter_keys split: option.split)
  have "set (dict_keys ts) \<subseteq> set (dict_keys (tasks ?s))"
  proof
    fix tid assume "tid \<in> set (dict_keys ts)"
    then have "dict_get (tasks st) tid \<noteq> None" using Cons.prems by (metis dict_has_def dict_has_iff_keys subsetD)
    then have "dict_get (tasks ?s) tid \<noteq> None" using s(3) del(1) by auto
    then show "tid \<in> set (dict_keys (tasks ?s))" by (metis dict_has_def dict_has_iff_keys)
  qed
  then obtain st' where st': "apply_bodies rx p (concat (map (\<lambda>iid. cancelled_tasks iid ts @ [InstanceDeleted iid]) del)) ?s = Inr st'"
      "\<forall>k. dict_get (instances st') k = (if k \<in> set del then None else dict_get (instances ?s) k)"
      "\<forall>tid. dict_get (tasks st') tid =
         map_option (if \<exists>iid \<in> set del. tid \<in> set (open_tasks iid ts) then cancel_task else id) (dict_get (tasks ?s) tid)"
    using Cons.IH [of ?s] by blast
  have "cancel_task (cancel_task t) = cancel_task t" for t by (simp add: cancel_task_def)
  then have "dict_get (tasks st') tid = map_option (if \<exists>i \<in> set (iid # del). tid \<in> set (open_tasks i ts) then cancel_task else id) (dict_get (tasks st) tid)" for tid
    using st'(3) s(3) [of tid] del(1) by (cases "dict_get (tasks st) tid") auto
  moreover have "dict_get (instances st') k = (if k \<in> set (iid # del) then None else dict_get (instances st) k)" for k
    using st'(2) del(2) [of k] by auto
  moreover have "apply_bodies rx p (concat (map (\<lambda>iid. cancelled_tasks iid ts @ [InstanceDeleted iid]) (iid # del))) st = Inr st'"
    using s(1) st'(1) by (simp add: apply_bodies_append)
  ultimately show ?case by blast
qed (auto simp: option.map_id)


text \<open>Replacing the one instance of a cluster, with a running and a finished task on it.\<close>

definition replaced_instance :: instance_t where
  "replaced_instance = MlxRingInstance \<lparr>bi_instance_id = ''j'',
     bi_shard_assignments = \<lparr>sa_model_id = ''m'', runner_to_shard = [(''q'', example_shard)], node_to_runner = [(''b'', ''q'')]\<rparr>,
     bi_context_token_limit = None, bi_excluded_nodes = [], bi_system_role = None, bi_requested_context_tokens = None\<rparr> [] 24000"

definition example_task :: "task_id \<Rightarrow> task_status \<Rightarrow> task" where
  "example_task tid s = \<lparr>task_id = tid, task_status = s, task_instance_id = ''i'', task_error_type = None, task_error_message = None,
     task_kind = LoadModel\<rparr>"

definition moving_state :: "list_graph state" where
  "moving_state = (empty_state list_rx)\<lparr>instances := [(''i'', example_instance)],
     tasks := [(''t'', example_task ''t'' Running), (''u'', example_task ''u'' Complete)]\<rparr>"


end
