(* ===== verification/Placement_Search.thy ===== *)
theory Placement_Search
  imports Backends Cycle_Filter Placement_Hosts Placement_Transition
begin

text \<open>
  The candidate search of \<open>place_instance\<close> in \<^verbatim>\<open>src/skulk/master/placement.py\<close>: the filters over the cycles of the
  topology, memory admission and the choice among the admitted cycles.  The registry and the capability profiles of
  model cards, which \<open>_card_platform_backends\<close> consults, are the parameter \<open>env\<close>.
\<close>

section \<open>Helpers\<close>

definition bind_result :: "'e + 'a \<Rightarrow> ('a \<Rightarrow> 'e + 'b) \<Rightarrow> 'e + 'b" where
  "bind_result r f = (case r of Inl e \<Rightarrow> Inl e | Inr x \<Rightarrow> f x)"

lemma bind_result_Inr [simp]: "bind_result r f = Inr y \<longleftrightarrow> (\<exists>x. r = Inr x \<and> f x = Inr y)"
  by (cases r) (simp_all add: bind_result_def)

lemma bind_result_simps: "bind_result (Inl e) f = Inl e" "bind_result (Inr x) f = f x"
  by (simp_all add: bind_result_def)

text \<open>\<open>if not xs: raise e\<close>\<close>

definition nonempty_or :: "'e \<Rightarrow> 'a list \<Rightarrow> 'e + 'a list" where
  "nonempty_or e xs = (if xs = [] then Inl e else Inr xs)"

lemma nonempty_or_Inr [simp]: "nonempty_or e xs = Inr ys \<longleftrightarrow> xs \<noteq> [] \<and> ys = xs"
  by (auto simp: nonempty_or_def)

text \<open>\<open>max(xs, key=key)\<close>: the first of the greatest.\<close>

definition max_key :: "('a \<Rightarrow> 'k :: linorder) \<Rightarrow> 'a list \<Rightarrow> 'a" where
  "max_key key xs = foldl (\<lambda>b x. if key b < key x then x else b) (hd xs) (tl xs)"

text \<open>\<open>sum\<close> over floats compensates rounding errors (Neumaier's algorithm, since Python 3.12).\<close>

fun compensated_sum :: "(rat \<Rightarrow> rat) \<Rightarrow> rat \<Rightarrow> rat \<Rightarrow> rat list \<Rightarrow> rat" where
  "compensated_sum fl s c [] = (if c = 0 then s else fl (s + c))"
| "compensated_sum fl s c (x # xs) =
     (let t = fl (s + x)
      in compensated_sum fl t (fl (c + (if \<bar>x\<bar> \<le> \<bar>s\<bar> then fl (fl (s - t) + x) else fl (fl (x - t) + s)))) xs)"

definition float_sum :: "(rat \<Rightarrow> rat) \<Rightarrow> rat list \<Rightarrow> rat" where
  "float_sum fl xs = (case xs of [] \<Rightarrow> 0 | x # rest \<Rightarrow> compensated_sum fl x 0 rest)"

section \<open>Scores\<close>

fun progress_fraction :: "(rat \<Rightarrow> rat) \<Rightarrow> download_progress \<Rightarrow> rat" where
  "progress_fraction fl (DownloadCompleted _ _ _) = 1"
| "progress_fraction fl (DownloadOngoing _ d) = (if data_total d > 0 then fl (of_int (data_downloaded d) / of_int (data_total d)) else 0)"
| "progress_fraction fl (DownloadPending _ downloaded tot) = (if tot > 0 then fl (of_int downloaded / of_int tot) else 0)"
| "progress_fraction fl (DownloadFailed _ _) = 0"

definition get_node_download_fraction ::
  "(rat \<Rightarrow> rat) \<Rightarrow> node_id \<Rightarrow> model_id \<Rightarrow> (node_id, download_progress list) dict \<Rightarrow> rat" where
  "get_node_download_fraction fl node model download_status =
     (case find (\<lambda>p. dp_model_id p = model) (dict_default [] download_status node) of
        Some p \<Rightarrow> progress_fraction fl p
      | None \<Rightarrow> 0)"

definition cycle_download_score ::
  "(rat \<Rightarrow> rat) \<Rightarrow> node_id list \<Rightarrow> model_id \<Rightarrow> (node_id, download_progress list) dict \<Rightarrow> rat" where
  "cycle_download_score fl cycle model download_status = float_sum fl (map (\<lambda>n. get_node_download_fraction fl n model download_status) cycle)"

definition cycle_engine_ready_score :: "node_id list \<Rightarrow> (node_id, node_resources) dict \<Rightarrow> string list \<Rightarrow> nat" where
  "cycle_engine_ready_score cycle resources compatible =
     (if list_all (\<lambda>n. case dict_get resources n of
           None \<Rightarrow> True
         | Some r \<Rightarrow> list_ex (\<lambda>tag. tag \<notin> set (on_demand_backends r) \<and> tag \<in> set compatible) (backends r)) cycle
      then 1 else 0)"

fun cycle_backend_preference_score :: "node_id list \<Rightarrow> (node_id, node_resources) dict \<Rightarrow> string list \<Rightarrow> nat" where
  "cycle_backend_preference_score cycle resources [] = 0"
| "cycle_backend_preference_score cycle resources (tag # tags) =
     (if list_all (\<lambda>n. case dict_get resources n of None \<Rightarrow> True | Some r \<Rightarrow> tag \<in> set (backends r)) cycle
      then length (tag # tags) else cycle_backend_preference_score cycle resources tags)"

section \<open>Engines of a cycle\<close>

record card_env =
  env_registry_supported :: "model_card \<Rightarrow> node_resources \<Rightarrow> string list"
  env_serves_speech :: "model_card \<Rightarrow> bool"
  env_pinned_projector :: "model_card \<Rightarrow> bool"
  env_tool_calling :: "model_card \<Rightarrow> bool"
  env_vllm_parser :: "model_card \<Rightarrow> string option"
  env_predates_binding :: "model_card \<Rightarrow> bool"

definition card_platform_backends :: "card_env \<Rightarrow> model_card \<Rightarrow> node_resources option \<Rightarrow> string list" where
  "card_platform_backends env mcard resources =
     platform_compatible_backends
       ((if card_music mcard \<noteq> None then [] else compatible_backends mcard)
        @ (case resources of None \<Rightarrow> [] | Some r \<Rightarrow> env_registry_supported env mcard r))
       \<lparr>serves_vision = (card_vision_model_type mcard \<noteq> None), serves_speech = env_serves_speech env mcard,
        serves_music = (card_music mcard \<noteq> None),
        has_pinned_projector = (card_vision_model_type mcard \<noteq> None \<and> env_pinned_projector env mcard),
        supports_tool_calling = env_tool_calling env mcard, vllm_tool_call_parser = env_vllm_parser env mcard,
        predates_in_process_binding = env_predates_binding env mcard\<rparr>"

text \<open>The loop of both functions below: intersect over the cycle, stopping at an empty intersection.\<close>

fun common_tags :: "(node_id \<Rightarrow> string list) \<Rightarrow> string list option \<Rightarrow> node_id list \<Rightarrow> string list" where
  "common_tags f common [] = (case common of None \<Rightarrow> [] | Some c \<Rightarrow> c)"
| "common_tags f common (n # ns) =
     (let c = (case common of None \<Rightarrow> f n | Some a \<Rightarrow> filter (\<lambda>t. t \<in> set (f n)) a)
      in if c = [] then [] else common_tags f (Some c) ns)"

definition cycle_common_multi_node_engines ::
  "card_env \<Rightarrow> node_id list \<Rightarrow> model_card \<Rightarrow> (node_id, node_resources) dict \<Rightarrow> string list" where
  "cycle_common_multi_node_engines env cycle mcard resources =
     filter engine_supports_multi_node (common_tags (\<lambda>n.
       let r = dict_get resources n; tags = (case r of Some x \<Rightarrow> backends x | None \<Rightarrow> [''mlx''])
       in List.map_filter engine_of (filter (\<lambda>t. t \<in> set (card_platform_backends env mcard r)) tags)) None cycle)"

definition is_llama_rpc_cycle ::
  "card_env \<Rightarrow> node_id list \<Rightarrow> model_card \<Rightarrow> (node_id, node_resources) dict \<Rightarrow> bool" where
  "is_llama_rpc_cycle env cycle mcard resources \<longleftrightarrow> length cycle > 1 \<and>
     (let engines = cycle_common_multi_node_engines env cycle mcard resources
      in ''llama_server'' \<in> set engines \<and> ''mlx'' \<notin> set engines)"

definition common_served_accelerator_tags ::
  "card_env \<Rightarrow> node_id list \<Rightarrow> model_card \<Rightarrow> (node_id, node_resources) dict \<Rightarrow> string list" where
  "common_served_accelerator_tags env cycle mcard resources =
     common_tags (\<lambda>n. case dict_get resources n of
         None \<Rightarrow> []
       | Some r \<Rightarrow> filter (\<lambda>tag. tag \<in> set (card_platform_backends env mcard (Some r)) \<and> startswith tag ''llama_server-'' \<and>
                     (endswith tag ''-cuda'' \<or> endswith tag ''-rocm'' \<or> endswith tag ''-vulkan'')) (backends r)) None cycle"

section \<open>Candidate cycles\<close>

text \<open>The arguments of \<open>place_instance\<close> beside the command.  An omitted mapping is the empty one, except where
  the source tells the two apart.\<close>

record 'g placement_inputs =
  in_topology :: "'g topology"
  in_instances :: "(instance_id, instance_t) dict"
  in_memory :: "(node_id, memory_usage) dict"
  in_network :: network_map
  in_required :: "node_id list"
  in_downloads :: "(node_id, download_progress list) dict"
  in_excluded :: "node_id list"
  in_resources :: "(node_id, node_resources) dict option"
  in_vram :: "(node_id, memory) dict"
  in_unified :: "node_id list"
  in_stamped :: "node_id list option"
  in_served_default :: "int option"

definition known_resources :: "'g placement_inputs \<Rightarrow> (node_id, node_resources) dict" where
  "known_resources inp = (case in_resources inp of None \<Rightarrow> [] | Some r \<Rightarrow> r)"

definition touches :: "node_id list \<Rightarrow> node_id list \<Rightarrow> bool" where
  "touches cycle nodes = list_ex (\<lambda>n. n \<in> set nodes) cycle"

definition initial_candidates :: "'g rx_ops \<Rightarrow> place_command \<Rightarrow> 'g placement_inputs \<Rightarrow> py_error + node_id list list" where
  "initial_candidates rx cmd inp =
     (let large = filter (\<lambda>c. int (length c) \<ge> pc_min_nodes cmd) (get_cycles rx (in_topology inp));
          music = (card_music (pc_model_card cmd) \<noteq> None);
          candidates = (if music then filter (\<lambda>c. length c = 1) large else large)
      in nonempty_or
           (if \<not> music \<and> int (length (list_nodes rx (in_topology inp))) \<ge> pc_min_nodes cmd then PlacementInfoPendingError
            else PlacementError) candidates)"

definition drop_excluded :: "'g placement_inputs \<Rightarrow> node_id list list \<Rightarrow> py_error + node_id list list" where
  "drop_excluded inp cycles =
     (if in_excluded inp = [] then Inr cycles
      else nonempty_or PlacementError (filter (\<lambda>c. \<not> touches c (in_excluded inp)) cycles))"

definition drop_isolated :: "'g rx_ops \<Rightarrow> 'g placement_inputs \<Rightarrow> node_id list list \<Rightarrow> py_error + node_id list list" where
  "drop_isolated rx inp cycles =
     (let isolated = zenoh_isolated_nodes (list_nodes rx (in_topology inp)) (known_resources inp)
      in if isolated = [] then Inr cycles else nonempty_or PlacementError (filter (\<lambda>c. \<not> touches c isolated) cycles))"

definition backend_capable :: "card_env \<Rightarrow> model_card \<Rightarrow> node_resources \<Rightarrow> bool" where
  "backend_capable env mcard r = list_ex (\<lambda>t. t \<in> set (card_platform_backends env mcard (Some r))) (backends r)"

definition drop_ineligible ::
  "card_env \<Rightarrow> 'g rx_ops \<Rightarrow> place_command \<Rightarrow> 'g placement_inputs \<Rightarrow> node_id list list \<Rightarrow> py_error + node_id list list" where
  "drop_ineligible env rx cmd inp cycles =
     (let mcard = pc_model_card cmd; resources = known_resources inp; nodes = list_nodes rx (in_topology inp);
          on_nodes = (\<lambda>unknown P. filter (\<lambda>n. case dict_get resources n of None \<Rightarrow> unknown | Some r \<Rightarrow> P r) nodes);
          pending_matrix = on_nodes (compatible_backends mcard = []) (\<lambda>r. False);
          capable = on_nodes False (backend_capable env mcard);
          unjudged = on_nodes True (\<lambda>r. participation r \<noteq> ''full'' \<or>
                       backend_hardware_present (compatible_backends mcard) (hardware_classes r));
          ineligible = on_nodes False (\<lambda>r. participation r \<noteq> ''full'' \<or> \<not> backend_capable env mcard r);
          excluded = ineligible @ pending_matrix
      in if excluded = [] then Inr cycles
         else nonempty_or
                (if pending_matrix \<noteq> [] then PlacementInfoPendingError
                 else if capable = [] \<and> unjudged = [] \<and> describe_backend_hardware (compatible_backends mcard) \<noteq> None
                 then PlacementNoCapableMachineError else PlacementError)
                (filter (\<lambda>c. \<not> touches c excluded) cycles))"

definition require_common_engine ::
  "card_env \<Rightarrow> place_command \<Rightarrow> 'g placement_inputs \<Rightarrow> node_id list list \<Rightarrow> py_error + node_id list list" where
  "require_common_engine env cmd inp cycles =
     (let mcard = pc_model_card cmd; resources = known_resources inp;
          unreported = list_ex (\<lambda>c. length c > 1 \<and> list_ex (\<lambda>n. \<not> dict_has resources n) c) cycles
      in if compatible_backends mcard = [] \<and> registry_card_id mcard = None then Inr cycles
         else nonempty_or (if in_resources inp \<noteq> None \<and> unreported then PlacementInfoPendingError else PlacementError)
                (filter (\<lambda>c. length c = 1 \<or> cycle_common_multi_node_engines env c mcard resources \<noteq> []) cycles))"

definition drop_rpc_for_tensor ::
  "card_env \<Rightarrow> place_command \<Rightarrow> 'g placement_inputs \<Rightarrow> node_id list list \<Rightarrow> py_error + node_id list list" where
  "drop_rpc_for_tensor env cmd inp cycles =
     (if pc_sharding cmd = Tensor
      then nonempty_or PlacementError
             (filter (\<lambda>c. \<not> is_llama_rpc_cycle env c (pc_model_card cmd) (known_resources inp)) cycles)
      else Inr cycles)"

definition projector_memory :: "model_card \<Rightarrow> memory" where
  "projector_memory mcard =
     (if card_vision_model_type mcard = None then 0 else case projector_size mcard of Some p \<Rightarrow> p | None \<Rightarrow> 0)"

definition qualify_vision_rpc ::
  "card_env \<Rightarrow> place_command \<Rightarrow> 'g placement_inputs \<Rightarrow> node_id list list \<Rightarrow> py_error + node_id list list" where
  "qualify_vision_rpc env cmd inp cycles =
     (let mcard = pc_model_card cmd; resources = known_resources inp;
          vision_rpc = filter (\<lambda>c. is_llama_rpc_cycle env c mcard resources) cycles
      in if projector_memory mcard > 0
         then nonempty_or PlacementError
                (filter (\<lambda>c. c \<notin> set vision_rpc \<or> common_served_accelerator_tags env c mcard resources \<noteq> []) cycles)
         else Inr cycles)"

definition require_nodes :: "'g placement_inputs \<Rightarrow> node_id list list \<Rightarrow> py_error + node_id list list" where
  "require_nodes inp cycles =
     (if in_required inp = [] then Inr cycles
      else nonempty_or PlacementError (filter (\<lambda>c. list_all (\<lambda>n. n \<in> set c) (in_required inp)) cycles))"

definition candidate_cycles ::
  "card_env \<Rightarrow> 'g rx_ops \<Rightarrow> place_command \<Rightarrow> 'g placement_inputs \<Rightarrow> py_error + node_id list list" where
  "candidate_cycles env rx cmd inp =
     bind_result (bind_result (bind_result (bind_result (bind_result (bind_result (bind_result
       (initial_candidates rx cmd inp)
       (drop_excluded inp))
       (drop_isolated rx inp))
       (drop_ineligible env rx cmd inp))
       (require_common_engine env cmd inp))
       (drop_rpc_for_tensor env cmd inp))
       (qualify_vision_rpc env cmd inp))
       (require_nodes inp)"

end
