(* ===== verification/Shard_Assignment.thy ===== *)
theory Shard_Assignment
  imports Cycle_Filter
begin

text \<open>
  Shard assignments for a selected cycle, \<open>get_shard_assignments\<close> and its variants in
  \<^verbatim>\<open>src/skulk/master/placement_utils.py\<close>, and that a cycle the memory filter kept is always assigned.
  \<open>RunnerId()\<close> mints a fresh identifier; the models take the identifiers as a function of the position in the cycle.
\<close>

section \<open>Model\<close>

definition new_shard :: "model_card \<Rightarrow> nat \<Rightarrow> nat \<Rightarrow> nat \<Rightarrow> nat \<Rightarrow> base_shard" where
  "new_shard mcard rank ws start end' = \<lparr>shard_card = mcard, device_rank = int rank, world_size = int ws,
     resolved_backend = None, resolved_engine_build = None, llama_server_settings = None, immediate_exception = False,
     should_timeout = None, start_layer = start, end_layer = end', n_layers = card_n_layers mcard\<rparr>"

definition compute_total_memory ::
  "(rat \<Rightarrow> rat) \<Rightarrow> node_id list \<Rightarrow> (node_id, memory_usage) dict \<Rightarrow> (node_id, memory) dict \<Rightarrow> py_error + memory" where
  "compute_total_memory fl nodes node_memory node_vram =
     (if \<not> list_all (dict_has node_memory) nodes then Inl KeyError
      else let total_memory = sum_list (map (usable_in fl node_memory node_vram) nodes)
           in if total_memory = 0 then Inl ValueError else Inr total_memory)"

text \<open>The total handed in is that of \<open>compute_total_memory\<close> over the same nodes, so the fractions are
  \<open>memory_fractions\<close> of their usable memory.\<close>

definition allocate_and_validate_layers ::
  "(rat \<Rightarrow> rat) \<Rightarrow> node_id list \<Rightarrow> (node_id, memory_usage) dict \<Rightarrow> memory \<Rightarrow> model_card \<Rightarrow> (node_id, memory) dict
     \<Rightarrow> py_error + int list" where
  "allocate_and_validate_layers fl nodes node_memory total_memory mcard node_vram =
     (case allocate_pipeline_layers fl mcard (map (\<lambda>n. fl (of_int (usable_in fl node_memory node_vram n) / of_int total_memory)) nodes) of
        Inl e \<Rightarrow> Inl e
      | Inr allocations \<Rightarrow>
          if list_all (\<lambda>(n, layers). layer_share mcard layers \<le> usable_in fl node_memory node_vram n) (zip nodes allocations)
          then Inr allocations else Inl ValueError)"

text \<open>\<open>sum(layer_allocations[:rank])\<close>\<close>

definition layers_before :: "int list \<Rightarrow> nat \<Rightarrow> nat" where
  "layers_before allocations rank = nat (sum_list (take rank allocations))"

text \<open>One runner per node of the cycle, in order.\<close>

definition assign :: "(nat \<Rightarrow> runner_id) \<Rightarrow> model_card \<Rightarrow> node_id list \<Rightarrow> shard_metadata list \<Rightarrow> shard_assignments" where
  "assign fresh mcard cycle shards = \<lparr>sa_model_id = card_model_id mcard,
     runner_to_shard = dict_of_pairs (map (\<lambda>(i, s). (fresh i, s)) (List.enumerate 0 shards)),
     node_to_runner = dict_of_pairs (map (\<lambda>(i, n). (n, fresh i)) (List.enumerate 0 cycle))\<rparr>"

definition pipeline_shard :: "model_card \<Rightarrow> nat \<Rightarrow> int list \<Rightarrow> nat \<Rightarrow> shard_metadata" where
  "pipeline_shard mcard ws allocations rank =
     PipelineShardMetadata (new_shard mcard rank ws (layers_before allocations rank)
       (layers_before allocations rank + nat (allocations ! rank)))"

definition cfg_shard :: "model_card \<Rightarrow> nat \<Rightarrow> int list \<Rightarrow> nat \<Rightarrow> shard_metadata" where
  "cfg_shard mcard ws allocations rank =
     (let pipeline_world_size = ws div 2;
          (cfg_rank, pipeline_rank) =
            (map (\<lambda>r. (0, r)) [0..<pipeline_world_size] @ map (\<lambda>r. (1, r)) (rev [0..<pipeline_world_size])) ! rank
      in CfgShardMetadata (new_shard mcard rank ws (layers_before allocations pipeline_rank)
           (layers_before allocations pipeline_rank + nat (allocations ! pipeline_rank)))
           cfg_rank 2 (int pipeline_rank) (int pipeline_world_size))"

definition shard_assignments_for_pure_pipeline ::
  "(rat \<Rightarrow> rat) \<Rightarrow> (nat \<Rightarrow> runner_id) \<Rightarrow> model_card \<Rightarrow> node_id list \<Rightarrow> (node_id, memory_usage) dict \<Rightarrow> (node_id, memory) dict
     \<Rightarrow> py_error + shard_assignments" where
  "shard_assignments_for_pure_pipeline fl fresh mcard cycle node_memory node_vram =
     (if cycle = [] then Inl ValueError
      else case compute_total_memory fl cycle node_memory node_vram of
             Inl e \<Rightarrow> Inl e
           | Inr total_memory \<Rightarrow>
               (case allocate_and_validate_layers fl cycle node_memory total_memory mcard node_vram of
                  Inl e \<Rightarrow> Inl e
                | Inr allocations \<Rightarrow>
                    Inr (assign fresh mcard cycle (map (pipeline_shard mcard (length cycle) allocations) [0..<length cycle]))))"

definition shard_assignments_for_cfg_parallel ::
  "(rat \<Rightarrow> rat) \<Rightarrow> (nat \<Rightarrow> runner_id) \<Rightarrow> model_card \<Rightarrow> node_id list \<Rightarrow> (node_id, memory_usage) dict \<Rightarrow> (node_id, memory) dict
     \<Rightarrow> py_error + shard_assignments" where
  "shard_assignments_for_cfg_parallel fl fresh mcard cycle node_memory node_vram =
     (if cycle = [] then Inl ValueError
      else let pipeline_nodes = take (length cycle div 2) cycle
           in case compute_total_memory fl pipeline_nodes node_memory node_vram of
                Inl e \<Rightarrow> Inl e
              | Inr pipeline_memory \<Rightarrow>
                  (case allocate_and_validate_layers fl pipeline_nodes node_memory pipeline_memory mcard node_vram of
                     Inl e \<Rightarrow> Inl e
                   | Inr allocations \<Rightarrow>
                       Inr (assign fresh mcard cycle (map (cfg_shard mcard (length cycle) allocations) [0..<length cycle]))))"

definition shard_assignments_for_pipeline_parallel ::
  "(rat \<Rightarrow> rat) \<Rightarrow> (nat \<Rightarrow> runner_id) \<Rightarrow> model_card \<Rightarrow> node_id list \<Rightarrow> (node_id, memory_usage) dict \<Rightarrow> (node_id, memory) dict
     \<Rightarrow> py_error + shard_assignments" where
  "shard_assignments_for_pipeline_parallel fl fresh mcard cycle node_memory node_vram =
     (if uses_cfg mcard \<and> length cycle \<ge> 2 \<and> length cycle mod 2 = 0
      then shard_assignments_for_cfg_parallel fl fresh mcard cycle node_memory node_vram
      else shard_assignments_for_pure_pipeline fl fresh mcard cycle node_memory node_vram)"

definition shard_assignments_for_tensor_parallel :: "(nat \<Rightarrow> runner_id) \<Rightarrow> model_card \<Rightarrow> node_id list \<Rightarrow> shard_assignments" where
  "shard_assignments_for_tensor_parallel fresh mcard cycle =
     assign fresh mcard cycle
       (map (\<lambda>i. TensorShardMetadata (new_shard mcard i (length cycle) 0 (card_n_layers mcard))) [0..<length cycle])"

definition get_shard_assignments ::
  "(rat \<Rightarrow> rat) \<Rightarrow> (nat \<Rightarrow> runner_id) \<Rightarrow> model_card \<Rightarrow> node_id list \<Rightarrow> sharding \<Rightarrow> (node_id, memory_usage) dict
     \<Rightarrow> (node_id, memory) dict \<Rightarrow> py_error + shard_assignments" where
  "get_shard_assignments fl fresh mcard cycle shd node_memory node_vram =
     (case shd of
        Pipeline \<Rightarrow> shard_assignments_for_pipeline_parallel fl fresh mcard cycle node_memory node_vram
      | Tensor \<Rightarrow> Inr (shard_assignments_for_tensor_parallel fresh mcard cycle))"

text \<open>The driver spans every layer; donors take ranks from one upwards.\<close>

fun rpc_shards :: "model_card \<Rightarrow> nat \<Rightarrow> node_id \<Rightarrow> nat \<Rightarrow> node_id list \<Rightarrow> shard_metadata list" where
  "rpc_shards mcard ws driver donor_rank [] = []"
| "rpc_shards mcard ws driver donor_rank (n # ns) =
     (if n = driver
      then PipelineShardMetadata (new_shard mcard 0 ws 0 (card_n_layers mcard)) # rpc_shards mcard ws driver donor_rank ns
      else RpcDonorShardMetadata (new_shard mcard donor_rank ws 0 0) # rpc_shards mcard ws driver (donor_rank + 1) ns)"

definition get_shard_assignments_for_llama_rpc ::
  "(nat \<Rightarrow> runner_id) \<Rightarrow> model_card \<Rightarrow> node_id list \<Rightarrow> node_id \<Rightarrow> py_error + shard_assignments" where
  "get_shard_assignments_for_llama_rpc fresh mcard cycle driver =
     (if cycle = [] \<or> driver \<notin> set cycle then Inl ValueError
      else Inr (assign fresh mcard cycle (rpc_shards mcard (length cycle) driver 1 cycle)))"

section \<open>The dictionaries of an assignment\<close>

lemma enumerate_pairs: "map (\<lambda>(i, x). f i x) (List.enumerate 0 xs) = map (\<lambda>i. f i (xs ! i)) [0..<length xs]"
  by (rule nth_equalityI) (simp_all add: nth_enumerate_eq)

lemma assign_dicts:
  assumes "inj fresh" "distinct cycle" "length shards = length cycle"
  shows "runner_to_shard (assign fresh mcard cycle shards) = map (\<lambda>i. (fresh i, shards ! i)) [0..<length cycle]"
    "node_to_runner (assign fresh mcard cycle shards) = map (\<lambda>i. (cycle ! i, fresh i)) [0..<length cycle]"
proof -
  have "distinct (map (\<lambda>i. fresh i) [0..<length cycle])" by (simp add: distinct_map inj_on_subset [OF assms(1) subset_UNIV])
  moreover have "map (\<lambda>i. cycle ! i) [0..<length cycle] = cycle" by (rule map_nth)
  ultimately show "runner_to_shard (assign fresh mcard cycle shards) = map (\<lambda>i. (fresh i, shards ! i)) [0..<length cycle]"
    "node_to_runner (assign fresh mcard cycle shards) = map (\<lambda>i. (cycle ! i, fresh i)) [0..<length cycle]"
    using assms(2,3) by (simp_all add: assign_def enumerate_pairs dict_of_pairs_distinct o_def)
qed

text \<open>What a worker relies on: every node of the cycle has its own runner, every runner a shard, the ranks follow the
  cycle and the world size is its length.\<close>

definition assignment_ok :: "node_id list \<Rightarrow> shard_assignments \<Rightarrow> bool" where
  "assignment_ok cycle sa \<longleftrightarrow> dict_keys (node_to_runner sa) = cycle \<and> dict_wf (runner_to_shard sa) \<and>
     dict_values (node_to_runner sa) = dict_keys (runner_to_shard sa) \<and> validate_runners_exist sa \<and>
     list_all (\<lambda>s. world_size (shard_base s) = int (length cycle)) (dict_values (runner_to_shard sa)) \<and>
     map (\<lambda>s. device_rank (shard_base s)) (dict_values (runner_to_shard sa)) = map int [0..<length cycle]"

lemma assign_ok:
  assumes "inj fresh" "distinct cycle" "length shards = length cycle"
    "\<forall>s \<in> set shards. world_size (shard_base s) = int (length cycle)"
    "map (\<lambda>s. device_rank (shard_base s)) shards = map int [0..<length cycle]"
  shows "assignment_ok cycle (assign fresh mcard cycle shards)"
proof -
  have "map (\<lambda>i. shards ! i) [0..<length cycle] = shards" using assms(3) map_nth [of shards] by simp
  then have "map (\<lambda>i. device_rank (shard_base (shards ! i))) [0..<length cycle] = map int [0..<length cycle]"
    using assms(5) by (metis (no_types, lifting) list.map_comp o_def map_eq_conv)
  then show ?thesis
    unfolding assignment_ok_def validate_runners_exist_def dict_wf_def assign_dicts [OF assms(1-3)]
    using assms(1,3,4) by (auto simp: o_def map_nth distinct_map inj_on_subset [OF assms(1) subset_UNIV] list_all_iff dict_has_iff_keys)
qed

section \<open>Layers are covered\<close>

fun tiles :: "nat \<Rightarrow> nat \<Rightarrow> shard_metadata list \<Rightarrow> bool" where
  "tiles from n [] \<longleftrightarrow> from = n"
| "tiles from n (s # ss) \<longleftrightarrow> start_layer (shard_base s) = from \<and> from < end_layer (shard_base s) \<and> tiles (end_layer (shard_base s)) n ss"

text \<open>A pipeline covers the layers in the order of its ranks; with CFG groups the first half of the ring does so forwards
  and the second half backwards.\<close>

definition covers_layers :: "model_card \<Rightarrow> shard_metadata list \<Rightarrow> bool" where
  "covers_layers mcard shards \<longleftrightarrow>
     (let h = length shards div 2
      in if uses_cfg_parallel mcard (length shards)
         then tiles 0 (card_n_layers mcard) (take h shards) \<and> tiles 0 (card_n_layers mcard) (rev (drop h shards))
         else tiles 0 (card_n_layers mcard) shards)"

lemma layers_before_simps [simp]:
  "layers_before as 0 = 0" "layers_before as (length as) = nat (sum_list as)"
  by (simp_all add: layers_before_def)

lemma layers_before_Suc:
  assumes "\<forall>a \<in> set as. 1 \<le> a" "k < length as"
  shows "layers_before as (Suc k) = layers_before as k + nat (as ! k)"
proof -
  have "0 \<le> sum_list (take k as)" using assms(1) by (intro sum_list_nonneg) (auto dest!: in_set_takeD)
  moreover have "1 \<le> as ! k" using assms by simp
  ultimately show ?thesis using assms(2) by (simp add: layers_before_def take_Suc_conv_app_nth nat_add_distrib)
qed

lemma tiles_allocation:
  assumes pos: "\<forall>a \<in> set as. 1 \<le> a" and "k \<le> length as"
    and shape: "\<And>r. r < length as \<Longrightarrow> start_layer (shard_base (f r)) = layers_before as r \<and>
      end_layer (shard_base (f r)) = layers_before as r + nat (as ! r)"
  shows "tiles (layers_before as k) (nat (sum_list as)) (map f [k..<length as])"
  using assms(2)
proof (induction "length as - k" arbitrary: k)
  case (Suc d)
  then have k: "k < length as" by simp
  have "1 \<le> as ! k" using pos k by simp
  moreover have "tiles (layers_before as (Suc k)) (nat (sum_list as)) (map f [Suc k..<length as])" using Suc by simp
  ultimately show ?case using shape [OF k] layers_before_Suc [OF pos k] k by (simp add: upt_conv_Cons)
qed simp

lemma pure_pipeline_covers:
  assumes "\<forall>a \<in> set as. 1 \<le> a" "sum_list as = int (card_n_layers mcard)"
  shows "tiles 0 (card_n_layers mcard) (map (pipeline_shard mcard ws as) [0..<length as])"
  using tiles_allocation [OF assms(1), of 0 "pipeline_shard mcard ws as"] assms(2) by (simp add: pipeline_shard_def new_shard_def)

lemma mirrored_positions:
  assumes "rank < 2 * h"
  shows "(map (\<lambda>r. (0 :: int, r)) [0..<h] @ map (\<lambda>r. (1, r)) (rev [0..<h])) ! rank = (if rank < h then (0, rank) else (1, 2 * h - 1 - rank))"
proof (cases "rank < h")
  case False
  then have "h - Suc (rank - h) = 2 * h - 1 - rank" "rank - h < h" using assms by auto
  then show ?thesis using False by (simp add: nth_append rev_nth)
qed (simp add: nth_append)

lemma cfg_shard_rank:
  assumes "rank < 2 * h"
  shows "shard_base (cfg_shard mcard (2 * h) as rank) =
    (let r = if rank < h then rank else 2 * h - 1 - rank
     in new_shard mcard rank (2 * h) (layers_before as r) (layers_before as r + nat (as ! r)))"
  using mirrored_positions [OF assms] by (simp add: cfg_shard_def Let_def)

lemma cfg_pipeline_covers:
  assumes "\<forall>a \<in> set as. 1 \<le> a" "sum_list as = int (card_n_layers mcard)" "length as = h"
  shows "tiles 0 (card_n_layers mcard) (map (cfg_shard mcard (2 * h) as) [0..<h])"
    "tiles 0 (card_n_layers mcard) (rev (map (cfg_shard mcard (2 * h) as) [h..<2 * h]))"
proof -
  have up: "start_layer (shard_base (cfg_shard mcard (2 * h) as r)) = layers_before as r \<and>
      end_layer (shard_base (cfg_shard mcard (2 * h) as r)) = layers_before as r + nat (as ! r)" if "r < length as" for r
    using that assms(3) by (simp add: cfg_shard_rank new_shard_def)
  have down: "start_layer (shard_base (cfg_shard mcard (2 * h) as (2 * h - 1 - r))) = layers_before as r \<and>
      end_layer (shard_base (cfg_shard mcard (2 * h) as (2 * h - 1 - r))) = layers_before as r + nat (as ! r)" if "r < length as" for r
  proof -
    have "2 * h - 1 - r < 2 * h" "\<not> 2 * h - 1 - r < h" "2 * h - 1 - (2 * h - 1 - r) = r" using that assms(3) by auto
    then show ?thesis by (simp add: cfg_shard_rank new_shard_def)
  qed
  have rev: "rev (map (cfg_shard mcard (2 * h) as) [h..<2 * h]) = map (\<lambda>r. cfg_shard mcard (2 * h) as (2 * h - 1 - r)) [0..<h]"
    by (rule nth_equalityI) (auto simp: rev_nth mult_2)
  show "tiles 0 (card_n_layers mcard) (map (cfg_shard mcard (2 * h) as) [0..<h])"
    "tiles 0 (card_n_layers mcard) (rev (map (cfg_shard mcard (2 * h) as) [h..<2 * h]))"
    using tiles_allocation [OF assms(1) le0 up] tiles_allocation [OF assms(1) le0 down] assms(2,3) unfolding rev by simp_all
qed

section \<open>An admitted cycle is assigned\<close>

lemma filter_cycles_kept: "filter_cycles fl q cycles diag = Inr (kept, d) \<Longrightarrow> c \<in> set kept \<Longrightarrow> c \<in> set cycles \<and> check_cycle fl q c = Inr Fits"
proof (induction cycles arbitrary: diag kept)
  case (Cons x xs)
  then show ?case by (fastforce split: sum.splits verdict.splits prod.splits)
qed simp

lemma node_overloads_none:
  "node_overloads fl q shares = Inr [] \<Longrightarrow> (n, share) \<in> set shares \<Longrightarrow> node_overload fl q n share = Inr None"
  by (induction shares) (auto split: sum.splits option.splits)

context double_arith
begin

lemma kv_ratio_nonneg: "0 \<le> storage_size (fit_card q) \<Longrightarrow> 0 \<le> kv_ratio fl q"
  using per_token_nonneg [of "fit_card q"]
  by (auto simp: kv_ratio_def Let_def estimate_kv_cache_bytes_def intro!: fl_nonneg divide_nonneg_nonneg of_int_nonneg
      pos_imp_zdiv_nonneg_iff [THEN iffD2] mult_nonneg_nonneg)

lemma overhead_margin: "109 / 100 \<le> memory_overhead_factor fl mcard"
proof -
  have "109 / 100 \<le> fl (110 / 100)" "109 / 100 \<le> fl (130 / 100)"
    using fl_bounds(1) [of "110 / 100"] fl_bounds(1) [of "130 / 100"] unit_roundoff_bounds(2) by simp_all
  then show ?thesis
    by (simp add: memory_overhead_factor_def MEMORY_OVERHEAD_FACTOR_def LLAMA_CPP_MEMORY_OVERHEAD_FACTOR_def split: option.split)
qed

lemma weights_with_overhead:
  assumes "0 \<le> share"
  shows "share \<le> mem_mul fl share (memory_overhead_factor fl mcard)"
proof -
  let ?c = "memory_overhead_factor fl mcard"
  have c: "1 \<le> ?c * (1 - unit_roundoff)"
  proof -
    have "109 / 100 * (999 / 1000) \<le> ?c * (1 - unit_roundoff)"
      using overhead_margin [of mcard] unit_roundoff_bounds by (intro mult_mono) auto
    then show ?thesis by simp
  qed
  have "of_int share * 1 \<le> of_int share * (?c * (1 - unit_roundoff))" using c assms by (intro mult_left_mono) auto
  also have "\<dots> \<le> fl (of_int share * ?c)"
    using fl_bounds(1) [of "of_int share * ?c"] assms overhead_at_least_one [of mcard] by (simp add: mult.assoc)
  finally show ?thesis unfolding mem_mul_def by (intro py_round_ge) simp
qed

text \<open>A node that is not overloaded has room for the runtime floor and for its weight share.\<close>

lemma fits_share:
  assumes "node_overload fl q n share = Inr None" "0 \<le> share" "0 \<le> storage_size (fit_card q)" "0 \<le> fit_budget q"
    "0 \<le> dict_default 0 (fit_fixed q) n"
  shows "share + MEMORY_OVERHEAD_FLOOR + dict_default 0 (fit_fixed q) n \<le> usable_in fl (fit_memory q) (fit_vram q) n"
proof -
  let ?b = "dict_default None (fit_backends q) n" and ?s = "dict_default None (fit_settings q) n"
  have req: "required_with_overhead fl q n ?b ?s share \<le> usable_in fl (fit_memory q) (fit_vram q) n"
    using assms(1) by (auto simp: node_overload_def Let_def split: if_splits)
  have "share \<le> mem_mul fl share (memory_overhead_factor fl (fit_card q))" using weights_with_overhead [OF assms(2)] .
  moreover have "0 \<le> mem_mul fl share (if cache_geometry (fit_card q) \<noteq> None
      then fl (of_int (per_token_kv_bytes (fit_card q) ?b ?s * fit_budget q) / of_int (storage_size (fit_card q))) else kv_ratio fl q)"
    using assms kv_ratio_nonneg [OF assms(3)] per_token_nonneg [of "fit_card q" ?b ?s]
    by (auto intro!: mem_mul_nonneg fl_nonneg)
  moreover have "0 \<le> mem_mul fl (estimate_recurrent_cache_bytes (fit_card q) ?b ?s) (mem_ratio fl share (storage_size (fit_card q)))"
    using assms recurrent_cache_nonneg by (auto intro!: mem_mul_nonneg fl_nonneg simp: mem_ratio_def)
  ultimately show ?thesis
    using req music_workspace_nonneg [of "fit_card q" ?b] by (auto simp: required_with_overhead_def Let_def split: if_splits)
qed

end

lemma layer_share_nonneg: "0 \<le> storage_size mcard \<Longrightarrow> 0 \<le> l \<Longrightarrow> 0 \<le> layer_share mcard l"
  by (cases "card_n_layers mcard = 0") (simp_all add: layer_share_def pos_imp_zdiv_nonneg_iff)

text \<open>The second allocation, made for the assignment, repeats the one of the filter and passes its own check.\<close>

lemma allocation_repeats:
  assumes "ns \<noteq> []" "list_all (dict_has mem) ns"
    "allocate_pipeline_layers fl mcard (memory_fractions fl (map (\<lambda>n. max 0 (usable_in fl mem vram n)) ns)) = Inr as" "length as = length ns"
    "\<forall>k < length ns. layer_share mcard (as ! k) \<le> usable_in fl mem vram (ns ! k) \<and> 0 < usable_in fl mem vram (ns ! k)"
  shows "\<exists>t. compute_total_memory fl ns mem vram = Inr t \<and> allocate_and_validate_layers fl ns mem t mcard vram = Inr as"
proof -
  let ?u = "usable_in fl mem vram"
  have pos: "0 < ?u n" if "n \<in> set ns" for n using assms(5) that by (auto simp: in_set_conv_nth)
  then have same: "map (\<lambda>n. max 0 (?u n)) ns = map ?u ns" by (intro map_cong) (auto simp: max_def less_imp_le)
  have "\<forall>n \<in> set (tl ns). 0 \<le> ?u n" using pos assms(1) by (meson less_imp_le list.set_sel(2))
  then have "0 \<le> sum_list (map ?u (tl ns))" by (intro sum_list_nonneg) auto
  moreover have "0 < ?u (hd ns)" using pos assms(1) by simp
  ultimately have "0 < sum_list (map ?u ns)" using assms(1) by (cases ns) simp_all
  then have tot: "compute_total_memory fl ns mem vram = Inr (sum_list (map ?u ns))"
    using assms(2) by (simp add: compute_total_memory_def Let_def)
  have "list_all (\<lambda>(n, layers). layer_share mcard layers \<le> ?u n) (zip ns as)"
    using assms(4,5) by (auto simp: list_all_iff in_set_conv_nth)
  then have "allocate_and_validate_layers fl ns mem (sum_list (map ?u ns)) mcard vram = Inr as"
    using assms(3) unfolding same by (simp add: allocate_and_validate_layers_def memory_fractions_def o_def)
  with tot show ?thesis by blast
qed

lemma memory_allocated:
  assumes "double_arith fl" "0 < sum_list (map (\<lambda>n. max 0 (usable_in fl mem vram n)) ns)" "length ns \<le> card_n_layers mcard"
    "case max_pipeline_split_layer mcard of Some limit \<Rightarrow> int (length ns) - 1 \<le> int limit | None \<Rightarrow> True"
    "3 * int (card_n_layers mcard) * sum_list (map (\<lambda>n. max 0 (usable_in fl mem vram n)) ns) < 2 ^ 53"
  shows "\<exists>as. allocate_pipeline_layers fl mcard (memory_fractions fl (map (\<lambda>n. max 0 (usable_in fl mem vram n)) ns)) = Inr as \<and>
    length as = length ns \<and> (\<forall>a \<in> set as. 1 \<le> a) \<and> sum_list as = int (card_n_layers mcard)"
  using pipeline_layers_cases [OF assms(1) _ assms(2,5)] assms(3,4) by (fastforce split: sum.splits option.splits)

lemma sum_take_le:
  assumes "\<forall>x \<in> set xs. (0 :: int) \<le> x"
  shows "sum_list (take k xs) \<le> sum_list xs"
proof -
  have "sum_list xs = sum_list (take k xs) + sum_list (drop k xs)" by (metis append_take_drop_id sum_list_append)
  moreover have "0 \<le> sum_list (drop k xs)" using assms by (intro sum_list_nonneg) (auto dest: in_set_dropD)
  ultimately show ?thesis by linarith
qed

text \<open>The facts about a cycle that passed the filter with exact pipeline layers and no fixed memory.\<close>

lemma admitted_facts:
  assumes fl: "double_arith fl" and fits: "check_cycle fl q cycle = Inr Fits"
    and q: "fit_sharding q = Pipeline" "fit_exact q" "fit_fixed q = []" "0 \<le> fit_budget q" "0 \<le> storage_size (fit_card q)"
  shows "list_all (dict_has (fit_memory q)) cycle"
    "effective_pipeline_stage_count (fit_card q) (length cycle) \<le> card_n_layers (fit_card q)"
    "case max_pipeline_split_layer (fit_card q) of
       Some limit \<Rightarrow> int (effective_pipeline_stage_count (fit_card q) (length cycle)) - 1 \<le> int limit | None \<Rightarrow> True"
    "\<exists>shares. per_node_required_memory fl cycle (fit_memory q) (fit_card q) Pipeline (fit_vram q) True [] = Inr shares \<and>
       (\<forall>(n, share) \<in> set shares. 0 \<le> share \<longrightarrow> share + MEMORY_OVERHEAD_FLOOR \<le> usable_in fl (fit_memory q) (fit_vram q) n)"
proof -
  show "list_all (dict_has (fit_memory q)) cycle"
    using fits by (auto simp: check_cycle_def Let_def list_all_iff filter_empty_conv split: if_splits)
  show "effective_pipeline_stage_count (fit_card q) (length cycle) \<le> card_n_layers (fit_card q)"
    using fits q(1,2) by (auto simp: check_cycle_def Let_def split: if_splits)
  show "case max_pipeline_split_layer (fit_card q) of
       Some limit \<Rightarrow> int (effective_pipeline_stage_count (fit_card q) (length cycle)) - 1 \<le> int limit | None \<Rightarrow> True"
    using fits q(1,2) by (auto simp: check_cycle_def Let_def split: if_splits option.splits)
  obtain shares where shares: "per_node_required_memory fl cycle (fit_memory q) (fit_card q) Pipeline (fit_vram q) True [] = Inr shares"
      "node_overloads fl q shares = Inr []"
    using fits q(1-3) by (auto simp: check_cycle_def Let_def split: if_splits sum.splits)
  have "share + MEMORY_OVERHEAD_FLOOR \<le> usable_in fl (fit_memory q) (fit_vram q) n" if "(n, share) \<in> set shares" "0 \<le> share" for n share
    using double_arith.fits_share [OF fl node_overloads_none [OF shares(2) that(1)] that(2) q(5,4)] q(3) by (simp add: dict_default_def)
  with shares(1) show "\<exists>shares. per_node_required_memory fl cycle (fit_memory q) (fit_card q) Pipeline (fit_vram q) True [] = Inr shares \<and>
       (\<forall>(n, share) \<in> set shares. 0 \<le> share \<longrightarrow> share + MEMORY_OVERHEAD_FLOOR \<le> usable_in fl (fit_memory q) (fit_vram q) n)"
    by blast
qed

lemma no_memory_does_not_fit:
  assumes "sum_list (map (\<lambda>n. max 0 (u n)) ns) = 0" "n \<in> set ns" "r + MEMORY_OVERHEAD_FLOOR \<le> u n" "0 \<le> r"
  shows False
proof -
  have "max 0 (u n) \<le> sum_list (map (\<lambda>n. max 0 (u n)) ns)" using assms(2) by (intro member_le_sum_list) auto
  then show False using assms(1,3,4) by (simp add: MEMORY_OVERHEAD_FLOOR_def)
qed

definition pipeline_group :: "model_card \<Rightarrow> node_id list \<Rightarrow> node_id list" where
  "pipeline_group mcard cycle = (if uses_cfg_parallel mcard (length cycle) then take (length cycle div 2) cycle else cycle)"

lemma pipeline_group_simps:
  "cycle \<noteq> [] \<Longrightarrow> pipeline_group mcard cycle \<noteq> []" "set (pipeline_group mcard cycle) \<subseteq> set cycle"
  "length (pipeline_group mcard cycle) = effective_pipeline_stage_count mcard (length cycle)"
  "k < length (pipeline_group mcard cycle) \<Longrightarrow> pipeline_group mcard cycle ! k = cycle ! k"
  by (auto simp: pipeline_group_def effective_pipeline_stage_count_def uses_cfg_parallel_def dest: in_set_takeD)

lemma zip_member: "k < length xs \<Longrightarrow> k < length ys \<Longrightarrow> (xs ! k, ys ! k) \<in> set (zip xs ys)"
  by (auto simp: set_zip)

lemma admitted_allocation:
  fixes q :: fit_inputs and fl :: "rat \<Rightarrow> rat"
  defines "u \<equiv> usable_in fl (fit_memory q) (fit_vram q)" and "mcard \<equiv> fit_card q"
  assumes fl: "double_arith fl" and fits: "check_cycle fl q cycle = Inr Fits"
    and q: "fit_sharding q = Pipeline" "fit_exact q" "fit_fixed q = []" "0 \<le> fit_budget q" "0 \<le> storage_size mcard"
    and cycle: "cycle \<noteq> []" "distinct cycle"
    and small: "3 * int (card_n_layers mcard) * sum_list (map (\<lambda>n. max 0 (u n)) cycle) < 2 ^ 53"
  shows "\<exists>as. allocate_pipeline_layers fl mcard (memory_fractions fl (map (\<lambda>n. max 0 (u n)) (pipeline_group mcard cycle))) = Inr as \<and>
    length as = length (pipeline_group mcard cycle) \<and> (\<forall>a \<in> set as. 1 \<le> a) \<and> sum_list as = int (card_n_layers mcard) \<and>
    (\<forall>k < length (pipeline_group mcard cycle). layer_share mcard (as ! k) \<le> u (cycle ! k) \<and> 0 < u (cycle ! k))"
proof -
  let ?g = "pipeline_group mcard cycle" and ?V = "\<lambda>n. max 0 (u n)"
  note facts = admitted_facts [OF fl fits q [unfolded mcard_def]]
  obtain shares where shares: "per_node_required_memory fl cycle (fit_memory q) mcard Pipeline (fit_vram q) True [] = Inr shares"
      "\<forall>(n, share) \<in> set shares. 0 \<le> share \<longrightarrow> share + MEMORY_OVERHEAD_FLOOR \<le> u n"
    using facts(4) unfolding u_def mcard_def by blast
  have g: "?g \<noteq> []" "set ?g \<subseteq> set cycle" using pipeline_group_simps(1,2) cycle(1) by blast+
  have split: "sum_list (map ?V ?g) \<le> sum_list (map ?V cycle)"
  proof (cases "uses_cfg_parallel mcard (length cycle)")
    case True
    then show ?thesis using sum_take_le [of "map ?V cycle" "length cycle div 2"] by (simp add: pipeline_group_def take_map)
  qed (simp add: pipeline_group_def)
  have full: "distinct (map fst (map (\<lambda>n. (n, storage_size mcard)) cycle))" using cycle(2) by (simp add: o_def)
  have "sum_list (map ?V ?g) \<noteq> 0"
  proof
    assume zero: "sum_list (map ?V ?g) = 0"
    then have "shares = map (\<lambda>n. (n, storage_size mcard)) cycle"
      using shares(1) facts(1) dict_of_pairs_distinct [OF full]
      by (auto simp: per_node_required_memory_def Let_def u_def dict_default_def pipeline_group_def split: if_splits)
    then have "storage_size mcard + MEMORY_OVERHEAD_FLOOR \<le> u (hd ?g)" using shares(2) g q(5) by (metis (no_types, lifting) case_prodD hd_in_set image_eqI set_map subsetD)
    then show False using no_memory_does_not_fit [OF zero _ _ q(5)] g(1) hd_in_set by blast
  qed
  moreover have "0 \<le> sum_list (map ?V ?g)" by (intro sum_list_nonneg) auto
  ultimately have pos: "0 < sum_list (map ?V ?g)" by simp
  have small': "3 * int (card_n_layers mcard) * sum_list (map ?V ?g) < 2 ^ 53"
    using small mult_left_mono [OF split, of "3 * int (card_n_layers mcard)"] by simp
  obtain as where as: "allocate_pipeline_layers fl mcard (memory_fractions fl (map ?V ?g)) = Inr as" "length as = length ?g"
      "\<forall>a \<in> set as. 1 \<le> a" "sum_list as = int (card_n_layers mcard)"
    using memory_allocated [OF fl, of "fit_memory q" "fit_vram q" ?g mcard] pos small'
      facts(2,3) [folded mcard_def, folded pipeline_group_simps(3)] unfolding u_def by blast
  have all: "list_all (dict_has (fit_memory q)) cycle" by (rule facts(1))
  have tot: "sum_list (map ?V cycle) \<noteq> 0" using pos split by linarith
  have "(cycle ! k, layer_share mcard (as ! k)) \<in> set shares" if k: "k < length ?g" for k
  proof (cases "uses_cfg_parallel mcard (length cycle)")
    case True
    let ?h = "length cycle div 2"
    have len: "length cycle = 2 * ?h" "k < ?h" using True k by (auto simp: uses_cfg_parallel_def pipeline_group_def)
    have ranks: "length (mirrored_ranks ?h) = length cycle" "mirrored_ranks ?h ! k = k"
      using len by (simp_all add: mirrored_ranks_def nth_append)
    let ?ps = "map (\<lambda>(n, rank). (n, layer_share mcard (as ! rank))) (zip cycle (mirrored_ranks ?h))"
    have "map fst ?ps = cycle" using ranks(1) by (simp add: o_def case_prod_unfold)
    then have "shares = ?ps"
      using shares(1) all tot pos as(1) True dict_of_pairs_distinct [of ?ps] cycle(2)
      by (simp add: per_node_required_memory_def Let_def u_def dict_default_def pipeline_group_def)
    moreover have "(cycle ! k, mirrored_ranks ?h ! k) \<in> set (zip cycle (mirrored_ranks ?h))" using len ranks(1) by (intro zip_member) simp_all
    ultimately show ?thesis using ranks(2) by (force simp: image_iff)
  next
    case False
    let ?ps = "map (\<lambda>(n, layers). (n, layer_share mcard layers)) (zip cycle as)"
    have len: "length as = length cycle" "k < length cycle" using as(2) k False by (simp_all add: pipeline_group_def)
    have "map fst ?ps = cycle" using len(1) by (simp add: o_def case_prod_unfold)
    then have "shares = ?ps"
      using shares(1) all tot as(1) False dict_of_pairs_distinct [of ?ps] cycle(2)
      by (simp add: per_node_required_memory_def Let_def u_def dict_default_def pipeline_group_def)
    moreover have "(cycle ! k, as ! k) \<in> set (zip cycle as)" using len by (intro zip_member) simp_all
    ultimately show ?thesis by (force simp: image_iff)
  qed
  moreover have "0 \<le> layer_share mcard (as ! k)" if "k < length ?g" for k
    using layer_share_nonneg [OF q(5)] as(2,3) that nth_mem [of k as] by fastforce
  ultimately have "layer_share mcard (as ! k) + MEMORY_OVERHEAD_FLOOR \<le> u (cycle ! k) \<and> 0 \<le> layer_share mcard (as ! k)" if "k < length ?g" for k
    using shares(2) that by fastforce
  then have "\<forall>k < length ?g. layer_share mcard (as ! k) \<le> u (cycle ! k) \<and> 0 < u (cycle ! k)"
    by (fastforce simp: MEMORY_OVERHEAD_FLOOR_def)
  with as show ?thesis by blast
qed

lemma assign_covers:
  assumes "inj fresh" "distinct cycle" "length shards = length cycle" "covers_layers mcard shards"
  shows "covers_layers mcard (dict_values (runner_to_shard (assign fresh mcard cycle shards)))"
proof -
  have "dict_values (runner_to_shard (assign fresh mcard cycle shards)) = shards"
    using assms(3) map_nth [of shards] by (simp add: assign_dicts [OF assms(1-3)] o_def)
  then show ?thesis using assms(4) by simp
qed

text \<open>C21. A cycle that the memory filter keeps is assigned.  For pipeline sharding with exact layers, without memory fixed
  on the nodes in advance, and as long as three times the layers times the usable memory stays below \<open>2\<^sup>5\<^sup>3\<close>, so that doubles
  represent the products, the assignment of an admitted cycle raises no error: its own checks of the total memory, of the
  split boundary and of each node's weights pass.  Every node of the cycle gets its own runner, the runner of the \<open>k\<close>-th node
  has a shard of rank \<open>k\<close>, the world size is the length of the cycle, and the shards cover the layers of the model
  without gap or overlap, once for a plain pipeline and once in each direction for the two groups of a CFG pipeline.\<close>

theorem admitted_cycle_is_assigned:
  assumes "double_arith fl" "inj fresh"
    and "filter_cycles_by_memory fl q cycles = Inr (kept, diag)" "cycle \<in> set kept" "cycle \<noteq> []" "distinct cycle"
    and "fit_sharding q = Pipeline" "fit_exact q" "fit_fixed q = []" "0 \<le> fit_budget q" "0 \<le> storage_size (fit_card q)"
    and "3 * int (card_n_layers (fit_card q)) * sum_list (map (\<lambda>n. max 0 (usable_in fl (fit_memory q) (fit_vram q) n)) cycle) < 2 ^ 53"
  shows "\<exists>sa. get_shard_assignments fl fresh (fit_card q) cycle Pipeline (fit_memory q) (fit_vram q) = Inr sa \<and>
    assignment_ok cycle sa \<and> covers_layers (fit_card q) (dict_values (runner_to_shard sa))"
proof -
  let ?m = "fit_card q" and ?u = "usable_in fl (fit_memory q) (fit_vram q)"
  let ?g = "pipeline_group ?m cycle"
  have fits: "check_cycle fl q cycle = Inr Fits" using filter_cycles_kept assms(3,4) unfolding filter_cycles_by_memory_def by blast
  obtain as where as: "allocate_pipeline_layers fl ?m (memory_fractions fl (map (\<lambda>n. max 0 (?u n)) ?g)) = Inr as" "length as = length ?g"
      "\<forall>a \<in> set as. 1 \<le> a" "sum_list as = int (card_n_layers ?m)"
      "\<forall>k < length ?g. layer_share ?m (as ! k) \<le> ?u (cycle ! k) \<and> 0 < ?u (cycle ! k)"
    using admitted_allocation [OF assms(1) fits assms(7-11,5,6,12)] by blast
  have mem: "list_all (dict_has (fit_memory q)) ?g"
    using admitted_facts(1) [OF assms(1) fits assms(7-11)] pipeline_group_simps(2) [of ?m cycle] by (auto simp: list_all_iff)
  have "\<forall>k < length ?g. layer_share ?m (as ! k) \<le> ?u (?g ! k) \<and> 0 < ?u (?g ! k)" using as(5) by (simp add: pipeline_group_simps(4))
  then obtain t where t: "compute_total_memory fl ?g (fit_memory q) (fit_vram q) = Inr t"
      "allocate_and_validate_layers fl ?g (fit_memory q) t ?m (fit_vram q) = Inr as"
    using allocation_repeats [OF pipeline_group_simps(1) [OF assms(5)] mem as(1,2)] by blast
  let ?h = "length cycle div 2"
  define shards where "shards = (if uses_cfg_parallel ?m (length cycle) then map (cfg_shard ?m (length cycle) as) [0..<length cycle]
      else map (pipeline_shard ?m (length cycle) as) [0..<length cycle])"
  have len: "length shards = length cycle" by (simp add: shards_def)
  have run: "get_shard_assignments fl fresh ?m cycle Pipeline (fit_memory q) (fit_vram q) = Inr (assign fresh ?m cycle shards)"
    using t assms(5) by (cases "uses_cfg_parallel ?m (length cycle)")
      (simp_all add: get_shard_assignments_def shard_assignments_for_pipeline_parallel_def [folded uses_cfg_parallel_def]
        shard_assignments_for_cfg_parallel_def shard_assignments_for_pure_pipeline_def pipeline_group_def shards_def Let_def)
  have cov: "covers_layers ?m shards"
  proof (cases "uses_cfg_parallel ?m (length cycle)")
    case True
    then have h: "length cycle = 2 * ?h" "length as = ?h" using as(2) by (auto simp: uses_cfg_parallel_def pipeline_group_def)
    have "take ?h shards = map (cfg_shard ?m (2 * ?h) as) [0..<?h]" "drop ?h shards = map (cfg_shard ?m (2 * ?h) as) [?h..<2 * ?h]"
      using True h(1) by (auto simp: shards_def take_map drop_map)
    then show ?thesis using cfg_pipeline_covers [OF as(3,4) h(2)] True len by (simp add: covers_layers_def Let_def)
  next
    case False
    then show ?thesis using pure_pipeline_covers [OF as(3,4)] as(2) len by (simp add: covers_layers_def shards_def pipeline_group_def)
  qed
  have "\<forall>s \<in> set shards. world_size (shard_base s) = int (length cycle)"
    by (auto simp: shards_def pipeline_shard_def cfg_shard_def new_shard_def Let_def split: prod.splits)
  moreover have "map (\<lambda>s. device_rank (shard_base s)) shards = map int [0..<length cycle]"
    by (auto simp: shards_def pipeline_shard_def cfg_shard_def new_shard_def Let_def split: prod.splits)
  ultimately show ?thesis using run assign_ok [OF assms(2,6) len] assign_covers [OF assms(2,6) len cov] by blast
qed

definition pair_memory :: "(node_id, memory_usage) dict" where
  "pair_memory = [(''a'', \<lparr>ram_total = 2000000000, ram_available = 1000000000, swap_total = 0, swap_available = 0\<rparr>),
     (''b'', \<lparr>ram_total = 2000000000, ram_available = 1000000000, swap_total = 0, swap_available = 0\<rparr>)]"

definition pair_inputs :: fit_inputs where
  "pair_inputs = \<lparr>fit_memory = pair_memory, fit_card = example_card, fit_sharding = Pipeline, fit_budget = KV_CONTEXT_BUDGET_TOKENS,
     fit_vram = [], fit_exact = True, fit_fixed = [], fit_backends = [], fit_settings = []\<rparr>"

lemma pair_usable: "usable_in (\<lambda>x. x) pair_memory [] ''a'' = 1000000000" "usable_in (\<lambda>x. x) pair_memory [] ''b'' = 1000000000"
  by (simp_all add: usable_in_def node_usable_memory_def pair_memory_def mem_mul_def GPU_WORKING_SET_FRACTION_def py_round_def Let_def)

lemma pair_shares: "per_node_required_memory (\<lambda>x. x) [''a'', ''b''] pair_memory example_card Pipeline [] True [] = Inr [(''a'', 500), (''b'', 500)]"
proof -
  have "allocate_pipeline_layers (\<lambda>x. x) example_card [1 / 2, 1 / 2] = Inr [4, 4]" by code_simp
  moreover have "memory_fractions (\<lambda>x. x) [1000000000, 1000000000] = [1 / 2, 1 / 2]" by (simp add: memory_fractions_def)
  moreover have "list_all (dict_has pair_memory) [''a'', ''b'']" by (simp add: pair_memory_def dict_has_def)
  moreover have "\<not> uses_cfg example_card" "layer_share example_card 4 = 500" by (simp_all add: example_card_def layer_share_def)
  ultimately show ?thesis
    by (simp add: per_node_required_memory_def pair_usable dict_default_def uses_cfg_parallel_def dict_of_pairs_def dict_set_def)
qed

lemma pair_fits: "check_cycle (\<lambda>x. x) pair_inputs [''a'', ''b''] = Inr Fits"
proof -
  have "node_overload (\<lambda>x. x) pair_inputs n 500 = Inr None" if "usable_in (\<lambda>x. x) pair_memory [] n = 1000000000" for n
    using that by (simp add: node_overload_def required_with_overhead_def kv_ratio_def estimate_kv_cache_bytes_def per_token_kv_bytes_def
      memory_overhead_factor_def MEMORY_OVERHEAD_FACTOR_def MEMORY_OVERHEAD_FLOOR_def estimate_music_workspace_def mem_mul_def py_round_def
      dict_default_def pair_inputs_def example_card_def Let_def)
  then have "node_overloads (\<lambda>x. x) pair_inputs [(''a'', 500), (''b'', 500)] = Inr []" using pair_usable by simp
  moreover have "filter (\<lambda>n. \<not> dict_has pair_memory n) [''a'', ''b''] = []" by (simp add: pair_memory_def dict_has_def)
  moreover have "card_n_layers example_card = 8" "max_pipeline_split_layer example_card = None" "\<not> uses_cfg example_card"
    by (simp_all add: example_card_def)
  ultimately show ?thesis
    by (simp add: check_cycle_def pair_shares effective_pipeline_stage_count_def uses_cfg_parallel_def pair_inputs_def Let_def)
qed

theorem admitted_cycle_is_assigned_witness:
  "\<exists>sa. get_shard_assignments (\<lambda>x. x) (\<lambda>i. replicate i CHR ''r'') example_card [''a'', ''b''] Pipeline pair_memory [] = Inr sa \<and>
     assignment_ok [''a'', ''b''] sa \<and> covers_layers example_card (dict_values (runner_to_shard sa))"
proof -
  have kept: "filter_cycles_by_memory (\<lambda>x. x) pair_inputs [[''a'', ''b'']]
      = Inr ([[''a'', ''b'']], \<lparr>pending_info_node_ids = [], rejection_reasons = []\<rparr>)"
    by (simp add: filter_cycles_by_memory_def pair_fits)
  have fresh: "inj (\<lambda>i. replicate i CHR ''r'')" by (rule injI) (metis length_replicate)
  have q: "fit_sharding pair_inputs = Pipeline" "fit_exact pair_inputs" "fit_fixed pair_inputs = []" "0 \<le> fit_budget pair_inputs"
      "0 \<le> storage_size (fit_card pair_inputs)" "fit_card pair_inputs = example_card" "fit_memory pair_inputs = pair_memory" "fit_vram pair_inputs = []"
    by (simp_all add: pair_inputs_def example_card_def KV_CONTEXT_BUDGET_TOKENS_def)
  have small: "3 * int (card_n_layers (fit_card pair_inputs)) * sum_list (map (\<lambda>n. max 0 (usable_in (\<lambda>x. x) (fit_memory pair_inputs) (fit_vram pair_inputs) n))
      [''a'', ''b'']) < 2 ^ 53"
    by (simp add: q(6-8) pair_usable) (simp add: example_card_def)
  show ?thesis
    using admitted_cycle_is_assigned [OF exact_arith fresh kept _ _ _ q(1-5) small] unfolding q(6-8) by simp
qed

section \<open>The filter explains every rejection\<close>

lemma node_overloads_total:
  "storage_size (fit_card q) \<noteq> 0 \<Longrightarrow> \<exists>os. node_overloads fl q shares = Inr os"
proof (induction shares)
  case (Cons x shares)
  moreover have "\<exists>o'. node_overload fl q (fst x) (snd x) = Inr o'" using Cons.prems by (simp add: node_overload_def Let_def)
  ultimately show ?case by (cases x) auto
qed simp

lemma check_cycle_total:
  assumes "double_arith fl" "storage_size (fit_card q) \<noteq> 0" "cycle \<noteq> []" "fit_fixed q = []"
    "list_all (dict_has (fit_memory q)) cycle \<Longrightarrow> 3 * int (card_n_layers (fit_card q)) * sum_list (map (\<lambda>n. max 0 (usable_in fl (fit_memory q) (fit_vram q) n)) cycle) < 2 ^ 53"
  shows "\<exists>v. check_cycle fl q cycle = Inr v"
proof -
  let ?m = "fit_card q" and ?V = "\<lambda>n. max 0 (usable_in fl (fit_memory q) (fit_vram q) n)"
  let ?g = "pipeline_group ?m cycle"
  have "\<exists>shares. per_node_required_memory fl cycle (fit_memory q) ?m (fit_sharding q) (fit_vram q) (fit_exact q) [] = Inr shares"
    if mem: "list_all (dict_has (fit_memory q)) cycle"
      and stages: "fit_exact q \<and> fit_sharding q = Pipeline \<longrightarrow> length ?g \<le> card_n_layers ?m \<and>
        (case max_pipeline_split_layer ?m of Some limit \<Rightarrow> int (length ?g) - 1 \<le> int limit | None \<Rightarrow> True)"
  proof (cases "fit_exact q \<and> fit_sharding q = Pipeline \<and> sum_list (map ?V ?g) \<noteq> 0")
    case True
    have "0 \<le> sum_list (map ?V ?g)" by (intro sum_list_nonneg) auto
    then have pos: "0 < sum_list (map ?V ?g)" using True by simp
    have le: "sum_list (map ?V ?g) \<le> sum_list (map ?V cycle)"
      using sum_take_le [of "map ?V cycle" "length cycle div 2"] by (simp add: pipeline_group_def take_map)
    have small: "3 * int (card_n_layers ?m) * sum_list (map ?V ?g) < 2 ^ 53"
      using assms(5) [OF mem] mult_left_mono [OF le, of "3 * int (card_n_layers ?m)"] by simp
    obtain as where "allocate_pipeline_layers fl ?m (memory_fractions fl (map ?V ?g)) = Inr as"
      using memory_allocated [OF assms(1) pos _ _ small] stages True by blast
    then show ?thesis using mem True pos le
      by (auto simp: per_node_required_memory_def Let_def dict_default_def pipeline_group_def split: if_splits)
  next
    case False
    then show ?thesis using mem assms(3)
      by (cases "fit_sharding q") (auto simp: per_node_required_memory_def Let_def dict_default_def pipeline_group_def split: if_splits)
  qed
  note shares = this
  show ?thesis
  proof (rule ccontr)
    assume "\<not> ?thesis"
    then obtain e where e: "check_cycle fl q cycle = Inl e" by (cases "check_cycle fl q cycle") auto
    have mem: "list_all (dict_has (fit_memory q)) cycle"
      using e by (auto simp: check_cycle_def Let_def list_all_iff filter_empty_conv split: if_splits)
    have "fit_exact q \<and> fit_sharding q = Pipeline \<longrightarrow> length ?g \<le> card_n_layers ?m \<and>
        (case max_pipeline_split_layer ?m of Some limit \<Rightarrow> int (length ?g) - 1 \<le> int limit | None \<Rightarrow> True)"
      using e by (auto simp: check_cycle_def Let_def pipeline_group_simps(3) split: if_splits option.splits)
    from shares [OF mem this] obtain sh where
      "per_node_required_memory fl cycle (fit_memory q) ?m (fit_sharding q) (fit_vram q) (fit_exact q) [] = Inr sh" by blast
    then show False using e assms(4) node_overloads_total [OF assms(2), of fl sh]
      by (auto simp: check_cycle_def Let_def split: if_splits)
  qed
qed

fun rejected_cycle :: "cycle_rejection \<Rightarrow> node_id list" where
  "rejected_cycle (TooManyStages c _) = c"
| "rejected_cycle (UnsafeSplit c _ _) = c"
| "rejected_cycle (Overloaded c _) = c"

definition explained :: "cycle_diagnostics \<Rightarrow> node_id list \<Rightarrow> bool" where
  "explained diag c \<longleftrightarrow> c \<in> set (map rejected_cycle (rejection_reasons diag)) \<or> set c \<inter> set (pending_info_node_ids diag) \<noteq> {}"

lemma set_add_missing [simp]: "set (add_missing pending ns) = set pending \<union> set ns"
  by (induction ns arbitrary: pending) auto

lemma explained_mono:
  "explained diag c \<Longrightarrow> explained (diag\<lparr>pending_info_node_ids := add_missing (pending_info_node_ids diag) ns\<rparr>) c"
  "explained diag c \<Longrightarrow> explained (diag\<lparr>rejection_reasons := rejection_reasons diag @ [r]\<rparr>) c"
  by (auto simp: explained_def)

lemma verdict_explains:
  "check_cycle fl q c = Inr (MissingInfo ns) \<Longrightarrow> explained (diag\<lparr>pending_info_node_ids := add_missing (pending_info_node_ids diag) ns\<rparr>) c"
  "check_cycle fl q c = Inr (Rejected r) \<Longrightarrow> explained (diag\<lparr>rejection_reasons := rejection_reasons diag @ [r]\<rparr>) c"
  by (auto simp: check_cycle_def Let_def explained_def filter_empty_conv split: if_splits sum.splits)

lemma filter_cycles_explains:
  "\<forall>c \<in> set cycles. \<exists>v. check_cycle fl q c = Inr v \<Longrightarrow>
     \<exists>d. filter_cycles fl q cycles diag = Inr (filter (\<lambda>c. check_cycle fl q c = Inr Fits) cycles, d) \<and>
       (\<forall>c. explained diag c \<longrightarrow> explained d c) \<and> (\<forall>c \<in> set cycles. check_cycle fl q c = Inr Fits \<or> explained d c)"
proof (induction cycles arbitrary: diag)
  case (Cons c cycles)
  then obtain v where v: "check_cycle fl q c = Inr v" by auto
  show ?case
  proof (cases v)
    case (MissingInfo ns)
    then show ?thesis
      using Cons.IH [of "diag\<lparr>pending_info_node_ids := add_missing (pending_info_node_ids diag) ns\<rparr>"] Cons.prems v
        explained_mono(1) verdict_explains(1) [of fl q c ns diag] by fastforce
  next
    case (Rejected r)
    then show ?thesis
      using Cons.IH [of "diag\<lparr>rejection_reasons := rejection_reasons diag @ [r]\<rparr>"] Cons.prems v
        explained_mono(2) verdict_explains(2) [of fl q c r diag] by fastforce
  next
    case Fits
    then show ?thesis using Cons.IH [of diag] Cons.prems v by fastforce
  qed
qed simp

text \<open>The memory filter never raises and never drops a cycle silently.  For a model of nonzero size it returns the
  cycles that fit, in their order, and every other cycle either has a rejection reason of its own or contains a node
  that is listed as waiting for memory information.\<close>

theorem memory_filter_explains:
  assumes "double_arith fl" "storage_size (fit_card q) \<noteq> 0" "fit_fixed q = []" "[] \<notin> set cycles"
    "\<forall>c \<in> set cycles. list_all (dict_has (fit_memory q)) c \<longrightarrow> 3 * int (card_n_layers (fit_card q)) *
       sum_list (map (\<lambda>n. max 0 (usable_in fl (fit_memory q) (fit_vram q) n)) c) < 2 ^ 53"
  shows "\<exists>diag. filter_cycles_by_memory fl q cycles = Inr (filter (\<lambda>c. check_cycle fl q c = Inr Fits) cycles, diag) \<and>
    (\<forall>c \<in> set cycles. check_cycle fl q c = Inr Fits \<or> explained diag c)"
proof -
  have "\<forall>c \<in> set cycles. \<exists>v. check_cycle fl q c = Inr v"
    using check_cycle_total [OF assms(1,2) _ assms(3)] assms(4,5) by metis
  from filter_cycles_explains [OF this] show ?thesis unfolding filter_cycles_by_memory_def by blast
qed

theorem memory_filter_explains_witness:
  "\<exists>diag. filter_cycles_by_memory (\<lambda>x. x) pair_inputs [[''a'', ''b''], [''c'']] = Inr ([[''a'', ''b'']], diag) \<and> explained diag [''c'']"
proof -
  have "check_cycle (\<lambda>x. x) pair_inputs [''c''] = Inr (MissingInfo [''c''])"
    by (simp add: check_cycle_def pair_inputs_def pair_memory_def dict_has_def)
  moreover have q: "storage_size (fit_card pair_inputs) \<noteq> 0" "fit_fixed pair_inputs = []" by (simp_all add: pair_inputs_def example_card_def)
  have small: "\<forall>c \<in> set [[''a'', ''b''], [''c'']]. list_all (dict_has (fit_memory pair_inputs)) c \<longrightarrow> 3 * int (card_n_layers (fit_card pair_inputs)) *
       sum_list (map (\<lambda>n. max 0 (usable_in (\<lambda>x. x) (fit_memory pair_inputs) (fit_vram pair_inputs) n)) c) < 2 ^ 53"
    by (simp add: pair_inputs_def pair_usable) (simp add: pair_memory_def example_card_def dict_has_def)
  ultimately show ?thesis using memory_filter_explains [OF exact_arith q _ small] pair_fits by simp
qed

end
