(* ===== verification/Placement.thy ===== *)
theory Placement
  imports Placement_Search Shard_Assignment
begin

text \<open>
  \<open>place_instance\<close> and \<open>add_instance_to_placements\<close> of \<^verbatim>\<open>src/skulk/master/placement.py\<close>: memory admission of the
  candidate cycles, the choice of one, the shards and their backends, the context window, the listener ports and the
  instance that joins the placements.

  Identifiers and ports that the source draws at random are arguments: \<open>fresh\<close> gives the runner identifiers of the
  cycle's positions, \<open>draws k\<close> the numbers \<open>random.randint\<close> returns in the \<open>k\<close>-th search for a port.
\<close>

section \<open>Memory admission\<close>

definition standard_inputs :: "card_env \<Rightarrow> place_command \<Rightarrow> 'g placement_inputs \<Rightarrow> node_id list \<Rightarrow> fit_inputs" where
  "standard_inputs env cmd inp cycle =
     (let mcard = pc_model_card cmd; proj = projector_memory mcard;
          reported = List.map_filter (\<lambda>n. map_option (Pair n) (dict_get (known_resources inp) n)) cycle
      in \<lparr>fit_memory = in_memory inp, fit_card = mcard, fit_sharding = pc_sharding cmd, fit_budget = KV_CONTEXT_BUDGET_TOKENS,
          fit_vram = in_vram inp, fit_exact = True,
          fit_fixed = (if length cycle = 1 \<and> proj > 0 then [(hd cycle, proj)] else []),
          fit_backends = map (\<lambda>(n, r). (n, resolve_node_backend (card_platform_backends env mcard (Some r))
                                           (backend_preference mcard) (backends r))) reported,
          fit_settings = map (\<lambda>(n, r). (n, res_llama_settings r)) reported\<rparr>)"

text \<open>The driver of an RPC cycle: the most usable video memory after the projector, then the most downloaded.  Every
  node of the cycle is in the map here.\<close>

definition rpc_driver :: "(rat \<Rightarrow> rat) \<Rightarrow> place_command \<Rightarrow> 'g placement_inputs \<Rightarrow> node_id list \<Rightarrow> node_id" where
  "rpc_driver fl cmd inp cycle =
     max_key (\<lambda>n. (max 0 (dict_default 0 (in_vram inp) n - projector_memory (pc_model_card cmd)),
                   get_node_download_fraction fl n (card_model_id (pc_model_card cmd)) (in_downloads inp))) cycle"

definition rpc_inputs :: "place_command \<Rightarrow> 'g placement_inputs \<Rightarrow> node_id \<Rightarrow> node_id list \<Rightarrow> fit_inputs" where
  "rpc_inputs cmd inp driver cycle =
     (let proj = projector_memory (pc_model_card cmd)
      in \<lparr>fit_memory = in_memory inp, fit_card = pc_model_card cmd, fit_sharding = Pipeline, fit_budget = KV_CONTEXT_BUDGET_TOKENS,
          fit_vram = in_vram inp, fit_exact = False, fit_fixed = (if proj > 0 then [(driver, proj)] else []),
          fit_backends = map (\<lambda>n. (n, Some ''llama_server'')) cycle,
          fit_settings = map (\<lambda>n. (n, Option.bind (dict_get (known_resources inp) driver) res_llama_settings)) cycle\<rparr>)"

text \<open>Each cycle is tried on its own; the loop collects the cycles that fit and the reasons of the others.\<close>

fun admit_cycles ::
  "(rat \<Rightarrow> rat) \<Rightarrow> (node_id list \<Rightarrow> fit_inputs) \<Rightarrow> node_id list list \<Rightarrow> cycle_diagnostics
     \<Rightarrow> py_error + node_id list list \<times> cycle_diagnostics" where
  "admit_cycles fl inputs [] diag = Inr ([], diag)"
| "admit_cycles fl inputs (cycle # cycles) diag =
     bind_result (filter_cycles_by_memory fl (inputs cycle) [cycle]) (\<lambda>(fit, d).
       bind_result (admit_cycles fl inputs cycles
           \<lparr>pending_info_node_ids = add_missing (pending_info_node_ids diag) (pending_info_node_ids d),
            rejection_reasons = rejection_reasons diag @ rejection_reasons d\<rparr>) (\<lambda>(kept, d').
         Inr (fit @ kept, d')))"

definition rpc_cycle :: "card_env \<Rightarrow> place_command \<Rightarrow> 'g placement_inputs \<Rightarrow> node_id list \<Rightarrow> bool" where
  "rpc_cycle env cmd inp cycle = is_llama_rpc_cycle env cycle (pc_model_card cmd) (known_resources inp)"

definition admit_by_memory ::
  "(rat \<Rightarrow> rat) \<Rightarrow> card_env \<Rightarrow> place_command \<Rightarrow> 'g placement_inputs \<Rightarrow> node_id list list \<Rightarrow> py_error + node_id list list" where
  "admit_by_memory fl env cmd inp candidates =
     (let rpc = filter (rpc_cycle env cmd inp) candidates;
          standard = filter (\<lambda>c. \<not> rpc_cycle env cmd inp c) candidates;
          known = filter (\<lambda>c. list_all (dict_has (in_vram inp)) c) rpc;
          vram_pending = sorted_list_of_set (set (filter (\<lambda>n. \<not> dict_has (in_vram inp) n) (concat rpc)))
      in bind_result (admit_cycles fl (standard_inputs env cmd inp) standard \<lparr>pending_info_node_ids = [], rejection_reasons = []\<rparr>)
           (\<lambda>(standard_fit, d).
         bind_result (admit_cycles fl (\<lambda>c. rpc_inputs cmd inp (rpc_driver fl cmd inp c) c) known d) (\<lambda>(rpc_fit, d').
           nonempty_or (if add_missing (pending_info_node_ids d') vram_pending \<noteq> [] then PlacementInfoPendingError else PlacementError)
             (standard_fit @ rpc_fit))))"

section \<open>Choosing a cycle\<close>

definition shardable_cycles :: "place_command \<Rightarrow> node_id list list \<Rightarrow> py_error + node_id list list" where
  "shardable_cycles cmd cycles =
     (let mcard = pc_model_card cmd
      in if pc_sharding cmd = Tensor
         then if \<not> supports_tensor mcard then Inl PlacementError
              else nonempty_or PlacementError (filter (\<lambda>c. hidden_size mcard mod length c = 0 \<and>
                     (case num_key_value_heads mcard of None \<Rightarrow> True | Some h \<Rightarrow> h mod length c = 0)) cycles)
         else if card_model_id mcard = ''mlx-community/DeepSeek-V3.1-8bit'' then Inl PlacementError
         else Inr cycles)"

definition preferred_cycles :: "'g rx_ops \<Rightarrow> place_command \<Rightarrow> 'g topology \<Rightarrow> node_id list list \<Rightarrow> py_error + node_id list list" where
  "preferred_cycles rx cmd t cycles =
     bind_result (get_smallest_cycles cycles) (\<lambda>smallest.
       if list_ex (\<lambda>c. is_rdma_cycle rx c t = None) smallest then Inl KeyError
       else let rdma = filter (\<lambda>c. is_rdma_cycle rx c t = Some True) smallest
            in bind_result (if pc_instance_meta cmd = MlxJaccl then nonempty_or PlacementError rdma else Inr smallest) (\<lambda>chosen.
                 let leaf = filter (\<lambda>c. list_ex (\<lambda>n. node_is_leaf rx n t) c) chosen
                 in Inr (if leaf \<noteq> [] then leaf else chosen)))"

text \<open>Every node of an admitted cycle has memory information.\<close>

definition cycle_score ::
  "(rat \<Rightarrow> rat) \<Rightarrow> place_command \<Rightarrow> 'g placement_inputs \<Rightarrow> node_id list \<Rightarrow> nat \<times> rat \<times> nat \<times> memory" where
  "cycle_score fl cmd inp cycle =
     (let mcard = pc_model_card cmd; resources = known_resources inp
      in (cycle_backend_preference_score cycle resources (backend_preference mcard),
          cycle_download_score fl cycle (card_model_id mcard) (in_downloads inp),
          cycle_engine_ready_score cycle resources (compatible_backends mcard),
          sum_list (map (\<lambda>n. ram_available (the (dict_get (in_memory inp) n))) cycle)))"

definition select_cycle ::
  "(rat \<Rightarrow> rat) \<Rightarrow> card_env \<Rightarrow> 'g rx_ops \<Rightarrow> place_command \<Rightarrow> 'g placement_inputs \<Rightarrow> py_error + node_id list" where
  "select_cycle fl env rx cmd inp =
     bind_result (candidate_cycles env rx cmd inp) (\<lambda>candidates.
     bind_result (admit_by_memory fl env cmd inp candidates) (\<lambda>admitted.
     bind_result (shardable_cycles cmd admitted) (\<lambda>shardable.
     bind_result (preferred_cycles rx cmd (in_topology inp) shardable) (\<lambda>preferred.
       Inr (max_key (cycle_score fl cmd inp) preferred)))))"

section \<open>Stamping the shards\<close>

fun update_shard :: "(base_shard \<Rightarrow> base_shard) \<Rightarrow> shard_metadata \<Rightarrow> shard_metadata" where
  "update_shard f (PipelineShardMetadata b) = PipelineShardMetadata (f b)"
| "update_shard f (CfgShardMetadata b a c d e) = CfgShardMetadata (f b) a c d e"
| "update_shard f (TensorShardMetadata b) = TensorShardMetadata (f b)"
| "update_shard f (RpcDonorShardMetadata b) = RpcDonorShardMetadata (f b)"

fun is_rpc_donor :: "shard_metadata \<Rightarrow> bool" where
  "is_rpc_donor (RpcDonorShardMetadata _) = True"
| "is_rpc_donor _ = False"

text \<open>A loop over \<open>node_to_runner\<close> that rewrites the shards; \<open>f\<close> gives the new shard of a node.\<close>

fun rewrite_shards ::
  "(node_id \<Rightarrow> shard_metadata \<Rightarrow> py_error + shard_metadata) \<Rightarrow> (node_id \<times> runner_id) list
     \<Rightarrow> (runner_id, shard_metadata) dict \<Rightarrow> py_error + (runner_id, shard_metadata) dict" where
  "rewrite_shards f [] shards = Inr shards"
| "rewrite_shards f ((node, runner) # rest) shards =
     (case dict_get shards runner of
        None \<Rightarrow> Inl KeyError
      | Some shard \<Rightarrow> bind_result (f node shard) (\<lambda>s. rewrite_shards f rest (dict_set runner s shards)))"

definition with_shards :: "shard_assignments \<Rightarrow> (node_id \<Rightarrow> shard_metadata \<Rightarrow> py_error + shard_metadata) \<Rightarrow> py_error + shard_assignments" where
  "with_shards sa f =
     bind_result (rewrite_shards f (node_to_runner sa) (runner_to_shard sa)) (\<lambda>shards. Inr (sa\<lparr>runner_to_shard := shards\<rparr>))"

definition stamped_settings ::
  "(node_id, node_resources) dict \<Rightarrow> bool \<Rightarrow> node_id \<Rightarrow> shard_metadata \<Rightarrow> py_error + shard_metadata" where
  "stamped_settings resources donors node shard =
     (let b = shard_base shard; geometry = (cache_geometry (shard_card b) \<noteq> None);
          settings = Option.bind (dict_get resources node) res_llama_settings
      in if is_rpc_donor shard then Inr shard
         else if resolved_backend b = None \<and> geometry \<and> \<not> donors then Inl PlacementError
         else if \<not> donors \<and> (case resolved_backend b of None \<Rightarrow> True | Some t \<Rightarrow> \<not> startswith t ''llama_server'') then Inr shard
         else if settings = None \<and> geometry then Inl PlacementError
         else Inr (update_shard (\<lambda>b. b\<lparr>llama_server_settings := settings\<rparr>) shard))"

definition stamp_llama_server_settings ::
  "shard_assignments \<Rightarrow> (node_id, node_resources) dict \<Rightarrow> py_error + shard_assignments" where
  "stamp_llama_server_settings sa resources =
     with_shards sa (stamped_settings resources (list_ex is_rpc_donor (dict_values (runner_to_shard sa))))"

definition stamped_backend ::
  "card_env \<Rightarrow> place_command \<Rightarrow> (node_id, node_resources) dict \<Rightarrow> bool \<Rightarrow> string option \<Rightarrow> node_id \<Rightarrow> shard_metadata
     \<Rightarrow> py_error + shard_metadata" where
  "stamped_backend env cmd resources rpc rpc_backend node shard =
     (case dict_get resources node of
        None \<Rightarrow> Inr shard
      | Some r \<Rightarrow>
          (let mcard = pc_model_card cmd; platform = card_platform_backends env mcard (Some r);
               compatible = (if \<not> rpc then platform
                             else case rpc_backend of Some tag \<Rightarrow> [tag]
                                | None \<Rightarrow> filter (\<lambda>tag. engine_of tag = Some ''llama_server'') platform)
           in case resolve_node_backend compatible (backend_preference mcard) (backends r) of
                None \<Rightarrow> Inr shard
              | Some tag \<Rightarrow>
                  if card_music mcard = None then Inr (update_shard (\<lambda>b. b\<lparr>resolved_backend := Some tag\<rparr>) shard)
                  else case dict_get (engine_builds r) tag of
                         None \<Rightarrow> Inl PlacementError
                       | Some build \<Rightarrow>
                           Inr (update_shard (\<lambda>b. b\<lparr>resolved_backend := Some tag, resolved_engine_build := Some build\<rparr>) shard)))"

section \<open>Context window and ports\<close>

definition served_context_window :: "shard_assignments \<Rightarrow> int option \<Rightarrow> int option \<Rightarrow> int option \<Rightarrow> py_error + int option" where
  "served_context_window sa cap requested served_default =
     (case requested of
        Some r \<Rightarrow> if (case cap of Some c \<Rightarrow> r > c | None \<Rightarrow> False) then Inl PlacementError else Inr (Some r)
      | None \<Rightarrow>
          (case served_default of
             Some d \<Rightarrow> if list_ex shard_preallocates_kv_upfront (dict_values (runner_to_shard sa))
                       then Inr (Some (opt_min cap d)) else Inr cap
           | None \<Rightarrow> Inr cap))"

definition random_ephemeral_port :: "int list \<Rightarrow> int list \<Rightarrow> py_error + int" where
  "random_ephemeral_port draws in_use =
     (case find (\<lambda>p. p \<notin> set in_use) (take 64 draws) of
        Some p \<Rightarrow> Inr p
      | None \<Rightarrow> (case find (\<lambda>p. p \<notin> set in_use) [24000..31999] of Some p \<Rightarrow> Inr p | None \<Rightarrow> Inl PlacementError))"

text \<open>\<open>endpoint.rpartition(":")\<close> and \<open>int(port_text)\<close> where \<open>port_text.isdigit()\<close>\<close>

definition endpoint_port :: "string \<Rightarrow> nat option" where
  "endpoint_port s = parse_base 10 decimal_digit (rev (takeWhile (\<lambda>c. c \<noteq> CHR '':'') (rev s)))"

fun instance_ports :: "instance_t \<Rightarrow> int list" where
  "instance_ports (MlxRingInstance _ _ p) = [p]"
| "instance_ports (MlxJacclInstance _ _ coordinators) = map int (List.map_filter endpoint_port (dict_values coordinators))"
| "instance_ports (LlamaRpcInstance _ _ endpoints) = map int (List.map_filter endpoint_port (dict_values endpoints))"

definition listener_ports_in_use :: "(instance_id, instance_t) dict \<Rightarrow> int list" where
  "listener_ports_in_use insts = concat (map instance_ports (dict_values insts))"

fun donor_ports :: "(nat \<Rightarrow> int list) \<Rightarrow> nat \<Rightarrow> int list \<Rightarrow> node_id list \<Rightarrow> py_error + (node_id, nat) dict" where
  "donor_ports draws k used [] = Inr []"
| "donor_ports draws k used (n # ns) =
     bind_result (random_ephemeral_port (draws k) used) (\<lambda>p.
     bind_result (donor_ports draws (k + 1) (p # used) ns) (\<lambda>rest. Inr ((n, nat p) # rest)))"

section \<open>The instance\<close>

text \<open>The validator of \<open>BaseInstance\<close> fills in a missing context limit.\<close>

definition backfill_context_token_limit :: "base_instance \<Rightarrow> base_instance" where
  "backfill_context_token_limit b =
     (case (bi_context_token_limit b, dict_values (runner_to_shard (bi_shard_assignments b))) of
        (None, shard # _) \<Rightarrow>
          (let len = card_context_length (shard_card (shard_base shard))
           in if shard_preallocates_kv_upfront shard
              then b\<lparr>bi_context_token_limit := Some (if len > 0 then min len KV_CONTEXT_BUDGET_TOKENS else KV_CONTEXT_BUDGET_TOKENS)\<rparr>
              else if len > 0 then b\<lparr>bi_context_token_limit := Some len\<rparr> else b)
      | _ \<Rightarrow> b)"

definition new_base :: "place_command \<Rightarrow> 'g placement_inputs \<Rightarrow> shard_assignments \<Rightarrow> int option \<Rightarrow> base_instance" where
  "new_base cmd inp sa limit =
     backfill_context_token_limit \<lparr>bi_instance_id = pc_command_id cmd, bi_shard_assignments = sa, bi_context_token_limit = limit,
       bi_excluded_nodes = sorted_list_of_set (set (case in_stamped inp of Some s \<Rightarrow> s | None \<Rightarrow> in_excluded inp)),
       bi_system_role = pc_system_role cmd, bi_requested_context_tokens = pc_requested_context_tokens cmd\<rparr>"

definition of_cycle :: "('v \<Rightarrow> 'w) \<Rightarrow> (node_id, 'v) dict \<Rightarrow> node_id list \<Rightarrow> (node_id, 'w) dict" where
  "of_cycle f d cycle = List.map_filter (\<lambda>n. map_option (\<lambda>v. (n, f v)) (dict_get d n)) cycle"

text \<open>The limit that is stamped on the placement of a cycle; every node of it has memory information.\<close>

definition placement_window ::
  "(rat \<Rightarrow> rat) \<Rightarrow> place_command \<Rightarrow> 'g placement_inputs \<Rightarrow> node_id list \<Rightarrow> node_id option \<Rightarrow> shard_assignments
     \<Rightarrow> py_error + int option" where
  "placement_window fl cmd inp cycle driver sa =
     (let proj = projector_memory (pc_model_card cmd);
          fixed = (case driver of
              Some d \<Rightarrow> if proj > 0 then [(d, proj)] else if length cycle = 1 \<and> proj > 0 then [(hd cycle, proj)] else []
            | None \<Rightarrow> if length cycle = 1 \<and> proj > 0 then [(hd cycle, proj)] else [])
      in served_context_window sa
           (instance_context_token_limit fl sa (of_cycle ram_total (in_memory inp) cycle) (in_vram inp) (in_unified inp) fixed
              (of_cycle ram_available (in_memory inp) cycle))
           (pc_requested_context_tokens cmd) (in_served_default inp))"

definition assigned_shards ::
  "(rat \<Rightarrow> rat) \<Rightarrow> card_env \<Rightarrow> (nat \<Rightarrow> runner_id) \<Rightarrow> place_command \<Rightarrow> 'g placement_inputs \<Rightarrow> node_id list \<Rightarrow> node_id option
     \<Rightarrow> py_error + shard_assignments" where
  "assigned_shards fl env fresh cmd inp cycle driver =
     (let mcard = pc_model_card cmd; resources = known_resources inp;
          tags = common_served_accelerator_tags env cycle mcard resources;
          rpc_backend = (if driver \<noteq> None \<and> projector_memory mcard > 0
                         then resolve_node_backend tags (backend_preference mcard) tags else None)
      in bind_result (case driver of
             Some d \<Rightarrow> get_shard_assignments_for_llama_rpc fresh mcard cycle d
           | None \<Rightarrow> get_shard_assignments fl fresh mcard cycle (pc_sharding cmd) (in_memory inp) (in_vram inp)) (\<lambda>sa.
         bind_result (with_shards sa (stamped_backend env cmd resources (driver \<noteq> None) rpc_backend)) (\<lambda>sa'.
           stamp_llama_server_settings sa' resources)))"

definition zero_rank_nodes :: "shard_assignments \<Rightarrow> node_id list \<Rightarrow> node_id list" where
  "zero_rank_nodes sa cycle =
     filter (\<lambda>n. device_rank (shard_base (shard_of sa (the (dict_get (node_to_runner sa) n)))) = 0) cycle"

definition build_instance ::
  "'g rx_ops \<Rightarrow> (nat \<Rightarrow> int list) \<Rightarrow> place_command \<Rightarrow> 'g placement_inputs \<Rightarrow> node_id list \<Rightarrow> node_id option
     \<Rightarrow> shard_assignments \<Rightarrow> int option \<Rightarrow> py_error + instance_t" where
  "build_instance rx draws cmd inp cycle driver sa limit =
     (let digraph = get_subgraph_from_nodes rx cycle (in_topology inp); base = new_base cmd inp sa limit;
          used = listener_ports_in_use (in_instances inp)
      in case driver of
           Some d \<Rightarrow>
             bind_result (donor_ports draws 0 used (filter (\<lambda>n. n \<noteq> d) cycle)) (\<lambda>ports.
             bind_result (get_llama_rpc_donor_endpoints rx cycle d digraph (in_network inp) ports) (\<lambda>endpoints.
               Inr (LlamaRpcInstance base d endpoints)))
         | None \<Rightarrow>
             (case pc_instance_meta cmd of
                LlamaRpc \<Rightarrow> Inl PlacementError
              | MlxJaccl \<Rightarrow>
                  (case zero_rank_nodes sa cycle of
                     [coordinator] \<Rightarrow>
                       bind_result (get_mlx_jaccl_devices_matrix rx cycle digraph) (\<lambda>devices.
                       bind_result (random_ephemeral_port (draws 0) used) (\<lambda>p.
                       bind_result (get_mlx_jaccl_coordinators rx coordinator (nat p) digraph (in_network inp)) (\<lambda>coordinators.
                         Inr (MlxJacclInstance base devices coordinators))))
                   | _ \<Rightarrow> Inl AssertionError)
              | MlxRing \<Rightarrow>
                  bind_result (random_ephemeral_port (draws 0) used) (\<lambda>p.
                  bind_result (get_mlx_ring_hosts_by_node rx cycle digraph p (in_network inp)) (\<lambda>hosts.
                    Inr (MlxRingInstance base hosts p)))))"

text \<open>A single node always runs a pipeline of one rank, whatever was asked for.\<close>

definition coerce_command :: "place_command \<Rightarrow> node_id list \<Rightarrow> place_command" where
  "coerce_command cmd cycle = (if length cycle = 1 then cmd\<lparr>pc_instance_meta := MlxRing, pc_sharding := Pipeline\<rparr> else cmd)"

text \<open>The driver of a chosen RPC cycle is the one it was admitted with.\<close>

definition place_on_cycle ::
  "(rat \<Rightarrow> rat) \<Rightarrow> card_env \<Rightarrow> 'g rx_ops \<Rightarrow> (nat \<Rightarrow> runner_id) \<Rightarrow> (nat \<Rightarrow> int list) \<Rightarrow> place_command \<Rightarrow> 'g placement_inputs
     \<Rightarrow> node_id list \<Rightarrow> py_error + instance_t" where
  "place_on_cycle fl env rx fresh draws cmd inp cycle =
     (let rpc = rpc_cycle env cmd inp cycle; driver = (if rpc then Some (rpc_driver fl cmd inp cycle) else None)
      in if pc_instance_meta cmd = LlamaRpc \<and> \<not> rpc then Inl PlacementError
         else bind_result (assigned_shards fl env fresh cmd inp cycle driver) (\<lambda>sa.
              bind_result (placement_window fl cmd inp cycle driver sa) (\<lambda>limit.
                build_instance rx draws cmd inp cycle driver sa limit)))"

definition place_instance ::
  "(rat \<Rightarrow> rat) \<Rightarrow> card_env \<Rightarrow> 'g rx_ops \<Rightarrow> (nat \<Rightarrow> runner_id) \<Rightarrow> (nat \<Rightarrow> int list) \<Rightarrow> place_command \<Rightarrow> 'g placement_inputs
     \<Rightarrow> py_error + (instance_id, instance_t) dict" where
  "place_instance fl env rx fresh draws cmd inp =
     (if card_music (pc_model_card cmd) \<noteq> None \<and> pc_min_nodes cmd \<noteq> 1 then Inl PlacementError
      else bind_result (select_cycle fl env rx cmd inp) (\<lambda>cycle.
           bind_result (place_on_cycle fl env rx fresh draws (coerce_command cmd cycle) inp cycle) (\<lambda>i.
             Inr (dict_set (pc_command_id cmd) i (in_instances inp)))))"

end
