(* ===== verification/Placement_Proofs.thy ===== *)
theory Placement_Proofs
  imports Placement
begin

text \<open>
  What a placement promises.  Every filter of the candidate search narrows the list of cycles to those with one
  property, or raises; the locale \<open>cycle_phase\<close> states that contract, the search composes it.
\<close>

section \<open>The search narrows\<close>

locale cycle_phase =
  fixes phase :: "node_id list list \<Rightarrow> py_error + node_id list list" and keeps :: "node_id list \<Rightarrow> bool"
  assumes narrows: "cs \<noteq> [] \<Longrightarrow> phase cs = Inr cs' \<Longrightarrow> cs' \<noteq> [] \<and> set cs' \<subseteq> set cs \<and> (\<forall>c \<in> set cs'. keeps c)"
begin

lemma kept: "cs \<noteq> [] \<Longrightarrow> phase cs = Inr cs' \<Longrightarrow> c \<in> set cs' \<Longrightarrow> c \<in> set cs \<and> keeps c"
  using narrows by blast

lemma nonempty: "cs \<noteq> [] \<Longrightarrow> phase cs = Inr cs' \<Longrightarrow> cs' \<noteq> []"
  using narrows by blast

end

text \<open>Two phases in sequence are a phase.\<close>

lemma phases_compose:
  assumes "cycle_phase p P" "cycle_phase q Q"
  shows "cycle_phase (\<lambda>cs. bind_result (p cs) q) (\<lambda>c. P c \<and> Q c)"
proof
  fix cs cs' :: "node_id list list"
  assume "cs \<noteq> []" "bind_result (p cs) q = Inr cs'"
  then obtain mid where mid: "p cs = Inr mid" "q mid = Inr cs'" by auto
  have m: "mid \<noteq> []" "set mid \<subseteq> set cs" "\<forall>c \<in> set mid. P c" using cycle_phase.narrows [OF assms(1) \<open>cs \<noteq> []\<close> mid(1)] by auto
  show "cs' \<noteq> [] \<and> set cs' \<subseteq> set cs \<and> (\<forall>c \<in> set cs'. P c \<and> Q c)"
    using cycle_phase.narrows [OF assms(2) m(1) mid(2)] m by blast
qed

lemma phase_weaken: "cycle_phase p P \<Longrightarrow> (\<And>c. P c \<Longrightarrow> Q c) \<Longrightarrow> cycle_phase p Q"
  unfolding cycle_phase_def by blast

lemma touches_iff: "touches cycle nodes \<longleftrightarrow> set cycle \<inter> set nodes \<noteq> {}"
  by (auto simp: touches_def list_ex_iff)

interpretation excluded: cycle_phase "drop_excluded inp" "\<lambda>c. set c \<inter> set (in_excluded inp) = {}" for inp
  by unfold_locales (auto simp: drop_excluded_def touches_iff split: if_splits)

interpretation isolated: cycle_phase "drop_isolated rx inp"
  "\<lambda>c. set c \<inter> set (zenoh_isolated_nodes (list_nodes rx (in_topology inp)) (known_resources inp)) = {}" for rx inp
  by unfold_locales (auto simp: drop_isolated_def touches_iff Let_def split: if_splits)

text \<open>A node that may hold a shard: it takes part in inference and advertises a backend of the card, or has not
  reported yet while the card names its backends.\<close>

definition eligible_node :: "card_env \<Rightarrow> model_card \<Rightarrow> (node_id, node_resources) dict \<Rightarrow> node_id \<Rightarrow> bool" where
  "eligible_node env mcard resources n =
     (case dict_get resources n of
        None \<Rightarrow> compatible_backends mcard \<noteq> []
      | Some r \<Rightarrow> participation r = ''full'' \<and> backend_capable env mcard r)"

interpretation ineligible: cycle_phase "drop_ineligible env rx cmd inp"
  "\<lambda>c. \<forall>n \<in> set c. n \<in> set (list_nodes rx (in_topology inp)) \<longrightarrow> eligible_node env (pc_model_card cmd) (known_resources inp) n"
  for env rx cmd inp
proof unfold_locales
  fix cs cs' :: "node_id list list"
  let ?ok = "eligible_node env (pc_model_card cmd) (known_resources inp)"
  let ?nodes = "list_nodes rx (in_topology inp)"
  let ?bad = "filter (\<lambda>n. case dict_get (known_resources inp) n of None \<Rightarrow> False
      | Some r \<Rightarrow> participation r \<noteq> ''full'' \<or> \<not> backend_capable env (pc_model_card cmd) r) ?nodes
    @ filter (\<lambda>n. case dict_get (known_resources inp) n of None \<Rightarrow> compatible_backends (pc_model_card cmd) = [] | Some r \<Rightarrow> False) ?nodes"
  assume "cs \<noteq> []" "drop_ineligible env rx cmd inp cs = Inr cs'"
  then have sub: "cs' \<noteq> []" "set cs' \<subseteq> {c \<in> set cs. set c \<inter> set ?bad = {}}"
    unfolding drop_ineligible_def Let_def by (auto simp: touches_iff simp del: set_append split: if_splits)
  have bad: "set ?bad = {n \<in> set ?nodes. \<not> ?ok n}"
    by (auto simp: eligible_node_def split: option.splits)
  show "cs' \<noteq> [] \<and> set cs' \<subseteq> set cs \<and> (\<forall>c \<in> set cs'. \<forall>n \<in> set c. n \<in> set ?nodes \<longrightarrow> ?ok n)"
    using sub unfolding bad by blast
qed

interpretation common_engine: cycle_phase "require_common_engine env cmd inp"
  "\<lambda>c. (compatible_backends (pc_model_card cmd) \<noteq> [] \<or> registry_card_id (pc_model_card cmd) \<noteq> None) \<and> length c \<noteq> 1 \<longrightarrow>
     cycle_common_multi_node_engines env c (pc_model_card cmd) (known_resources inp) \<noteq> []" for env cmd inp
  by unfold_locales (auto simp: require_common_engine_def Let_def split: if_splits)

interpretation tensor: cycle_phase "drop_rpc_for_tensor env cmd inp" "\<lambda>c. pc_sharding cmd = Tensor \<longrightarrow> \<not> rpc_cycle env cmd inp c"
  for env cmd inp
  by unfold_locales (auto simp: drop_rpc_for_tensor_def rpc_cycle_def split: if_splits)

interpretation vision: cycle_phase "qualify_vision_rpc env cmd inp"
  "\<lambda>c. projector_memory (pc_model_card cmd) > 0 \<and> rpc_cycle env cmd inp c \<longrightarrow>
     common_served_accelerator_tags env c (pc_model_card cmd) (known_resources inp) \<noteq> []" for env cmd inp
  by unfold_locales (auto simp: qualify_vision_rpc_def rpc_cycle_def Let_def split: if_splits)

interpretation required: cycle_phase "require_nodes inp" "\<lambda>c. set (in_required inp) \<subseteq> set c" for inp
  by unfold_locales (auto simp: require_nodes_def list_all_iff split: if_splits)

interpretation shardable: cycle_phase "shardable_cycles cmd"
  "\<lambda>c. pc_sharding cmd = Tensor \<longrightarrow> supports_tensor (pc_model_card cmd) \<and> hidden_size (pc_model_card cmd) mod length c = 0" for cmd
  by unfold_locales (auto simp: shardable_cycles_def Let_def split: if_splits)

interpretation preferred: cycle_phase "preferred_cycles rx cmd t"
  "\<lambda>c. pc_instance_meta cmd = MlxJaccl \<longrightarrow> is_rdma_cycle rx c t = Some True" for rx cmd t
proof unfold_locales
  fix cs cs' :: "node_id list list"
  assume cs: "cs \<noteq> []" and run: "preferred_cycles rx cmd t cs = Inr cs'"
  have "Min (length ` set cs) \<in> length ` set cs" using cs by (intro Min_in) auto
  then have "filter (\<lambda>c. length c = Min (length ` set cs)) cs \<noteq> []" by (auto simp: filter_empty_conv)
  then show "cs' \<noteq> [] \<and> set cs' \<subseteq> set cs \<and> (\<forall>c \<in> set cs'. pc_instance_meta cmd = MlxJaccl \<longrightarrow> is_rdma_cycle rx c t = Some True)"
    using run by (auto simp: preferred_cycles_def get_smallest_cycles_def Let_def split: if_splits)
qed

text \<open>The candidate filters after the first, as one phase.\<close>

definition candidate_ok :: "card_env \<Rightarrow> 'g rx_ops \<Rightarrow> place_command \<Rightarrow> 'g placement_inputs \<Rightarrow> node_id list \<Rightarrow> bool" where
  "candidate_ok env rx cmd inp c \<longleftrightarrow> set c \<inter> set (in_excluded inp) = {} \<and>
     set c \<inter> set (zenoh_isolated_nodes (list_nodes rx (in_topology inp)) (known_resources inp)) = {} \<and>
     (\<forall>n \<in> set c. n \<in> set (list_nodes rx (in_topology inp)) \<longrightarrow> eligible_node env (pc_model_card cmd) (known_resources inp) n) \<and>
     ((compatible_backends (pc_model_card cmd) \<noteq> [] \<or> registry_card_id (pc_model_card cmd) \<noteq> None) \<and> length c \<noteq> 1 \<longrightarrow>
        cycle_common_multi_node_engines env c (pc_model_card cmd) (known_resources inp) \<noteq> []) \<and>
     (pc_sharding cmd = Tensor \<longrightarrow> \<not> rpc_cycle env cmd inp c) \<and> set (in_required inp) \<subseteq> set c"

definition narrow_candidates ::
  "card_env \<Rightarrow> 'g rx_ops \<Rightarrow> place_command \<Rightarrow> 'g placement_inputs \<Rightarrow> node_id list list \<Rightarrow> py_error + node_id list list" where
  "narrow_candidates env rx cmd inp cs =
     bind_result (bind_result (bind_result (bind_result (bind_result (bind_result
       (drop_excluded inp cs) (drop_isolated rx inp)) (drop_ineligible env rx cmd inp)) (require_common_engine env cmd inp))
       (drop_rpc_for_tensor env cmd inp)) (qualify_vision_rpc env cmd inp)) (require_nodes inp)"

lemma candidate_cycles_narrow: "candidate_cycles env rx cmd inp = bind_result (initial_candidates rx cmd inp) (narrow_candidates env rx cmd inp)"
  by (cases "initial_candidates rx cmd inp") (simp_all add: candidate_cycles_def narrow_candidates_def bind_result_simps)

interpretation narrowed: cycle_phase "narrow_candidates env rx cmd inp" "candidate_ok env rx cmd inp" for env rx cmd inp
proof -
  note seq = phases_compose [OF phases_compose [OF phases_compose [OF phases_compose [OF phases_compose [OF phases_compose [OF
    excluded.cycle_phase_axioms [of inp] isolated.cycle_phase_axioms [of rx inp]] ineligible.cycle_phase_axioms [of env rx cmd inp]]
    common_engine.cycle_phase_axioms [of env cmd inp]] tensor.cycle_phase_axioms [of env cmd inp]]
    vision.cycle_phase_axioms [of env cmd inp]] required.cycle_phase_axioms [of inp]]
  have "cycle_phase (\<lambda>cs. narrow_candidates env rx cmd inp cs) (candidate_ok env rx cmd inp)"
    unfolding narrow_candidates_def by (rule phase_weaken [OF seq]) (simp add: candidate_ok_def)
  then show "cycle_phase (narrow_candidates env rx cmd inp) (candidate_ok env rx cmd inp)" by simp
qed

lemma candidates_ok:
  assumes "candidate_cycles env rx cmd inp = Inr cs" "c \<in> set cs"
  shows "c \<in> set (get_cycles rx (in_topology inp))" "pc_min_nodes cmd \<le> int (length c)" "candidate_ok env rx cmd inp c"
    "card_music (pc_model_card cmd) \<noteq> None \<longrightarrow> length c = 1"
proof -
  obtain first where first: "initial_candidates rx cmd inp = Inr first" "narrow_candidates env rx cmd inp first = Inr cs"
    using assms(1) by (auto simp: candidate_cycles_narrow)
  then have ne: "first \<noteq> []" and sub: "\<forall>c \<in> set first. c \<in> set (get_cycles rx (in_topology inp)) \<and> pc_min_nodes cmd \<le> int (length c)
      \<and> (card_music (pc_model_card cmd) \<noteq> None \<longrightarrow> length c = 1)"
    by (auto simp: initial_candidates_def Let_def)
  show "c \<in> set (get_cycles rx (in_topology inp))" "pc_min_nodes cmd \<le> int (length c)" "candidate_ok env rx cmd inp c"
    "card_music (pc_model_card cmd) \<noteq> None \<longrightarrow> length c = 1"
    using narrowed.kept [OF ne first(2) assms(2)] sub by auto
qed

section \<open>The chosen cycle\<close>

lemma max_key_mem:
  fixes key :: "'a \<Rightarrow> 'k :: linorder"
  assumes "xs \<noteq> []"
  shows "max_key key xs \<in> set xs"
proof -
  have "foldl (\<lambda>b x. if key b < key x then x else b) b ys \<in> insert b (set ys)" for b ys
    by (induction ys arbitrary: b) (auto split: if_splits)
  then show ?thesis using assms unfolding max_key_def by (cases xs) auto
qed

text \<open>What memory admission establishes of a cycle.\<close>

definition memory_checked :: "(rat \<Rightarrow> rat) \<Rightarrow> card_env \<Rightarrow> place_command \<Rightarrow> 'g placement_inputs \<Rightarrow> node_id list \<Rightarrow> bool" where
  "memory_checked fl env cmd inp c \<longleftrightarrow>
     check_cycle fl (if rpc_cycle env cmd inp c then rpc_inputs cmd inp (rpc_driver fl cmd inp c) c else standard_inputs env cmd inp c) c
       = Inr Fits"

lemma admit_cycles_kept:
  "admit_cycles fl inputs cycles diag = Inr (kept, d) \<Longrightarrow> c \<in> set kept \<Longrightarrow> c \<in> set cycles \<and> check_cycle fl (inputs c) c = Inr Fits"
proof (induction cycles arbitrary: diag kept)
  case (Cons x xs)
  then obtain fit dx rest diag' where run: "filter_cycles_by_memory fl (inputs x) [x] = Inr (fit, dx)"
      "admit_cycles fl inputs xs diag' = Inr (rest, d)" "kept = fit @ rest"
    by auto
  then show ?case
    using Cons.IH [OF run(2)] filter_cycles_kept [of fl "inputs x" "[x]" _ fit dx c] Cons.prems(2)
    by (auto simp: filter_cycles_by_memory_def)
qed simp

interpretation admitted: cycle_phase "admit_by_memory fl env cmd inp" "memory_checked fl env cmd inp" for fl env cmd inp
proof unfold_locales
  fix cs cs' :: "node_id list list"
  assume "admit_by_memory fl env cmd inp cs = Inr cs'"
  then obtain sfit d rfit d' where run:
      "admit_cycles fl (standard_inputs env cmd inp) (filter (\<lambda>c. \<not> rpc_cycle env cmd inp c) cs)
         \<lparr>pending_info_node_ids = [], rejection_reasons = []\<rparr> = Inr (sfit, d)"
      "admit_cycles fl (\<lambda>c. rpc_inputs cmd inp (rpc_driver fl cmd inp c) c)
         (filter (\<lambda>c. list_all (dict_has (in_vram inp)) c) (filter (rpc_cycle env cmd inp) cs)) d = Inr (rfit, d')"
      "cs' = sfit @ rfit" "cs' \<noteq> []"
    by (auto simp: admit_by_memory_def Let_def)
  have "c \<in> set cs \<and> memory_checked fl env cmd inp c" if "c \<in> set cs'" for c
    using that admit_cycles_kept [OF run(1), of c] admit_cycles_kept [OF run(2), of c] run(3) by (auto simp: memory_checked_def)
  then show "cs' \<noteq> [] \<and> set cs' \<subseteq> set cs \<and> (\<forall>c \<in> set cs'. memory_checked fl env cmd inp c)" using run(4) by blast
qed

lemma selected_cycle:
  assumes "select_cycle fl env rx cmd inp = Inr cycle"
  shows "cycle \<in> set (get_cycles rx (in_topology inp))" "pc_min_nodes cmd \<le> int (length cycle)" "candidate_ok env rx cmd inp cycle"
    "memory_checked fl env cmd inp cycle" "card_music (pc_model_card cmd) \<noteq> None \<longrightarrow> length cycle = 1"
    "pc_sharding cmd = Tensor \<longrightarrow> supports_tensor (pc_model_card cmd) \<and> hidden_size (pc_model_card cmd) mod length cycle = 0"
    "pc_instance_meta cmd = MlxJaccl \<longrightarrow> is_rdma_cycle rx cycle (in_topology inp) = Some True"
proof -
  obtain cs as ss ps where run: "candidate_cycles env rx cmd inp = Inr cs" "admit_by_memory fl env cmd inp cs = Inr as"
      "shardable_cycles cmd as = Inr ss" "preferred_cycles rx cmd (in_topology inp) ss = Inr ps" "cycle = max_key (cycle_score fl cmd inp) ps"
    using assms by (auto simp: select_cycle_def)
  have as: "as \<noteq> []" using run(2) by (auto simp: admit_by_memory_def Let_def)
  note ss = shardable.nonempty [OF as run(3)]
  have "cycle \<in> set ps" unfolding run(5) by (rule max_key_mem [OF preferred.nonempty [OF ss run(4)]])
  then have p: "cycle \<in> set ss" "pc_instance_meta cmd = MlxJaccl \<longrightarrow> is_rdma_cycle rx cycle (in_topology inp) = Some True"
    using preferred.kept [OF ss run(4)] by auto
  then have a: "cycle \<in> set as" "pc_sharding cmd = Tensor \<longrightarrow> supports_tensor (pc_model_card cmd) \<and> hidden_size (pc_model_card cmd) mod length cycle = 0"
    using shardable.kept [OF as run(3)] by auto
  have "cs \<noteq> []" using a(1) as run(2) by (cases cs) (auto simp: admit_by_memory_def Let_def)
  then have c: "cycle \<in> set cs" "memory_checked fl env cmd inp cycle" using admitted.kept [OF _ run(2) a(1)] by auto
  show "cycle \<in> set (get_cycles rx (in_topology inp))" "pc_min_nodes cmd \<le> int (length cycle)" "candidate_ok env rx cmd inp cycle"
    "memory_checked fl env cmd inp cycle" "card_music (pc_model_card cmd) \<noteq> None \<longrightarrow> length cycle = 1"
    "pc_sharding cmd = Tensor \<longrightarrow> supports_tensor (pc_model_card cmd) \<and> hidden_size (pc_model_card cmd) mod length cycle = 0"
    "pc_instance_meta cmd = MlxJaccl \<longrightarrow> is_rdma_cycle rx cycle (in_topology inp) = Some True"
    using candidates_ok [OF run(1) c(1)] c(2) a(2) p(2) by auto
qed

section \<open>The shards of a placement\<close>

lemma with_shardsD:
  assumes "with_shards sa f = Inr sa'"
  shows "node_to_runner sa' = node_to_runner sa" "sa_model_id sa' = sa_model_id sa"
  using assms by (auto simp: with_shards_def)

lemma length_rpc_shards: "length (rpc_shards mcard ws d k ns) = length ns"
  by (induction ns arbitrary: k) auto

lemma shard_assignments_assign:
  assumes "get_shard_assignments fl fresh mcard cycle shd mem vram = Inr sa"
  shows "\<exists>shards. sa = assign fresh mcard cycle shards \<and> length shards = length cycle"
  using assms
  by (cases shd) (auto simp: get_shard_assignments_def shard_assignments_for_tensor_parallel_def shard_assignments_for_pipeline_parallel_def
      shard_assignments_for_cfg_parallel_def shard_assignments_for_pure_pipeline_def Let_def split: if_splits sum.splits)

lemma assigned_shards_nodes:
  assumes "inj fresh" "distinct cycle" "assigned_shards fl env fresh cmd inp cycle driver = Inr sa"
  shows "dict_keys (node_to_runner sa) = cycle"
proof -
  obtain sa0 sa1 where run: "(case driver of
        Some d \<Rightarrow> get_shard_assignments_for_llama_rpc fresh (pc_model_card cmd) cycle d
      | None \<Rightarrow> get_shard_assignments fl fresh (pc_model_card cmd) cycle (pc_sharding cmd) (in_memory inp) (in_vram inp)) = Inr sa0"
      "node_to_runner sa1 = node_to_runner sa0" "stamp_llama_server_settings sa1 (known_resources inp) = Inr sa"
    using assms(3) by (auto simp: assigned_shards_def Let_def dest: with_shardsD(1))
  have "\<exists>shards. sa0 = assign fresh (pc_model_card cmd) cycle shards \<and> length shards = length cycle"
    using run(1) shard_assignments_assign
    by (cases driver) (auto simp: get_shard_assignments_for_llama_rpc_def length_rpc_shards split: if_splits)
  then have "dict_keys (node_to_runner sa0) = map (\<lambda>i. cycle ! i) [0..<length cycle]"
    using assign_dicts(2) [OF assms(1,2)] by (auto simp: comp_def)
  moreover have "node_to_runner sa = node_to_runner sa1" using run(3) with_shardsD(1) unfolding stamp_llama_server_settings_def by blast
  ultimately show ?thesis using run(2) by (simp add: map_nth)
qed

lemma new_base_fields:
  "bi_instance_id (new_base cmd inp sa limit) = pc_command_id cmd" "bi_shard_assignments (new_base cmd inp sa limit) = sa"
  "bi_excluded_nodes (new_base cmd inp sa limit) = sorted_list_of_set (set (case in_stamped inp of Some s \<Rightarrow> s | None \<Rightarrow> in_excluded inp))"
  "bi_system_role (new_base cmd inp sa limit) = pc_system_role cmd"
  "bi_requested_context_tokens (new_base cmd inp sa limit) = pc_requested_context_tokens cmd"
  "limit \<noteq> None \<Longrightarrow> bi_context_token_limit (new_base cmd inp sa limit) = limit"
  by (auto simp: new_base_def backfill_context_token_limit_def Let_def split: option.split list.split)

lemma build_instance_base:
  assumes "build_instance rx draws cmd inp cycle driver sa limit = Inr i"
  shows "instance_base i = new_base cmd inp sa limit"
  using assms by (auto simp: build_instance_def Let_def split: option.splits instance_meta.splits list.splits)

lemma coerce_command_fields:
  "pc_command_id (coerce_command cmd c) = pc_command_id cmd" "pc_model_card (coerce_command cmd c) = pc_model_card cmd"
  "pc_min_nodes (coerce_command cmd c) = pc_min_nodes cmd" "pc_system_role (coerce_command cmd c) = pc_system_role cmd"
  "pc_requested_context_tokens (coerce_command cmd c) = pc_requested_context_tokens cmd"
  by (simp_all add: coerce_command_def)

lemma window_requested:
  assumes "placement_window fl cmd inp cycle driver sa = Inr limit" "pc_requested_context_tokens cmd = Some r"
  shows "limit = Some r"
  using assms by (auto simp: placement_window_def served_context_window_def Let_def split: if_splits)

lemma place_instance_run:
  assumes "place_instance fl env rx fresh draws cmd inp = Inr target"
  obtains cycle driver sa limit i where "select_cycle fl env rx cmd inp = Inr cycle"
    "assigned_shards fl env fresh (coerce_command cmd cycle) inp cycle driver = Inr sa"
    "placement_window fl (coerce_command cmd cycle) inp cycle driver sa = Inr limit"
    "build_instance rx draws (coerce_command cmd cycle) inp cycle driver sa limit = Inr i"
    "target = dict_set (pc_command_id cmd) i (in_instances inp)" "card_music (pc_model_card cmd) \<noteq> None \<longrightarrow> pc_min_nodes cmd = 1"
  using assms by (auto simp: place_instance_def place_on_cycle_def Let_def split: if_splits)

section \<open>A placement respects its command\<close>

text \<open>What the graph package promises of cycles: they are not empty, visit no node twice and stay in the graph.\<close>

definition simple_cycles_ok :: "'g rx_ops \<Rightarrow> 'g topology \<Rightarrow> bool" where
  "simple_cycles_ok rx t \<longleftrightarrow> (\<forall>c \<in> set (get_cycles rx t). c \<noteq> [] \<and> distinct c \<and> set c \<subseteq> set (list_nodes rx t))"

text \<open>The instance a placement adds, for the clients of \<open>place_instance\<close>.\<close>

lemma placed_instance:
  assumes "place_instance fl env rx fresh draws cmd inp = Inr target" "inj fresh" "simple_cycles_ok rx (in_topology inp)"
  obtains i cycle where "target = dict_set (pc_command_id cmd) i (in_instances inp)" "inst_id i = pc_command_id cmd"
    "dict_keys (node_to_runner (inst_shards i)) = cycle" "distinct cycle" "set cycle \<subseteq> set (list_nodes rx (in_topology inp))"
    "pc_min_nodes cmd \<le> int (length cycle)"
proof -
  obtain cycle driver sa limit i where run: "select_cycle fl env rx cmd inp = Inr cycle"
      "assigned_shards fl env fresh (coerce_command cmd cycle) inp cycle driver = Inr sa"
      "build_instance rx draws (coerce_command cmd cycle) inp cycle driver sa limit = Inr i"
      "target = dict_set (pc_command_id cmd) i (in_instances inp)"
    by (rule place_instance_run [OF assms(1)]) blast
  note sel = selected_cycle [OF run(1)]
  have cyc: "distinct cycle" "set cycle \<subseteq> set (list_nodes rx (in_topology inp))" using assms(3) sel(1) by (auto simp: simple_cycles_ok_def)
  have base: "instance_base i = new_base (coerce_command cmd cycle) inp sa limit" by (rule build_instance_base [OF run(3)])
  show thesis
    using that [OF run(4) _ _ cyc] sel(2) assigned_shards_nodes [OF assms(2) cyc(1) run(2)]
    by (simp add: base new_base_fields coerce_command_fields)
qed

text \<open>C10. A placement respects its command.  When \<open>place_instance\<close> succeeds it adds exactly one instance, under the
  identity of the command, and changes no other.  The instance runs on a cycle of the topology with at least the
  requested number of nodes, one runner per node; the cycle contains every required node and none that is excluded,
  isolated on the data plane, not taking part in inference or without a backend of the model, and it passed memory
  admission.  The caller's exclusions (or the ones to be stamped in their place), the system role and a requested
  context window are recorded on the instance as they were given.\<close>

theorem placement_respects_command:
  assumes "place_instance fl env rx fresh draws cmd inp = Inr target" "inj fresh" "simple_cycles_ok rx (in_topology inp)"
  shows "\<exists>i cycle. target = dict_set (pc_command_id cmd) i (in_instances inp) \<and> inst_id i = pc_command_id cmd \<and>
    cycle \<in> set (get_cycles rx (in_topology inp)) \<and> dict_keys (node_to_runner (inst_shards i)) = cycle \<and>
    pc_min_nodes cmd \<le> int (length cycle) \<and> set (in_required inp) \<subseteq> set cycle \<and> set cycle \<inter> set (in_excluded inp) = {} \<and>
    set cycle \<inter> set (zenoh_isolated_nodes (list_nodes rx (in_topology inp)) (known_resources inp)) = {} \<and>
    (\<forall>n \<in> set cycle. eligible_node env (pc_model_card cmd) (known_resources inp) n) \<and> memory_checked fl env cmd inp cycle \<and>
    bi_excluded_nodes (instance_base i) = sorted_list_of_set (set (case in_stamped inp of Some s \<Rightarrow> s | None \<Rightarrow> in_excluded inp)) \<and>
    bi_system_role (instance_base i) = pc_system_role cmd \<and>
    (\<forall>r. pc_requested_context_tokens cmd = Some r \<longrightarrow> bi_context_token_limit (instance_base i) = Some r)"
proof -
  obtain cycle driver sa limit i where run: "select_cycle fl env rx cmd inp = Inr cycle"
      "assigned_shards fl env fresh (coerce_command cmd cycle) inp cycle driver = Inr sa"
      "placement_window fl (coerce_command cmd cycle) inp cycle driver sa = Inr limit"
      "build_instance rx draws (coerce_command cmd cycle) inp cycle driver sa limit = Inr i"
      "target = dict_set (pc_command_id cmd) i (in_instances inp)"
    by (rule place_instance_run [OF assms(1)]) blast
  note sel = selected_cycle [OF run(1)]
  have cyc: "distinct cycle" "set cycle \<subseteq> set (list_nodes rx (in_topology inp))" using assms(3) sel(1) by (auto simp: simple_cycles_ok_def)
  have base: "instance_base i = new_base (coerce_command cmd cycle) inp sa limit" by (rule build_instance_base [OF run(4)])
  have "bi_context_token_limit (instance_base i) = Some r" if "pc_requested_context_tokens cmd = Some r" for r
    using window_requested [OF run(3)] that new_base_fields(6) [of limit] unfolding base by (simp add: coerce_command_fields)
  moreover have "\<forall>n \<in> set cycle. eligible_node env (pc_model_card cmd) (known_resources inp) n"
    using sel(3) cyc(2) by (auto simp: candidate_ok_def)
  ultimately show ?thesis
    using run(5) sel(1,2,3,4) assigned_shards_nodes [OF assms(2) cyc(1) run(2)]
    by (intro exI [of _ i] exI [of _ cycle]) (simp add: base new_base_fields coerce_command_fields candidate_ok_def)
qed

section \<open>Listener ports\<close>

lemma decimal_digit_char: "d < 10 \<Longrightarrow> decimal_digit (char_of (48 + d)) = Some d"
  by (simp add: decimal_digit_def)

lemma nat_digits_value:
  "nat_digits n \<noteq> []" "\<forall>c \<in> set (nat_digits n). decimal_digit c \<noteq> None" "foldl (\<lambda>m c. m * 10 + the (decimal_digit c)) 0 (nat_digits n) = n"
proof (induction n rule: nat_digits.induct)
  case (1 n)
  {
    case 1
    show ?case by (subst nat_digits.simps) simp
  next
    case 2
    show ?case using "1.IH"(2) decimal_digit_char [of "n mod 10"] decimal_digit_char [of n] by (subst nat_digits.simps) auto
  next
    case 3
    show ?case using "1.IH"(3) decimal_digit_char [of "n mod 10"] decimal_digit_char [of n] by (subst nat_digits.simps) auto
  }
qed

text \<open>The port of an endpoint can be read back.\<close>

lemma endpoint_port_endpoint: "endpoint_port (endpoint ip p) = Some p"
proof -
  have "\<forall>c \<in> set (nat_digits p). c \<noteq> CHR '':''" using nat_digits_value(2) [of p] by (auto simp: decimal_digit_def)
  then have "takeWhile (\<lambda>c. c \<noteq> CHR '':'') (rev (nat_digits p) @ CHR '':'' # rev ip) = rev (nat_digits p)"
    by (subst takeWhile_append2) auto
  then have "endpoint_port (endpoint ip p) = parse_base 10 decimal_digit (nat_digits p)"
    by (simp add: endpoint_port_def endpoint_def)
  then show ?thesis using nat_digits_value [of p] by (auto simp: parse_base_def list_ex_iff)
qed

definition draws_ok :: "(nat \<Rightarrow> int list) \<Rightarrow> bool" where
  "draws_ok draws \<longleftrightarrow> (\<forall>k. set (draws k) \<subseteq> {24000..31999})"

lemma find_member: "find P xs = Some x \<Longrightarrow> P x \<and> x \<in> set xs"
  by (auto simp: find_Some_iff)

lemma random_port_fresh:
  assumes "random_ephemeral_port ds used = Inr p" "set ds \<subseteq> {24000..31999}"
  shows "p \<notin> set used" "24000 \<le> p" "p \<le> 31999"
proof -
  have "p \<notin> set used \<and> p \<in> {24000..31999}"
  proof (cases "find (\<lambda>p. p \<notin> set used) (take 64 ds)")
    case (Some q)
    then show ?thesis using find_member [OF Some] assms set_take_subset [of 64 ds] by (auto simp: random_ephemeral_port_def)
  next
    case None
    then obtain q where "find (\<lambda>p. p \<notin> set used) [24000..31999] = Some q" "q = p"
      using assms(1) unfolding random_ephemeral_port_def None option.case by (cases "find (\<lambda>p. p \<notin> set used) [24000..31999]") (simp_all only: option.case sum.simps)
    then show ?thesis using find_member [of "\<lambda>p. p \<notin> set used" "[24000..31999]" q] by (simp only: set_upto simp_thms)
  qed
  then show "p \<notin> set used" "24000 \<le> p" "p \<le> 31999" by auto
qed

lemma donor_ports_fresh:
  assumes "draws_ok draws"
  shows "donor_ports draws k used ns = Inr ports \<Longrightarrow> dict_keys ports = ns \<and> distinct (dict_values ports) \<and>
    (\<forall>p \<in> set (dict_values ports). int p \<notin> set used \<and> 24000 \<le> p \<and> p \<le> 31999)"
proof (induction ns arbitrary: k used ports)
  case (Cons n ns)
  then obtain p rest where run: "random_ephemeral_port (draws k) used = Inr p" "donor_ports draws (k + 1) (p # used) ns = Inr rest"
      "ports = (n, nat p) # rest"
    by auto
  have "set (draws k) \<subseteq> {24000..31999}" using assms by (simp add: draws_ok_def)
  note p = random_port_fresh [OF run(1) this]
  show ?case using Cons.IH [OF run(2)] p run(3) by auto
qed simp

lemma dict_of_pairs_values: "set (dict_values (dict_of_pairs ps)) \<subseteq> snd ` set ps"
proof -
  have "set (dict_values (foldl (\<lambda>d (k, v). dict_set k v d) d ps)) \<subseteq> set (dict_values d) \<union> snd ` set ps" for d
  proof (induction ps arbitrary: d)
    case (Cons p ps)
    obtain k v where p: "p = (k, v)" by (cases p)
    show ?case using Cons.IH [of "dict_set k v d"] dict_values_set_subset [of k v d] unfolding p by (simp del: set_map) blast
  qed simp
  from this [of "[]"] show ?thesis by (simp add: dict_of_pairs_def)
qed

lemma collect_mapped:
  assumes "collect_results (map f xs) = Inr ys"
  shows "y \<in> set ys \<Longrightarrow> \<exists>x \<in> set xs. f x = Inr y" "length ys = length xs" "k < length xs \<Longrightarrow> f (xs ! k) = Inr (ys ! k)"
proof -
  have eq: "map f xs = map Inr ys" using assms by (simp add: collect_results_Inr)
  then have "Inr ` set ys = f ` set xs" by (metis list.set_map)
  then show "y \<in> set ys \<Longrightarrow> \<exists>x \<in> set xs. f x = Inr y" by (metis imageI image_iff)
  show len: "length ys = length xs" using eq by (metis length_map)
  show "k < length xs \<Longrightarrow> f (xs ! k) = Inr (ys ! k)" using eq len by (metis nth_map)
qed

lemma map_filter_all: "map f xs = map Some ys \<Longrightarrow> List.map_filter f xs = ys"
  by (induction xs arbitrary: ys) (auto simp: List.map_filter_simps)

lemma coordinator_ports:
  assumes "get_mlx_jaccl_coordinators rx coord p t network = Inr es" "e \<in> set (dict_values es)"
  shows "endpoint_port e = Some p"
proof -
  obtain pairs where pairs: "es = dict_of_pairs pairs" "collect_results (map (\<lambda>n.
       if n = coord then Inr (n, endpoint ''0.0.0.0'' p)
       else case find_ip_prioritised rx n coord t network False False of
              Inl e \<Rightarrow> Inl e | Inr None \<Rightarrow> Inl ValueError | Inr (Some ip) \<Rightarrow> Inr (n, endpoint ip p)) (list_nodes rx t)) = Inr pairs"
    using assms(1) unfolding get_mlx_jaccl_coordinators_def by (auto split: sum.splits)
  have "\<exists>ip. snd x = endpoint ip p" if x: "x \<in> set pairs" for x
  proof -
    obtain n where n: "(if n = coord then Inr (n, endpoint ''0.0.0.0'' p)
       else case find_ip_prioritised rx n coord t network False False of
              Inl e \<Rightarrow> Inl e | Inr None \<Rightarrow> Inl ValueError | Inr (Some ip) \<Rightarrow> Inr (n, endpoint ip p)) = Inr x"
      using collect_mapped(1) [OF pairs(2) x] by blast
    show ?thesis
    proof (cases "n = coord")
      case True
      then have "x = (n, endpoint ''0.0.0.0'' p)" using n by simp
      then show ?thesis by (metis snd_conv)
    next
      case False
      then obtain ip where "(n, endpoint ip p) = x" using n by (auto split: sum.splits option.splits)
      then show ?thesis by (metis snd_conv)
    qed
  qed
  moreover obtain x where "x \<in> set pairs" "e = snd x" using assms(2) dict_of_pairs_values [of pairs] unfolding pairs(1) by blast
  ultimately show ?thesis by (metis endpoint_port_endpoint)
qed

lemma donor_endpoints:
  assumes "get_llama_rpc_donor_endpoints rx cycle d t network ports = Inr es" "distinct cycle" "dict_keys ports = filter (\<lambda>n. n \<noteq> d) cycle"
  shows "List.map_filter endpoint_port (dict_values es) = dict_values ports"
proof -
  let ?ns = "filter (\<lambda>n. n \<noteq> d) cycle"
  let ?f = "\<lambda>n. case find_ip_prioritised rx d n t network True True of
        Inl e \<Rightarrow> Inl e
      | Inr None \<Rightarrow> Inl ValueError
      | Inr (Some ip) \<Rightarrow> (case dict_get ports n of None \<Rightarrow> Inl KeyError | Some p \<Rightarrow> Inr (n, endpoint ip p))"
  obtain pairs where pairs: "es = dict_of_pairs pairs" "collect_results (map ?f ?ns) = Inr pairs"
    using assms(1) unfolding get_llama_rpc_donor_endpoints_def by (auto split: sum.splits)
  have wf: "distinct (dict_keys ports)" using assms(2,3) by simp
  have at: "fst (pairs ! k) = ?ns ! k \<and> endpoint_port (snd (pairs ! k)) = Some (dict_values ports ! k)" if k: "k < length ?ns" for k
  proof -
    have get: "dict_get ports (?ns ! k) = Some (dict_values ports ! k)"
      using k wf assms(3) by (metis length_map map_of_eq_Some_iff nth_map nth_mem prod.collapse)
    then obtain ip where "(?ns ! k, endpoint ip (dict_values ports ! k)) = pairs ! k"
      using collect_mapped(3) [OF pairs(2) k] by (auto split: sum.splits option.splits)
    then show ?thesis by (metis endpoint_port_endpoint fst_conv snd_conv)
  qed
  have len: "length pairs = length ?ns" "length (dict_values ports) = length ?ns"
    using collect_mapped(2) [OF pairs(2)] assms(3) by (simp_all, metis length_map)
  have "map fst pairs = ?ns" using at len by (intro nth_equalityI) simp_all
  then have "es = pairs" using assms(2) by (simp add: pairs(1) dict_of_pairs_distinct)
  moreover have "map endpoint_port (map snd pairs) = map Some (dict_values ports)"
    using at len by (intro nth_equalityI) simp_all
  ultimately show ?thesis by (simp only: map_filter_all)
qed

text \<open>Placements listen on different ports, and the donors of one placement too.\<close>

definition listeners_ok :: "(instance_id, instance_t) dict \<Rightarrow> bool" where
  "listeners_ok insts \<longleftrightarrow>
     (\<forall>a b i j. dict_get insts a = Some i \<and> dict_get insts b = Some j \<and> a \<noteq> b \<longrightarrow> set (instance_ports i) \<inter> set (instance_ports j) = {}) \<and>
     (\<forall>a i. dict_get insts a = Some i \<longrightarrow> set (instance_ports i) \<subseteq> {24000..31999} \<and> (is_rpc i \<longrightarrow> distinct (instance_ports i)))"

lemma built_ports:
  assumes "build_instance rx draws cmd inp cycle driver sa limit = Inr i" "draws_ok draws" "distinct cycle"
  shows "set (instance_ports i) \<subseteq> {24000..31999}" "set (instance_ports i) \<inter> set (listener_ports_in_use (in_instances inp)) = {}"
    "is_rpc i \<longrightarrow> distinct (instance_ports i)"
proof -
  let ?used = "listener_ports_in_use (in_instances inp)"
  note band = assms(2) [unfolded draws_ok_def, THEN spec, of 0]
  consider (rpc) b d ports es where "i = LlamaRpcInstance b d es" "donor_ports draws 0 ?used (filter (\<lambda>n. n \<noteq> d) cycle) = Inr ports"
      "get_llama_rpc_donor_endpoints rx cycle d (get_subgraph_from_nodes rx cycle (in_topology inp)) (in_network inp) ports = Inr es"
    | (jaccl) b ds c p es where "i = MlxJacclInstance b ds es" "random_ephemeral_port (draws 0) ?used = Inr p"
      "get_mlx_jaccl_coordinators rx c (nat p) (get_subgraph_from_nodes rx cycle (in_topology inp)) (in_network inp) = Inr es"
    | (ring) b hs p where "i = MlxRingInstance b hs p" "random_ephemeral_port (draws 0) ?used = Inr p"
    using assms(1) by (auto simp: build_instance_def Let_def split: option.splits instance_meta.splits list.splits)
  then have "set (instance_ports i) \<subseteq> {24000..31999} \<and> set (instance_ports i) \<inter> set ?used = {} \<and> (is_rpc i \<longrightarrow> distinct (instance_ports i))"
  proof cases
    case rpc
    note ports = donor_ports_fresh [OF assms(2) rpc(2)]
    have "List.map_filter endpoint_port (dict_values es) = dict_values ports"
      using donor_endpoints [OF rpc(3) assms(3)] ports by blast
    moreover have "distinct (map int (dict_values ports))"
      using ports inj_on_subset [OF inj_of_nat subset_UNIV] unfolding distinct_map by blast
    ultimately show ?thesis using ports rpc(1) by auto
  next
    case jaccl
    have "set (List.map_filter endpoint_port (dict_values es)) \<subseteq> {nat p}"
      using coordinator_ports [OF jaccl(3)] by (auto simp: List.map_filter_def)
    then show ?thesis using random_port_fresh [OF jaccl(2) band] jaccl(1) by auto
  next
    case ring
    then show ?thesis using random_port_fresh [OF ring(2) band] by auto
  qed
  then show "set (instance_ports i) \<subseteq> {24000..31999}" "set (instance_ports i) \<inter> set ?used = {}" "is_rpc i \<longrightarrow> distinct (instance_ports i)"
    by auto
qed

text \<open>C12. Placements never share a listener port.  If every placement listens on its own ports inside the band reserved for
  placements, the donors of one placement on different ones, then so do the placements after \<open>place_instance\<close>
  added one, whatever numbers the random search drew from the band.  The ports of a placement are read back from the
  textual endpoints it was stamped with.\<close>

theorem placement_ports_disjoint:
  assumes "place_instance fl env rx fresh draws cmd inp = Inr target" "draws_ok draws" "simple_cycles_ok rx (in_topology inp)"
    "listeners_ok (in_instances inp)"
  shows "listeners_ok target"
proof -
  obtain cycle driver sa limit i where run: "select_cycle fl env rx cmd inp = Inr cycle"
      "build_instance rx draws (coerce_command cmd cycle) inp cycle driver sa limit = Inr i"
      "target = dict_set (pc_command_id cmd) i (in_instances inp)"
    by (rule place_instance_run [OF assms(1)]) blast
  have "distinct cycle" using assms(3) selected_cycle(1) [OF run(1)] by (auto simp: simple_cycles_ok_def)
  note ports = built_ports [OF run(2) assms(2) this]
  have "set (instance_ports j) \<subseteq> set (listener_ports_in_use (in_instances inp))" if "dict_get (in_instances inp) a = Some j" for a j
    using map_of_SomeD [OF that] by (force simp: listener_ports_in_use_def)
  then have "set (instance_ports i) \<inter> set (instance_ports j) = {}" if "dict_get (in_instances inp) a = Some j" for a j
    using that ports(2) by blast
  then show ?thesis using assms(4) ports(1,3) unfolding listeners_ok_def run(3) dict_get_set by (auto split: if_splits)
qed

end
