(* ===== verification/Placement_Example.thy ===== *)
theory Placement_Example
  imports Placement_Proofs
begin

text \<open>
  A complete run of \<open>place_instance\<close>: a model is split over the two linked nodes of \<open>link_pair\<close>.
\<close>

definition plain_env :: card_env where
  "plain_env = \<lparr>env_registry_supported = (\<lambda>_ _. []), env_serves_speech = (\<lambda>_. False), env_pinned_projector = (\<lambda>_. False),
     env_tool_calling = (\<lambda>_. False), env_vllm_parser = (\<lambda>_. None), env_predates_binding = (\<lambda>_. False)\<rparr>"

definition pair_command :: place_command where
  "pair_command = \<lparr>pc_command_id = ''new'', pc_model_card = example_card, pc_sharding = Pipeline, pc_instance_meta = MlxRing,
     pc_min_nodes = 2, pc_excluded_nodes = [''c''], pc_system_role = None, pc_requested_context_tokens = Some 2048\<rparr>"

definition pair_placement :: "list_graph topology \<Rightarrow> list_graph placement_inputs" where
  "pair_placement t = \<lparr>in_topology = t, in_instances = [], in_memory = pair_memory, in_network = [], in_required = [],
     in_downloads = [], in_excluded = [''c''], in_resources = Some [], in_vram = [], in_unified = [], in_stamped = Some [''c''],
     in_served_default = Some 8192\<rparr>"

text \<open>Two nodes that only dialled sessions connect.\<close>

definition session_pair :: "list_graph topology" where
  "session_pair =
     (let link = (\<lambda>x y ip. \<lparr>conn_source = x, conn_sink = y, conn_edge = SocketConnection \<lparr>address = ''/ip4/'' @ ip @ ''/tcp/4001''\<rparr> True\<rparr>)
      in foldl (\<lambda>t c. add_connection list_rx c t) (new_topology list_rx)
           [link ''a'' ''b'' ''192.168.0.2'', link ''b'' ''a'' ''192.168.0.1''])"

definition runner_names :: "nat \<Rightarrow> runner_id" where
  "runner_names i = replicate i CHR ''r''"

lemma runner_names_inj: "inj runner_names"
  by (rule injI) (metis length_replicate runner_names_def)

lemma pair_fields:
  "in_topology (pair_placement t) = t" "in_instances (pair_placement t) = []" "in_memory (pair_placement t) = pair_memory"
  "in_network (pair_placement t) = []" "in_vram (pair_placement t) = []" "known_resources (pair_placement t) = []"
  "in_excluded (pair_placement t) = [''c'']" "in_stamped (pair_placement t) = Some [''c'']"
  by (simp_all add: pair_placement_def known_resources_def)

lemma pair_command_fields:
  "pc_command_id pair_command = ''new''" "pc_model_card pair_command = example_card" "pc_sharding pair_command = Pipeline"
  "pc_instance_meta pair_command = MlxRing" "pc_min_nodes pair_command = 2" "pc_requested_context_tokens pair_command = Some 2048"
  by (simp_all add: pair_command_def)

lemma pair_cycles: "simple_cycles_ok list_rx link_pair"
  by code_simp

lemma pair_candidates:
  "candidate_cycles plain_env list_rx pair_command (pair_placement link_pair) = Inr [[''a'', ''b'']]"
  "candidate_cycles plain_env list_rx pair_command (pair_placement session_pair) = Inr [[''a'', ''b'']]"
  by code_simp+

lemma pair_preferred:
  "preferred_cycles list_rx pair_command link_pair [[''a'', ''b'']] = Inr [[''a'', ''b'']]"
  "preferred_cycles list_rx pair_command session_pair [[''a'', ''b'']] = Inr [[''a'', ''b'']]"
  by code_simp+

lemma pair_not_rpc: "\<not> rpc_cycle plain_env pair_command (pair_placement t) [''a'', ''b'']"
proof -
  have "\<not> is_llama_rpc_cycle plain_env [''a'', ''b''] example_card []" by code_simp
  then show ?thesis by (simp add: rpc_cycle_def pair_command_fields pair_fields)
qed

lemma pair_select:
  assumes "candidate_cycles plain_env list_rx pair_command (pair_placement t) = Inr [[''a'', ''b'']]"
    "preferred_cycles list_rx pair_command t [[''a'', ''b'']] = Inr [[''a'', ''b'']]"
  shows "select_cycle (\<lambda>x. x) plain_env list_rx pair_command (pair_placement t) = Inr [''a'', ''b'']"
proof -
  have "standard_inputs plain_env pair_command (pair_placement t) [''a'', ''b''] = pair_inputs"
    by (simp add: standard_inputs_def pair_inputs_def pair_placement_def pair_command_def known_resources_def List.map_filter_simps Let_def)
  then have fit: "filter_cycles_by_memory (\<lambda>x. x) (standard_inputs plain_env pair_command (pair_placement t) [''a'', ''b'']) [[''a'', ''b'']]
      = Inr ([[''a'', ''b'']], \<lparr>pending_info_node_ids = [], rejection_reasons = []\<rparr>)"
    by (simp add: filter_cycles_by_memory_def pair_fits)
  have "admit_by_memory (\<lambda>x. x) plain_env pair_command (pair_placement t) [[''a'', ''b'']] = Inr [[''a'', ''b'']]"
    by (simp add: admit_by_memory_def pair_not_rpc fit bind_result_simps Let_def)
  moreover have "shardable_cycles pair_command [[''a'', ''b'']] = Inr [[''a'', ''b'']]" by code_simp
  ultimately show ?thesis
    using assms by (simp add: select_cycle_def bind_result_simps max_key_def pair_fields)
qed

definition pair_assignment :: shard_assignments where
  "pair_assignment = assign runner_names example_card [''a'', ''b''] (map (pipeline_shard example_card 2 [4, 4]) [0..<2])"

lemma pair_assigned:
  "assigned_shards (\<lambda>x. x) plain_env runner_names pair_command (pair_placement t) [''a'', ''b''] None = Inr pair_assignment"
proof -
  have layers: "allocate_pipeline_layers (\<lambda>x. x) example_card [1 / 2, 1 / 2] = Inr [4, 4]" by code_simp
  have mem: "list_all (dict_has pair_memory) [''a'', ''b'']" by (simp add: pair_memory_def dict_has_def)
  have share: "\<not> uses_cfg example_card" "layer_share example_card 4 = 500" by (simp_all add: example_card_def layer_share_def)
  have "get_shard_assignments (\<lambda>x. x) runner_names example_card [''a'', ''b''] Pipeline pair_memory [] = Inr pair_assignment"
    using layers mem share
    by (simp add: get_shard_assignments_def shard_assignments_for_pipeline_parallel_def shard_assignments_for_pure_pipeline_def
      compute_total_memory_def allocate_and_validate_layers_def pair_usable pair_assignment_def
      numeral_2_eq_2)
  moreover have "with_shards pair_assignment (stamped_backend plain_env pair_command [] False rpc) = Inr pair_assignment" for rpc
    by code_simp
  moreover have "stamp_llama_server_settings pair_assignment [] = Inr pair_assignment" by code_simp
  ultimately show ?thesis by (simp add: assigned_shards_def bind_result_simps Let_def pair_fields pair_command_fields)
qed

lemma pair_window: "placement_window (\<lambda>x. x) pair_command (pair_placement t) [''a'', ''b''] None pair_assignment = Inr (Some 2048)"
proof -
  have "instance_context_token_limit (\<lambda>x. x) pair_assignment (of_cycle ram_total pair_memory [''a'', ''b'']) [] [] []
      (of_cycle ram_available pair_memory [''a'', ''b'']) = Some 4096" by code_simp
  moreover have "projector_memory example_card = 0" by code_simp
  ultimately show ?thesis
    by (simp add: placement_window_def pair_fields pair_command_fields served_context_window_def) (simp add: pair_placement_def)
qed

text \<open>Up to the choice of hosts both placements run alike.\<close>

lemma pair_run:
  assumes "candidate_cycles plain_env list_rx pair_command (pair_placement t) = Inr [[''a'', ''b'']]"
    "preferred_cycles list_rx pair_command t [[''a'', ''b'']] = Inr [[''a'', ''b'']]"
  shows "place_instance (\<lambda>x. x) plain_env list_rx runner_names (\<lambda>k. [24000]) pair_command (pair_placement t) =
    bind_result (get_mlx_ring_hosts_by_node list_rx [''a'', ''b''] (get_subgraph_from_nodes list_rx [''a'', ''b''] t) 24000 [])
      (\<lambda>hosts. Inr [(''new'', MlxRingInstance (new_base pair_command (pair_placement t) pair_assignment (Some 2048)) hosts 24000)])"
proof -
  have used: "random_ephemeral_port [24000] (listener_ports_in_use []) = Inr 24000"
    by (simp add: random_ephemeral_port_def listener_ports_in_use_def)
  have coerced: "coerce_command pair_command [''a'', ''b''] = pair_command" "card_music example_card = None"
    by (simp_all add: coerce_command_def example_card_def)
  have "build_instance list_rx (\<lambda>k. [24000]) pair_command (pair_placement t) [''a'', ''b''] None pair_assignment (Some 2048) =
    bind_result (get_mlx_ring_hosts_by_node list_rx [''a'', ''b''] (get_subgraph_from_nodes list_rx [''a'', ''b''] t) 24000 [])
      (\<lambda>hosts. Inr (MlxRingInstance (new_base pair_command (pair_placement t) pair_assignment (Some 2048)) hosts 24000))"
    by (simp add: build_instance_def Let_def pair_fields pair_command_fields used bind_result_simps)
  then show ?thesis
    using pair_select [OF assms] pair_assigned [of t] pair_window [of t] pair_not_rpc [of t] coerced
    by (auto simp: place_instance_def place_on_cycle_def bind_result_simps Let_def pair_command_fields pair_fields dict_set_def bind_result_def
        split: sum.split)
qed

lemma pair_placed:
  "\<exists>target. place_instance (\<lambda>x. x) plain_env list_rx runner_names (\<lambda>k. [24000]) pair_command (pair_placement link_pair) = Inr target"
proof -
  let ?sub = "get_subgraph_from_nodes list_rx [''a'', ''b''] link_pair"
  have "find_connection_ip list_rx ''a'' ''b'' ?sub = Inr [''100.100.0.2'', ''192.168.0.2'']"
      "find_connection_ip list_rx ''b'' ''a'' ?sub = Inr [''192.168.0.1'']" by code_simp+
  then have dial: "find_ip_prioritised list_rx ''a'' ''b'' ?sub [] True False = Inr (Some ''192.168.0.2'')"
      "find_ip_prioritised list_rx ''b'' ''a'' ?sub [] True False = Inr (Some ''192.168.0.1'')"
    by (simp_all add: find_ip_prioritised_def min_key_def transport_rank_def link_pair_vpn dict_default_def
        RING_TRANSPORT_PRIORITY_def dict_of_pairs_def)
  then obtain hosts where "get_mlx_ring_hosts_by_node list_rx [''a'', ''b''] ?sub 24000 [] = Inr hosts"
    by (simp add: get_mlx_ring_hosts_by_node_def ring_host_def Let_def)
  then show ?thesis unfolding pair_run [OF pair_candidates(1) pair_preferred(1)] by (simp add: bind_result_simps)
qed

text \<open>Session links make a cycle but offer no address to dial: a plain \<open>ValueError\<close>.\<close>

lemma session_pair_raises:
  "place_instance (\<lambda>x. x) plain_env list_rx runner_names (\<lambda>k. [24000]) pair_command (pair_placement session_pair) = Inl ValueError"
proof -
  let ?sub = "get_subgraph_from_nodes list_rx [''a'', ''b''] session_pair"
  have "find_connection_ip list_rx ''a'' ''b'' ?sub = Inr []" "find_connection_ip list_rx ''b'' ''a'' ?sub = Inr []" by code_simp+
  then have "find_ip_prioritised list_rx ''a'' ''b'' ?sub [] True False = Inr None" "find_ip_prioritised list_rx ''b'' ''a'' ?sub [] True False = Inr None"
    by (simp_all add: find_ip_prioritised_def)
  then have "get_mlx_ring_hosts_by_node list_rx [''a'', ''b''] ?sub 24000 [] = Inl ValueError"
    by (simp add: get_mlx_ring_hosts_by_node_def ring_host_def Let_def)
  then show ?thesis unfolding pair_run [OF pair_candidates(2) pair_preferred(2)] by (simp add: bind_result_simps)
qed

theorem placement_respects_command_witness:
  "\<exists>i. place_instance (\<lambda>x. x) plain_env list_rx runner_names (\<lambda>k. [24000]) pair_command (pair_placement link_pair) = Inr [(''new'', i)] \<and>
     bi_excluded_nodes (instance_base i) = [''c''] \<and> ''c'' \<notin> set (dict_keys (node_to_runner (inst_shards i))) \<and>
     2 \<le> instance_width i \<and> bi_context_token_limit (instance_base i) = Some 2048"
proof -
  obtain target where target: "place_instance (\<lambda>x. x) plain_env list_rx runner_names (\<lambda>k. [24000]) pair_command (pair_placement link_pair) = Inr target"
    using pair_placed by blast
  have cycles: "simple_cycles_ok list_rx (in_topology (pair_placement link_pair))" using pair_cycles by (simp add: pair_fields)
  show ?thesis
    using placement_respects_command [OF target runner_names_inj cycles] target unfolding pair_fields pair_command_fields
    by (auto simp: dict_set_def instance_width_def)
qed

theorem placement_ports_disjoint_witness:
  "\<exists>i. place_instance (\<lambda>x. x) plain_env list_rx runner_names (\<lambda>k. [24000]) pair_command (pair_placement link_pair) = Inr [(''new'', i)] \<and>
     listeners_ok [(''new'', i)]"
proof -
  obtain target where target: "place_instance (\<lambda>x. x) plain_env list_rx runner_names (\<lambda>k. [24000]) pair_command (pair_placement link_pair) = Inr target"
    using pair_placed by blast
  have draws: "draws_ok (\<lambda>k. [24000])" by (simp add: draws_ok_def)
  have none: "listeners_ok (in_instances (pair_placement link_pair))" by (simp add: listeners_ok_def pair_fields)
  have cycles: "simple_cycles_ok list_rx (in_topology (pair_placement link_pair))" using pair_cycles by (simp add: pair_fields)
  obtain i where "target = dict_set ''new'' i []"
    by (rule place_instance_run [OF target]) (simp add: pair_command_fields pair_fields)
  then show ?thesis using placement_ports_disjoint [OF target draws cycles none] target by (simp add: dict_set_def)
qed

end
