(* ===== verification/Master_Liveness.thy ===== *)
theory Master_Liveness
  imports Placement_Search
begin

text \<open>
  The liveness pass of the master's plan loop, \<^verbatim>\<open>src/skulk/master/main.py\<close>: when a node counts as gone, which
  placements and requests that takes down, the failure records that outlive them and the order of the events.

  Times of day are microseconds; monotonic times and ages are the doubles of the source, computed with the rounding
  \<open>fl\<close>.  \<open>sha256_hex\<close> is the hexadecimal digest of a text and \<open>dump\<close> the serialised form of timeout evidence.
\<close>

section \<open>Failure records\<close>

text \<open>The length of a text in UTF-8; characters of the model are below 256.\<close>

definition utf8_length :: "string \<Rightarrow> nat" where
  "utf8_length s = sum_list (map (\<lambda>c. if of_char c < (128 :: nat) then 1 else 2) s)"

definition INSTANCE_FAILURE_ID_MAX_BYTES :: nat where
  "INSTANCE_FAILURE_ID_MAX_BYTES = 256"

definition bounded_failure_reference :: "(string \<Rightarrow> string) \<Rightarrow> string \<Rightarrow> string" where
  "bounded_failure_reference sha256_hex identifier =
     (if utf8_length identifier \<le> INSTANCE_FAILURE_ID_MAX_BYTES then identifier else ''sha256:'' @ sha256_hex identifier)"

text \<open>The validators of \<open>InstanceFailure\<close>: an empty or overlong message is refused, everything else is bounded.\<close>

definition new_instance_failure :: "(string \<Rightarrow> string) \<Rightarrow> instance_failure \<Rightarrow> py_error + instance_failure" where
  "new_instance_failure sha256_hex f =
     (if if_error_message f = [] \<or> length (if_error_message f) > 2048 then Inl ValueError
      else Inr (f\<lparr>if_instance_id := bounded_failure_reference sha256_hex (if_instance_id f),
                  if_model_id := bounded_failure_reference sha256_hex (if_model_id f),
                  if_affected_node_ids :=
                    take 64 (sorted_list_of_set (set (map (bounded_failure_reference sha256_hex) (if_affected_node_ids f))))\<rparr>))"

definition instance_failure_event ::
  "(string \<Rightarrow> string) \<Rightarrow> datetime \<Rightarrow> instance_t \<Rightarrow> string \<Rightarrow> string \<Rightarrow> py_error + 'g event_body" where
  "instance_failure_event sha256_hex now i error_code error_message =
     bind_result (new_instance_failure sha256_hex \<lparr>if_instance_id = inst_id i, if_model_id = sa_model_id (inst_shards i),
         if_system_role = bi_system_role (instance_base i), if_error_code = error_code, if_error_message = error_message,
         if_affected_node_ids = dict_keys (node_to_runner (inst_shards i)), if_recorded_at = now\<rparr>)
       (\<lambda>f. Inr (InstanceFailureRecorded f))"

definition INSTANCE_FAILURE_MESSAGE_LIMIT :: nat where
  "INSTANCE_FAILURE_MESSAGE_LIMIT = 2048"

definition node_unavailable_failure_message :: "node_id \<Rightarrow> string \<Rightarrow> string" where
  "node_unavailable_failure_message node reason =
     (let prefix = ''The placement was torn down because assigned node ''; suffix = '' '' @ reason @ ''.''
      in prefix @ take (INSTANCE_FAILURE_MESSAGE_LIMIT - length prefix - length suffix) node @ suffix)"

definition dead_node_instance_failure_events ::
  "(string \<Rightarrow> string) \<Rightarrow> datetime \<Rightarrow> 'g state \<Rightarrow> node_id list \<Rightarrow> node_id list \<Rightarrow> py_error + 'g event_body list" where
  "dead_node_instance_failure_events sha256_hex now st connected_ids timed_out =
     collect_results (List.map_filter (\<lambda>i.
       case sort (filter (\<lambda>n. n \<notin> set connected_ids \<or> n \<in> set timed_out) (dict_keys (node_to_runner (inst_shards i)))) of
         [] \<Rightarrow> None
       | n # _ \<Rightarrow> Some (instance_failure_event sha256_hex now i ''node_unavailable''
                     (node_unavailable_failure_message n (if n \<in> set timed_out then ''timed out'' else ''left the live topology''))))
       (dict_values (instances st)))"

section \<open>Timeouts\<close>

record node_timeout_evidence =
  last_logged_event_age_seconds :: rat
  heartbeat_age_seconds :: "rat option"
  fallback_telemetry_age_seconds :: "rat option"
  effective_age_seconds :: rat
  timeout_seconds :: rat

definition total_seconds :: "(rat \<Rightarrow> rat) \<Rightarrow> int \<Rightarrow> rat" where
  "total_seconds fl microseconds = fl (of_int microseconds / 1000000)"

definition signal_age_seconds :: "(rat \<Rightarrow> rat) \<Rightarrow> datetime \<Rightarrow> datetime \<Rightarrow> rat" where
  "signal_age_seconds fl now seen_at = max 0 (total_seconds fl (now - seen_at))"

definition NODE_LIVENESS_TIMEOUT :: int where
  "NODE_LIVENESS_TIMEOUT = 30 * 1000000"

definition compute_node_timeout_evidence ::
  "(rat \<Rightarrow> rat) \<Rightarrow> (node_id, datetime) dict \<Rightarrow> (node_id, datetime) dict \<Rightarrow> (node_id, datetime) dict \<Rightarrow> datetime \<Rightarrow> int
     \<Rightarrow> (node_id, node_timeout_evidence) dict" where
  "compute_node_timeout_evidence fl seen heartbeats telemetry now timeout =
     map (\<lambda>(n, logged_at).
       let logged_age = signal_age_seconds fl now logged_at;
           heartbeat_age = map_option (signal_age_seconds fl now) (dict_get heartbeats n);
           telemetry_age = map_option (signal_age_seconds fl now) (dict_get telemetry n)
       in (n, \<lparr>last_logged_event_age_seconds = logged_age, heartbeat_age_seconds = heartbeat_age,
               fallback_telemetry_age_seconds = telemetry_age,
               effective_age_seconds = foldl min logged_age (List.map_filter (\<lambda>a. a) [heartbeat_age, telemetry_age]),
               timeout_seconds = total_seconds fl timeout\<rparr>)) seen"

definition timed_out_nodes_from_evidence :: "(node_id, node_timeout_evidence) dict \<Rightarrow> node_id list" where
  "timed_out_nodes_from_evidence evid =
     map fst (filter (\<lambda>(n, observation). effective_age_seconds observation > timeout_seconds observation) evid)"

definition NODE_HEARTBEAT_GAP_WARNING :: int where
  "NODE_HEARTBEAT_GAP_WARNING = 10 * 1000000"

definition compute_heartbeat_gap_nodes ::
  "(rat \<Rightarrow> rat) \<Rightarrow> (node_id, datetime) dict \<Rightarrow> (node_id, datetime) dict \<Rightarrow> datetime \<Rightarrow> node_id list" where
  "compute_heartbeat_gap_nodes fl seen heartbeats now =
     map fst (filter (\<lambda>(n, logged_at). signal_age_seconds fl now (dict_default logged_at heartbeats n)
                        \<ge> total_seconds fl NODE_HEARTBEAT_GAP_WARNING) seen)"

text \<open>The warned set of \<open>_report_heartbeat_gap_changes\<close>: once a node was warned of without a heartbeat on record, only a
  heartbeat clears it.\<close>

definition report_heartbeat_gap_changes ::
  "(rat \<Rightarrow> rat) \<Rightarrow> (node_id, datetime) dict \<Rightarrow> (node_id, datetime) dict \<Rightarrow> datetime \<Rightarrow> node_id list \<Rightarrow> node_id list" where
  "report_heartbeat_gap_changes fl seen heartbeats now warned =
     compute_heartbeat_gap_nodes fl seen heartbeats now
     @ filter (\<lambda>n. dict_has seen n \<and> \<not> dict_has heartbeats n) warned"

section \<open>Tasks that lost their executor\<close>

text \<open>\<open>_COMMAND_TASK_TYPES\<close>\<close>

fun command_task :: "task_kind \<Rightarrow> bool" where
  "command_task (TextGeneration _ _) = True"
| "command_task (ImageGeneration _) = True"
| "command_task (ImageEdits _ _) = True"
| "command_task (TextEmbedding _) = True"
| "command_task (SpeechSynthesis _ _) = True"
| "command_task (AudioTranscription _ _) = True"
| "command_task (RealtimeAudioTranscription _) = True"
| "command_task (MusicGeneration _) = True"
| "command_task _ = False"

definition open_task :: "task \<Rightarrow> bool" where
  "open_task t \<longleftrightarrow> task_status t \<in> {Pending, Running}"

definition instances_on_dead_nodes :: "'g state \<Rightarrow> node_id list \<Rightarrow> node_id list \<Rightarrow> instance_id list" where
  "instances_on_dead_nodes st connected_ids timed_out =
     map fst (filter (\<lambda>(iid, i). list_ex (\<lambda>n. n \<notin> set connected_ids \<or> n \<in> set timed_out) (dict_keys (node_to_runner (inst_shards i))))
       (instances st))"

definition orphaned_task_failure_events :: "'g state \<Rightarrow> instance_id list \<Rightarrow> 'g event_body list" where
  "orphaned_task_failure_events st dying =
     map (\<lambda>(tid, t). TaskFailed tid ''instance_lost''
            ''The instance executing this request was lost (node disconnected or instance deleted)'')
       (filter (\<lambda>(tid, t). command_task (task_kind t) \<and> open_task t \<and>
                  (\<not> dict_has (instances st) (task_instance_id t) \<or> task_instance_id t \<in> set dying)) (tasks st))"

definition ORPHANED_LIFECYCLE_TASK_GRACE_SECONDS :: rat where
  "ORPHANED_LIFECYCLE_TASK_GRACE_SECONDS = 60"

definition orphaned_lifecycle :: "'g state \<Rightarrow> task_id list" where
  "orphaned_lifecycle st =
     map fst (filter (\<lambda>(tid, t). \<not> command_task (task_kind t) \<and> open_task t \<and> \<not> dict_has (instances st) (task_instance_id t)) (tasks st))"

text \<open>\<open>first_seen\<close> is the caller's dictionary of first observations; the result holds its new value and the events.\<close>

definition stale_lifecycle_task_failures ::
  "(rat \<Rightarrow> rat) \<Rightarrow> 'g state \<Rightarrow> (task_id, rat) dict \<Rightarrow> rat \<Rightarrow> (task_id, rat) dict \<times> 'g event_body list" where
  "stale_lifecycle_task_failures fl st first_seen now =
     (let orphaned_now = orphaned_lifecycle st;
          stamped = foldl (\<lambda>d tid. if dict_has d tid then d else dict_set tid now d) first_seen orphaned_now;
          emitted = filter (\<lambda>tid. fl (now - dict_default now stamped tid) \<ge> ORPHANED_LIFECYCLE_TASK_GRACE_SECONDS) orphaned_now
      in (dict_filter (\<lambda>tid _. tid \<in> set orphaned_now \<and> tid \<notin> set emitted) stamped,
          map (\<lambda>tid. TaskFailed tid ''executor_lost'' ''Lifecycle task outlived its instance with no surviving executor'') emitted))"

section \<open>The pass\<close>

text \<open>What the pass reads beside the replicated state, and the stamps it keeps.  The set of timed-out nodes is iterated
  in the unspecified order \<open>order\<close>.\<close>

record liveness_view =
  lv_heartbeats :: "(node_id, datetime) dict"
  lv_telemetry :: "(node_id, datetime) dict"
  lv_now :: datetime
  lv_started_monotonic :: rat
  lv_monotonic :: rat
  lv_first_seen :: "(task_id, rat) dict"

definition TOPOLOGY_SETTLE_GRACE_SECONDS :: rat where
  "TOPOLOGY_SETTLE_GRACE_SECONDS = 60"

definition topology_settled :: "(rat \<Rightarrow> rat) \<Rightarrow> liveness_view \<Rightarrow> bool" where
  "topology_settled fl v \<longleftrightarrow> fl (lv_monotonic v - lv_started_monotonic v) \<ge> TOPOLOGY_SETTLE_GRACE_SECONDS"

definition timeout_evidence_of :: "(rat \<Rightarrow> rat) \<Rightarrow> liveness_view \<Rightarrow> 'g state \<Rightarrow> (node_id, node_timeout_evidence) dict" where
  "timeout_evidence_of fl v st =
     (if topology_settled fl v
      then compute_node_timeout_evidence fl (last_seen st) (lv_heartbeats v) (lv_telemetry v) (lv_now v) NODE_LIVENESS_TIMEOUT
      else [])"

definition liveness_pass ::
  "(rat \<Rightarrow> rat) \<Rightarrow> 'g rx_ops \<Rightarrow> (string \<Rightarrow> string) \<Rightarrow> (node_timeout_evidence \<Rightarrow> opaque) \<Rightarrow> (node_id list \<Rightarrow> node_id list)
     \<Rightarrow> 'g state \<Rightarrow> liveness_view \<Rightarrow> py_error + liveness_view \<times> 'g event_body list" where
  "liveness_pass fl rx sha256_hex dump order st v =
     (let connected_ids = list_nodes rx (topology st);
          settled = topology_settled fl v;
          evid = timeout_evidence_of fl v st;
          timed_out = timed_out_nodes_from_evidence evid;
          dying = (if settled then instances_on_dead_nodes st connected_ids timed_out else []);
          failed = orphaned_task_failure_events st dying;
          (first_seen, stale) = (if settled then stale_lifecycle_task_failures fl st (lv_first_seen v) (lv_monotonic v)
                                 else (lv_first_seen v, []))
      in bind_result (if settled then dead_node_instance_failure_events sha256_hex (lv_now v) st connected_ids timed_out else Inr [])
           (\<lambda>failures. Inr (v\<lparr>lv_first_seen := first_seen\<rparr>,
              failed @ stale @ failures
              @ (if settled
                 then map (\<lambda>(iid, i). InstanceDeleted iid)
                        (filter (\<lambda>(iid, i). list_ex (\<lambda>n. n \<notin> set connected_ids) (dict_keys (node_to_runner (inst_shards i)))) (instances st))
                 else [])
              @ map (\<lambda>n. NodeTimedOut n (map_option dump (dict_get evid n))) (order timed_out))))"

end
