(* ===== verification/Master_Liveness_Proofs.thy ===== *)
theory Master_Liveness_Proofs
  imports Master_Liveness
begin

text \<open>
  What the liveness pass guarantees: no request is dropped without an answer, a failure record never blocks a teardown,
  and an abandoned lifecycle task is reaped after its grace.
\<close>

section \<open>What the events of a pass do\<close>

fun pass_event :: "'g event_body \<Rightarrow> bool" where
  "pass_event (TaskFailed _ _ _) = True"
| "pass_event (InstanceFailureRecorded _) = True"
| "pass_event (InstanceDeleted _) = True"
| "pass_event (NodeTimedOut _ _) = True"
| "pass_event _ = False"

fun takes_instance :: "'g event_body \<Rightarrow> instance_id \<Rightarrow> instance_t \<Rightarrow> bool" where
  "takes_instance (InstanceDeleted iid) k i \<longleftrightarrow> iid = k"
| "takes_instance (NodeTimedOut n _) k i \<longleftrightarrow> dict_has (node_to_runner (inst_shards i)) n"
| "takes_instance _ k i \<longleftrightarrow> False"

fun fails_task :: "'g event_body \<Rightarrow> task_id \<Rightarrow> bool" where
  "fails_task (TaskFailed tid _ _) k \<longleftrightarrow> tid = k"
| "fails_task _ k \<longleftrightarrow> False"

definition drops_task :: "'g event_body \<Rightarrow> 'g state \<Rightarrow> task \<Rightarrow> bool" where
  "drops_task e st t \<longleftrightarrow>
     (\<exists>n ev i. e = NodeTimedOut n ev \<and> dict_get (instances st) (task_instance_id t) = Some i \<and> dict_has (node_to_runner (inst_shards i)) n)"

lemma pass_step:
  assumes "pass_event e" "event_apply rx p e st = Inr st'" "dict_wf (instances st)" "dict_wf (tasks st)"
  shows "dict_wf (instances st')" "dict_wf (tasks st')"
    "dict_get (instances st') k = (case dict_get (instances st) k of None \<Rightarrow> None | Some i \<Rightarrow> if takes_instance e k i then None else Some i)"
    "dict_get (tasks st) tid = None \<Longrightarrow> dict_get (tasks st') tid = None"
    "dict_get (tasks st) tid = Some t \<Longrightarrow> drops_task e st t \<Longrightarrow> dict_get (tasks st') tid = None"
    "dict_get (tasks st) tid = Some t \<Longrightarrow> \<not> drops_task e st t \<Longrightarrow> \<not> fails_task e tid \<Longrightarrow> dict_get (tasks st') tid = Some t"
    "dict_get (tasks st) tid = Some t \<Longrightarrow> fails_task e tid \<Longrightarrow>
       \<exists>t'. dict_get (tasks st') tid = Some t' \<and> task_status t' = Failed \<and> task_instance_id t' = task_instance_id t \<and> task_kind t' = task_kind t"
proof -
  have affected: "k \<in> set (dict_keys (dict_filter (\<lambda>iid inst. dict_has (node_to_runner (inst_shards inst)) n) (instances st)))
      \<longleftrightarrow> (\<exists>i. dict_get (instances st) k = Some i \<and> dict_has (node_to_runner (inst_shards i)) n)" for k n
    unfolding dict_has_iff_keys [symmetric] dict_has_def [of "dict_filter _ _"] dict_get_filter [OF assms(3)] by (auto split: option.split)
  show "dict_wf (instances st')" "dict_wf (tasks st')"
    "dict_get (instances st') k = (case dict_get (instances st) k of None \<Rightarrow> None | Some i \<Rightarrow> if takes_instance e k i then None else Some i)"
    "dict_get (tasks st) tid = None \<Longrightarrow> dict_get (tasks st') tid = None"
    "dict_get (tasks st) tid = Some t \<Longrightarrow> drops_task e st t \<Longrightarrow> dict_get (tasks st') tid = None"
    "dict_get (tasks st) tid = Some t \<Longrightarrow> \<not> drops_task e st t \<Longrightarrow> \<not> fails_task e tid \<Longrightarrow> dict_get (tasks st') tid = Some t"
    "dict_get (tasks st) tid = Some t \<Longrightarrow> fails_task e tid \<Longrightarrow>
       \<exists>t'. dict_get (tasks st') tid = Some t' \<and> task_status t' = Failed \<and> task_instance_id t' = task_instance_id t \<and> task_kind t' = task_kind t"
    using assms affected
    by (cases e; auto simp: apply_task_failed_def apply_instance_failure_recorded_def apply_instance_deleted_def apply_node_timed_out_def
          drops_task_def Let_def dict_get_filter dict_get_filter_keys split: option.splits if_splits)+
qed

lemma pass_task_gone:
  assumes "list_all pass_event es" "apply_bodies rx p es st = Inr st'" "dict_wf (instances st)" "dict_wf (tasks st)"
    "dict_get (tasks st) tid = Some t" "dict_get (tasks st') tid = None"
  shows "\<exists>n ev i. NodeTimedOut n ev \<in> set es \<and> dict_get (instances st) (task_instance_id t) = Some i \<and> dict_has (node_to_runner (inst_shards i)) n"
  using assms
proof (induction es arbitrary: st t)
  case (Cons e es)
  obtain s where s: "event_apply rx p e st = Inr s" "apply_bodies rx p es s = Inr st'" using Cons.prems(2) by (auto split: sum.splits)
  have e: "pass_event e" "list_all pass_event es" using Cons.prems(1) by simp_all
  note step = pass_step [OF e(1) s(1) Cons.prems(3,4)]
  show ?case
  proof (cases "drops_task e st t")
    case True
    then show ?thesis by (auto simp: drops_task_def)
  next
    case False
    obtain t' where t': "dict_get (tasks s) tid = Some t'" "task_instance_id t' = task_instance_id t"
      using step(6,7) [OF Cons.prems(5)] False by (cases "fails_task e tid") blast+
    obtain n ev i where "NodeTimedOut n ev \<in> set es" "dict_get (instances s) (task_instance_id t) = Some i" "dict_has (node_to_runner (inst_shards i)) n"
      using Cons.IH [OF e(2) s(2) step(1,2) t'(1) Cons.prems(6)] t'(2) by auto
    then show ?thesis using step(3) [of "task_instance_id t"] by (auto split: option.splits if_splits)
  qed
qed simp

lemma pass_task_absent:
  assumes "list_all pass_event es" "apply_bodies rx p es st = Inr st'" "dict_wf (instances st)" "dict_wf (tasks st)" "dict_get (tasks st) tid = None"
  shows "dict_get (tasks st') tid = None"
  using assms
proof (induction es arbitrary: st)
  case (Cons e es)
  obtain s where s: "event_apply rx p e st = Inr s" "apply_bodies rx p es s = Inr st'" using Cons.prems(2) by (auto split: sum.splits)
  have e: "pass_event e" "list_all pass_event es" using Cons.prems(1) by simp_all
  note step = pass_step [OF e(1) s(1) Cons.prems(3,4)]
  show ?case using Cons.IH [OF e(2) s(2) step(1,2) step(4) [OF Cons.prems(5)]] .
qed simp

lemma pass_task_kept:
  assumes "list_all pass_event es" "apply_bodies rx p es st = Inr st'" "dict_wf (instances st)" "dict_wf (tasks st)"
    "dict_get (tasks st') tid = Some t'" "task_status t' \<noteq> Failed"
  shows "dict_get (tasks st) tid = Some t' \<and> list_all (\<lambda>e. \<not> fails_task e tid) es"
  using assms
proof (induction es arbitrary: st)
  case (Cons e es)
  obtain s where s: "event_apply rx p e st = Inr s" "apply_bodies rx p es s = Inr st'" using Cons.prems(2) by (auto split: sum.splits)
  have e: "pass_event e" "list_all pass_event es" using Cons.prems(1) by simp_all
  note step = pass_step [OF e(1) s(1) Cons.prems(3,4)]
  have kept: "dict_get (tasks s) tid = Some t'" "list_all (\<lambda>e. \<not> fails_task e tid) es"
    using Cons.IH [OF e(2) s(2) step(1,2) Cons.prems(5,6)] by blast+
  obtain t where t: "dict_get (tasks st) tid = Some t" using step(4) kept(1) by (metis not_Some_eq)
  have "\<not> drops_task e st t" using step(5) [OF t] kept(1) by auto
  moreover have "\<not> fails_task e tid" using step(7) [OF t] kept(1) Cons.prems(6) by auto
  ultimately show ?case using step(6) [OF t] kept t by simp
qed simp

lemma pass_instance_kept:
  assumes "list_all pass_event es" "apply_bodies rx p es st = Inr st'" "dict_wf (instances st)" "dict_wf (tasks st)"
    "dict_get (instances st) k = Some i" "list_all (\<lambda>e. \<not> takes_instance e k i) es"
  shows "dict_get (instances st') k = Some i"
  using assms
proof (induction es arbitrary: st)
  case (Cons e es)
  obtain s where s: "event_apply rx p e st = Inr s" "apply_bodies rx p es s = Inr st'" using Cons.prems(2) by (auto split: sum.splits)
  have e: "pass_event e" "list_all pass_event es" "\<not> takes_instance e k i" "list_all (\<lambda>e. \<not> takes_instance e k i) es"
    using Cons.prems(1,6) by simp_all
  note step = pass_step [OF e(1) s(1) Cons.prems(3,4)]
  show ?case using Cons.IH [OF e(2) s(2) step(1,2) _ e(4)] step(3) [of k] Cons.prems(5) e(3) by simp
qed simp

lemma pass_task_dropped:
  assumes "list_all pass_event es" "apply_bodies rx p es st = Inr st'" "dict_wf (instances st)" "dict_wf (tasks st)"
    "dict_get (tasks st) tid = Some t" "dict_get (instances st) (task_instance_id t) = Some i"
    "dict_has (node_to_runner (inst_shards i)) n" "NodeTimedOut n ev \<in> set es"
    "list_all (\<lambda>e. e \<noteq> InstanceDeleted (task_instance_id t)) es"
  shows "dict_get (tasks st') tid = None"
  using assms
proof (induction es arbitrary: st t)
  case (Cons e es)
  obtain s where s: "event_apply rx p e st = Inr s" "apply_bodies rx p es s = Inr st'" using Cons.prems(2) by (auto split: sum.splits)
  have e: "pass_event e" "list_all pass_event es" using Cons.prems(1) by simp_all
  note step = pass_step [OF e(1) s(1) Cons.prems(3,4)]
  show ?case
  proof (cases "drops_task e st t")
    case True
    have "dict_get (tasks s) tid = None" by (rule step(5) [OF Cons.prems(5) True])
    then show ?thesis
      using pass_task_absent [OF e(2) s(2) step(1,2)] by blast
  next
    case False
    then have "\<not> takes_instance e (task_instance_id t) i"
      using Cons.prems(1,6,9) by (cases e) (auto simp: drops_task_def)
    moreover have "NodeTimedOut n ev \<in> set es" using False Cons.prems(6-8) by (auto simp: drops_task_def)
    moreover obtain t' where "dict_get (tasks s) tid = Some t'" "task_instance_id t' = task_instance_id t"
      using step(6,7) [OF Cons.prems(5)] False by (cases "fails_task e tid") blast+
    ultimately show ?thesis
      using Cons.IH [OF e(2) s(2) step(1,2) _ _ Cons.prems(7), of t'] step(3) [of "task_instance_id t"] Cons.prems(6,9) by simp
  qed
qed simp

section \<open>The shape of a pass\<close>

fun recording :: "'g event_body \<Rightarrow> bool" where
  "recording (TaskFailed _ _ _) = True"
| "recording (InstanceFailureRecorded _) = True"
| "recording _ = False"

definition dying_instances :: "(rat \<Rightarrow> rat) \<Rightarrow> 'g rx_ops \<Rightarrow> liveness_view \<Rightarrow> 'g state \<Rightarrow> instance_id list" where
  "dying_instances fl rx v st =
     (if topology_settled fl v
      then instances_on_dead_nodes st (list_nodes rx (topology st)) (timed_out_nodes_from_evidence (timeout_evidence_of fl v st)) else [])"

lemma instance_failure_event_recorded: "instance_failure_event sha now i code msg = Inr e \<Longrightarrow> \<exists>f. e = InstanceFailureRecorded f"
  by (auto simp: instance_failure_event_def)

lemma failure_events_recording:
  assumes "dead_node_instance_failure_events sha now st live gone = Inr es"
  shows "\<forall>e \<in> set es. \<exists>f. e = InstanceFailureRecorded f"
proof -
  have "\<exists>f. e = InstanceFailureRecorded f" if e: "e \<in> set es" for e
  proof -
    have "Inr e \<in> set (map Inr es)" using e by simp
    then have "Inr e \<in> set (List.map_filter (\<lambda>i.
       case sort (filter (\<lambda>n. n \<notin> set live \<or> n \<in> set gone) (dict_keys (node_to_runner (inst_shards i)))) of
         [] \<Rightarrow> None
       | n # _ \<Rightarrow> Some (instance_failure_event sha now i ''node_unavailable''
                     (node_unavailable_failure_message n (if n \<in> set gone then ''timed out'' else ''left the live topology''))))
       (dict_values (instances st)))"
      using assms unfolding dead_node_instance_failure_events_def collect_results_Inr by metis
    then show ?thesis
      by (auto simp: List.map_filter_def split: list.splits intro: instance_failure_event_recorded [OF sym])
  qed
  then show ?thesis by blast
qed

text \<open>First the failures of requests, then records that take nothing away, then what removes placements.\<close>

definition pass_shape ::
  "(rat \<Rightarrow> rat) \<Rightarrow> 'g rx_ops \<Rightarrow> liveness_view \<Rightarrow> 'g state \<Rightarrow> 'g event_body list \<Rightarrow> 'g event_body list \<Rightarrow> 'g event_body list \<Rightarrow> bool" where
  "pass_shape fl rx v st es rec rem \<longleftrightarrow>
     es = orphaned_task_failure_events st (dying_instances fl rx v st) @ rec @ rem \<and> list_all recording rec \<and>
     (\<forall>e \<in> set rem. (\<exists>iid j. e = InstanceDeleted iid \<and> iid \<in> set (dying_instances fl rx v st) \<and> (iid, j) \<in> set (instances st) \<and>
          \<not> set (dict_keys (node_to_runner (inst_shards j))) \<subseteq> set (list_nodes rx (topology st))) \<or>
        (\<exists>n ev. e = NodeTimedOut n ev \<and> n \<in> set (timed_out_nodes_from_evidence (timeout_evidence_of fl v st)))) \<and>
     (\<forall>n \<in> set (timed_out_nodes_from_evidence (timeout_evidence_of fl v st)). \<exists>ev. NodeTimedOut n ev \<in> set rem) \<and>
     list_all (\<lambda>e. \<forall>tid. fails_task e tid \<longrightarrow> tid \<in> set (orphaned_lifecycle st)) rec"

lemmas pass_shapeD = pass_shape_def [THEN iffD1, THEN conjunct1] pass_shape_def [THEN iffD1, THEN conjunct2, THEN conjunct1]
  pass_shape_def [THEN iffD1, THEN conjunct2, THEN conjunct2, THEN conjunct1]
  pass_shape_def [THEN iffD1, THEN conjunct2, THEN conjunct2, THEN conjunct2, THEN conjunct1]
  pass_shape_def [THEN iffD1, THEN conjunct2, THEN conjunct2, THEN conjunct2, THEN conjunct2]

lemma liveness_pass_events:
  assumes "liveness_pass fl rx sha dump order st v = Inr (v', es)" "\<forall>ns. set (order ns) = set ns"
  shows "\<exists>rec rem. pass_shape fl rx v st es rec rem"
proof -
  let ?gone = "timed_out_nodes_from_evidence (timeout_evidence_of fl v st)" and ?live = "list_nodes rx (topology st)"
  let ?stale = "if topology_settled fl v then snd (stale_lifecycle_task_failures fl st (lv_first_seen v) (lv_monotonic v)) else []"
  let ?del = "if topology_settled fl v
                 then map (\<lambda>(iid, i). InstanceDeleted iid)
                        (filter (\<lambda>(iid, i). list_ex (\<lambda>n. n \<notin> set ?live) (dict_keys (node_to_runner (inst_shards i)))) (instances st))
                 else []"
  let ?out = "map (\<lambda>n. NodeTimedOut n (map_option dump (dict_get (timeout_evidence_of fl v st) n))) (order ?gone)"
  obtain fs where fs: "(if topology_settled fl v then dead_node_instance_failure_events sha (lv_now v) st ?live ?gone else Inr []) = Inr fs"
      "es = orphaned_task_failure_events st (dying_instances fl rx v st) @ (?stale @ fs) @ ?del @ ?out"
    using assms(1) unfolding liveness_pass_def Let_def split_beta bind_result_Inr dying_instances_def
    by (cases "topology_settled fl v") auto
  have fs_rec: "\<forall>e \<in> set fs. \<exists>f. e = InstanceFailureRecorded f"
    using fs(1) failure_events_recording [of sha "lv_now v" st ?live ?gone fs] by (cases "topology_settled fl v") auto
  have stale: "list_all recording ?stale" "list_all (\<lambda>e. \<forall>tid. fails_task e tid \<longrightarrow> tid \<in> set (orphaned_lifecycle st)) ?stale"
    by (auto simp: stale_lifecycle_task_failures_def list_all_iff Let_def)
  have del: "\<exists>iid j. e = InstanceDeleted iid \<and> iid \<in> set (dying_instances fl rx v st) \<and> (iid, j) \<in> set (instances st) \<and>
      \<not> set (dict_keys (node_to_runner (inst_shards j))) \<subseteq> set ?live" if e: "e \<in> set ?del" for e
  proof -
    obtain iid i where "topology_settled fl v" "e = InstanceDeleted iid" "(iid, i) \<in> set (instances st)"
        "list_ex (\<lambda>n. n \<notin> set ?live) (dict_keys (node_to_runner (inst_shards i)))"
      using e by (cases "topology_settled fl v") auto
    moreover from this have "iid \<in> set (dying_instances fl rx v st)"
      by (force simp: dying_instances_def instances_on_dead_nodes_def list_ex_iff)
    ultimately show ?thesis by (auto simp: list_ex_iff)
  qed
  have rec: "list_all recording (?stale @ fs)" using stale(1) fs_rec by (auto simp: list_all_iff)
  have out: "\<exists>n ev. e = NodeTimedOut n ev \<and> n \<in> set ?gone" if "e \<in> set ?out" for e using that assms(2) by auto
  have all_out: "\<forall>n \<in> set ?gone. \<exists>ev. NodeTimedOut n ev \<in> set (?del @ ?out)" using assms(2) by auto
  have lifecycle: "list_all (\<lambda>e. \<forall>tid. fails_task e tid \<longrightarrow> tid \<in> set (orphaned_lifecycle st)) (?stale @ fs)"
    using stale(2) fs_rec by (auto simp: list_all_iff)
  have "\<forall>e \<in> set (?del @ ?out). (\<exists>iid j. e = InstanceDeleted iid \<and> iid \<in> set (dying_instances fl rx v st) \<and> (iid, j) \<in> set (instances st) \<and>
          \<not> set (dict_keys (node_to_runner (inst_shards j))) \<subseteq> set ?live) \<or>
       (\<exists>n ev. e = NodeTimedOut n ev \<and> n \<in> set ?gone)"
    using del out unfolding set_append by blast
  then have "pass_shape fl rx v st es (?stale @ fs) (?del @ ?out)"
    unfolding pass_shape_def using fs(2) rec all_out lifecycle by (intro conjI) simp_all
  then show ?thesis by blast
qed

section \<open>Requests are answered before they are dropped\<close>

lemma timed_out_settled: "n \<in> set (timed_out_nodes_from_evidence (timeout_evidence_of fl v st)) \<Longrightarrow> topology_settled fl v"
  by (auto simp: timed_out_nodes_from_evidence_def timeout_evidence_of_def split: if_splits)

lemma orphan_events_pass:
  "list_all pass_event (orphaned_task_failure_events st dying)" "list_all recording (orphaned_task_failure_events st dying)"
  by (auto simp: orphaned_task_failure_events_def list_all_iff)

lemma recording_pass: "recording e \<Longrightarrow> pass_event e" "recording e \<Longrightarrow> \<not> takes_instance e k i"
  by (cases e; simp)+

lemma liveness_pass_pass_events:
  assumes "liveness_pass fl rx sha dump order st v = Inr (v', es)" "\<forall>ns. set (order ns) = set ns"
  shows "list_all pass_event es"
proof -
  obtain rec rem where "pass_shape fl rx v st es rec rem" using liveness_pass_events [OF assms] by blast
  note es = pass_shapeD [OF this]
  have "list_all pass_event rec" using es(2) recording_pass(1) by (auto simp: list_all_iff)
  moreover have "list_all pass_event rem" using es(3) by (auto simp: list_all_iff)
  ultimately show ?thesis using orphan_events_pass(1) es(1) by simp
qed

lemma dying_by_node:
  assumes "dict_get (instances st) iid = Some i" "dict_has (node_to_runner (inst_shards i)) n"
    "n \<in> set (timed_out_nodes_from_evidence (timeout_evidence_of fl v st))"
  shows "iid \<in> set (dying_instances fl rx v st)"
  using map_of_SomeD [OF assms(1)] assms(2,3) timed_out_settled [OF assms(3)]
  by (force simp: dying_instances_def instances_on_dead_nodes_def list_ex_iff dict_has_iff_keys)

text \<open>C11. A request of a type that the master tracks does not disappear without an answer.  The types are those of
  \<open>_COMMAND_TASK_TYPES\<close>: text, image, edit, embedding, speech, transcription, realtime and music requests, but not video
  generation.  Take any prefix of the events of a liveness pass and apply it.  If such a request was pending or
  running and is no longer in the state, the prefix already contains its \<open>TaskFailed\<close>, so the node that serves the client
  has seen the failure.\<close>

theorem requests_fail_before_removal:
  assumes "liveness_pass fl rx sha dump order st v = Inr (v', sent @ rest)" "\<forall>ns. set (order ns) = set ns"
    "dict_wf (instances st)" "dict_wf (tasks st)" "apply_bodies rx parse_iso sent st = Inr st'"
    "dict_get (tasks st) tid = Some t" "command_task (task_kind t)" "open_task t" "dict_get (tasks st') tid = None"
  shows "\<exists>msg. TaskFailed tid ''instance_lost'' msg \<in> set sent"
proof -
  let ?dying = "dying_instances fl rx v st"
  obtain rec rem where "pass_shape fl rx v st (sent @ rest) rec rem" using liveness_pass_events [OF assms(1,2)] by blast
  note es = pass_shapeD [OF this]
  have "list_all pass_event sent" using liveness_pass_pass_events [OF assms(1,2)] by simp
  then obtain n ev i where gone: "NodeTimedOut n ev \<in> set sent" "dict_get (instances st) (task_instance_id t) = Some i"
      "dict_has (node_to_runner (inst_shards i)) n"
    using pass_task_gone assms(3-6,9) by meson
  have quiet: "NodeTimedOut n ev \<notin> set (orphaned_task_failure_events st ?dying)" "NodeTimedOut n ev \<notin> set rec"
    using es(2) by (auto simp: orphaned_task_failure_events_def list_all_iff)
  have "NodeTimedOut n ev \<in> set rem" using gone(1) quiet arg_cong [OF es(1), of set] by auto
  then have "n \<in> set (timed_out_nodes_from_evidence (timeout_evidence_of fl v st))" using es(3) by auto
  then have "task_instance_id t \<in> set ?dying" using dying_by_node gone(2,3) by blast
  then have "\<exists>msg. TaskFailed tid ''instance_lost'' msg \<in> set (orphaned_task_failure_events st ?dying)"
    using map_of_SomeD [OF assms(6)] assms(7,8) by (force simp: orphaned_task_failure_events_def)
  moreover have "set (orphaned_task_failure_events st ?dying) \<subseteq> set sent"
  proof -
    obtain us where "orphaned_task_failure_events st ?dying = sent @ us \<or> sent = orphaned_task_failure_events st ?dying @ us"
      using es(1) by (metis append_eq_append_conv2)
    then show ?thesis using gone(1) quiet(1) by auto
  qed
  ultimately show ?thesis by blast
qed

text \<open>After a liveness pass no open request is stranded.  Once all events of the pass are applied, every request that
  is still pending or running belongs to an instance that still exists and whose nodes are all live.\<close>

theorem no_request_stranded:
  assumes "liveness_pass fl rx sha dump order st v = Inr (v', es)" "\<forall>ns. set (order ns) = set ns"
    "dict_wf (instances st)" "dict_wf (tasks st)" "apply_bodies rx parse_iso es st = Inr st'"
    "dict_get (tasks st') tid = Some t" "command_task (task_kind t)" "open_task t"
  shows "\<exists>i. dict_get (instances st') (task_instance_id t) = Some i \<and>
    (topology_settled fl v \<longrightarrow> (\<forall>n \<in> set (dict_keys (node_to_runner (inst_shards i))).
       n \<in> set (list_nodes rx (topology st)) \<and> n \<notin> set (timed_out_nodes_from_evidence (timeout_evidence_of fl v st))))"
proof -
  let ?dying = "dying_instances fl rx v st" and ?gone = "timed_out_nodes_from_evidence (timeout_evidence_of fl v st)"
  obtain rec rem where "pass_shape fl rx v st es rec rem" using liveness_pass_events [OF assms(1,2)] by blast
  note es = pass_shapeD [OF this]
  have pass: "list_all pass_event es" by (rule liveness_pass_pass_events [OF assms(1,2)])
  have kept: "dict_get (tasks st) tid = Some t" "list_all (\<lambda>e. \<not> fails_task e tid) es"
    using pass_task_kept [OF pass assms(5,3,4,6)] assms(8) by (auto simp: open_task_def)
  have alive: "dict_has (instances st) (task_instance_id t)" "task_instance_id t \<notin> set ?dying"
    using kept(2) map_of_SomeD [OF kept(1)] assms(7,8) es(1) by (force simp: orphaned_task_failure_events_def list_all_iff)+
  then obtain i where i: "dict_get (instances st) (task_instance_id t) = Some i" by (auto simp: dict_has_def)
  have "\<not> takes_instance e (task_instance_id t) i" if e: "e \<in> set es" for e
  proof (cases "e \<in> set rem")
    case True
    then show ?thesis using bspec [OF es(3) True] alive(2) dying_by_node [OF i, of _ fl v rx] by auto
  next
    case False
    then have "recording e" using e es(1,2) orphan_events_pass(2) [of st ?dying] by (auto simp: list_all_iff)
    then show ?thesis by (rule recording_pass(2))
  qed
  then have "dict_get (instances st') (task_instance_id t) = Some i"
    using pass_instance_kept [OF pass assms(5,3,4) i] by (auto simp: list_all_iff)
  moreover have "n \<in> set (list_nodes rx (topology st)) \<and> n \<notin> set ?gone"
    if "topology_settled fl v" "n \<in> set (dict_keys (node_to_runner (inst_shards i)))" for n
    using that alive(2) map_of_SomeD [OF i] by (force simp: dying_instances_def instances_on_dead_nodes_def list_ex_iff)
  ultimately show ?thesis by blast
qed

text \<open>C38. A render is dropped without an answer.  Video generation is not among the task types the pass fails, although
  a client waits for it: when the node that renders times out, the task leaves the state and no \<open>TaskFailed\<close> for it is
  ever among the events.\<close>

theorem video_request_stranded:
  assumes "liveness_pass fl rx sha dump order st v = Inr (v', es)" "\<forall>ns. set (order ns) = set ns"
    "dict_wf (instances st)" "dict_wf (tasks st)" "apply_bodies rx parse_iso es st = Inr st'"
    "dict_get (tasks st) tid = Some t" "task_kind t = VideoGeneration params chunks" "open_task t"
    "dict_get (instances st) (task_instance_id t) = Some i" "set (dict_keys (node_to_runner (inst_shards i))) \<subseteq> set (list_nodes rx (topology st))"
    "n \<in> set (dict_keys (node_to_runner (inst_shards i)))" "n \<in> set (timed_out_nodes_from_evidence (timeout_evidence_of fl v st))"
  shows "dict_get (tasks st') tid = None \<and> (\<forall>ty msg. TaskFailed tid ty msg \<notin> set es)"
proof -
  obtain rec rem where "pass_shape fl rx v st es rec rem" using liveness_pass_events [OF assms(1,2)] by blast
  note es = pass_shapeD [OF this]
  have pass: "list_all pass_event es" by (rule liveness_pass_pass_events [OF assms(1,2)])
  have no_fail: "\<not> fails_task e tid" if e: "e \<in> set es" for e
  proof -
    have stored: "b = t" if "(tid, b) \<in> set (tasks st)" for b
      using that assms(4,6) by (metis dict_wf_def map_of_is_SomeI option.inject)
    have "tid \<notin> set (orphaned_lifecycle st)"
      using stored assms(9) by (auto simp: orphaned_lifecycle_def dict_has_def)
    moreover have "\<not> fails_task e tid" if "e \<in> set (orphaned_task_failure_events st (dying_instances fl rx v st))"
      using that stored assms(7) by (auto simp: orphaned_task_failure_events_def)
    moreover have "\<not> fails_task e tid" if "e \<in> set rem" using bspec [OF es(3) that] by auto
    ultimately show ?thesis using e es(1,5) by (auto simp: list_all_iff)
  qed
  obtain ev where ev: "NodeTimedOut n ev \<in> set es" using es(1) bspec [OF es(4) assms(12)] by auto
  have "e \<noteq> InstanceDeleted (task_instance_id t)" if e: "e \<in> set es" for e
  proof -
    have "j = i" if "(task_instance_id t, j) \<in> set (instances st)" for j
      using that assms(3,9) by (metis dict_wf_def map_of_is_SomeI option.inject)
    then have "e \<noteq> InstanceDeleted (task_instance_id t)" if "e \<in> set rem" using bspec [OF es(3) that] assms(10) by auto
    then show ?thesis using e es(1,2) orphan_events_pass(2) [of st "dying_instances fl rx v st"] by (auto simp: list_all_iff)
  qed
  then have "dict_get (tasks st') tid = None"
    using pass_task_dropped [OF pass assms(5,3,4,6,9) _ ev] assms(11) by (auto simp: list_all_iff dict_has_iff_keys)
  then show ?thesis using no_fail by fastforce
qed

section \<open>Failure records\<close>

definition failure_bounded :: "instance_failure \<Rightarrow> bool" where
  "failure_bounded f \<longleftrightarrow> utf8_length (if_instance_id f) \<le> 256 \<and> utf8_length (if_model_id f) \<le> 256 \<and>
     length (if_affected_node_ids f) \<le> 64 \<and> sorted (if_affected_node_ids f) \<and> distinct (if_affected_node_ids f) \<and>
     list_all (\<lambda>n. utf8_length n \<le> 256) (if_affected_node_ids f) \<and> if_error_message f \<noteq> [] \<and> length (if_error_message f) \<le> 2048"

lemma utf8_length_append [simp]: "utf8_length (xs @ ys) = utf8_length xs + utf8_length ys"
  by (simp add: utf8_length_def)

lemma bounded_reference:
  assumes "\<forall>x. utf8_length (sha x) = 64"
  shows "utf8_length (bounded_failure_reference sha x) \<le> 256"
proof -
  have "utf8_length ''sha256:'' = 7" by code_simp
  then show ?thesis using assms unfolding bounded_failure_reference_def INSTANCE_FAILURE_ID_MAX_BYTES_def
    by (cases "utf8_length x \<le> 256") (simp_all only: if_True if_False utf8_length_append)
qed

lemma failure_event_total:
  assumes "\<forall>x. utf8_length (sha x) = 64" "msg \<noteq> []" "length msg \<le> 2048"
  shows "\<exists>f. instance_failure_event sha now i code msg = Inr (InstanceFailureRecorded f) \<and> failure_bounded f \<and>
    if_instance_id f = bounded_failure_reference sha (inst_id i)"
proof -
  let ?nodes = "take 64 (sorted_list_of_set (set (map (bounded_failure_reference sha) (dict_keys (node_to_runner (inst_shards i))))))"
  have "list_all (\<lambda>n. utf8_length n \<le> 256) ?nodes"
    using bounded_reference [OF assms(1)] by (auto simp: list_all_iff dest!: in_set_takeD)
  moreover have "sorted ?nodes" "distinct ?nodes" "length ?nodes \<le> 64" by (simp_all add: sorted_wrt_take)
  ultimately show ?thesis
    using assms(2,3) bounded_reference [OF assms(1)]
    by (simp add: instance_failure_event_def new_instance_failure_def bind_result_simps failure_bounded_def)
qed

lemma node_message_bounded:
  "node_unavailable_failure_message n reason \<noteq> []" "length reason \<le> 1000 \<Longrightarrow> length (node_unavailable_failure_message n reason) \<le> 2048"
  by (simp_all add: node_unavailable_failure_message_def INSTANCE_FAILURE_MESSAGE_LIMIT_def Let_def)

lemma collect_results_total:
  "(\<And>r. r \<in> set rs \<Longrightarrow> \<exists>x. r = Inr x) \<Longrightarrow> \<exists>xs. collect_results rs = Inr xs \<and> rs = map Inr xs"
  unfolding collect_results_Inr by (metis ex_map_conv)

lemma in_map_filter: "r \<in> set (List.map_filter g xs) \<longleftrightarrow> (\<exists>x \<in> set xs. g x = Some r)"
  by (force simp: List.map_filter_def)

lemma case_head: "(case ys of [] \<Rightarrow> None | n # _ \<Rightarrow> Some (h n)) = Some r \<longleftrightarrow> (\<exists>n ns. ys = n # ns \<and> h n = r)"
  by (cases ys) auto

lemma in_set_ConsE: "x \<in> set xs \<Longrightarrow> \<exists>y ys. xs = y # ys"
  by (cases xs) auto

definition dead_nodes_of :: "instance_t \<Rightarrow> node_id list \<Rightarrow> node_id list \<Rightarrow> node_id list" where
  "dead_nodes_of i live gone = sort (filter (\<lambda>n. n \<notin> set live \<or> n \<in> set gone) (dict_keys (node_to_runner (inst_shards i))))"

definition loss_event :: "(string \<Rightarrow> string) \<Rightarrow> datetime \<Rightarrow> node_id list \<Rightarrow> instance_t \<Rightarrow> node_id \<Rightarrow> py_error + 'g event_body" where
  "loss_event sha now gone i n = instance_failure_event sha now i ''node_unavailable''
     (node_unavailable_failure_message n (if n \<in> set gone then ''timed out'' else ''left the live topology''))"

lemma loss_event_total:
  assumes "\<forall>x. utf8_length (sha x) = 64"
  shows "\<exists>f. loss_event sha now gone i n = Inr (InstanceFailureRecorded f) \<and> failure_bounded f \<and>
    if_instance_id f = bounded_failure_reference sha (inst_id i)"
  unfolding loss_event_def by (rule failure_event_total [OF assms node_message_bounded]) simp

lemma failure_events_made:
  fixes st :: "'g state"
  assumes "\<forall>x. utf8_length (sha x) = 64"
  shows "\<exists>es. dead_node_instance_failure_events sha now st live gone = Inr es \<and>
    (\<forall>e. e \<in> set es \<longleftrightarrow> (\<exists>i \<in> set (dict_values (instances st)). \<exists>n ns. dead_nodes_of i live gone = n # ns \<and> loss_event sha now gone i n = Inr e))"
proof -
  let ?rs = "List.map_filter (\<lambda>i. case dead_nodes_of i live gone of [] \<Rightarrow> None | n # _ \<Rightarrow> Some (loss_event sha now gone i n))
    (dict_values (instances st)) :: (py_error + 'g event_body) list"
  have made: "r \<in> set ?rs \<longleftrightarrow> (\<exists>i \<in> set (dict_values (instances st)). \<exists>n ns. dead_nodes_of i live gone = n # ns \<and> loss_event sha now gone i n = r)" for r
    unfolding in_map_filter case_head by blast
  have "\<exists>x. r = Inr x" if "r \<in> set ?rs" for r using that loss_event_total [OF assms] unfolding made by metis
  then obtain es where es: "collect_results ?rs = Inr es" "?rs = map Inr es" using collect_results_total by blast
  have "e \<in> set es \<longleftrightarrow> Inr e \<in> set ?rs" for e unfolding es(2) by auto
  then have "e \<in> set es \<longleftrightarrow> (\<exists>i \<in> set (dict_values (instances st)). \<exists>n ns. dead_nodes_of i live gone = n # ns \<and> loss_event sha now gone i n = Inr e)" for e
    unfolding made .
  moreover have "dead_node_instance_failure_events sha now st live gone = Inr es"
    using es(1) unfolding dead_node_instance_failure_events_def dead_nodes_of_def loss_event_def .
  ultimately show ?thesis by blast
qed

text \<open>C20. Recording a failure never blocks a teardown.  Whatever the identifiers of instances and nodes, the liveness pass
  builds one failure record for every instance with a dead node; no record is refused by its validators, and every record
  is bounded: identifiers of at most 256 bytes, at most 64 nodes in order without repetition, a message of at most 2048
  characters.\<close>

theorem failure_capture_never_blocks:
  assumes "\<forall>x. utf8_length (sha x) = 64"
  shows "\<exists>es. dead_node_instance_failure_events sha now st live gone = Inr es \<and>
    (\<forall>e \<in> set es. \<exists>f. e = InstanceFailureRecorded f \<and> failure_bounded f) \<and>
    (\<forall>i \<in> set (dict_values (instances st)). (\<exists>n \<in> set (dict_keys (node_to_runner (inst_shards i))). n \<notin> set live \<or> n \<in> set gone) \<longrightarrow>
       (\<exists>f. InstanceFailureRecorded f \<in> set es \<and> if_instance_id f = bounded_failure_reference sha (inst_id i)))"
proof -
  obtain es where es: "dead_node_instance_failure_events sha now st live gone = Inr es"
      "\<And>e. e \<in> set es \<longleftrightarrow> (\<exists>i \<in> set (dict_values (instances st)). \<exists>n ns. dead_nodes_of i live gone = n # ns \<and> loss_event sha now gone i n = Inr e)"
    using failure_events_made [OF assms] by blast
  have "\<exists>f. e = InstanceFailureRecorded f \<and> failure_bounded f" if e: "e \<in> set es" for e
    using e loss_event_total [OF assms] unfolding es(2) by (metis sum.inject(2))
  moreover have "\<exists>f. InstanceFailureRecorded f \<in> set es \<and> if_instance_id f = bounded_failure_reference sha (inst_id i)"
    if i: "i \<in> set (dict_values (instances st))" and n: "n \<in> set (dict_keys (node_to_runner (inst_shards i)))" "n \<notin> set live \<or> n \<in> set gone" for i n
  proof -
    have "n \<in> set (dead_nodes_of i live gone)" using n by (simp add: dead_nodes_of_def)
    then obtain m ms where "dead_nodes_of i live gone = m # ms" using in_set_ConsE by metis
    then show ?thesis using loss_event_total [OF assms, of now gone i m] i unfolding es(2) by blast
  qed
  ultimately show ?thesis using es(1) by blast
qed

section \<open>Abandoned lifecycle tasks\<close>

text \<open>Consecutive plan ticks with their states and monotonic times; the events of each.\<close>

fun lifecycle_ticks :: "(rat \<Rightarrow> rat) \<Rightarrow> (task_id, rat) dict \<Rightarrow> ('g state \<times> rat) list \<Rightarrow> 'g event_body list list" where
  "lifecycle_ticks fl first_seen [] = []"
| "lifecycle_ticks fl first_seen ((st, now) # ticks) =
     (let (first_seen', es) = stale_lifecycle_task_failures fl st first_seen now in es # lifecycle_ticks fl first_seen' ticks)"

lemma setdefault_all:
  "dict_get (foldl (\<lambda>d tid. if dict_has d tid then d else dict_set tid now d) d xs) k
     = (case dict_get d k of Some v \<Rightarrow> Some v | None \<Rightarrow> if k \<in> set xs then Some now else None)"
  by (induction xs arbitrary: d) (auto simp: dict_has_def split: option.splits)

lemma stale_tick:
  assumes "tid \<in> set (orphaned_lifecycle st)" "stale_lifecycle_task_failures fl st first_seen now = (first_seen', es)"
  defines "seen \<equiv> dict_default now first_seen tid"
  shows "(\<exists>ty msg. TaskFailed tid ty msg \<in> set es) \<longleftrightarrow> fl (now - seen) \<ge> ORPHANED_LIFECYCLE_TASK_GRACE_SECONDS"
    "\<not> fl (now - seen) \<ge> ORPHANED_LIFECYCLE_TASK_GRACE_SECONDS \<Longrightarrow> dict_get first_seen' tid = Some seen"
proof -
  let ?stamped = "foldl (\<lambda>d tid. if dict_has d tid then d else dict_set tid now d) first_seen (orphaned_lifecycle st)"
  have stamped: "dict_get ?stamped tid = Some seen"
    using assms(1) unfolding setdefault_all seen_def by (simp add: dict_default_def split: option.split)
  have failed: "(\<exists>ty msg. TaskFailed tid ty msg \<in> set (map (\<lambda>tid. TaskFailed tid a b) xs)) \<longleftrightarrow> tid \<in> set xs" for a b xs by auto
  show "(\<exists>ty msg. TaskFailed tid ty msg \<in> set es) \<longleftrightarrow> fl (now - seen) \<ge> ORPHANED_LIFECYCLE_TASK_GRACE_SECONDS"
    using assms(1,2) stamped unfolding stale_lifecycle_task_failures_def Let_def prod.inject
    by (elim conjE, hypsubst) (simp only: failed set_filter mem_Collect_eq dict_default_def option.case simp_thms)
  show "\<not> fl (now - seen) \<ge> ORPHANED_LIFECYCLE_TASK_GRACE_SECONDS \<Longrightarrow> dict_get first_seen' tid = Some seen"
    using assms(1,2) stamped
    by (auto simp: stale_lifecycle_task_failures_def Let_def dict_get_filter_keys dict_default_def)
qed

lemma lifecycle_ticks_from:
  assumes "\<forall>tick \<in> set ticks. tid \<in> set (orphaned_lifecycle (fst tick))" "k < length ticks" "dict_get first_seen tid = Some seen"
    "\<forall>j < k. fl (snd (ticks ! j) - seen) < ORPHANED_LIFECYCLE_TASK_GRACE_SECONDS"
  shows "(\<exists>ty msg. TaskFailed tid ty msg \<in> set (lifecycle_ticks fl first_seen ticks ! k)) \<longleftrightarrow>
    fl (snd (ticks ! k) - seen) \<ge> ORPHANED_LIFECYCLE_TASK_GRACE_SECONDS"
  using assms
proof (induction ticks arbitrary: first_seen k)
  case (Cons tick ticks)
  obtain st now where tick: "tick = (st, now)" by (cases tick)
  obtain fs es where run: "stale_lifecycle_task_failures fl st first_seen now = (fs, es)" by (cases "stale_lifecycle_task_failures fl st first_seen now")
  have orphan: "tid \<in> set (orphaned_lifecycle st)" using Cons.prems(1) tick by simp
  note now = stale_tick [OF orphan run]
  show ?case
  proof (cases k)
    case 0
    then show ?thesis using now(1) run tick Cons.prems(3) by (simp add: dict_default_def)
  next
    case (Suc m)
    have "fl (now - seen) < ORPHANED_LIFECYCLE_TASK_GRACE_SECONDS" using Cons.prems(4) Suc tick by force
    then have "dict_get fs tid = Some seen" using now(2) Cons.prems(3) by (simp add: dict_default_def)
    then show ?thesis using Cons.IH [of m fs] Cons.prems Suc run tick by fastforce
  qed
qed simp

text \<open>C19. An abandoned lifecycle task is failed at the first tick after its grace.  A lifecycle task that outlives its
  instance is stamped when a plan tick first sees it.  While it stays orphaned, no tick within the grace fails it, and the
  first tick at which the grace is over does.\<close>

theorem lifecycle_task_reaped_after_grace:
  assumes "\<forall>tick \<in> set ((st, now) # ticks). tid \<in> set (orphaned_lifecycle (fst tick))" "\<not> dict_has first_seen tid"
    "k \<le> length ticks" "\<forall>j < k. fl (snd (((st, now) # ticks) ! j) - now) < ORPHANED_LIFECYCLE_TASK_GRACE_SECONDS"
  shows "(\<exists>ty msg. TaskFailed tid ty msg \<in> set (lifecycle_ticks fl first_seen ((st, now) # ticks) ! k)) \<longleftrightarrow>
    fl (snd (((st, now) # ticks) ! k) - now) \<ge> ORPHANED_LIFECYCLE_TASK_GRACE_SECONDS"
proof -
  obtain fs es where run: "stale_lifecycle_task_failures fl st first_seen now = (fs, es)" by (cases "stale_lifecycle_task_failures fl st first_seen now")
  have orphan: "tid \<in> set (orphaned_lifecycle st)" using assms(1) by simp
  have none: "dict_default now first_seen tid = now" using assms(2) by (simp add: dict_default_def dict_has_def)
  note first = stale_tick [OF orphan run, unfolded none]
  show ?thesis
  proof (cases k)
    case 0
    then show ?thesis using first(1) run by simp
  next
    case (Suc m)
    have "fl (now - now) < ORPHANED_LIFECYCLE_TASK_GRACE_SECONDS" using assms(4) Suc by force
    then have "dict_get fs tid = Some now" using first(2) by simp
    moreover have "\<forall>j < m. fl (snd (ticks ! j) - now) < ORPHANED_LIFECYCLE_TASK_GRACE_SECONDS" using assms(4) Suc by force
    ultimately show ?thesis using lifecycle_ticks_from [of ticks tid m fs now fl] assms(1,3) Suc run by simp
  qed
qed

section \<open>A pass with a dead node\<close>

text \<open>One node renders a video and answers a text request; its last sign of life is 40 seconds old.\<close>

definition request :: "task_id \<Rightarrow> task_kind \<Rightarrow> task" where
  "request tid k = \<lparr>task_id = tid, task_status = Running, task_instance_id = ''i'', task_error_type = None,
     task_error_message = None, task_kind = k\<rparr>"

definition request_params :: inference_params where
  "request_params = \<lparr>inf_command_id = ''c'', inf_owner_node = None, inf_task_params = [], inf_trace_enabled = False\<rparr>"

definition silent_state :: "list_graph state" where
  "silent_state = (empty_state list_rx)\<lparr>instances := [(''i'', example_instance)], topology := add_node list_rx ''a'' (new_topology list_rx),
     tasks := [(''t'', request ''t'' (TextGeneration request_params 0)), (''w'', request ''w'' (VideoGeneration request_params 0))],
     last_seen := [(''a'', 0)]\<rparr>"

definition silent_view :: liveness_view where
  "silent_view = \<lparr>lv_heartbeats = [], lv_telemetry = [], lv_now = 40000000, lv_started_monotonic = 0, lv_monotonic = 100, lv_first_seen = []\<rparr>"

definition hex_digest :: "string \<Rightarrow> string" where
  "hex_digest x = replicate 64 CHR ''0''"

lemma silent_settled: "topology_settled (\<lambda>x. x) silent_view"
  by (simp add: topology_settled_def silent_view_def TOPOLOGY_SETTLE_GRACE_SECONDS_def)

lemma silent_gone: "timed_out_nodes_from_evidence (timeout_evidence_of (\<lambda>x. x) silent_view silent_state) = [''a'']"
  using silent_settled
  by (simp add: timeout_evidence_of_def timed_out_nodes_from_evidence_def compute_node_timeout_evidence_def signal_age_seconds_def
    total_seconds_def NODE_LIVENESS_TIMEOUT_def silent_view_def silent_state_def List.map_filter_simps Let_def)

lemma hex_digest_length: "\<forall>x. utf8_length (hex_digest x) = 64"
  by (simp add: utf8_length_def hex_digest_def sum_list_replicate)

lemma silent_pass:
  "\<exists>v' es. liveness_pass (\<lambda>x. x) list_rx hex_digest (\<lambda>_. []) (\<lambda>ns. ns) silent_state silent_view = Inr (v', es)"
proof -
  obtain fs where "dead_node_instance_failure_events hex_digest (lv_now silent_view) silent_state (list_nodes list_rx (topology silent_state))
      (timed_out_nodes_from_evidence (timeout_evidence_of (\<lambda>x. x) silent_view silent_state)) = Inr fs"
    using failure_events_made [OF hex_digest_length] by blast
  then show ?thesis by (simp add: liveness_pass_def Let_def split_beta bind_result_simps silent_settled)
qed

lemma silent_ok: "dict_wf (instances silent_state)" "dict_wf (tasks silent_state)" "topology_settled (\<lambda>x. x) silent_view"
  "dict_get (tasks silent_state) ''t'' = Some (request ''t'' (TextGeneration request_params 0))"
  "dict_get (tasks silent_state) ''w'' = Some (request ''w'' (VideoGeneration request_params 0))"
  "dict_get (instances silent_state) ''i'' = Some example_instance" "list_nodes list_rx (topology silent_state) = [''a'']"
  using silent_settled by (simp_all add: silent_state_def dict_wf_def) code_simp

text \<open>Without Thunderbolt bridges the events of a pass always apply.\<close>

lemma pass_applies:
  assumes "list_all pass_event es" "node_thunderbolt_bridge st = []"
  shows "\<exists>st'. apply_bodies rx p es st = Inr st'"
  using assms
proof (induction es arbitrary: st)
  case (Cons e es)
  have "\<exists>s. event_apply rx p e st = Inr s \<and> node_thunderbolt_bridge s = []"
    using Cons.prems by (cases e) (auto simp: apply_task_failed_def apply_instance_failure_recorded_def apply_instance_deleted_def
      apply_node_timed_out_def Let_def dict_filter_def split: option.split)
  then show ?case using Cons by auto
qed simp

lemma silent_applied:
  assumes "list_all pass_event es"
  shows "\<exists>st'. apply_bodies list_rx p es silent_state = Inr st'"
  using pass_applies [OF assms] by (simp add: silent_state_def empty_state_def)

text \<open>The pass over that state runs, and its events apply.\<close>

lemma silent_run:
  obtains v' es st' where "liveness_pass (\<lambda>x. x) list_rx hex_digest (\<lambda>_. []) (\<lambda>ns. ns) silent_state silent_view = Inr (v', es)"
    "apply_bodies list_rx (\<lambda>_. None) es silent_state = Inr st'"
  using silent_pass silent_applied liveness_pass_pass_events by (metis (full_types))

lemma silent_request: "command_task (task_kind (request ''t'' (TextGeneration request_params 0)))" "open_task (request tid k)"
  "task_instance_id (request tid k) = ''i''" "task_kind (request tid k) = k"
  by (simp_all add: request_def open_task_def)

theorem video_request_stranded_witness:
  "\<exists>v' es st'. liveness_pass (\<lambda>x. x) list_rx hex_digest (\<lambda>_. []) (\<lambda>ns. ns) silent_state silent_view = Inr (v', es) \<and>
     apply_bodies list_rx (\<lambda>_. None) es silent_state = Inr st' \<and> dict_get (tasks st') ''w'' = None \<and>
     (\<forall>ty msg. TaskFailed ''w'' ty msg \<notin> set es)"
proof -
  obtain v' es st' where run: "liveness_pass (\<lambda>x. x) list_rx hex_digest (\<lambda>_. []) (\<lambda>ns. ns) silent_state silent_view = Inr (v', es)"
    "apply_bodies list_rx (\<lambda>_. None) es silent_state = Inr st'" by (rule silent_run)
  have "dict_get (tasks st') ''w'' = None \<and> (\<forall>ty msg. TaskFailed ''w'' ty msg \<notin> set es)"
    by (rule video_request_stranded [OF run(1) _ silent_ok(1,2) run(2) silent_ok(5) _ silent_request(2), where n = "''a''" and i = example_instance])
      (simp_all add: silent_request silent_ok silent_gone example_instance_def)
  then show ?thesis using run by blast
qed

theorem requests_fail_before_removal_witness:
  "\<exists>v' es st'. liveness_pass (\<lambda>x. x) list_rx hex_digest (\<lambda>_. []) (\<lambda>ns. ns) silent_state silent_view = Inr (v', es) \<and>
     apply_bodies list_rx (\<lambda>_. None) es silent_state = Inr st' \<and> dict_get (tasks st') ''t'' = None \<and>
     (\<exists>msg. TaskFailed ''t'' ''instance_lost'' msg \<in> set es)"
proof -
  obtain v' es st' where run: "liveness_pass (\<lambda>x. x) list_rx hex_digest (\<lambda>_. []) (\<lambda>ns. ns) silent_state silent_view = Inr (v', es)"
    "apply_bodies list_rx (\<lambda>_. None) es silent_state = Inr st'" by (rule silent_run)
  obtain rec rem where "pass_shape (\<lambda>x. x) list_rx silent_view silent_state es rec rem" using liveness_pass_events [OF run(1)] by blast
  note es = pass_shapeD [OF this, unfolded silent_gone silent_ok]
  obtain ev where ev: "NodeTimedOut ''a'' ev \<in> set es" using es(1,4) by auto
  have "e \<noteq> InstanceDeleted ''i''" if e: "e \<in> set rem" for e
    using bspec [OF es(3) e] by (auto simp: silent_state_def example_instance_def)
  then have kept: "list_all (\<lambda>e. e \<noteq> InstanceDeleted ''i'') es"
    using es(1,2) orphan_events_pass(2) [of silent_state "dying_instances (\<lambda>x. x) list_rx silent_view silent_state"] by (auto simp: list_all_iff)
  have pass: "list_all pass_event es" using liveness_pass_pass_events [OF run(1)] by simp
  have gone: "dict_get (tasks st') ''t'' = None"
    by (rule pass_task_dropped [OF pass run(2) silent_ok(1,2,4) _ _ ev, where i = example_instance])
      (use kept in \<open>simp_all add: silent_request silent_ok example_instance_def dict_has_def\<close>)
  have "liveness_pass (\<lambda>x. x) list_rx hex_digest (\<lambda>_. []) (\<lambda>ns. ns) silent_state silent_view = Inr (v', es @ [])" using run(1) by simp
  then have "\<exists>msg. TaskFailed ''t'' ''instance_lost'' msg \<in> set es"
    by (rule requests_fail_before_removal [OF _ _ silent_ok(1,2) run(2) silent_ok(4) silent_request(1,2) gone]) simp
  then show ?thesis using run gone by blast
qed

theorem no_request_stranded_witness:
  "\<exists>v' es st'. liveness_pass (\<lambda>x. x) list_rx hex_digest (\<lambda>_. []) (\<lambda>ns. ns) silent_state silent_view = Inr (v', es) \<and>
     apply_bodies list_rx (\<lambda>_. None) es silent_state = Inr st' \<and>
     (\<forall>t. dict_get (tasks st') ''t'' = Some t \<longrightarrow> command_task (task_kind t) \<longrightarrow> open_task t \<longrightarrow> dict_has (instances st') (task_instance_id t))"
proof -
  obtain v' es st' where run: "liveness_pass (\<lambda>x. x) list_rx hex_digest (\<lambda>_. []) (\<lambda>ns. ns) silent_state silent_view = Inr (v', es)"
    "apply_bodies list_rx (\<lambda>_. None) es silent_state = Inr st'" by (rule silent_run)
  have "dict_has (instances st') (task_instance_id t)" if "dict_get (tasks st') ''t'' = Some t" "command_task (task_kind t)" "open_task t" for t
    using no_request_stranded [OF run(1) _ silent_ok(1,2) run(2) that] by (auto simp: dict_has_def)
  then show ?thesis using run by blast
qed

theorem failure_capture_never_blocks_witness:
  "\<exists>es. dead_node_instance_failure_events hex_digest 0 silent_state [''a''] [''a''] = Inr es \<and>
     (\<exists>f. InstanceFailureRecorded f \<in> set es \<and> if_instance_id f = ''i'')"
proof -
  have ids: "bounded_failure_reference hex_digest (inst_id example_instance) = ''i''" by code_simp
  have mem: "example_instance \<in> set (dict_values (instances silent_state))" "''a'' \<in> set (dict_keys (node_to_runner (inst_shards example_instance)))"
    by (simp_all add: silent_state_def example_instance_def)
  show ?thesis
    using failure_capture_never_blocks [OF hex_digest_length, of 0 silent_state "[''a'']" "[''a'']"] mem ids by (metis list.set_intros(1))
qed

theorem lifecycle_task_reaped_after_grace_witness:
  "\<exists>ty msg. TaskFailed ''u'' ty msg \<in> set (lifecycle_ticks (\<lambda>x. x) []
     [(silent_state\<lparr>instances := [], tasks := [(''u'', request ''u'' LoadModel)]\<rparr>, 5),
      (silent_state\<lparr>instances := [], tasks := [(''u'', request ''u'' LoadModel)]\<rparr>, 70)] ! 1)"
proof -
  let ?st = "silent_state\<lparr>instances := [], tasks := [(''u'', request ''u'' LoadModel)]\<rparr>"
  have "orphaned_lifecycle ?st = [''u'']"
    by (simp add: orphaned_lifecycle_def request_def open_task_def dict_has_def filter.simps(2))
  then have "\<forall>tick \<in> set [(?st, 5 :: rat), (?st, 70)]. ''u'' \<in> set (orphaned_lifecycle (fst tick))"
    by simp
  then show ?thesis
    using lifecycle_task_reaped_after_grace [of ?st 5 "[(?st, 70)]" "''u''" "[]" 1 "\<lambda>x. x"]
    by (simp add: ORPHANED_LIFECYCLE_TASK_GRACE_SECONDS_def dict_has_def)
qed

end
