(* ===== verification/Master_Repair.thy ===== *)
theory Master_Repair
  imports Master_Liveness Placement
begin

text \<open>
  How the master repairs placements, \<^verbatim>\<open>src/skulk/master/main.py\<close>: a worker that cannot fit its shard refuses the
  placement, a rank whose download failed blocks it, and the master takes the placement down and places the model again.

  A handler is one step on the state it starts from: it reads the state before what it sent has been indexed.  The
  legacy code approval of \<open>place_instance\<close> is always granted (\<^verbatim>\<open>shared/models/remote_code_approval.py\<close>) and left out.
  Fresh command identifiers, runner identifiers and random ports are arguments, one family per call of
  \<open>place_instance\<close>.
\<close>

section \<open>The master's view\<close>

record 'g repair_master =
  rm_state :: "'g state"
  rm_pending_reservations :: "(instance_id, instance_t) dict"
  rm_steward_reserved :: "(proposal_id, (instance_id, instance_t) dict) dict"
  rm_runner_loaded_at :: "(runner_id, rat) dict"
  rm_node_memory :: "(node_id, memory_usage) dict"
  rm_node_system :: "(node_id, system_profile) dict"
  rm_node_resources :: "(node_id, node_resources) dict"
  rm_effective_downloads :: "(node_id, download_progress list) dict"
  rm_served_default :: int
  rm_monotonic :: rat
  rm_now :: datetime
  rm_refusal_replaced :: "instance_id list"
  rm_fallback_placed :: "instance_id list"
  rm_download_recovered :: "instance_id list"

text \<open>\<open>d.update(e)\<close>\<close>

definition dict_update :: "('k, 'v) dict \<Rightarrow> ('k, 'v) dict \<Rightarrow> ('k, 'v) dict" where
  "dict_update d e = foldl (\<lambda>d (k, v). dict_set k v d) d e"

text \<open>A queued creation is reserved until its indexed echo returns.\<close>

fun queue_control_event :: "'g repair_master \<Rightarrow> 'g event_body \<Rightarrow> 'g repair_master" where
  "queue_control_event m (InstanceCreated i) =
     m\<lparr>rm_pending_reservations := dict_set (inst_id i) i (rm_pending_reservations m)\<rparr>"
| "queue_control_event m _ = m"

definition placement_reservations :: "'g repair_master \<Rightarrow> (instance_id, instance_t) dict \<Rightarrow> (instance_id, instance_t) dict" where
  "placement_reservations m insts =
     dict_update (foldl dict_update (rm_pending_reservations m) (dict_values (rm_steward_reserved m))) insts"

definition RESERVATION_SETTLE_SECONDS :: rat where
  "RESERVATION_SETTLE_SECONDS = 5"

fun runner_loaded :: "runner_status option \<Rightarrow> bool" where
  "runner_loaded (Some s) = (s \<in> {RunnerLoaded, RunnerWarmingUp, RunnerReady, RunnerRunning})"
| "runner_loaded None = False"

definition unreflected_placements :: "(rat \<Rightarrow> rat) \<Rightarrow> 'g repair_master \<Rightarrow> (instance_id, instance_t) dict \<Rightarrow> instance_id list" where
  "unreflected_placements fl m placements =
     map fst (filter (\<lambda>(iid, i).
       let rs = dict_keys (runner_to_shard (inst_shards i));
           loaded_at = List.map_filter (dict_get (rm_runner_loaded_at m)) rs
       in \<not> list_all (\<lambda>r. runner_loaded (dict_get (runners (rm_state m)) r)) rs \<or>
          (loaded_at \<noteq> [] \<and> fl (rm_monotonic m - Max (set loaded_at)) < RESERVATION_SETTLE_SECONDS)) placements)"

definition reserved_placement_inputs ::
  "(rat \<Rightarrow> rat) \<Rightarrow> 'g repair_master \<Rightarrow> (node_id, memory_usage) dict \<Rightarrow> (instance_id, instance_t) dict
     \<Rightarrow> (node_id, memory_usage) dict \<times> (node_id, memory) dict" where
  "reserved_placement_inputs fl m node_memory placements =
     (let sys = rm_node_system m; resources = Some (rm_node_resources m);
          mem = reserve_system_ram_usage fl node_memory placements (usable_vram_by_node fl sys resources node_memory [])
                  (unified_memory_gpu_node_ids fl sys resources node_memory) (carve_first_gpu_node_ids fl sys resources node_memory)
                  (unreflected_placements fl m placements)
      in (mem, usable_vram_by_node fl sys resources mem placements))"

section \<open>Placing again\<close>

text \<open>The call of \<open>place_instance\<close> that all repairs share.\<close>

definition repair_inputs ::
  "(rat \<Rightarrow> rat) \<Rightarrow> 'g repair_master \<Rightarrow> instance_t \<Rightarrow> place_command \<Rightarrow> (instance_id, instance_t) dict \<Rightarrow> 'g placement_inputs" where
  "repair_inputs fl m broken cmd after_delete =
     (let (mem, vram) = reserved_placement_inputs fl m (rm_node_memory m) (placement_reservations m after_delete)
      in \<lparr>in_topology = topology (rm_state m), in_instances = after_delete, in_memory = mem,
          in_network = node_network (rm_state m), in_required = [], in_downloads = rm_effective_downloads m,
          in_excluded = pc_excluded_nodes cmd, in_resources = Some (rm_node_resources m), in_vram = vram,
          in_unified = unified_memory_gpu_node_ids fl (rm_node_system m) (Some (rm_node_resources m)) mem,
          in_stamped = Some (bi_excluded_nodes (instance_base broken)), in_served_default = Some (rm_served_default m)\<rparr>)"

text \<open>What a repair draws at random: the identity of the command, the runners, the ports.\<close>

type_synonym draw = "command_id \<times> (nat \<Rightarrow> runner_id) \<times> (nat \<Rightarrow> int list)"

definition repair_placement ::
  "(rat \<Rightarrow> rat) \<Rightarrow> card_env \<Rightarrow> 'g rx_ops \<Rightarrow> draw \<Rightarrow> 'g repair_master \<Rightarrow> instance_t \<Rightarrow> place_command
     \<Rightarrow> (instance_id, instance_t) dict \<Rightarrow> py_error + (instance_id, instance_t) dict" where
  "repair_placement fl env rx d m broken cmd after_delete =
     place_instance fl env rx (fst (snd d)) (snd (snd d)) cmd (repair_inputs fl m broken cmd after_delete)"

section \<open>A refused placement\<close>

text \<open>What a handler sends: cancelled downloads and events.\<close>

type_synonym 'g sent = "(node_id \<times> model_id) list \<times> 'g event_body list"

definition finish_repair ::
  "(string \<Rightarrow> string) \<Rightarrow> 'g repair_master \<Rightarrow> instance_t \<Rightarrow> string \<Rightarrow> string \<Rightarrow> (instance_id, instance_t) dict
     \<Rightarrow> 'g repair_master \<times> (py_error + 'g sent)" where
  "finish_repair sha256_hex m broken error_code error_message final_placement =
     (case instance_failure_event sha256_hex (rm_now m) broken error_code error_message of
        Inl e \<Rightarrow> (m, Inl e)
      | Inr failure \<Rightarrow>
          (let es = failure # get_transition_events (instances (rm_state m)) final_placement (tasks (rm_state m))
           in (foldl queue_control_event m es,
               Inr (cancel_unnecessary_downloads final_placement (rm_effective_downloads m), es))))"

definition refusal_message :: "bool \<Rightarrow> string \<Rightarrow> string" where
  "refusal_message replacement_created reason =
     take 2048 ((if replacement_created then ''Skulk replaced this placement after a node refused its shard: ''
                 else ''Skulk could not recover a placement after a node refused its shard: '') @ reason)"

definition settle_refusal ::
  "(string \<Rightarrow> string) \<Rightarrow> 'g repair_master \<Rightarrow> instance_t \<Rightarrow> string \<Rightarrow> (instance_id, instance_t) dict \<Rightarrow> (instance_id, instance_t) dict
     \<Rightarrow> 'g repair_master \<times> (py_error + 'g sent)" where
  "settle_refusal sha256_hex m refused reason after_delete final_placement =
     finish_repair sha256_hex m refused ''placement_failed''
       (refusal_message (list_ex (\<lambda>iid. \<not> dict_has after_delete iid) (dict_keys final_placement)) reason) final_placement"

text \<open>The fallback: anywhere but the refuser.  An instance it creates may not be repaired a second time.\<close>

definition fallback_refused ::
  "(rat \<Rightarrow> rat) \<Rightarrow> card_env \<Rightarrow> 'g rx_ops \<Rightarrow> (string \<Rightarrow> string) \<Rightarrow> draw \<Rightarrow> 'g repair_master \<Rightarrow> instance_t \<Rightarrow> node_id \<Rightarrow> string
     \<Rightarrow> (instance_id, instance_t) dict \<Rightarrow> 'g repair_master \<times> (py_error + 'g sent)" where
  "fallback_refused fl env rx sha256_hex d m refused node reason after_delete =
     (case fallback_command_for_refused_instance (fst d) refused node of
        Inl e \<Rightarrow> (m, Inl e)
      | Inr fallback \<Rightarrow>
          (case repair_placement fl env rx d m refused fallback after_delete of
             Inr target \<Rightarrow>
               settle_refusal sha256_hex
                 (m\<lparr>rm_fallback_placed := rm_fallback_placed m @ filter (\<lambda>iid. \<not> dict_has after_delete iid) (dict_keys target)\<rparr>)
                 refused reason after_delete target
           | Inl e \<Rightarrow> if is_placement_error e then settle_refusal sha256_hex m refused reason after_delete after_delete else (m, Inl e)))"

definition replace_refused ::
  "(rat \<Rightarrow> rat) \<Rightarrow> card_env \<Rightarrow> 'g rx_ops \<Rightarrow> (string \<Rightarrow> string) \<Rightarrow> draw \<Rightarrow> draw \<Rightarrow> 'g repair_master \<Rightarrow> instance_t \<Rightarrow> node_id \<Rightarrow> string
     \<Rightarrow> (instance_id, instance_t) dict \<Rightarrow> 'g repair_master \<times> (py_error + 'g sent)" where
  "replace_refused fl env rx sha256_hex d1 d2 m refused node reason after_delete =
     (case replacement_command_for_refused_instance (fst d1) refused of
        Inl e \<Rightarrow> (m, Inl e)
      | Inr replace_command \<Rightarrow>
          (case repair_placement fl env rx d1 m refused replace_command after_delete of
             Inr target \<Rightarrow> settle_refusal sha256_hex m refused reason after_delete target
           | Inl e \<Rightarrow>
               if e = PlacementInfoPendingError then settle_refusal sha256_hex m refused reason after_delete after_delete
               else if is_placement_error e then fallback_refused fl env rx sha256_hex d2 m refused node reason after_delete
               else (m, Inl e)))"

definition refuse_instance_placement ::
  "(rat \<Rightarrow> rat) \<Rightarrow> card_env \<Rightarrow> 'g rx_ops \<Rightarrow> (string \<Rightarrow> string) \<Rightarrow> draw \<Rightarrow> draw \<Rightarrow> 'g repair_master \<Rightarrow> instance_id \<Rightarrow> node_id \<Rightarrow> string
     \<Rightarrow> 'g repair_master \<times> (py_error + 'g sent)" where
  "refuse_instance_placement fl env rx sha256_hex d1 d2 m iid node reason =
     (let current = instances (rm_state m);
          m' = m\<lparr>rm_refusal_replaced := iid # rm_refusal_replaced m\<rparr>
      in case dict_get current iid of
           Some refused \<Rightarrow>
             if iid \<in> set (rm_fallback_placed m)
             then finish_repair sha256_hex m' refused ''placement_failed''
                    (take 2048 (''Skulk exhausted placement recovery after a node refused its shard: '' @ reason)) (dict_pop iid current)
             else if iid \<in> set (rm_refusal_replaced m) then (m, Inr ([], []))
             else (case delete_instance iid current of
                     Inl e \<Rightarrow> (m', Inl e)
                   | Inr after_delete \<Rightarrow> replace_refused fl env rx sha256_hex d1 d2 m' refused node reason after_delete)
         | None \<Rightarrow> (m, Inr ([], [])))"

section \<open>A failed download\<close>

fun is_failed :: "download_progress \<Rightarrow> bool" where
  "is_failed (DownloadFailed _ _) = True"
| "is_failed _ = False"

definition instance_ready :: "'g state \<Rightarrow> instance_t \<Rightarrow> bool" where
  "instance_ready st i = list_all (\<lambda>r. dict_get (runners st) r \<in> {Some RunnerReady, Some RunnerRunning})
     (dict_keys (runner_to_shard (inst_shards i)))"

text \<open>The nodes of an instance whose download of its model failed, in the order of the ranks.  The cause that the source
  reports beside them goes to the log only.\<close>

definition failed_download_nodes :: "'g state \<Rightarrow> instance_t \<Rightarrow> node_id list" where
  "failed_download_nodes st i =
     (case dict_values (runner_to_shard (inst_shards i)) of
        [] \<Rightarrow> []
      | first # _ \<Rightarrow>
          map fst (filter (\<lambda>(n, r).
            (case dict_get (runner_to_shard (inst_shards i)) r of Some (RpcDonorShardMetadata _) \<Rightarrow> False | _ \<Rightarrow> True) \<and>
            list_ex (\<lambda>p. is_failed p \<and> dp_model_id p = shard_model_id first) (dict_default [] (downloads st) n))
            (node_to_runner (inst_shards i))))"

definition instances_wedged_by_download_failure :: "'g state \<Rightarrow> (instance_id, node_id list) dict" where
  "instances_wedged_by_download_failure st =
     List.map_filter (\<lambda>(iid, i).
       if dict_keys (runner_to_shard (inst_shards i)) = [] \<or> instance_ready st i \<or> failed_download_nodes st i = [] then None
       else Some (iid, failed_download_nodes st i)) (instances st)"

text \<open>Recovery consumes the failure: the record of each failed node goes back to pending.  \<open>attempt\<close> is a fresh attempt
  identifier.\<close>

definition download_reset :: "(node_id \<Rightarrow> string) \<Rightarrow> instance_t \<Rightarrow> node_id \<Rightarrow> 'g event_body option" where
  "download_reset attempt i n =
     map_option (\<lambda>shard. NodeDownloadProgress (DownloadPending
         \<lparr>dp_node_id = n, dp_shard_metadata = shard, dp_model_directory = [], dp_attempt_id = Some (attempt n)\<rparr> 0 0))
       (Option.bind (dict_get (node_to_runner (inst_shards i)) n) (dict_get (runner_to_shard (inst_shards i))))"

definition download_failed_message :: string where
  "download_failed_message = ''A node could not stage the model, so Skulk tore down this placement and attempted recovery. ''
     @ ''Inspect cluster logs for the underlying storage or transport error.''"

text \<open>One instance; the iteration order of the set of failed nodes is the argument \<open>order\<close>.  What was sent before an
  exception stays sent.\<close>

definition recover_wedged ::
  "(rat \<Rightarrow> rat) \<Rightarrow> card_env \<Rightarrow> 'g rx_ops \<Rightarrow> (string \<Rightarrow> string) \<Rightarrow> (node_id \<Rightarrow> string) \<Rightarrow> (node_id list \<Rightarrow> node_id list) \<Rightarrow> draw
     \<Rightarrow> 'g repair_master \<Rightarrow> instance_id \<Rightarrow> instance_t \<Rightarrow> node_id list \<Rightarrow> 'g repair_master \<times> 'g sent \<times> py_error option" where
  "recover_wedged fl env rx sha256_hex attempt order d m iid broken failed_nodes =
     (let m' = m\<lparr>rm_download_recovered := iid # rm_download_recovered m\<rparr>;
          failed_tasks = orphaned_task_failure_events (rm_state m) [iid];
          resets = List.map_filter (download_reset attempt broken) (order failed_nodes);
          settle = (\<lambda>target. case finish_repair sha256_hex m' broken ''download_failed'' download_failed_message target of
              (m'', Inl e) \<Rightarrow> (m'', ([], failed_tasks), Some e)
            | (m'', Inr (cancels, es)) \<Rightarrow> (m'', (cancels, failed_tasks @ es @ resets), None))
      in case delete_instance iid (instances (rm_state m)) of
           Inl e \<Rightarrow> (m', ([], failed_tasks), Some e)
         | Inr after_delete \<Rightarrow>
             (case (case replacement_command_for_download_failed_instance (fst d) broken (set failed_nodes) of
                      Inl e \<Rightarrow> Inl e
                    | Inr cmd \<Rightarrow> repair_placement fl env rx d m' broken cmd after_delete) of
                Inr target \<Rightarrow> settle target
              | Inl e \<Rightarrow> if is_placement_error e then settle after_delete else (m', ([], failed_tasks), Some e)))"

text \<open>The pass over all wedged instances ends at the first exception; \<open>d k\<close> is drawn for the \<open>k\<close>-th of them.\<close>

fun recover_each ::
  "(rat \<Rightarrow> rat) \<Rightarrow> card_env \<Rightarrow> 'g rx_ops \<Rightarrow> (string \<Rightarrow> string) \<Rightarrow> (node_id \<Rightarrow> string) \<Rightarrow> (node_id list \<Rightarrow> node_id list) \<Rightarrow> (nat \<Rightarrow> draw)
     \<Rightarrow> nat \<Rightarrow> (instance_id \<times> node_id list) list \<Rightarrow> 'g repair_master \<Rightarrow> 'g repair_master \<times> 'g sent \<times> py_error option" where
  "recover_each fl env rx sha256_hex attempt order d k [] m = (m, ([], []), None)"
| "recover_each fl env rx sha256_hex attempt order d k ((iid, failed_nodes) # wedged) m =
     (if iid \<in> set (rm_download_recovered m) then recover_each fl env rx sha256_hex attempt order d (k + 1) wedged m
      else case dict_get (instances (rm_state m)) iid of
             None \<Rightarrow> recover_each fl env rx sha256_hex attempt order d (k + 1) wedged m
           | Some broken \<Rightarrow>
               (case recover_wedged fl env rx sha256_hex attempt order (d k) m iid broken failed_nodes of
                  (m', sent, Some e) \<Rightarrow> (m', sent, Some e)
                | (m', (cancels, es), None) \<Rightarrow>
                    (case recover_each fl env rx sha256_hex attempt order d (k + 1) wedged m' of
                       (m'', (cancels', es'), err) \<Rightarrow> (m'', (cancels @ cancels', es @ es'), err))))"

definition recover_download_failed_instances ::
  "(rat \<Rightarrow> rat) \<Rightarrow> card_env \<Rightarrow> 'g rx_ops \<Rightarrow> (string \<Rightarrow> string) \<Rightarrow> (node_id \<Rightarrow> string) \<Rightarrow> (node_id list \<Rightarrow> node_id list) \<Rightarrow> (nat \<Rightarrow> draw)
     \<Rightarrow> 'g repair_master \<Rightarrow> 'g repair_master \<times> 'g sent \<times> py_error option" where
  "recover_download_failed_instances fl env rx sha256_hex attempt order d m =
     recover_each fl env rx sha256_hex attempt order d 0 (instances_wedged_by_download_failure (rm_state m)) m"

end
