(* ===== verification/Master_Repair_Proofs.thy ===== *)
theory Master_Repair_Proofs
  imports Master_Repair Placement_Example Master_Liveness_Proofs Apply_Behaviour
begin

text \<open>
  Repairs end: a placement that is refused again and again is replaced a bounded number of times.  A placement error
  that is not a \<open>PlacementError\<close> ends them too, but leaves the refused placement in place.
\<close>

section \<open>What a repair sends\<close>

lemma fallback_queue: "rm_fallback_placed (foldl queue_control_event m es) = rm_fallback_placed m"
proof (induction es arbitrary: m)
  case (Cons e es)
  then show ?case by (cases e) simp_all
qed simp

lemma finish_repairD:
  assumes "finish_repair sha m broken code msg target = (m', Inr (cancels, es))"
  shows "\<exists>f. es = InstanceFailureRecorded f # get_transition_events (instances (rm_state m)) target (tasks (rm_state m))"
    "rm_fallback_placed m' = rm_fallback_placed m"
proof -
  obtain e where e: "instance_failure_event sha (rm_now m) broken code msg = Inr e"
      "es = e # get_transition_events (instances (rm_state m)) target (tasks (rm_state m))" "m' = foldl queue_control_event m es"
    using assms by (auto simp: finish_repair_def Let_def split: sum.splits)
  then show "\<exists>f. es = InstanceFailureRecorded f # get_transition_events (instances (rm_state m)) target (tasks (rm_state m))"
    using instance_failure_event_recorded by blast
  show "rm_fallback_placed m' = rm_fallback_placed m" using e(3) fallback_queue by simp
qed

lemma transition_created:
  "InstanceCreated i \<in> set (get_transition_events current target ts) \<longleftrightarrow> (\<exists>k. (k, i) \<in> set target \<and> \<not> dict_has current k)"
  by (auto simp: get_transition_events_def cancelled_tasks_def)

lemma created_is_new:
  assumes "InstanceCreated i \<in> set (get_transition_events current (dict_set cid j (dict_pop iid current)) ts)"
  shows "i = j" "\<not> dict_has current cid"
proof -
  obtain k where k: "(k, i) \<in> set (dict_set cid j (dict_pop iid current))" "\<not> dict_has current k"
    using assms unfolding transition_created by blast
  have "set (dict_set cid j (dict_pop iid current)) \<subseteq> insert (cid, j) (set current)"
    using set_dict_set_subset [of cid j "dict_pop iid current"] by (auto simp: dict_pop_def)
  then consider "(k, i) = (cid, j)" | "(k, i) \<in> set current" using k(1) by blast
  then have "(k, i) = (cid, j)"
  proof cases
    case 2
    then have "k \<in> set (dict_keys current)" by (metis fst_conv in_set_zipE zip_map_fst_snd)
    then show ?thesis using k(2) unfolding dict_has_iff_keys by blast
  qed
  then show "i = j" "\<not> dict_has current cid" using k(2) by simp_all
qed

lemma nothing_created: "InstanceCreated i \<notin> set (get_transition_events current (dict_pop iid current) ts)"
proof
  assume "InstanceCreated i \<in> set (get_transition_events current (dict_pop iid current) ts)"
  then obtain k where "(k, i) \<in> set current" "\<not> dict_has current k" unfolding transition_created by (auto simp: dict_pop_def)
  then show False by (metis dict_has_iff_keys fst_conv in_set_zipE zip_map_fst_snd)
qed

lemma settle_created:
  fixes m :: "'g repair_master"
  assumes "settle_refusal sha m refused reason after target = (m', Inr (cancels, es))" "InstanceCreated i \<in> set es"
  shows "(InstanceCreated i :: 'g event_body) \<in> set (get_transition_events (instances (rm_state m)) target (tasks (rm_state m)))"
    "rm_fallback_placed m' = rm_fallback_placed m"
proof -
  note sent = finish_repairD [OF assms(1) [unfolded settle_refusal_def]]
  show "(InstanceCreated i :: 'g event_body) \<in> set (get_transition_events (instances (rm_state m)) target (tasks (rm_state m)))"
    using sent(1) assms(2) by auto
  show "rm_fallback_placed m' = rm_fallback_placed m" by (rule sent(2))
qed

lemma settle_refusal_total:
  fixes m :: "'g repair_master"
  assumes "\<forall>x. utf8_length (sha x) = 64"
  shows "\<exists>m' cancels f. settle_refusal sha m refused reason after target
    = (m', Inr (cancels, InstanceFailureRecorded f # get_transition_events (instances (rm_state m)) target (tasks (rm_state m))))"
proof -
  have "refusal_message b reason \<noteq> []" "length (refusal_message b reason) \<le> 2048" for b by (simp_all add: refusal_message_def)
  then obtain f where "instance_failure_event sha (rm_now m) refused ''placement_failed''
      (refusal_message (list_ex (\<lambda>iid. \<not> dict_has after iid) (dict_keys target)) reason) = Inr (InstanceFailureRecorded f :: 'g event_body)"
    using failure_event_total [OF assms] by metis
  then show ?thesis by (simp add: settle_refusal_def finish_repair_def Let_def)
qed

section \<open>One refusal\<close>

lemma repair_placed:
  assumes "repair_placement fl env rx d m broken cmd after = Inr target" "inj (fst (snd d))" "simple_cycles_ok rx (topology (rm_state m))"
  obtains i where "target = dict_set (pc_command_id cmd) i after" "inst_id i = pc_command_id cmd"
    "pc_min_nodes cmd \<le> int (instance_width i)" "instance_width i \<le> length (list_nodes rx (topology (rm_state m)))"
proof -
  have inputs: "in_topology (repair_inputs fl m broken cmd after) = topology (rm_state m)" "in_instances (repair_inputs fl m broken cmd after) = after"
    by (simp_all add: repair_inputs_def split_beta Let_def)
  obtain i cycle where i: "target = dict_set (pc_command_id cmd) i after" "inst_id i = pc_command_id cmd"
      "dict_keys (node_to_runner (inst_shards i)) = cycle" "distinct cycle" "set cycle \<subseteq> set (list_nodes rx (topology (rm_state m)))"
      "pc_min_nodes cmd \<le> int (length cycle)"
    using placed_instance [OF assms(1) [unfolded repair_placement_def] assms(2)] assms(3) unfolding inputs by metis
  have "length cycle \<le> length (list_nodes rx (topology (rm_state m)))"
    using i(4,5) by (metis card_length card_mono distinct_card finite_set le_trans)
  then show thesis using that [OF i(1,2)] i(3,6) by (metis instance_width_def length_map)
qed

lemma fallback_refused_created:
  fixes m :: "'g repair_master"
  assumes "fallback_refused fl env rx sha d m refused node reason (dict_pop iid current) = (m', Inr (cancels, es))"
    "InstanceCreated i \<in> set es" "instances (rm_state m) = current" "inj (fst (snd d))" "simple_cycles_ok rx (topology (rm_state m))"
  shows "inst_id i \<in> set (rm_fallback_placed m')"
proof -
  consider (placed) fb target where "repair_placement fl env rx d m refused fb (dict_pop iid current) = Inr target"
      "settle_refusal sha (m\<lparr>rm_fallback_placed := rm_fallback_placed m @ filter (\<lambda>iid'. \<not> dict_has (dict_pop iid current) iid') (dict_keys target)\<rparr>)
         refused reason (dict_pop iid current) target = (m', Inr (cancels, es))"
    | (down) "settle_refusal sha m refused reason (dict_pop iid current) (dict_pop iid current) = (m', Inr (cancels, es))"
    using assms(1) by (auto simp: fallback_refused_def split: sum.splits if_splits)
  then show ?thesis
  proof cases
    case placed
    obtain j where j: "target = dict_set (pc_command_id fb) j (dict_pop iid current)" "inst_id j = pc_command_id fb"
      by (rule repair_placed [OF placed(1) assms(4,5)])
    have created: "(InstanceCreated i :: 'g event_body) \<in> set (get_transition_events current target (tasks (rm_state m)))"
      using settle_created(1) [OF placed(2) assms(2)] assms(3) by simp
    note new = created_is_new [OF created [unfolded j(1)]]
    have "pc_command_id fb \<in> set (dict_keys target)" unfolding j(1) set_keys_dict_set by simp
    then have "pc_command_id fb \<in> set (rm_fallback_placed m')"
      using settle_created(2) [OF placed(2) assms(2)] new(2) by simp
    then show ?thesis using j(2) new(1) by simp
  next
    case down
    then show ?thesis using settle_created(1) [OF down assms(2)] nothing_created assms(3) by metis
  qed
qed

lemma replace_refused_created:
  fixes m :: "'g repair_master"
  assumes "replace_refused fl env rx sha d1 d2 m refused node reason (dict_pop iid current) = (m', Inr (cancels, es))"
    "InstanceCreated i \<in> set es" "instances (rm_state m) = current" "inj (fst (snd d1))" "inj (fst (snd d2))"
    "simple_cycles_ok rx (topology (rm_state m))"
  shows "(instance_width refused < instance_width i \<and> instance_width i \<le> length (list_nodes rx (topology (rm_state m)))) \<or>
    inst_id i \<in> set (rm_fallback_placed m')"
proof -
  obtain cmd where cmd: "replacement_command_for_refused_instance (fst d1) refused = Inr cmd"
    using assms(1) by (auto simp: replace_refused_def split: sum.splits)
  consider (placed) target where "repair_placement fl env rx d1 m refused cmd (dict_pop iid current) = Inr target"
      "settle_refusal sha m refused reason (dict_pop iid current) target = (m', Inr (cancels, es))"
    | (down) "settle_refusal sha m refused reason (dict_pop iid current) (dict_pop iid current) = (m', Inr (cancels, es))"
    | (fallback) "fallback_refused fl env rx sha d2 m refused node reason (dict_pop iid current) = (m', Inr (cancels, es))"
    using assms(1) cmd by (auto simp: replace_refused_def split: sum.splits if_splits)
  then show ?thesis
  proof cases
    case placed
    obtain j where j: "target = dict_set (pc_command_id cmd) j (dict_pop iid current)" "pc_min_nodes cmd \<le> int (instance_width j)"
        "instance_width j \<le> length (list_nodes rx (topology (rm_state m)))"
      by (rule repair_placed [OF placed(1) assms(4,6)])
    have "(InstanceCreated i :: 'g event_body) \<in> set (get_transition_events current target (tasks (rm_state m)))"
      using settle_created(1) [OF placed(2) assms(2)] assms(3) by simp
    then have "i = j" unfolding j(1) by (rule created_is_new(1))
    moreover have "pc_min_nodes cmd = int (instance_width refused) + 1"
      using cmd by (auto simp: replacement_command_for_refused_instance_def repair_command_def placement_intent_from_instance_def
        split: sum.splits list.splits)
    ultimately show ?thesis using j(2,3) by simp
  next
    case down
    then show ?thesis using settle_created(1) [OF down assms(2)] nothing_created assms(3) by metis
  next
    case fallback
    then show ?thesis using fallback_refused_created assms(2,3,5,6) by blast
  qed
qed

text \<open>A refusal that creates an instance either makes the placement wider or uses the fallback, and never answers a
  refusal of a fallback.\<close>

lemma refusal_created:
  assumes "refuse_instance_placement fl env rx sha d1 d2 m iid node reason = (m', Inr (cancels, es))" "InstanceCreated i \<in> set es"
    "dict_get (instances (rm_state m)) iid = Some refused" "inj (fst (snd d1))" "inj (fst (snd d2))" "simple_cycles_ok rx (topology (rm_state m))"
  shows "iid \<notin> set (rm_fallback_placed m)"
    "(instance_width refused < instance_width i \<and> instance_width i \<le> length (list_nodes rx (topology (rm_state m)))) \<or>
     inst_id i \<in> set (rm_fallback_placed m')"
proof -
  let ?m = "m\<lparr>rm_refusal_replaced := iid # rm_refusal_replaced m\<rparr>"
  show fresh: "iid \<notin> set (rm_fallback_placed m)"
  proof
    assume "iid \<in> set (rm_fallback_placed m)"
    then have "finish_repair sha ?m refused ''placement_failed''
        (take 2048 (''Skulk exhausted placement recovery after a node refused its shard: '' @ reason)) (dict_pop iid (instances (rm_state m)))
        = (m', Inr (cancels, es))"
      using assms(1,3) by (simp add: refuse_instance_placement_def Let_def)
    from finish_repairD(1) [OF this] show False using assms(2) nothing_created by fastforce
  qed
  have "delete_instance iid (instances (rm_state m)) = Inr (dict_pop iid (instances (rm_state m)))"
    using assms(3) by (simp add: delete_instance_def dict_has_def)
  then have "replace_refused fl env rx sha d1 d2 ?m refused node reason (dict_pop iid (instances (rm_state m))) = (m', Inr (cancels, es))"
    using assms(1,2,3) fresh by (auto simp: refuse_instance_placement_def Let_def split: if_splits)
  from replace_refused_created [OF this assms(2) _ assms(4,5)]
  show "(instance_width refused < instance_width i \<and> instance_width i \<le> length (list_nodes rx (topology (rm_state m)))) \<or>
     inst_id i \<in> set (rm_fallback_placed m')" using assms(6) by simp
qed

section \<open>Repairs end\<close>

text \<open>A chain of refusals, each of the placement that answered the one before.  Between two of them the master goes on:
  all that is assumed is that it does not forget which placements are fallbacks.  The topology may change as long as it
  has at most \<open>N\<close> nodes.\<close>

inductive recovery_chain :: "nat \<Rightarrow> 'g rx_ops \<Rightarrow> 'g repair_master \<Rightarrow> instance_id \<Rightarrow> nat \<Rightarrow> bool" for N rx where
  stop: "recovery_chain N rx m iid 0"
| again: "recovery_chain N rx m iid (Suc n)"
    if "length (list_nodes rx (topology (rm_state m))) \<le> N" "simple_cycles_ok rx (topology (rm_state m))"
      "inj (fst (snd d1))" "inj (fst (snd d2))"
      "refuse_instance_placement fl env rx sha d1 d2 m iid node reason = (m', Inr (cancels, es))" "InstanceCreated i \<in> set es"
      "set (rm_fallback_placed m') \<subseteq> set (rm_fallback_placed m'')" "dict_get (instances (rm_state m'')) (inst_id i) = Some i"
      "recovery_chain N rx m'' (inst_id i) n"

text \<open>C16. Recovery from refused placements ends.  A placement of \<open>w\<close> nodes that is refused, and whose replacements are
  refused in turn, is replaced at most \<open>N - w + 1\<close> times in a cluster of at most \<open>N\<close> nodes: every replacement is wider
  than the one before, or it is the fallback, whose own refusal is final.\<close>

theorem recovery_terminates:
  assumes "recovery_chain N rx m iid n" "dict_get (instances (rm_state m)) iid = Some i"
  shows "n \<le> (if iid \<in> set (rm_fallback_placed m) then 0 else N - instance_width i + 1)"
  using assms
proof (induction arbitrary: i)
  case (again m d1 d2 fl env sha iid node reason m' cancels es j m'' n)
  note step = refusal_created [OF again.hyps(5,6) again.prems again.hyps(3,4,2)]
  note rest = again.IH [OF again.hyps(8)]
  show ?case
  proof (cases "inst_id j \<in> set (rm_fallback_placed m'')")
    case True
    then show ?thesis using rest step(1) by simp
  next
    case False
    then have "instance_width i < instance_width j" "instance_width j \<le> N" using step(2) again.hyps(1,7) by auto
    then show ?thesis using rest step(1) False by simp
  qed
qed simp

section \<open>A refusal that is never answered\<close>

text \<open>C40. A plain \<open>ValueError\<close> leaves the refused placement in place.  The handler expects \<open>PlacementError\<close> of
  \<open>place_instance\<close>.  When the replacement raises any other \<open>ValueError\<close>, for example because the nodes of the wider cycle
  have no address to dial each other, the exception leaves the handler before any event is sent: the placement that a node
  could not load stays, and every later refusal of it is ignored.\<close>

theorem refusal_left_in_place:
  assumes "dict_get (instances (rm_state m)) iid = Some refused" "iid \<notin> set (rm_fallback_placed m)" "iid \<notin> set (rm_refusal_replaced m)"
    "replacement_command_for_refused_instance (fst d1) refused = Inr cmd"
    "repair_placement fl env rx d1 (m\<lparr>rm_refusal_replaced := iid # rm_refusal_replaced m\<rparr>) refused cmd (dict_pop iid (instances (rm_state m)))
       = Inl ValueError"
  shows "\<exists>m'. refuse_instance_placement fl env rx sha d1 d2 m iid node reason = (m', Inl ValueError) \<and> rm_state m' = rm_state m \<and>
    (\<forall>fl env sha d1 d2 m'' node reason. set (rm_refusal_replaced m') \<subseteq> set (rm_refusal_replaced m'') \<and> iid \<notin> set (rm_fallback_placed m'') \<longrightarrow>
       refuse_instance_placement fl env rx sha d1 d2 m'' iid node reason = (m'', Inr ([], [])))"
proof -
  let ?m = "m\<lparr>rm_refusal_replaced := iid # rm_refusal_replaced m\<rparr>"
  have "delete_instance iid (instances (rm_state m)) = Inr (dict_pop iid (instances (rm_state m)))"
    using assms(1) by (simp add: delete_instance_def dict_has_def)
  then have "refuse_instance_placement fl env rx sha d1 d2 m iid node reason = (?m, Inl ValueError)"
    using assms by (simp add: refuse_instance_placement_def replace_refused_def is_placement_error_def Let_def)
  then show ?thesis
    by (intro exI [of _ ?m]) (auto simp: refuse_instance_placement_def Let_def split: option.split)
qed

section \<open>Example\<close>

text \<open>A placement on node \<open>a\<close> is refused; the replacement needs both nodes.\<close>

definition refused_instance :: instance_t where
  "refused_instance = MlxRingInstance \<lparr>bi_instance_id = ''i'',
     bi_shard_assignments = \<lparr>sa_model_id = ''m'', runner_to_shard = [(''r'', example_shard)], node_to_runner = [(''a'', ''r'')]\<rparr>,
     bi_context_token_limit = Some 2048, bi_excluded_nodes = [''c''], bi_system_role = None, bi_requested_context_tokens = Some 2048\<rparr> [] 24001"

definition refusing_master :: "list_graph topology \<Rightarrow> list_graph repair_master" where
  "refusing_master t = \<lparr>rm_state = (empty_state list_rx)\<lparr>instances := [(''i'', refused_instance)], topology := t\<rparr>,
     rm_pending_reservations = [], rm_steward_reserved = [], rm_runner_loaded_at = [], rm_node_memory = pair_memory, rm_node_system = [],
     rm_node_resources = [], rm_effective_downloads = [], rm_served_default = 8192, rm_monotonic = 0, rm_now = 0,
     rm_refusal_replaced = [], rm_fallback_placed = [], rm_download_recovered = []\<rparr>"

definition pair_draw :: draw where
  "pair_draw = (''new'', runner_names, \<lambda>k. [24000])"

lemma refused_command: "replacement_command_for_refused_instance (fst pair_draw) refused_instance = Inr pair_command"
  by (simp add: replacement_command_for_refused_instance_def repair_command_def placement_intent_from_instance_def refused_instance_def
    example_shard_def pair_draw_def pair_command_def instance_width_def)

lemma refused_inputs:
  "repair_inputs (\<lambda>x. x) (refusing_master t\<lparr>rm_refusal_replaced := ids\<rparr>) refused_instance pair_command [] = pair_placement t"
  by (simp add: repair_inputs_def reserved_placement_inputs_def placement_reservations_def dict_update_def refusing_master_def
    reserve_system_ram_usage_def reserve_instance_system_ram_def ram_charges_def hosted_shards_def accumulate_def List.map_filter_simps
    usable_vram_by_node_def unified_memory_gpu_node_ids_def reserve_instance_vram_def dict_collect_def dict_filter_def dict_default_def
    pair_placement_def pair_command_def refused_instance_def pair_memory_def empty_state_def Let_def)

lemma refused_placement:
  "repair_placement (\<lambda>x. x) plain_env list_rx pair_draw (refusing_master t\<lparr>rm_refusal_replaced := ids\<rparr>) refused_instance pair_command [] =
     place_instance (\<lambda>x. x) plain_env list_rx runner_names (\<lambda>k. [24000]) pair_command (pair_placement t)"
  by (simp add: repair_placement_def refused_inputs pair_draw_def)

lemma refusing_fields:
  "dict_get (instances (rm_state (refusing_master t))) ''i'' = Some refused_instance" "rm_fallback_placed (refusing_master t) = []"
  "rm_refusal_replaced (refusing_master t) = []" "topology (rm_state (refusing_master t)) = t" "dict_pop ''i'' (instances (rm_state (refusing_master t))) = []"
  by (simp_all add: refusing_master_def dict_pop_def)

theorem refusal_left_in_place_witness:
  "\<exists>m'. refuse_instance_placement (\<lambda>x. x) plain_env list_rx hex_digest pair_draw pair_draw (refusing_master session_pair) ''i'' ''a'' ''full''
      = (m', Inl ValueError) \<and> dict_get (instances (rm_state m')) ''i'' = Some refused_instance"
  using refusal_left_in_place [OF refusing_fields(1) _ _ refused_command, of session_pair "\<lambda>x. x" plain_env list_rx hex_digest pair_draw "''a''" "''full''"]
  by (auto simp: refusing_fields refused_placement session_pair_raises)

lemma refusal_replaced:
  "\<exists>m' cancels es i. refuse_instance_placement (\<lambda>x. x) plain_env list_rx hex_digest pair_draw pair_draw (refusing_master link_pair) ''i'' ''a'' ''full''
      = (m', Inr (cancels, es)) \<and> InstanceCreated i \<in> set es \<and> inst_id i = ''new''"
proof -
  let ?m = "refusing_master link_pair" and ?m' = "refusing_master link_pair\<lparr>rm_refusal_replaced := [''i'']\<rparr>"
  obtain target where target: "place_instance (\<lambda>x. x) plain_env list_rx runner_names (\<lambda>k. [24000]) pair_command (pair_placement link_pair) = Inr target"
    using pair_placed by blast
  have cycles: "simple_cycles_ok list_rx (in_topology (pair_placement link_pair))" using pair_cycles by (simp add: pair_fields)
  obtain i where i: "target = [(''new'', i)]" "inst_id i = ''new''"
    by (rule placed_instance [OF target runner_names_inj cycles]) (simp add: pair_fields pair_command_fields dict_set_def)
  have "refuse_instance_placement (\<lambda>x. x) plain_env list_rx hex_digest pair_draw pair_draw ?m ''i'' ''a'' ''full''
      = settle_refusal hex_digest ?m' refused_instance ''full'' [] target"
    using refused_command refused_placement [where t = link_pair and ids = "[''i'']"] target
    by (simp add: refuse_instance_placement_def delete_instance_def dict_has_def replace_refused_def refusing_fields Let_def)
  moreover obtain m' cancels f where "settle_refusal hex_digest ?m' refused_instance ''full'' [] target
      = (m', Inr (cancels, InstanceFailureRecorded f # get_transition_events (instances (rm_state ?m')) target (tasks (rm_state ?m'))))"
    using settle_refusal_total [OF hex_digest_length] by metis
  ultimately have run: "refuse_instance_placement (\<lambda>x. x) plain_env list_rx hex_digest pair_draw pair_draw ?m ''i'' ''a'' ''full''
      = (m', Inr (cancels, InstanceFailureRecorded f # get_transition_events (instances (rm_state ?m)) target (tasks (rm_state ?m))))"
    by simp
  have "\<not> dict_has (instances (rm_state ?m)) ''new''" by (simp add: refusing_master_def dict_has_def)
  then have "InstanceCreated i \<in> set (get_transition_events (instances (rm_state ?m)) target (tasks (rm_state ?m)))"
    unfolding transition_created i(1) by simp
  then show ?thesis using run i(2) by fastforce
qed

theorem recovery_terminates_witness:
  "recovery_chain 2 list_rx (refusing_master link_pair) ''i'' 1 \<and> 1 \<le> 2 - instance_width refused_instance + 1"
proof -
  obtain m' cancels es i where run: "refuse_instance_placement (\<lambda>x. x) plain_env list_rx hex_digest pair_draw pair_draw (refusing_master link_pair)
      ''i'' ''a'' ''full'' = (m', Inr (cancels, es))" "InstanceCreated i \<in> set es" using refusal_replaced by blast
  have nodes: "length (list_nodes list_rx link_pair) \<le> 2" by code_simp
  define m'' where "m'' = m'\<lparr>rm_state := rm_state m'\<lparr>instances := [(inst_id i, i)]\<rparr>\<rparr>"
  have "recovery_chain 2 list_rx (refusing_master link_pair) ''i'' (Suc 0)"
    by (rule recovery_chain.again [OF _ _ _ _ run _ _ recovery_chain.stop, where m'' = m''])
      (simp_all add: refusing_fields nodes pair_cycles pair_draw_def runner_names_inj m''_def)
  moreover from this have "Suc 0 \<le> 2 - instance_width refused_instance + 1"
    using recovery_terminates refusing_fields(1,2) by fastforce
  ultimately show ?thesis by simp
qed

section \<open>Failed downloads\<close>

lemma queue_one_state [simp]: "rm_state (queue_control_event m e) = rm_state m"
  by (cases e) simp_all

lemma queue_state: "rm_state (foldl queue_control_event m es) = rm_state m"
  by (induction es arbitrary: m) simp_all

lemma finish_repair_state: "rm_state (fst (finish_repair sha m broken code msg target)) = rm_state m"
  by (simp add: finish_repair_def Let_def queue_state split: sum.split)

text \<open>What recovery sends for one instance: it fails its requests, and then, unless the placement raised, records the
  failure, removes the instance for a target that keeps all others, and resets the downloads.\<close>

definition recovery_sent ::
  "'g repair_master \<Rightarrow> instance_id \<Rightarrow> 'g event_body list \<Rightarrow> 'g event_body list \<Rightarrow> py_error option \<Rightarrow> bool" where
  "recovery_sent m iid resets es err \<longleftrightarrow>
     (err \<noteq> None \<and> es = orphaned_task_failure_events (rm_state m) [iid]) \<or>
     (err = None \<and> (\<exists>target f. es = orphaned_task_failure_events (rm_state m) [iid]
         @ (InstanceFailureRecorded f # get_transition_events (instances (rm_state m)) target (tasks (rm_state m))) @ resets \<and>
         (\<forall>k. k \<noteq> iid \<and> dict_has (instances (rm_state m)) k \<longrightarrow> dict_has target k)))"

lemma repair_target:
  assumes "repair_placement fl env rx d m broken cmd after = Inr target"
  shows "\<exists>cid i. target = dict_set cid i after"
proof -
  have "in_instances (repair_inputs fl m broken cmd after) = after" by (simp add: repair_inputs_def split_beta Let_def)
  then show ?thesis using place_instance_run [OF assms [unfolded repair_placement_def]] by metis
qed

lemma recover_wedged_sent:
  assumes "recover_wedged fl env rx sha attempt order d m iid broken failed = (m', (cancels, es), err)"
  shows "rm_state m' = rm_state m \<and> recovery_sent m iid (List.map_filter (download_reset attempt broken) (order failed)) es err"
proof -
  let ?cur = "instances (rm_state m)" and ?m = "m\<lparr>rm_download_recovered := iid # rm_download_recovered m\<rparr>"
  let ?tasks = "orphaned_task_failure_events (rm_state m) [iid]" and ?resets = "List.map_filter (download_reset attempt broken) (order failed)"
  let ?finish = "finish_repair sha ?m broken ''download_failed'' download_failed_message"
  let ?settle = "\<lambda>target. case ?finish target of
      (m'', Inl e) \<Rightarrow> (m'', ([], ?tasks), Some e) | (m'', Inr (cancels, es)) \<Rightarrow> (m'', (cancels, ?tasks @ es @ ?resets), None)"
  have settled: "rm_state m' = rm_state m \<and> recovery_sent m iid ?resets es err"
    if run: "?settle target = (m', (cancels, es), err)"
      and target: "target = dict_pop iid ?cur \<or> (\<exists>cid i. target = dict_set cid i (dict_pop iid ?cur))" for target
  proof -
    have kept: "\<forall>k. k \<noteq> iid \<and> dict_has ?cur k \<longrightarrow> dict_has target k" using target by auto
    have state: "rm_state (fst (?finish target)) = rm_state m" by (simp add: finish_repair_state)
    show ?thesis
    proof (cases "snd (?finish target)")
      case (Inl e)
      then show ?thesis using run state by (auto simp: split_beta recovery_sent_def)
    next
      case (Inr sent)
      then obtain m1 c1 es1 where fin: "?finish target = (m1, Inr (c1, es1))" by (metis prod.collapse)
      obtain f where "es1 = InstanceFailureRecorded f # get_transition_events ?cur target (tasks (rm_state m))"
        using finish_repairD(1) [OF fin] by auto
      then show ?thesis using run state fin kept by (auto simp: recovery_sent_def)
    qed
  qed
  have deleted: "after = dict_pop iid ?cur" if "delete_instance iid ?cur = Inr after" for after
    using that by (simp add: delete_instance_def split: if_splits)
  consider (raised) e where "(m', (cancels, es), err) = (?m, ([], ?tasks), Some e)"
    | (over) target where "?settle target = (m', (cancels, es), err)" "target = dict_pop iid ?cur \<or> (\<exists>cid i. target = dict_set cid i (dict_pop iid ?cur))"
  proof (cases "delete_instance iid ?cur")
    case (Inl e)
    then show ?thesis using assms raised [of e] by (simp add: recover_wedged_def Let_def)
  next
    case (Inr after)
    let ?placed = "case replacement_command_for_download_failed_instance (fst d) broken (set failed) of
        Inl e \<Rightarrow> Inl e | Inr cmd \<Rightarrow> repair_placement fl env rx d ?m broken cmd after"
    have run: "(case ?placed of Inr target \<Rightarrow> ?settle target
        | Inl e \<Rightarrow> if is_placement_error e then ?settle after else (?m, ([], ?tasks), Some e)) = (m', (cancels, es), err)"
      using assms unfolding recover_wedged_def Let_def Inr sum.case .
    show ?thesis
    proof (cases ?placed)
      case failed: (Inl e)
      show ?thesis
        using run unfolding failed sum.case using deleted [OF Inr] raised [of e] over [of after] by (cases "is_placement_error e") simp_all
    next
      case placed: (Inr target)
      then obtain cmd where "repair_placement fl env rx d ?m broken cmd after = Inr target"
        by (cases "replacement_command_for_download_failed_instance (fst d) broken (set failed)") simp_all
      then have "\<exists>cid i. target = dict_set cid i after" by (rule repair_target)
      then show ?thesis using run unfolding placed sum.case using deleted [OF Inr] over [of target] by simp
    qed
  qed
  then show ?thesis
  proof cases
    case raised
    then show ?thesis by (simp add: recovery_sent_def)
  next
    case over
    then show ?thesis by (rule settled)
  qed
qed

lemma sent_deletes_only:
  fixes m :: "'g repair_master"
  assumes "recovery_sent m iid (List.map_filter (download_reset attempt broken) ns) es err" "InstanceDeleted k \<in> set es"
  shows "k = iid"
proof (rule ccontr)
  assume other: "k \<noteq> iid"
  have "(InstanceDeleted k :: 'g event_body) \<notin> set (orphaned_task_failure_events (rm_state m) [iid])"
      "(InstanceDeleted k :: 'g event_body) \<notin> set (List.map_filter (download_reset attempt broken) ns)"
    by (auto simp: orphaned_task_failure_events_def List.map_filter_def download_reset_def)
  then obtain target where target: "(InstanceDeleted k :: 'g event_body) \<in> set (get_transition_events (instances (rm_state m)) target (tasks (rm_state m)))"
      "\<forall>k. k \<noteq> iid \<and> dict_has (instances (rm_state m)) k \<longrightarrow> dict_has target k"
    using assms unfolding recovery_sent_def by auto
  then have "k \<in> set (dict_keys (instances (rm_state m)))" "\<not> dict_has target k"
    by (auto simp: get_transition_events_def cancelled_tasks_def)
  then show False using target(2) other unfolding dict_has_iff_keys by blast
qed

lemma recover_each_deletes:
  assumes "recover_each fl env rx sha attempt order d k wedged m = (m', (cancels, es), err)" "InstanceDeleted iid \<in> set es"
  shows "iid \<in> fst ` set wedged"
  using assms
proof (induction wedged arbitrary: k m cancels es m' err)
  case (Cons w wedged)
  obtain j failed where w: "w = (j, failed)" by (cases w)
  show ?case
  proof (cases "j \<in> set (rm_download_recovered m) \<or> dict_get (instances (rm_state m)) j = None")
    case True
    then show ?thesis using Cons w by (auto split: if_splits)
  next
    case False
    then obtain broken where broken: "dict_get (instances (rm_state m)) j = Some broken" by auto
    obtain m1 c1 es1 err1 where one: "recover_wedged fl env rx sha attempt order (d k) m j broken failed = (m1, (c1, es1), err1)"
      by (metis prod.collapse)
    note sent = recover_wedged_sent [OF one, THEN conjunct2]
    obtain m2 c2 es2 err2 where rest: "recover_each fl env rx sha attempt order d (k + 1) wedged m1 = (m2, (c2, es2), err2)"
      by (metis prod.collapse)
    have "es = es1 \<or> es = es1 @ es2"
      using Cons.prems(1) False broken one rest w by (cases err1) simp_all
    then consider "InstanceDeleted iid \<in> set es1" | "InstanceDeleted iid \<in> set es2" using Cons.prems(2) by auto
    then show ?thesis
    proof cases
      case 1
      then show ?thesis using sent_deletes_only [OF sent] w by simp
    next
      case 2
      then show ?thesis using Cons.IH [OF rest] by simp
    qed
  qed
qed simp

lemma wedged_facts:
  assumes "iid \<in> fst ` set (instances_wedged_by_download_failure st)" "dict_wf (instances st)"
  shows "\<exists>i. dict_get (instances st) iid = Some i \<and> \<not> instance_ready st i \<and> failed_download_nodes st i \<noteq> []"
proof -
  obtain i where "(iid, i) \<in> set (instances st)" "\<not> instance_ready st i" "failed_download_nodes st i \<noteq> []"
    using assms(1) by (auto simp: instances_wedged_by_download_failure_def List.map_filter_def split: if_splits)
  then show ?thesis using assms(2) by (metis dict_wf_def map_of_is_SomeI)
qed

text \<open>C17. Download recovery spares serving placements.  A recovery pass deletes an instance only if one of its nodes has a
  failed download of the model and not all of its runners are ready; whatever exception ends the pass.\<close>

theorem recovery_spares_serving:
  assumes "recover_download_failed_instances fl env rx sha attempt order d m = (m', (cancels, es), err)" "dict_wf (instances (rm_state m))"
    "InstanceDeleted iid \<in> set es"
  shows "\<exists>i. dict_get (instances (rm_state m)) iid = Some i \<and> \<not> instance_ready (rm_state m) i \<and> failed_download_nodes (rm_state m) i \<noteq> []"
  by (rule wedged_facts [OF recover_each_deletes [OF assms(1) [unfolded recover_download_failed_instances_def] assms(3)] assms(2)])

lemma resets_clear:
  fixes st :: "'g state"
  assumes "apply_bodies rx p (List.map_filter (download_reset attempt i) ns) st = Inr st'"
    "\<forall>r s. dict_get (runner_to_shard (inst_shards i)) r = Some s \<longrightarrow> shard_model_id s = model"
    "download_of st n model = None \<or> (n \<in> set ns \<and> (\<exists>r. dict_get (node_to_runner (inst_shards i)) n = Some r \<and> dict_has (runner_to_shard (inst_shards i)) r))"
  shows "download_of st' n model = None"
  using assms
proof (induction ns arbitrary: st)
  case (Cons x ns)
  show ?case
  proof (cases "download_reset attempt i x :: 'g event_body option")
    case None
    then have "x \<noteq> n \<or> download_of st n model = None" using Cons.prems(3) by (auto simp: download_reset_def dict_has_def)
    then show ?thesis using Cons None by (auto simp: List.map_filter_simps)
  next
    case (Some e)
    then obtain b where b: "e = NodeDownloadProgress (DownloadPending b 0 0)" "dp_node_id b = x" "shard_model_id (dp_shard_metadata b) = model"
      using Cons.prems(2) by (auto simp: download_reset_def split: Option.bind_splits)
    let ?s = "apply_node_download_progress (DownloadPending b 0 0) st"
    have "apply_bodies rx p (List.map_filter (download_reset attempt i) ns) ?s = Inr st'"
      using Cons.prems(1) Some b(1) by (simp add: List.map_filter_simps)
    moreover have "download_of ?s n model = (if n = x then None else download_of st n model)"
      unfolding download_pending using b(2,3) by (simp add: dp_model_id_def)
    ultimately show ?thesis using Cons.IH [of ?s] Cons.prems(2,3) by auto
  qed
qed (simp add: List.map_filter_simps)

text \<open>C18. Recovery consumes the failed downloads.  Once the events of the recovery of an instance are applied, none of
  its failed nodes has a record of the model left, so the stale failure condemns no later placement of the model.\<close>

theorem recovery_consumes_failures:
  assumes "recover_wedged fl env rx sha attempt order d m iid broken (failed_download_nodes (rm_state m) broken) = (m', (cancels, es), None)"
    "\<forall>ns. set (order ns) = set ns" "validate_runners_exist (inst_shards broken)"
    "\<forall>r s. dict_get (runner_to_shard (inst_shards broken)) r = Some s \<longrightarrow> shard_model_id s = model"
    "apply_bodies rx parse_iso es (rm_state m) = Inr st'" "n \<in> set (failed_download_nodes (rm_state m) broken)"
  shows "download_of st' n model = None"
proof -
  let ?resets = "List.map_filter (download_reset attempt broken) (order (failed_download_nodes (rm_state m) broken))"
  obtain target f where es: "es = (orphaned_task_failure_events (rm_state m) [iid]
      @ InstanceFailureRecorded f # get_transition_events (instances (rm_state m)) target (tasks (rm_state m))) @ ?resets"
    using recover_wedged_sent [OF assms(1)] unfolding recovery_sent_def by auto
  obtain s where s: "apply_bodies rx parse_iso ?resets s = Inr st'"
    using assms(5) unfolding es apply_bodies_append by (auto split: sum.splits)
  have "n \<in> set (dict_keys (node_to_runner (inst_shards broken)))"
    using assms(6) by (auto simp: failed_download_nodes_def split: list.splits)
  then obtain r where r: "dict_get (node_to_runner (inst_shards broken)) n = Some r" unfolding dict_has_iff_keys [symmetric] dict_has_def by blast
  have "dict_has (runner_to_shard (inst_shards broken)) r"
    using assms(3) dict_get_in_values [OF r] unfolding validate_runners_exist_def list_all_iff by blast
  then show ?thesis using resets_clear [OF s assms(4)] r assms(2,6) by blast
qed

section \<open>Example of a recovery\<close>

text \<open>The download of node \<open>a\<close> failed, and no topology is left to place the model on.\<close>

definition failing_master :: "list_graph repair_master" where
  "failing_master = (refusing_master (new_topology list_rx))\<lparr>rm_state :=
     (rm_state (refusing_master (new_topology list_rx)))\<lparr>downloads := [(''a'', [example_download])]\<rparr>\<rparr>"

lemma no_cycle_no_placement:
  assumes "get_cycles rx (in_topology inp) = []"
  shows "\<exists>e. place_instance fl env rx fresh draws cmd inp = Inl e \<and> is_placement_error e"
  using assms by (simp add: place_instance_def select_cycle_def candidate_cycles_narrow initial_candidates_def nonempty_or_def bind_result_def
    is_placement_error_def Let_def)

lemma failing_fields:
  "instances (rm_state failing_master) = [(''i'', refused_instance)]" "downloads (rm_state failing_master) = [(''a'', [example_download])]"
  "runners (rm_state failing_master) = []" "tasks (rm_state failing_master) = []" "topology (rm_state failing_master) = new_topology list_rx"
  "rm_download_recovered failing_master = []"
  by (simp_all add: failing_master_def refusing_master_def empty_state_def)

lemma refused_shards: "inst_shards refused_instance = \<lparr>sa_model_id = ''m'', runner_to_shard = [(''r'', example_shard)], node_to_runner = [(''a'', ''r'')]\<rparr>"
    "inst_id refused_instance = ''i''"
  by (simp_all add: refused_instance_def)

lemma failing_nodes: "failed_download_nodes (rm_state failing_master) refused_instance = [''a'']"
  by (simp add: failed_download_nodes_def refused_shards failing_fields dict_default_def example_download_def dp_model_id_def example_shard_def)

lemma failing_wedged: "instances_wedged_by_download_failure (rm_state failing_master) = [(''i'', [''a''])]"
  by (simp add: instances_wedged_by_download_failure_def failing_fields failing_nodes instance_ready_def refused_shards List.map_filter_simps)

lemma failing_recovered:
  "\<exists>m' cancels f. recover_wedged (\<lambda>x. x) plain_env list_rx hex_digest attempt (\<lambda>ns. ns) pair_draw failing_master ''i'' refused_instance [''a'']
     = (m', (cancels, [InstanceFailureRecorded f, InstanceDeleted ''i''] @ List.map_filter (download_reset attempt refused_instance) [''a'']), None)"
proof -
  let ?m = "failing_master\<lparr>rm_download_recovered := [''i'']\<rparr>"
  obtain cmd where cmd: "replacement_command_for_download_failed_instance (fst pair_draw) refused_instance (set [''a'']) = Inr cmd"
    by (simp add: replacement_command_for_download_failed_instance_def repair_command_def placement_intent_from_instance_def refused_shards)
  have "get_cycles list_rx (new_topology list_rx) = []" by code_simp
  then have "get_cycles list_rx (in_topology (repair_inputs (\<lambda>x. x) ?m refused_instance cmd [])) = []"
    by (simp add: repair_inputs_def split_beta failing_fields)
  then obtain e where placed: "repair_placement (\<lambda>x. x) plain_env list_rx pair_draw ?m refused_instance cmd [] = Inl e" "is_placement_error e"
    unfolding repair_placement_def using no_cycle_no_placement by blast
  have message: "download_failed_message \<noteq> []" "length download_failed_message \<le> 2048" by (simp_all add: download_failed_message_def)
  obtain f where f: "instance_failure_event hex_digest (rm_now failing_master) refused_instance ''download_failed'' download_failed_message
      = Inr (InstanceFailureRecorded f :: list_graph event_body)"
    using failure_event_total [OF hex_digest_length message] by blast
  have events: "get_transition_events [(''i'', refused_instance)] [] [] = [InstanceDeleted ''i'' :: list_graph event_body]"
    by (simp add: get_transition_events_def cancelled_tasks_def dict_has_def)
  have rest: "delete_instance ''i'' [(''i'', refused_instance)] = Inr []"
      "orphaned_task_failure_events (rm_state failing_master) [''i''] = []"
    by (simp_all add: delete_instance_def dict_has_def dict_pop_def orphaned_task_failure_events_def failing_fields)
  show ?thesis
    unfolding recover_wedged_def Let_def failing_fields rest sum.case cmd placed
    using placed(2) f by (simp add: finish_repair_def Let_def failing_fields events)
qed

theorem recovery_spares_serving_witness:
  "\<exists>m' cancels es. recover_download_failed_instances (\<lambda>x. x) plain_env list_rx hex_digest (\<lambda>_. ''t'') (\<lambda>ns. ns) (\<lambda>k. pair_draw) failing_master
      = (m', (cancels, es), None) \<and> InstanceDeleted ''i'' \<in> set es \<and> failed_download_nodes (rm_state failing_master) refused_instance \<noteq> []"
proof -
  obtain m' cancels es where run: "recover_download_failed_instances (\<lambda>x. x) plain_env list_rx hex_digest (\<lambda>_. ''t'') (\<lambda>ns. ns) (\<lambda>k. pair_draw)
      failing_master = (m', (cancels, es), None)" and sent: "InstanceDeleted ''i'' \<in> set es"
    using failing_recovered [of "\<lambda>_. ''t''"]
    by (auto simp: recover_download_failed_instances_def failing_wedged failing_fields)
  have wf: "dict_wf (instances (rm_state failing_master))" by (simp add: failing_fields dict_wf_def)
  show ?thesis using run sent recovery_spares_serving [OF run wf sent] by (auto simp: failing_fields)
qed

theorem recovery_consumes_failures_witness:
  "\<exists>m' cancels es st'. recover_wedged (\<lambda>x. x) plain_env list_rx hex_digest (\<lambda>_. ''t'') (\<lambda>ns. ns) pair_draw failing_master ''i'' refused_instance [''a'']
      = (m', (cancels, es), None) \<and> apply_bodies list_rx (\<lambda>_. None) es (rm_state failing_master) = Inr st' \<and>
     download_of (rm_state failing_master) ''a'' ''m'' \<noteq> None \<and> download_of st' ''a'' ''m'' = None"
proof -
  let ?resets = "List.map_filter (download_reset (\<lambda>_. ''t'') refused_instance) [''a'']"
  obtain m' cancels f where run: "recover_wedged (\<lambda>x. x) plain_env list_rx hex_digest (\<lambda>_. ''t'') (\<lambda>ns. ns) pair_draw failing_master ''i''
      refused_instance [''a''] = (m', (cancels, [InstanceFailureRecorded f, InstanceDeleted ''i''] @ ?resets), None)"
    using failing_recovered by blast
  obtain st' where st': "apply_bodies list_rx (\<lambda>_. None) ([InstanceFailureRecorded f, InstanceDeleted ''i''] @ ?resets) (rm_state failing_master) = Inr st'"
    by (simp add: List.map_filter_simps download_reset_def refused_shards)
  have shards: "validate_runners_exist (inst_shards refused_instance)"
      "\<forall>r s. dict_get (runner_to_shard (inst_shards refused_instance)) r = Some s \<longrightarrow> shard_model_id s = ''m''"
    by (simp_all add: refused_shards validate_runners_exist_def dict_has_def example_shard_def example_card_def shard_model_id_def)
  have before: "download_of (rm_state failing_master) ''a'' ''m'' \<noteq> None"
    by (simp add: download_of_def failing_fields example_download_def dict_default_def dp_model_id_def example_shard_def example_card_def shard_model_id_def)
  show ?thesis
    using run st' before recovery_consumes_failures [OF run [folded failing_nodes] _ shards st' [folded failing_nodes]] failing_nodes by auto
qed

end
