(* ===== verification/Request_Dispatch.thy ===== *)
theory Request_Dispatch
  imports Master_Pipeline Master_Repair "HOL-Library.Product_Lexorder"
begin

text \<open>
  How the master turns a request into a task, \<^verbatim>\<open>src/skulk/master/main.py\<close>: the ranking of instances, the inference
  commands of \<open>Master._command_processor\<close> and the commands that cancel or finish a request.  The state is the master of
  \<open>Master_Pipeline\<close>; the events go to its own event processor.  A fresh task identifier is the argument \<open>tid\<close>.
\<close>

section \<open>Commands\<close>

text \<open>What all requests carry: the model, the number of attached chunks and the remaining parameters.\<close>

record inference_request =
  req_command_id :: command_id
  req_owner_node :: "node_id option"
  req_model :: model_id
  req_input_chunks :: int
  req_task_params :: opaque

datatype request_command =
    TextGenerationCommand inference_request "instance_id option"
  | ImageGenerationCommand inference_request
  | ImageEditsCommand inference_request
  | MusicGenerationCommand inference_request
  | TextEmbeddingCommand inference_request
  | SpeechSynthesisCommand inference_request bool bool "instance_id option"
  | AudioTranscriptionCommand inference_request
  | RealtimeAudioTranscriptionCommand inference_request instance_id
  | TaskCancelledCommand command_id
  | TaskFinishedCommand command_id

text \<open>The two flags of a speech request tell whether its reference audio is inside the command, and whether there is any.\<close>

section \<open>Ranking instances\<close>

fun runner_viable :: "runner_status option \<Rightarrow> bool" where
  "runner_viable None = False"
| "runner_viable (Some (RunnerFailed _)) = False"
| "runner_viable (Some s) = (s \<notin> {RunnerShuttingDown, RunnerShutdown})"

definition instance_viable :: "'g state \<Rightarrow> instance_t \<Rightarrow> bool" where
  "instance_viable st i = list_all (\<lambda>r. runner_viable (dict_get (runners st) r)) (dict_keys (runner_to_shard (inst_shards i)))"

fun is_text_generation :: "task_kind \<Rightarrow> bool" where
  "is_text_generation (TextGeneration _ _) = True"
| "is_text_generation _ = False"

fun is_music_generation :: "task_kind \<Rightarrow> bool" where
  "is_music_generation (MusicGeneration _) = True"
| "is_music_generation _ = False"

definition active_load :: "(task_kind \<Rightarrow> bool) \<Rightarrow> 'g state \<Rightarrow> instance_id \<Rightarrow> nat" where
  "active_load is_kind st iid =
     length (filter (\<lambda>t. is_kind (task_kind t) \<and> task_instance_id t = iid \<and> open_task t) (dict_values (tasks st)))"

definition text_rank :: "'g state \<Rightarrow> instance_t \<Rightarrow> bool \<times> bool \<times> nat \<times> instance_id" where
  "text_rank st i =
     (\<not> instance_ready st i, bi_system_role (instance_base i) \<noteq> None, active_load is_text_generation st (inst_id i), inst_id i)"

definition serves_text :: "'g state \<Rightarrow> model_id \<Rightarrow> instance_t \<Rightarrow> bool" where
  "serves_text st model i \<longleftrightarrow>
     sa_model_id (inst_shards i) = model \<and> runner_to_shard (inst_shards i) \<noteq> [] \<and> instance_viable st i"

definition text_generation_instances :: "'g state \<Rightarrow> model_id \<Rightarrow> instance_id list" where
  "text_generation_instances st model =
     map (snd \<circ> snd \<circ> snd) (sort (map (text_rank st) (filter (serves_text st model) (dict_values (instances st)))))"

definition serves_music :: "'g state \<Rightarrow> model_id \<Rightarrow> instance_t \<Rightarrow> bool" where
  "serves_music st model i \<longleftrightarrow>
     sa_model_id (inst_shards i) = model \<and> length (node_to_runner (inst_shards i)) = 1 \<and>
     (case dict_values (runner_to_shard (inst_shards i)) of [shard] \<Rightarrow> card_music (shard_card (shard_base shard)) \<noteq> None | _ \<Rightarrow> False) \<and>
     instance_viable st i"

definition music_rank :: "'g state \<Rightarrow> instance_t \<Rightarrow> bool \<times> nat \<times> string \<times> instance_id" where
  "music_rank st i = (\<not> instance_ready st i, active_load is_music_generation st (inst_id i), inst_id i, inst_id i)"

definition music_generation_instances :: "'g state \<Rightarrow> model_id \<Rightarrow> instance_id list" where
  "music_generation_instances st model =
     map (snd \<circ> snd \<circ> snd) (sort (map (music_rank st) (filter (serves_music st model) (dict_values (instances st)))))"

text \<open>The other kinds count all tasks of an instance and take the least loaded.\<close>

definition instance_task_counts :: "'g state \<Rightarrow> model_id \<Rightarrow> (instance_id, nat) dict" where
  "instance_task_counts st model =
     dict_of_pairs (map (\<lambda>i. (inst_id i, length (filter (\<lambda>t. task_instance_id t = inst_id i) (dict_values (tasks st)))))
       (filter (\<lambda>i. sa_model_id (inst_shards i) = model) (dict_values (instances st))))"

definition least_loaded :: "(instance_id, nat) dict \<Rightarrow> instance_id" where
  "least_loaded counts = hd (sort_key (\<lambda>iid. dict_default 0 counts iid) (dict_keys counts))"

section \<open>Creating a task\<close>

definition task_params_of :: "inference_request \<Rightarrow> bool \<Rightarrow> inference_params" where
  "task_params_of r trace =
     \<lparr>inf_command_id = req_command_id r, inf_owner_node = req_owner_node r, inf_task_params = req_task_params r, inf_trace_enabled = trace\<rparr>"

text \<open>The task is created under its command; a request that cannot be served gets a failed task and the reason.\<close>

definition open_request ::
  "task_id \<Rightarrow> inference_request \<Rightarrow> task_kind \<Rightarrow> instance_id \<Rightarrow> (string \<times> string) option \<Rightarrow> 'g master \<Rightarrow> 'g master \<times> 'g event_body list" where
  "open_request tid r k iid failure m =
     (m\<lparr>ms_command_task := dict_set (req_command_id r) tid (ms_command_task m)\<rparr>,
      TaskCreated tid \<lparr>task_id = tid, task_status = (if failure = None then Pending else Failed), task_instance_id = iid,
         task_error_type = None, task_error_message = None, task_kind = k\<rparr>
      # (case failure of None \<Rightarrow> [] | Some (ty, msg) \<Rightarrow> [TaskFailed tid ty msg]))"

definition text_unavailable :: "string \<times> string" where
  "text_unavailable = (''instance_unavailable'', ''Requested text-generation instance is unavailable, has a terminal runner, ''
     @ ''or does not serve the requested model'')"

text \<open>The identifier a task without an instance gets: any instance of the model, or the command itself.\<close>

definition correlated_instance :: "'g state \<Rightarrow> inference_request \<Rightarrow> instance_id" where
  "correlated_instance st r =
     (case find (\<lambda>i. sa_model_id (inst_shards i) = req_model r) (dict_values (instances st)) of
        Some i \<Rightarrow> inst_id i | None \<Rightarrow> req_command_id r)"

definition text_generation :: "task_id \<Rightarrow> inference_request \<Rightarrow> instance_id option \<Rightarrow> 'g master \<Rightarrow> 'g master \<times> 'g event_body list" where
  "text_generation tid r target m =
     (let st = ms_state m; eligible = text_generation_instances st (req_model r);
          (selected, unavailable) =
            (case target of
               Some iid \<Rightarrow> (iid, iid \<notin> set eligible)
             | None \<Rightarrow> (case eligible of first # _ \<Rightarrow> (first, False) | [] \<Rightarrow> (correlated_instance st r, True)))
      in open_request tid r (TextGeneration (task_params_of r (tracing_enabled st)) (req_input_chunks r)) selected
           (if unavailable then Some text_unavailable else None) m)"

definition music_generation :: "task_id \<Rightarrow> inference_request \<Rightarrow> 'g master \<Rightarrow> 'g master \<times> 'g event_body list" where
  "music_generation tid r m =
     (let st = ms_state m; candidates = music_generation_instances st (req_model r)
      in open_request tid r (MusicGeneration (task_params_of r (tracing_enabled st)))
           (case candidates of first # _ \<Rightarrow> first | [] \<Rightarrow> req_command_id r)
           (if candidates = [] then Some (''music_model_unavailable'', ''No healthy single-host music instance serves '' @ req_model r) else None) m)"

text \<open>Images, edits, embeddings and transcriptions: the least loaded instance of the model, or a \<open>ValueError\<close>.\<close>

definition counted_request :: "task_id \<Rightarrow> inference_request \<Rightarrow> (inference_params \<Rightarrow> task_kind) \<Rightarrow> 'g master \<Rightarrow> py_error + 'g master \<times> 'g event_body list" where
  "counted_request tid r mk m =
     (let st = ms_state m; counts = instance_task_counts st (req_model r)
      in if counts = [] then Inl ValueError
         else Inr (open_request tid r (mk (task_params_of r (tracing_enabled st))) (least_loaded counts) None m))"

definition speech_synthesis ::
  "task_id \<Rightarrow> inference_request \<Rightarrow> bool \<Rightarrow> bool \<Rightarrow> instance_id option \<Rightarrow> 'g master \<Rightarrow> py_error + 'g master \<times> 'g event_body list" where
  "speech_synthesis tid r inline_audio reference target m =
     (let st = ms_state m; counts = instance_task_counts st (req_model r)
      in if inline_audio then Inl ValueError
         else if counts = [] \<and> target = None then Inl ValueError
         else Inr (open_request tid r (SpeechSynthesis (task_params_of r (tracing_enabled st)) reference)
                (case target of Some iid \<Rightarrow> iid | None \<Rightarrow> least_loaded counts)
                (case target of
                   Some iid \<Rightarrow> if dict_has counts iid then None
                     else Some (''instance_unavailable'', ''Requested TTS instance is unavailable or does not serve the requested model'')
                 | None \<Rightarrow> None) m))"

section \<open>Realtime transcription\<close>

fun is_transcription :: "task_kind \<Rightarrow> bool" where
  "is_transcription (AudioTranscription _ _) = True"
| "is_transcription (RealtimeAudioTranscription _) = True"
| "is_transcription _ = False"

definition realtime_busy :: "'g master \<Rightarrow> instance_id \<Rightarrow> bool" where
  "realtime_busy m iid \<longleftrightarrow> iid \<in> set (dict_values (ms_realtime m)) \<or>
     list_ex (\<lambda>t. is_transcription (task_kind t) \<and> task_instance_id t = iid \<and> open_task t) (dict_values (tasks (ms_state m)))"

definition realtime_transcription :: "task_id \<Rightarrow> inference_request \<Rightarrow> instance_id \<Rightarrow> 'g master \<Rightarrow> py_error + 'g master \<times> 'g event_body list" where
  "realtime_transcription tid r iid m =
     (case dict_get (instances (ms_state m)) iid of
        None \<Rightarrow> Inl ValueError
      | Some i \<Rightarrow>
          if sa_model_id (inst_shards i) \<noteq> req_model r then Inl ValueError
          else if length (node_to_runner (inst_shards i)) \<noteq> 1 then Inl ValueError
          else (let busy = realtime_busy m iid;
                    (m', es) = open_request tid r (RealtimeAudioTranscription (task_params_of r False)) iid
                      (if busy then Some (''instance_busy'', ''Realtime STT target instance is already reserved'') else None) m
                in Inr (if busy then m' else m'\<lparr>ms_realtime := dict_set (req_command_id r) iid (ms_realtime m')\<rparr>, es)))"

section \<open>The end of a request\<close>

definition task_cancelled :: "command_id \<Rightarrow> 'g master \<Rightarrow> 'g master \<times> 'g event_body list" where
  "task_cancelled c m =
     (m\<lparr>ms_realtime := dict_pop c (ms_realtime m)\<rparr>,
      case dict_get (ms_command_task m) c of Some tid \<Rightarrow> [TaskStatusUpdated tid Cancelled] | None \<Rightarrow> [])"

definition task_finished :: "command_id \<Rightarrow> 'g master \<Rightarrow> 'g master \<times> 'g event_body list" where
  "task_finished c m =
     (m\<lparr>ms_realtime := dict_pop c (ms_realtime m), ms_command_task := dict_pop c (ms_command_task m)\<rparr>,
      case dict_get (ms_command_task m) c of Some tid \<Rightarrow> [TaskDeleted tid] | None \<Rightarrow> [])"

fun process_command :: "task_id \<Rightarrow> request_command \<Rightarrow> 'g master \<Rightarrow> py_error + 'g master \<times> 'g event_body list" where
  "process_command tid (TextGenerationCommand r target) m = Inr (text_generation tid r target m)"
| "process_command tid (ImageGenerationCommand r) m = counted_request tid r ImageGeneration m"
| "process_command tid (ImageEditsCommand r) m = counted_request tid r (\<lambda>p. ImageEdits p (req_input_chunks r)) m"
| "process_command tid (MusicGenerationCommand r) m = Inr (music_generation tid r m)"
| "process_command tid (TextEmbeddingCommand r) m = counted_request tid r TextEmbedding m"
| "process_command tid (SpeechSynthesisCommand r inline_audio reference target) m = speech_synthesis tid r inline_audio reference target m"
| "process_command tid (AudioTranscriptionCommand r) m = counted_request tid r (\<lambda>p. AudioTranscription p (req_input_chunks r)) m"
| "process_command tid (RealtimeAudioTranscriptionCommand r iid) m = realtime_transcription tid r iid m"
| "process_command tid (TaskCancelledCommand c) m = Inr (task_cancelled c m)"
| "process_command tid (TaskFinishedCommand c) m = Inr (task_finished c m)"

end
