(* ===== verification/Request_Proofs.thy ===== *)
theory Request_Proofs
  imports Request_Dispatch Master_Pipeline_Proofs Apply_Invariants
begin

text \<open>
  Every request that the master accepts gets one task, on a sound instance or failed with a reason; text requests go to the
  best instance; a realtime session has its instance for itself.
\<close>

section \<open>Routing\<close>

lemma hd_sort_least:
  fixes xs :: "'a :: linorder list"
  assumes "xs \<noteq> []"
  shows "hd (sort xs) \<in> set xs" "\<forall>x \<in> set xs. hd (sort xs) \<le> x"
proof -
  obtain y ys where ys: "sort xs = y # ys" using assms by (metis list.exhaust set_empty set_sort)
  then have "sorted (y # ys)" by (metis sorted_sort)
  moreover have "set xs = set (y # ys)" by (metis ys set_sort)
  ultimately show "hd (sort xs) \<in> set xs" "\<forall>x \<in> set xs. hd (sort xs) \<le> x" by (auto simp: ys)
qed

lemma text_instances_set:
  "iid \<in> set (text_generation_instances st model) \<longleftrightarrow> (\<exists>i \<in> set (dict_values (instances st)). serves_text st model i \<and> inst_id i = iid)"
  by (auto simp: text_generation_instances_def text_rank_def image_iff)

text \<open>The first of the ranking.\<close>

lemma text_instances_first:
  assumes "text_generation_instances st model = first # rest"
  obtains i where "i \<in> set (dict_values (instances st))" "serves_text st model i" "inst_id i = first"
    "\<forall>j \<in> set (dict_values (instances st)). serves_text st model j \<longrightarrow> text_rank st i \<le> text_rank st j"
proof -
  let ?ranks = "map (text_rank st) (filter (serves_text st model) (dict_values (instances st)))"
  have "sort ?ranks \<noteq> []" using assms by (auto simp: text_generation_instances_def)
  then have ranks: "?ranks \<noteq> []" by (metis set_empty set_sort)
  have first: "first = snd (snd (snd (hd (sort ?ranks))))"
    using assms \<open>sort ?ranks \<noteq> []\<close> by (cases "sort ?ranks") (auto simp: text_generation_instances_def)
  obtain i where "hd (sort ?ranks) = text_rank st i" "i \<in> set (dict_values (instances st))" "serves_text st model i"
    using hd_sort_least(1) [OF ranks] by auto
  then show thesis using that [of i] first hd_sort_least(2) [OF ranks] by (auto simp: text_rank_def)
qed

text \<open>C14. A text request goes to the best instance.  When some instance of the model can still serve, an unpinned request
  becomes a pending task on an instance that can: a ready one if there is any, an ordinary one before the steward's, and
  the one with the fewest open text requests among equals.\<close>

theorem text_request_routed:
  assumes "text_generation tid r None m = (m', es)" "s \<in> set (dict_values (instances (ms_state m)))" "serves_text (ms_state m) (req_model r) s"
  shows "\<exists>i t. es = [TaskCreated tid t] \<and> task_status t = Pending \<and> task_instance_id t = inst_id i \<and>
    i \<in> set (dict_values (instances (ms_state m))) \<and> serves_text (ms_state m) (req_model r) i \<and>
    (\<forall>j \<in> set (dict_values (instances (ms_state m))). serves_text (ms_state m) (req_model r) j \<longrightarrow>
       (instance_ready (ms_state m) j \<longrightarrow> instance_ready (ms_state m) i) \<and>
       (instance_ready (ms_state m) j = instance_ready (ms_state m) i \<longrightarrow>
          (bi_system_role (instance_base j) = None \<longrightarrow> bi_system_role (instance_base i) = None) \<and>
          ((bi_system_role (instance_base j) = None) = (bi_system_role (instance_base i) = None) \<longrightarrow>
             active_load is_text_generation (ms_state m) (inst_id i) \<le> active_load is_text_generation (ms_state m) (inst_id j))))"
proof -
  let ?st = "ms_state m"
  have "text_generation_instances ?st (req_model r) \<noteq> []" using assms(2,3) text_instances_set [of "inst_id s"] by force
  then obtain first rest where eligible: "text_generation_instances ?st (req_model r) = first # rest" by (metis list.exhaust)
  obtain i where i: "i \<in> set (dict_values (instances ?st))" "serves_text ?st (req_model r) i" "inst_id i = first"
      and least: "\<forall>j \<in> set (dict_values (instances ?st)). serves_text ?st (req_model r) j \<longrightarrow> text_rank ?st i \<le> text_rank ?st j"
    using text_instances_first [OF eligible] by metis
  obtain t where "es = [TaskCreated tid t]" "task_status t = Pending" "task_instance_id t = inst_id i"
    using assms(1) i(3) by (auto simp: text_generation_def eligible open_request_def Let_def)
  moreover have "(instance_ready ?st j \<longrightarrow> instance_ready ?st i) \<and>
       (instance_ready ?st j = instance_ready ?st i \<longrightarrow>
          (bi_system_role (instance_base j) = None \<longrightarrow> bi_system_role (instance_base i) = None) \<and>
          ((bi_system_role (instance_base j) = None) = (bi_system_role (instance_base i) = None) \<longrightarrow>
             active_load is_text_generation ?st (inst_id i) \<le> active_load is_text_generation ?st (inst_id j)))"
    if "text_rank ?st i \<le> text_rank ?st j" for j
    using that by (auto simp: text_rank_def less_eq_prod_def)
  ultimately show ?thesis using i least by blast
qed

section \<open>Answers\<close>

fun request_of :: "request_command \<Rightarrow> inference_request option" where
  "request_of (TextGenerationCommand r _) = Some r"
| "request_of (ImageGenerationCommand r) = Some r"
| "request_of (ImageEditsCommand r) = Some r"
| "request_of (MusicGenerationCommand r) = Some r"
| "request_of (TextEmbeddingCommand r) = Some r"
| "request_of (SpeechSynthesisCommand r _ _ _) = Some r"
| "request_of (AudioTranscriptionCommand r) = Some r"
| "request_of (RealtimeAudioTranscriptionCommand r _) = Some r"
| "request_of _ = None"

text \<open>The parameters of a task that answers a request.\<close>

fun params_of :: "task_kind \<Rightarrow> inference_params option" where
  "params_of (TextGeneration p _) = Some p"
| "params_of (ImageGeneration p) = Some p"
| "params_of (ImageEdits p _) = Some p"
| "params_of (VideoGeneration p _) = Some p"
| "params_of (MusicGeneration p) = Some p"
| "params_of (TextEmbedding p) = Some p"
| "params_of (SpeechSynthesis p _) = Some p"
| "params_of (AudioTranscription p _) = Some p"
| "params_of (RealtimeAudioTranscription p) = Some p"
| "params_of _ = None"

definition hosts_model :: "'g state \<Rightarrow> model_id \<Rightarrow> instance_id \<Rightarrow> bool" where
  "hosts_model st model iid \<longleftrightarrow> (\<exists>i. dict_get (instances st) iid = Some i \<and> sa_model_id (inst_shards i) = model)"

definition opened :: "task_id \<Rightarrow> inference_request \<Rightarrow> 'g master \<Rightarrow> 'g master \<Rightarrow> 'g event_body list \<Rightarrow> bool" where
  "opened tid r m m' es \<longleftrightarrow>
     (\<exists>k iid failure n. es = snd (open_request tid r k iid failure n) \<and> ms_command_task m' = dict_set (req_command_id r) tid (ms_command_task m) \<and>
        (\<exists>trace. params_of k = Some (task_params_of r trace)) \<and> (failure = None \<longrightarrow> hosts_model (ms_state m) (req_model r) iid))"

lemma keyed_hosts:
  assumes "instances_keyed st" "i \<in> set (dict_values (instances st))" "sa_model_id (inst_shards i) = model"
  shows "hosts_model st model (inst_id i)"
proof -
  obtain iid where "(iid, i) \<in> set (instances st)" using assms(2) by auto
  moreover from this have "inst_id i = iid" using assms(1) by (auto simp: instances_keyed_def list_all_iff)
  ultimately have "dict_get (instances st) (inst_id i) = Some i" using assms(1) by (simp add: instances_keyed_def dict_wf_def)
  then show ?thesis using assms(3) by (simp add: hosts_model_def)
qed

lemma set_keys_dict_of_pairs: "set (dict_keys (dict_of_pairs ps)) = fst ` set ps"
proof -
  have "set (dict_keys (foldl (\<lambda>d (k, v). dict_set k v d) acc ps)) = set (dict_keys acc) \<union> fst ` set ps" for acc
    by (induction ps arbitrary: acc) (auto simp: set_keys_dict_set simp del: set_map)
  from this [of "[]"] show ?thesis by (simp add: dict_of_pairs_def)
qed

lemma counted_hosts:
  assumes "instances_keyed st" "dict_has (instance_task_counts st model) iid"
  shows "hosts_model st model iid"
proof -
  have "iid \<in> fst ` set (map (\<lambda>i. (inst_id i, length (filter (\<lambda>t. task_instance_id t = inst_id i) (dict_values (tasks st)))))
       (filter (\<lambda>i. sa_model_id (inst_shards i) = model) (dict_values (instances st))))"
    using assms(2) unfolding instance_task_counts_def dict_has_iff_keys set_keys_dict_of_pairs .
  then show ?thesis using keyed_hosts [OF assms(1)] by force
qed

lemma least_loaded_has: "counts \<noteq> [] \<Longrightarrow> dict_has counts (least_loaded counts)"
proof -
  assume "counts \<noteq> []"
  then have "sort_key (\<lambda>iid. dict_default 0 counts iid) (dict_keys counts) \<noteq> []"
    by (metis list.map_disc_iff set_empty set_sort)
  then show ?thesis unfolding least_loaded_def dict_has_iff_keys by (metis hd_in_set set_sort)
qed

lemma open_request_opened:
  assumes "open_request tid r k iid failure m = (m', es)" "params_of k = Some (task_params_of r trace)"
    "failure = None \<longrightarrow> hosts_model (ms_state m) (req_model r) iid"
  shows "opened tid r m m' es"
  unfolding opened_def using assms by (intro exI [of _ k] exI [of _ iid] exI [of _ failure] exI [of _ m]) (auto simp: open_request_def)

lemma music_instances_set:
  "iid \<in> set (music_generation_instances st model) \<Longrightarrow> \<exists>i \<in> set (dict_values (instances st)). serves_music st model i \<and> inst_id i = iid"
  by (auto simp: music_generation_instances_def music_rank_def)

lemma counted_opened:
  assumes "counted_request tid r mk m = Inr (m', es)" "\<And>p. params_of (mk p) = Some p" "instances_keyed (ms_state m)"
  shows "opened tid r m m' es"
  using assms open_request_opened [of tid r _ _ None m m' es] counted_hosts [OF assms(3) least_loaded_has]
  by (auto simp: counted_request_def Let_def split: if_splits)

lemma text_opened:
  assumes "text_generation tid r target m = (m', es)" "instances_keyed (ms_state m)"
  shows "opened tid r m m' es"
proof -
  have hosts: "hosts_model (ms_state m) (req_model r) iid" if "iid \<in> set (text_generation_instances (ms_state m) (req_model r))" for iid
    using that keyed_hosts [OF assms(2)] unfolding text_instances_set serves_text_def by blast
  let ?unavailable = "case target of Some iid \<Rightarrow> iid \<notin> set (text_generation_instances (ms_state m) (req_model r))
      | None \<Rightarrow> text_generation_instances (ms_state m) (req_model r) = []"
  obtain selected where run: "open_request tid r (TextGeneration (task_params_of r (tracing_enabled (ms_state m))) (req_input_chunks r))
      selected (if ?unavailable then Some text_unavailable else None) m = (m', es)"
      "\<not> ?unavailable \<longrightarrow> selected \<in> set (text_generation_instances (ms_state m) (req_model r))"
  proof (cases "text_generation_instances (ms_state m) (req_model r)")
    case Nil
    then show ?thesis using assms(1) that by (cases target) (simp_all add: text_generation_def Let_def)
  next
    case (Cons first rest)
    then show ?thesis using assms(1) that by (cases target) (simp_all add: text_generation_def Let_def)
  qed
  show ?thesis by (rule open_request_opened [OF run(1)]) (use run(2) hosts in simp_all)
qed

lemma music_opened:
  assumes "music_generation tid r m = (m', es)" "instances_keyed (ms_state m)"
  shows "opened tid r m m' es"
proof -
  have "hosts_model (ms_state m) (req_model r) iid" if "iid \<in> set (music_generation_instances (ms_state m) (req_model r))" for iid
    using music_instances_set [OF that] keyed_hosts [OF assms(2)] unfolding serves_music_def by blast
  then show ?thesis
    by (intro open_request_opened [OF assms(1) [unfolded music_generation_def Let_def]]) (auto split: list.split)
qed

lemma speech_opened:
  assumes "speech_synthesis tid r inline_audio reference target m = Inr (m', es)" "instances_keyed (ms_state m)"
  shows "opened tid r m m' es"
proof -
  let ?counts = "instance_task_counts (ms_state m) (req_model r)"
  have some: "target \<noteq> None \<or> ?counts \<noteq> []" using assms(1) by (auto simp: speech_synthesis_def Let_def split: if_splits)
  obtain failure where run: "open_request tid r (SpeechSynthesis (task_params_of r (tracing_enabled (ms_state m))) reference)
      (case target of Some iid \<Rightarrow> iid | None \<Rightarrow> least_loaded ?counts) failure m = (m', es)"
      "failure = None \<longrightarrow> (case target of Some iid \<Rightarrow> dict_has ?counts iid | None \<Rightarrow> True)"
    using assms(1) by (cases target) (auto simp: speech_synthesis_def Let_def split: if_splits)
  show ?thesis
    by (rule open_request_opened [OF run(1)])
      (use run(2) some counted_hosts [OF assms(2)] least_loaded_has in \<open>auto split: option.splits\<close>)
qed

lemma realtime_opened:
  assumes "realtime_transcription tid r iid m = Inr (m', es)"
  shows "opened tid r m m' es"
proof -
  obtain failure n where run: "open_request tid r (RealtimeAudioTranscription (task_params_of r False)) iid failure m = (n, es)"
      "ms_command_task m' = ms_command_task n" "hosts_model (ms_state m) (req_model r) iid"
    using assms by (auto simp: realtime_transcription_def hosts_model_def Let_def split: option.splits if_splits prod.splits)
  show ?thesis using open_request_opened [OF run(1)] run(2,3) by (auto simp: opened_def)
qed

lemma request_opened:
  assumes "process_command tid cmd m = Inr (m', es)" "request_of cmd = Some r" "instances_keyed (ms_state m)"
  shows "opened tid r m m' es"
  using assms by (cases cmd) (auto intro: text_opened music_opened speech_opened realtime_opened counted_opened)

text \<open>C13. Every accepted request is answered.  A request that does not raise creates exactly one task, which is filed under
  its command: pending on an instance that hosts the model, or failed with an error that the caller can read; no other task changes.\<close>

theorem request_answered:
  assumes "process_command tid cmd m = Inr (m', es)" "request_of cmd = Some r" "instances_keyed (ms_state m)"
  shows "\<exists>st' t. apply_bodies rx parse_iso es (ms_state m) = Inr st' \<and> dict_get (tasks st') tid = Some t \<and>
    dict_get (ms_command_task m') (req_command_id r) = Some tid \<and>
    (\<exists>p. params_of (task_kind t) = Some p \<and> inf_command_id p = req_command_id r \<and> inf_owner_node p = req_owner_node r) \<and>
    (task_status t = Pending \<and> hosts_model (ms_state m) (req_model r) (task_instance_id t) \<or>
     task_status t = Failed \<and> task_error_type t \<noteq> None \<and> task_error_message t \<noteq> None) \<and>
    (\<forall>x. x \<noteq> tid \<longrightarrow> dict_get (tasks st') x = dict_get (tasks (ms_state m)) x)"
proof -
  obtain k iid failure n trace where o: "es = snd (open_request tid r k iid failure n)"
      "ms_command_task m' = dict_set (req_command_id r) tid (ms_command_task m)" "params_of k = Some (task_params_of r trace)"
      "failure = None \<longrightarrow> hosts_model (ms_state m) (req_model r) iid"
    using request_opened [OF assms] unfolding opened_def by blast
  show ?thesis
    using o by (cases failure) (auto simp: open_request_def apply_task_created_def apply_task_failed_def task_params_of_def)
qed

lemma dict_pop_idem [simp]: "dict_pop k (dict_pop k d) = dict_pop k d"
  by (induction d) (auto simp: dict_pop_filter dict_filter_def)

text \<open>A request can be closed.  Whatever happened to the task of a request since it was created, as long as the
  command is on file: cancelling the command cancels the task, finishing the command removes the task and the command,
  and a second end of the same command does nothing.\<close>

theorem request_closed:
  assumes "process_command tid cmd m = Inr (m', es)" "request_of cmd = Some r" "instances_keyed (ms_state m)"
    "dict_get (ms_command_task m'') (req_command_id r) = dict_get (ms_command_task m') (req_command_id r)" "dict_get (tasks st) tid = Some t"
  shows "(\<exists>n es' st'. process_command x (TaskCancelledCommand (req_command_id r)) m'' = Inr (n, es') \<and>
      apply_bodies rx parse_iso es' st = Inr st' \<and> map_option task_status (dict_get (tasks st') tid) = Some Cancelled) \<and>
    (\<exists>n es' st'. process_command x (TaskFinishedCommand (req_command_id r)) m'' = Inr (n, es') \<and>
      apply_bodies rx parse_iso es' st = Inr st' \<and> dict_get (tasks st') tid = None \<and>
      process_command y (TaskFinishedCommand (req_command_id r)) n = Inr (n, []) \<and>
      process_command y (TaskCancelledCommand (req_command_id r)) n = Inr (n, []))"
proof -
  have "dict_get (ms_command_task m'') (req_command_id r) = Some tid"
    using request_opened [OF assms(1-3)] assms(4) by (auto simp: opened_def)
  then show ?thesis
    using assms(5) by (auto simp: task_cancelled_def task_finished_def apply_task_status_updated_def apply_task_deleted_def dict_simps Let_def)
qed

section \<open>Requests for a model that is gone\<close>

text \<open>C39. Only some requests for a vanished model are answered.  When no instance of the model is left, a text or music request
  still gets a failed task; an image, edit, embedding or transcription request raises \<open>ValueError\<close>, which the command loop
  logs, so that its caller is sent nothing.\<close>

theorem vanished_model_answers:
  assumes "\<forall>i \<in> set (dict_values (instances (ms_state m))). sa_model_id (inst_shards i) \<noteq> req_model r"
  shows "(\<forall>cmd \<in> {TextGenerationCommand r target, MusicGenerationCommand r}. \<exists>m' t ty msg.
      process_command tid cmd m = Inr (m', [TaskCreated tid t, TaskFailed tid ty msg]) \<and> task_status t = Failed) \<and>
    (\<forall>cmd \<in> {ImageGenerationCommand r, ImageEditsCommand r, TextEmbeddingCommand r, AudioTranscriptionCommand r}.
      process_command tid cmd m = Inl ValueError)"
proof -
  let ?st = "ms_state m"
  have none: "text_generation_instances ?st (req_model r) = []" "music_generation_instances ?st (req_model r) = []"
    using assms by (auto simp: text_generation_instances_def serves_text_def music_generation_instances_def serves_music_def filter_empty_conv)
  have "filter (\<lambda>i. sa_model_id (inst_shards i) = req_model r) (dict_values (instances ?st)) = []" using assms by (simp add: filter_empty_conv)
  then have "instance_task_counts ?st (req_model r) = []" by (simp add: instance_task_counts_def dict_of_pairs_def)
  then show ?thesis
    using none by (cases target) (simp_all add: text_generation_def music_generation_def counted_request_def open_request_def
      text_unavailable_def Let_def)
qed

section \<open>Realtime sessions\<close>

text \<open>The command loop and the event processor take turns.\<close>

inductive request_run :: "'g rx_ops \<Rightarrow> (string \<Rightarrow> datetime option) \<Rightarrow> ('g event \<Rightarrow> bytes option) \<Rightarrow> (bytes \<Rightarrow> 'g event option) \<Rightarrow> 'g master \<Rightarrow> 'g master \<Rightarrow> bool"
  for rx p ser des m where
  start: "request_run rx p ser des m m"
| command: "request_run rx p ser des m m1 \<Longrightarrow> process_command tid cmd m1 = Inr (m2, es) \<Longrightarrow> request_run rx p ser des m m2"
| event: "request_run rx p ser des m m1 \<Longrightarrow> process_event rx p ser des io e m1 = Inr (m2, out) \<Longrightarrow> request_run rx p ser des m m2"

definition one_session :: "(command_id, instance_id) dict \<Rightarrow> bool" where
  "one_session d \<longleftrightarrow> (\<forall>c1 c2 i. dict_get d c1 = Some i \<longrightarrow> dict_get d c2 = Some i \<longrightarrow> c1 = c2)"

lemma one_session_pop: "one_session d \<Longrightarrow> one_session (dict_pop c d)"
  by (auto simp: one_session_def split: if_splits)

lemma one_session_pops: "one_session d \<Longrightarrow> one_session (foldl (\<lambda>d c. dict_pop c d) d cs)"
  by (induction cs arbitrary: d) (simp_all add: one_session_pop)

lemma one_session_set: "one_session d \<Longrightarrow> i \<notin> set (dict_values d) \<Longrightarrow> one_session (dict_set c i d)"
  using dict_get_in_values unfolding one_session_def by (fastforce split: if_splits)

lemma forget_sessions: "one_session (ms_realtime m) \<Longrightarrow> one_session (ms_realtime (forget_commands b m))"
  by (auto simp: forget_commands_def Let_def one_session_pops split: event_body.split option.split)

lemma snapshot_sessions: "persist_snapshot ser des force ok cio m = Inr m' \<Longrightarrow> ms_realtime m' = ms_realtime m"
  by (auto simp: persist_snapshot_def Let_def split: if_splits prod.splits sum.splits)

lemma apply_indexed_sessions: "apply_indexed_event rx p ie m = Inr m' \<Longrightarrow> ms_realtime m' = ms_realtime m"
  by (auto simp: apply_indexed_event_def Let_def split: sum.splits event_body.splits)

lemma index_sessions:
  assumes "index_event rx p ser des io e m = Inr (m', out)"
  shows "ms_realtime m' = ms_realtime m"
  using assms by (auto simp: index_event_def Let_def dest!: snapshot_sessions apply_indexed_sessions split: sum.splits prod.splits)

lemma event_sessions:
  assumes "process_event rx p ser des io e m = Inr (m', out)" "one_session (ms_realtime m)"
  shows "one_session (ms_realtime m')"
  using assms forget_sessions [OF assms(2)] index_sessions
  by (fastforce simp: process_event_def Let_def split: option.splits if_splits)

lemma open_request_sessions: "ms_realtime (fst (open_request tid r k iid f m)) = ms_realtime m"
  by (simp add: open_request_def)

lemma realtime_sessions:
  assumes "realtime_transcription tid r iid m = Inr (m', es)" "one_session (ms_realtime m)"
  shows "one_session (ms_realtime m')"
  using assms one_session_set [OF assms(2)]
  by (auto simp: realtime_transcription_def open_request_def realtime_busy_def Let_def split: option.splits if_splits)

lemma command_sessions:
  assumes "process_command tid cmd m = Inr (m', es)" "one_session (ms_realtime m)"
  shows "one_session (ms_realtime m')"
proof (cases cmd)
  case (RealtimeAudioTranscriptionCommand r iid)
  then show ?thesis using assms realtime_sessions by simp
qed (use assms in \<open>auto simp: text_generation_def music_generation_def counted_request_def speech_synthesis_def open_request_def Let_def
    task_cancelled_def task_finished_def one_session_pop split: if_splits prod.splits\<close>)

text \<open>C15. A realtime session has its instance for itself.  However commands and events interleave, no instance is reserved by
  two commands; and while it is reserved, or has an open transcription, every further session on it is refused.\<close>

theorem realtime_exclusive:
  assumes "request_run rx p ser des m0 m" "ms_realtime m0 = []"
  shows "(dict_get (ms_realtime m) c1 = Some i \<longrightarrow> dict_get (ms_realtime m) c2 = Some i \<longrightarrow> c1 = c2) \<and>
    (dict_get (ms_realtime m) c1 = Some i \<or>
       (\<exists>t. t \<in> set (dict_values (tasks (ms_state m))) \<and> is_transcription (task_kind t) \<and> task_instance_id t = i \<and> open_task t) \<longrightarrow>
     process_command tid (RealtimeAudioTranscriptionCommand r i) m = Inr (m', es) \<longrightarrow>
       ms_realtime m' = ms_realtime m \<and> (\<exists>t. es = [TaskCreated tid t, TaskFailed tid ''instance_busy'' ''Realtime STT target instance is already reserved''] \<and>
         task_status t = Failed))"
proof -
  have "one_session (ms_realtime m)"
    using assms
  proof (induction rule: request_run.induct)
    case start
    then show ?case by (simp add: one_session_def)
  next
    case command
    then show ?case using command_sessions by blast
  next
    case event
    then show ?case using event_sessions by blast
  qed
  moreover have "realtime_busy m i" if "dict_get (ms_realtime m) c1 = Some i \<or>
       (\<exists>t. t \<in> set (dict_values (tasks (ms_state m))) \<and> is_transcription (task_kind t) \<and> task_instance_id t = i \<and> open_task t)"
    using that dict_get_in_values unfolding realtime_busy_def list_ex_iff by fastforce
  ultimately show ?thesis
    by (auto simp: one_session_def realtime_transcription_def open_request_def Let_def split: option.splits if_splits)
qed

section \<open>Example\<close>

definition serving_master :: "list_graph master" where
  "serving_master = demo_master\<lparr>ms_state := (empty_state list_rx)\<lparr>instances := [(''i'', example_instance)], runners := [(''r'', RunnerReady)]\<rparr>\<rparr>"

definition sample_request :: "command_id \<Rightarrow> inference_request" where
  "sample_request c = \<lparr>req_command_id = c, req_owner_node = None, req_model = ''m'', req_input_chunks = 0, req_task_params = []\<rparr>"

lemma serving_fields:
  "instances (ms_state serving_master) = [(''i'', example_instance)]" "runners (ms_state serving_master) = [(''r'', RunnerReady)]"
  "ms_realtime serving_master = []" "tasks (ms_state serving_master) = []" "instances_keyed (ms_state serving_master)"
  by (simp_all add: serving_master_def demo_master_def empty_state_def instances_keyed_def dict_wf_def example_instance_def)

lemma serving_text: "serves_text (ms_state serving_master) ''m'' example_instance"
  by (simp add: serves_text_def instance_viable_def serving_fields) (simp add: example_instance_def)

lemma sample_fields: "req_command_id (sample_request c) = c" "req_model (sample_request c) = ''m''"
  by (simp_all add: sample_request_def)

theorem text_request_routed_witness:
  "\<exists>m' t. text_generation ''t'' (sample_request ''c'') None serving_master = (m', [TaskCreated ''t'' t]) \<and>
     task_status t = Pending \<and> task_instance_id t = ''i''"
proof -
  obtain m' es where run: "text_generation ''t'' (sample_request ''c'') None serving_master = (m', es)" by (metis prod.collapse)
  have id: "inst_id example_instance = ''i''" by (simp add: example_instance_def)
  show ?thesis
    using text_request_routed [OF run, of example_instance] run serving_text id by (auto simp: serving_fields sample_fields)
qed

lemma text_process:
  obtains m' es where "process_command ''t'' (TextGenerationCommand (sample_request ''c'') None) serving_master = Inr (m', es)"
  by (metis prod.collapse process_command.simps(1))

theorem request_answered_witness:
  "\<exists>m' es st' t. process_command ''t'' (TextGenerationCommand (sample_request ''c'') None) serving_master = Inr (m', es) \<and>
     apply_bodies list_rx (\<lambda>_. None) es (ms_state serving_master) = Inr st' \<and> dict_get (tasks st') ''t'' = Some t \<and>
     dict_get (ms_command_task m') ''c'' = Some ''t''"
proof -
  obtain m' es where run: "process_command ''t'' (TextGenerationCommand (sample_request ''c'') None) serving_master = Inr (m', es)"
    by (rule text_process)
  show ?thesis
    using run request_answered [OF run _ serving_fields(5), of "sample_request ''c''" list_rx "\<lambda>_. None"] by (auto simp: sample_fields)
qed

definition open_request_state :: "list_graph state" where
  "open_request_state = (empty_state list_rx)\<lparr>tasks := [(''t'', \<lparr>task_id = ''t'', task_status = Running, task_instance_id = ''i'',
     task_error_type = None, task_error_message = None, task_kind = LoadModel\<rparr>)]\<rparr>"

theorem request_closed_witness:
  "\<exists>m' es n es' st'. process_command ''t'' (TextGenerationCommand (sample_request ''c'') None) serving_master = Inr (m', es) \<and>
     process_command ''x'' (TaskFinishedCommand ''c'') m' = Inr (n, es') \<and>
     apply_bodies list_rx (\<lambda>_. None) es' open_request_state = Inr st' \<and> dict_get (tasks st') ''t'' = None"
proof -
  obtain m' es where run: "process_command ''t'' (TextGenerationCommand (sample_request ''c'') None) serving_master = Inr (m', es)"
    by (rule text_process)
  have "dict_get (tasks open_request_state) ''t'' \<noteq> None" by (simp add: open_request_state_def)
  then obtain t where t: "dict_get (tasks open_request_state) ''t'' = Some t" by blast
  show ?thesis
    using run request_closed [OF run _ serving_fields(5) _ t, of "sample_request ''c''" m' "''x''" list_rx "\<lambda>_. None"] by (auto simp: sample_fields)
qed

theorem vanished_model_answers_witness:
  "process_command ''t'' (ImageGenerationCommand (sample_request ''c'')) demo_master = Inl ValueError \<and>
   (\<exists>m' t ty msg. process_command ''t'' (TextGenerationCommand (sample_request ''c'') None) demo_master
      = Inr (m', [TaskCreated ''t'' t, TaskFailed ''t'' ty msg]))"
proof -
  have "\<forall>i \<in> set (dict_values (instances (ms_state demo_master))). sa_model_id (inst_shards i) \<noteq> req_model (sample_request ''c'')"
    by (simp add: demo_master_def empty_state_def)
  from vanished_model_answers [OF this, of None "''t''"] show ?thesis by auto
qed

theorem realtime_exclusive_witness:
  "\<exists>m m' es. process_command ''t'' (RealtimeAudioTranscriptionCommand (sample_request ''c'') ''i'') serving_master = Inr (m, [TaskCreated ''t'' es]) \<and>
     process_command ''u'' (RealtimeAudioTranscriptionCommand (sample_request ''d'') ''i'') m = Inr m' \<and> ms_realtime (fst m') = ms_realtime m"
proof -
  obtain m t where first: "process_command ''t'' (RealtimeAudioTranscriptionCommand (sample_request ''c'') ''i'') serving_master = Inr (m, [TaskCreated ''t'' t])"
      "dict_get (ms_realtime m) ''c'' = Some ''i''" "instances (ms_state m) = [(''i'', example_instance)]"
    by (simp add: realtime_transcription_def serving_fields sample_fields realtime_busy_def open_request_def example_instance_def Let_def)
  have run: "request_run list_rx (\<lambda>_. None) demo_ser demo_des serving_master m"
    by (rule request_run.command [OF request_run.start first(1)])
  obtain m' es where second: "process_command ''u'' (RealtimeAudioTranscriptionCommand (sample_request ''d'') ''i'') m = Inr (m', es)"
    using first(3) by (cases "realtime_busy m ''i''")
      (simp_all add: realtime_transcription_def example_instance_def sample_fields open_request_def)
  have "ms_realtime m' = ms_realtime m"
    using realtime_exclusive [OF run serving_fields(3), of "''c''" "''i''" "''c''" "''u''" "sample_request ''d''" m' es] first(2) second by simp
  then show ?thesis using first(1) second by auto
qed

end
