(* ===== verification/Replication.thy ===== *)
theory Replication
  imports Master_Pipeline_Proofs
begin

text \<open>
  The master and a follower together: what the consumers of a node's event router receive reproduces the state of the
  master, through broadcasts and through the snapshot that the master serves.  The snapshot is the master's own state, whose
  liveness times are not those of its log, so states are compared up to these times.
\<close>

section \<open>Replaying from states that differ in the clock\<close>

lemma same_but_clock_sym: "same_but_clock s t \<Longrightarrow> same_but_clock t s"
  by (simp add: same_but_clock_def)

lemma same_but_clock_trans: "same_but_clock s t \<Longrightarrow> same_but_clock t u \<Longrightarrow> same_but_clock s u"
  by (simp add: same_but_clock_def)

lemma apply_event_clock_cong:
  assumes "apply_event rx p s ie = Inr s'" "same_but_clock s t"
  shows "\<exists>t'. apply_event rx p t ie = Inr t' \<and> same_but_clock s' t'"
proof -
  let ?b = "event_body (event ie)"
  obtain stamp where stamp: "stamp_event stamp (event ie) = event ie" "\<forall>node w info. ?b = NodeGatheredInfo node w info \<longrightarrow> p stamp \<noteq> None"
  proof (cases ?b)
    case (NodeGatheredInfo node w info)
    have "p w \<noteq> None"
    proof
      assume "p w = None"
      then show False using assms(1) NodeGatheredInfo by (simp add: apply_event_def apply_node_gathered_info_def split: if_splits)
    qed
    then show ?thesis using that [of w] NodeGatheredInfo by (simp add: stamp_event_def)
  qed (use that [of undefined] in \<open>simp_all add: stamp_event_def\<close>)
  show ?thesis using apply_event_reclock [of rx p s "idx ie" "event ie" s' stamp t] assms stamp by (cases ie) simp
qed

lemma replay_clock_cong:
  assumes "replay (apply_event rx p) s es = Inr s'" "same_but_clock s t"
  shows "\<exists>t'. replay (apply_event rx p) t es = Inr t' \<and> same_but_clock s' t'"
  using assms
proof (induction es arbitrary: s t)
  case (Cons e es)
  obtain s1 where s1: "apply_event rx p s e = Inr s1" "replay (apply_event rx p) s1 es = Inr s'"
    using Cons.prems(1) by (auto split: sum.splits)
  obtain t1 where "apply_event rx p t e = Inr t1" "same_but_clock s1 t1" using apply_event_clock_cong [OF s1(1) Cons.prems(2)] by blast
  then show ?case using Cons.IH [OF s1(2)] by auto
qed simp

lemma replay_prefix:
  assumes "replay f s (es @ fs) = Inr u"
  shows "\<exists>v. replay f s es = Inr v"
  using assms by (auto simp: replay_append split: sum.splits)

section \<open>The log of the session\<close>

text \<open>The entries of a log from one index to another.\<close>

definition entries :: "'g event list \<Rightarrow> nat \<Rightarrow> nat \<Rightarrow> 'g indexed_event list" where
  "entries mlog a b = map (\<lambda>i. \<lparr>idx = int i, event = mlog ! i\<rparr>) [a..<b]"

lemma entries_append: "a \<le> b \<Longrightarrow> b \<le> c \<Longrightarrow> entries mlog a b @ entries mlog b c = entries mlog a c"
  using upt_add_eq_append [of a b "c - b"] by (simp add: entries_def flip: map_append)

lemma segment_entries:
  assumes "a \<le> b"
  shows "map mk_indexed (log_segment (log_of mlog) (int a) (int b)) = entries mlog (min a (length mlog)) (min b (length mlog))"
  using assms
proof (induction b)
  case (Suc b)
  show ?case
  proof (cases "a = Suc b")
    case False
    have step: "log_segment (log_of mlog) (int b) (int (Suc b)) = (case log_of mlog (int b) of None \<Rightarrow> [] | Some e \<Rightarrow> [(int b, e)])"
      using log_segment_step [of "int b" "int (Suc b)" "log_of mlog"] by simp
    have "log_segment (log_of mlog) (int a) (int (Suc b)) =
        log_segment (log_of mlog) (int a) (int b) @ log_segment (log_of mlog) (int b) (int (Suc b))"
      using log_segment_append [of "int a" "int b" "int (Suc b)" "log_of mlog"] Suc.prems False by simp
    then have "map mk_indexed (log_segment (log_of mlog) (int a) (int (Suc b))) =
        entries mlog (min a (length mlog)) (min b (length mlog)) @ map mk_indexed (case log_of mlog (int b) of None \<Rightarrow> [] | Some e \<Rightarrow> [(int b, e)])"
      using Suc False unfolding step by simp
    moreover have "log_of mlog (int b) = (if b < length mlog then Some (mlog ! b) else None)" by (simp add: log_of_def)
    ultimately show ?thesis using Suc.prems False by (cases "b < length mlog") (simp_all add: entries_def min.absorb1 min.absorb2)
  qed (simp add: entries_def)
qed (simp add: entries_def)

lemma broadcast_entries:
  assumes "map gf_origin_idx out = [int a..int b - 1]" "a \<le> b" "\<forall>k < length out. mlog ! (a + k) = gf_event (out ! k)"
  shows "map as_indexed out = entries mlog a b"
proof (rule nth_equalityI)
  have len: "length out = b - a" using arg_cong [OF assms(1), of length] assms(2) by simp
  then show "length (map as_indexed out) = length (entries mlog a b)" by (simp add: entries_def)
  fix k assume "k < length (map as_indexed out)"
  then have k: "k < length out" by simp
  have "gf_origin_idx (out ! k) = int a + int k"
    using arg_cong [OF assms(1), of "\<lambda>xs. xs ! k"] k len by (simp add: nth_upto)
  then show "map as_indexed out ! k = entries mlog a b ! k"
    using k len assms(3) by (simp add: as_indexed_def entries_def)
qed

section \<open>The master keeps a log of its state\<close>

text \<open>\<open>mlog\<close> is the log of the session so far: its events, from the empty state, give the state of the master up to the
  liveness times.\<close>

definition session_log :: "'g rx_ops \<Rightarrow> (string \<Rightarrow> datetime option) \<Rightarrow> 'g event list \<Rightarrow> 'g master \<Rightarrow> bool" where
  "session_log rx p mlog m \<longleftrightarrow> in_order m \<and> log_len (ms_log m) = int (length mlog) \<and>
     (\<exists>s. replay (apply_event rx p) (empty_state rx) (entries mlog 0 (length mlog)) = Inr s \<and> same_but_clock (ms_state m) s)"

lemma entries_prefix: "b \<le> length mlog \<Longrightarrow> entries (mlog @ rest) a b = entries mlog a b"
  by (auto simp: entries_def nth_append)

lemma entries_none [simp]: "entries mlog a a = []"
  by (simp add: entries_def)

lemma session_log_run:
  assumes "session_log rx p mlog m" "master_run dump rx p ser des xs m = Inr (m', out)"
    "\<forall>(io, le) \<in> set xs. \<forall>k. p (io_stamp (io k)) \<noteq> None"
  shows "session_log rx p (mlog @ map gf_event out) m'"
proof -
  let ?l = "mlog @ map gf_event out" and ?n = "length mlog"
  have step: "faithful_step rx p m m' out" by (rule master_run_faithful [OF assms(2,3)])
  obtain s where s: "replay (apply_event rx p) (empty_state rx) (entries mlog 0 ?n) = Inr s" "same_but_clock (ms_state m) s"
    using assms(1) by (auto simp: session_log_def)
  have len: "log_len (ms_log m') = int (?n + length out)" "log_len (ms_log m) = int ?n"
    using faithful_step_length [OF step] assms(1) by (simp_all add: session_log_def)
  have sent: "map as_indexed out = entries ?l ?n (?n + length out)"
    by (rule broadcast_entries) (use step len in \<open>simp_all add: faithful_step_def nth_append\<close>)
  obtain t where t: "replay (apply_event rx p) s (entries ?l ?n (?n + length out)) = Inr t" "same_but_clock (ms_state m') t"
    using step s(2) unfolding faithful_step_def sent by blast
  have "entries ?l 0 (length ?l) = entries mlog 0 ?n @ entries ?l ?n (?n + length out)"
    using entries_append [of 0 ?n "?n + length out" ?l] by (simp add: entries_prefix)
  then have "replay (apply_event rx p) (empty_state rx) (entries ?l 0 (length ?l)) = Inr t"
    using s(1) t(1) by (simp add: replay_append)
  then show ?thesis using t(2) len step assms(1) by (auto simp: session_log_def faithful_step_def)
qed

text \<open>A snapshot that the master served, or none.\<close>

definition served_by :: "'g master \<Rightarrow> 'g state_snapshot option \<Rightarrow> bool" where
  "served_by m snap \<longleftrightarrow> (case snap of None \<Rightarrow> True
     | Some s \<Rightarrow> \<exists>config request response. state_sync_processor config request m = Some response \<and> sy_snapshot response = Some s)"

lemma served_by_Some:
  assumes "served_by m (Some s)"
  shows "ss_state s = ms_state m" "ss_last_event_applied_idx s = last_event_applied_idx (ms_state m)"
  using assms by (auto simp: served_by_def state_sync_processor_def split: if_splits)

lemma served_by_start: "session_log rx p mlog m \<Longrightarrow> served_by m snap \<Longrightarrow> 0 \<le> snap_start snap"
  by (cases snap) (auto simp: snap_start_def session_log_def in_order_def dest: served_by_Some)

text \<open>A follower that installs the master's state and applies the log from there keeps up with the log.\<close>

lemma hydrated_replay:
  assumes "session_log rx p mlog m" "length mlog \<le> k"
    "replay (apply_event rx p) (empty_state rx) (entries (mlog @ rest) 0 k) = Inr u"
  shows "\<exists>t. replay (apply_event rx p) (empty_state rx) (hydration_event eid (ms_state m) # entries (mlog @ rest) (length mlog) k) = Inr t \<and>
    same_but_clock u t"
proof -
  let ?n = "length mlog"
  obtain s where s: "replay (apply_event rx p) (empty_state rx) (entries mlog 0 ?n) = Inr s" "same_but_clock (ms_state m) s"
    using assms(1) by (auto simp: session_log_def)
  have "downloads_durable s" by (rule reducer.replay_durable [OF durable_empty s(1)])
  moreover have "downloads (ms_state m) = downloads s"
    using arg_cong [of _ _ downloads, OF conjunct1 [OF s(2) [unfolded same_but_clock_def]]] by simp
  ultimately have "sanitize_snapshot_downloads (ms_state m) = ms_state m" using sanitize_id durable_cong by blast
  then have hydrated: "apply_event rx p (empty_state rx) (hydration_event eid (ms_state m)) = Inr (ms_state m)"
    by (simp add: hydration_event_def apply_event_snapshot)
  have "entries (mlog @ rest) 0 k = entries mlog 0 ?n @ entries (mlog @ rest) ?n k"
    using entries_append [of 0 ?n k "mlog @ rest"] assms(2) by (simp add: entries_prefix)
  then have "replay (apply_event rx p) s (entries (mlog @ rest) ?n k) = Inr u"
    using assms(3) s(1) by (simp add: replay_append)
  from replay_clock_cong [OF this same_but_clock_sym [OF s(2)]] hydrated show ?thesis by simp
qed

lemma log_upto_entries: "0 \<le> n \<Longrightarrow> log_upto mlog n = entries mlog 0 (min (nat n) (length mlog))"
  using segment_entries [of 0 "nat n" mlog] by (simp add: log_upto_def)

text \<open>What a consumer got, as entries of the log.\<close>

lemma bootstrap_items:
  assumes "session_log rx p mlog m" "served_by m snap" "snap_start snap \<le> n"
  shows "snap_items eid snap @ map mk_indexed (log_segment (log_of (mlog @ rest)) (snap_start snap) n) = log_upto (mlog @ rest) n \<or>
    length mlog \<le> nat n \<and> snap_items eid snap @ map mk_indexed (log_segment (log_of (mlog @ rest)) (snap_start snap) n) =
      hydration_event eid (ms_state m) # entries (mlog @ rest) (length mlog) (min (nat n) (length (mlog @ rest)))"
proof (cases snap)
  case (Some s)
  note served = served_by_Some [OF assms(2) [unfolded Some]]
  have last: "last_event_applied_idx (ms_state m) = int (length mlog) - 1"
    using assms(1) by (simp add: session_log_def in_order_def)
  then have first: "snap_start snap = int (length mlog)" by (simp add: Some snap_start_def served)
  show ?thesis
  proof (cases "mlog = []")
    case True
    then show ?thesis using first last by (simp add: Some snap_items_def served log_upto_def)
  next
    case False
    then have "snap_items eid snap = [hydration_event eid (ms_state m)]"
      using last by (cases mlog) (simp_all add: Some snap_items_def served hydration_event_def)
    moreover have "length mlog \<le> nat n" "0 \<le> n" using assms(3) first by linarith+
    ultimately show ?thesis using segment_entries [of "length mlog" "nat n" "mlog @ rest"] first by simp
  qed
qed (simp add: snap_start_def snap_items_def log_upto_def)

section \<open>Replication\<close>

text \<open>
  C1. Every consumer reproduces the master, up to the liveness times.  Let a master whose log so far is \<open>pre\<close> process any
  reports of any nodes, in any order, its log writes and snapshots succeeding or failing in any way, and serve its state
  as a snapshot at some moment between them (or not).  Let the router of a node take that snapshot (or none) and receive events of
  the session's log in any order, interleaved with repetitions, losses, messages of others and its own re-requests.  Then a
  consumer that is still connected has received nothing before the bootstrap, and afterwards a sequence that applies without
  error and gives the state of the master's log up to the next index of the router; and the state of the master itself once that
  index has reached the master's.  States agree in all but the times of the liveness table, which agree in their nodes.
\<close>

theorem consumers_follow_master:
  assumes "session_log rx p pre m0"
    and "master_run dump rx p ser des xs m0 = Inr (m1, out1)" and "master_run dump rx p ser des ys m1 = Inr (m2, out2)"
    and "\<forall>(io, le) \<in> set (xs @ ys). \<forall>k. p (io_stamp (io k)) \<noteq> None" and "served_by m1 snap"
    and "rt_run dump' (router_with_consumers node (ms_session_id m0) system n) as st"
    and "list_all (faithful (ms_session_id m0) (pre @ map gf_event (out1 @ out2)) snap) as"
    and "ch \<in> set (rt_internal_outbound st)" and "\<not> ch_closed ch"
  shows "if rt_bootstrap st = AwaitingSnapshot then ch_items ch = []
    else \<exists>t u. replay (apply_event rx p) (empty_state rx) (ch_items ch) = Inr t \<and>
      replay (apply_event rx p) (empty_state rx)
        (log_upto (pre @ map gf_event (out1 @ out2)) (next_idx_to_release (rt_event_buffer st))) = Inr u \<and>
      same_but_clock u t \<and>
      (log_len (ms_log m2) \<le> next_idx_to_release (rt_event_buffer st) \<longrightarrow> same_but_clock (ms_state m2) t)"
proof (cases "rt_bootstrap st = AwaitingSnapshot")
  case False
  let ?pre = "pre @ map gf_event out1" and ?l = "pre @ map gf_event (out1 @ out2)"
  let ?i = "next_idx_to_release (rt_event_buffer st)" and ?replay = "replay (apply_event rx p) (empty_state rx)"
  let ?k = "min (nat ?i) (length ?l)"
  have log1: "session_log rx p ?pre m1" by (rule session_log_run [OF assms(1,2)]) (use assms(4) in auto)
  have log2: "session_log rx p ?l m2" using session_log_run [OF log1 assms(3)] assms(4) by auto
  obtain s where s: "?replay (entries ?l 0 (length ?l)) = Inr s" "same_but_clock (ms_state m2) s" "log_len (ms_log m2) = int (length ?l)"
    using log2 by (auto simp: session_log_def)
  have "entries ?l 0 (length ?l) = entries ?l 0 ?k @ entries ?l ?k (length ?l)"
    using entries_append [of 0 ?k "length ?l" ?l] by simp
  then obtain u where u: "?replay (entries ?l 0 ?k) = Inr u" using replay_prefix s(1) by metis
  obtain eid where got: "snap_start snap \<le> ?i" "ch_items ch = snap_items eid snap @
      map mk_indexed (log_segment (log_of ?l) (snap_start snap) ?i)"
    using consumer_items(2) [OF assms(6-9) False] by blast
  have "0 \<le> snap_start snap" using served_by_start [OF log1 assms(5)] .
  then have upto: "log_upto ?l ?i = entries ?l 0 ?k" using got(1) by (intro log_upto_entries) simp
  have "\<exists>t. ?replay (ch_items ch) = Inr t \<and> same_but_clock u t"
    using bootstrap_items [OF log1 assms(5) got(1), of eid "map gf_event out2"] hydrated_replay [OF log1, of ?k "map gf_event out2" u eid] u upto
    by (auto simp: got(2))
  then obtain t where t: "?replay (ch_items ch) = Inr t" "same_but_clock u t" by blast
  have "same_but_clock (ms_state m2) t" if "log_len (ms_log m2) \<le> ?i"
  proof -
    have "?k = length ?l" using that s(3) by linarith
    then have "u = s" using u s(1) by simp
    then show ?thesis using s(2) t(2) same_but_clock_trans by blast
  qed
  then show ?thesis using False t u upto by auto
qed (use consumer_items(1) [OF assms(6-9)] in simp)

section \<open>A follower that joins late\<close>

definition demo_request :: "list_graph state_sync_message" where
  "demo_request = \<lparr>sy_kind = SyncRequest, sy_requester = ''s'', sy_session_id = demo_session, sy_snapshot = None, sy_config_yaml = None\<rparr>"

definition demo_snapshot :: "list_graph state_snapshot" where
  "demo_snapshot = \<lparr>ss_session_id = demo_session, ss_last_event_applied_idx = 0, ss_state = ms_state demo_after\<rparr>"

definition demo_change :: "list_graph event" where
  "demo_change = \<lparr>event_id = ''f'', event_body = TracingStateChanged True\<rparr>"

definition demo_second :: "((nat \<Rightarrow> index_io) \<times> list_graph local_forwarder_event) list" where
  "demo_second = [(\<lambda>_. demo_io, \<lparr>lf_origin_idx = 1, lf_origin = ''s'', lf_session = demo_session, lf_event = demo_change\<rparr>)]"

definition demo_last :: "list_graph master" where
  "demo_last = (case master_run (\<lambda>_. None) list_rx demo_parse demo_ser demo_des demo_second demo_after of
     Inl x \<Rightarrow> demo_after | Inr (m, out) \<Rightarrow> m)"

definition demo_sent :: "list_graph global_forwarder_event list" where
  "demo_sent = [\<lparr>gf_origin_idx = 1, gf_origin = ''m'', gf_session = demo_session, gf_event = demo_change\<rparr>]"

definition late_actions :: "list_graph rt_action list" where
  "late_actions = [Inbound (demo_sent ! 0), HydrateBootstrap ''h'' (Some demo_snapshot), FinishBootstrap, ReleaseReady]"

definition late_router :: "list_graph event_router" where
  "late_router = the (rt_exec (\<lambda>_. None) (router_with_consumers ''n'' demo_session ''s'' 1) late_actions)"

lemma demo_second_run:
  "master_run (\<lambda>_. None) list_rx demo_parse demo_ser demo_des demo_second demo_after = Inr (demo_last, demo_sent)"
  by code_simp

lemma late_run: "rt_run (\<lambda>_. None) (router_with_consumers ''n'' demo_session ''s'' 1) late_actions late_router"
proof -
  have "rt_exec (\<lambda>_. None) (router_with_consumers ''n'' demo_session ''s'' 1) late_actions = Some late_router"
    unfolding late_router_def by code_simp
  from rt_exec_run [OF rt_run.start this] show ?thesis by simp
qed

lemma late_channel: "rt_internal_outbound late_router =
    [\<lparr>ch_items = [hydration_event ''h'' (ms_state demo_after), \<lparr>idx = 1, event = demo_change\<rparr>], ch_closed = False\<rparr>]"
  by code_simp

theorem consumers_follow_master_witness:
  "\<exists>t. replay (apply_event list_rx demo_parse) (empty_state list_rx)
      [hydration_event ''h'' (ms_state demo_after), \<lparr>idx = 1, event = demo_change\<rparr>] = Inr t \<and> same_but_clock (ms_state demo_last) t"
proof -
  let ?ch = "\<lparr>ch_items = [hydration_event ''h'' (ms_state demo_after), \<lparr>idx = 1, event = demo_change\<rparr>], ch_closed = False\<rparr>"
  have sess: "ms_session_id demo_master = demo_session" by (simp add: demo_master_def)
  have "log_len (ms_log demo_master) = 0" by code_simp
  then have "session_log list_rx demo_parse [] demo_master"
    by (simp add: session_log_def demo_in_order) (simp add: demo_master_def)
  moreover have "\<forall>(io, le) \<in> set ([(\<lambda>_. demo_io, demo_local)] @ demo_second). \<forall>k. demo_parse (io_stamp (io k)) \<noteq> None"
    by (simp add: demo_io_def demo_parse_def demo_second_def)
  moreover have "served_by demo_after (Some demo_snapshot)"
  proof -
    have "map_option sy_snapshot (state_sync_processor None demo_request demo_after) = Some (Some demo_snapshot)" by code_simp
    then show ?thesis by (auto simp: served_by_def)
  qed
  moreover have "list_all (faithful demo_session ([] @ map gf_event (demo_broadcasts @ demo_sent)) (Some demo_snapshot)) late_actions"
    by (simp add: late_actions_def demo_sent_def demo_broadcasts_def log_of_def)
  moreover have "rt_bootstrap late_router = BootstrapComplete" "next_idx_to_release (rt_event_buffer late_router) = 2"
    "log_len (ms_log demo_last) = 2" by code_simp+
  ultimately show ?thesis
    using consumers_follow_master [OF _ demo_master_run demo_second_run _ _ late_run [folded sess], of "[]" "Some demo_snapshot" ?ch]
    by (auto simp: late_channel sess)
qed

end
