(* ===== verification/Spec2Isabelle.thy ===== *)
theory Spec2Isabelle
  imports Multiaddr Topology_Graph Apply_Behaviour Session_Carryover Election Group_Formation Master_Pipeline_Proofs Authority_Agreement
    Placement_Example Master_Liveness_Proofs Master_Repair_Proofs Request_Proofs Replication
begin

text \<open>
  Verification library for the cluster core of Skulk, the Python program under
  \<^verbatim>\<open>src/skulk\<close>: a cluster of nodes that serves language models and is held together by an
  event-sourced, replicated state.

  \<^bold>\<open>The parts and how they interact.\<close>  Nodes elect a master (\<^verbatim>\<open>shared/election.py\<close>).  The master orders
  the events the nodes send (\<^verbatim>\<open>master/main.py\<close>, through a buffer per sender,
  \<^verbatim>\<open>utils/event_buffer.py\<close>), applies them to its state (\<^verbatim>\<open>shared/apply.py\<close>), appends the durable ones
  to a log on disk (\<^verbatim>\<open>utils/disk_event_log.py\<close>) and broadcasts all of them under consecutive
  indices; it answers requests for missing events from the log, and requests for a snapshot from its state.
  Each node receives the broadcasts through its event router (\<^verbatim>\<open>routing/event_router.py\<close>), which
  starts from a snapshot, restores the order, asks for what is missing and hands every event on to local
  consumers once; the consumers apply them to their own copy of the state.  The worker of a node plans its
  next action from that copy (\<^verbatim>\<open>worker/plan.py\<close>).  A new master seeds its session from the state it
  holds (\<^verbatim>\<open>shared/session_carryover.py\<close>).  The master also places models: it chooses a cycle of nodes whose
  engines and memory can hold the model (\<^verbatim>\<open>master/placement.py\<close>, \<^verbatim>\<open>master/placement_utils.py\<close>,
  \<^verbatim>\<open>shared/models/memory_estimate.py\<close>, \<^verbatim>\<open>shared/backends.py\<close>), turns the difference between target and current
  placements into events, and takes down what a lost node hosted (\<^verbatim>\<open>master/main.py\<close>).  The state contains the topology of the cluster
  (\<^verbatim>\<open>shared/topology.py\<close>), whose edges carry multiaddresses (\<^verbatim>\<open>shared/types/multiaddr.py\<close>).  Apart
  from this, the operator authority replicates a log of administrative decisions by a Paxos protocol with
  signed certificates (\<^verbatim>\<open>operator/replication.py\<close>, \<^verbatim>\<open>operator/consensus.py\<close>,
  \<^verbatim>\<open>operator/consensus_store.py\<close>).

  \<^bold>\<open>The theories.\<close>  Every definition has the name of the function, method or class it models; a method
  takes the object as a record and returns the updated record; an exception is the left side of a sum; a
  coroutine is split into one definition per stretch between two awaits, and an inductive step relation
  interleaves them.  Python dicts are association lists that keep insertion order (\<open>dict\<close>).

  \<^item> \<open>Prelude\<close>: dictionaries, sets and lists as Python uses them, and the lemma collections.
  \<^item> \<open>Event_Buffer\<close>: \<open>OrderedBuffer\<close> and \<open>MultiSourceBuffer\<close>.  A buffer releases exactly the log, in order and
    without repetition, whatever the order of arrival; a conflicting payload raises, and truncation recovers.
  \<^item> \<open>Multiaddr\<close>: validation and the computed fields of a multiaddress.
  \<^item> \<open>Topology\<close>, \<open>Topology_Graph\<close>: all of \<open>Topology\<close>.  The rustworkx graph is a parameter with its documented
    laws, the locale \<open>rx_digraph\<close>, interpreted on a reference graph.  Mutators and queries refine a set of
    nodes and connections; snapshots round-trip; an example shows that
    \<open>get_rdma_cycles\<close> can misattribute a cycle after a removal.
  \<^item> \<open>Cluster_State\<close>: the replicated state, instances, shards, runner states, tasks, downloads and events, from
    \<^verbatim>\<open>shared/types\<close>.
  \<^item> \<open>Apply\<close>, \<open>Replay\<close>, \<open>Apply_Invariants\<close>, \<open>Apply_Behaviour\<close>: the reducer and every handler; the locale
    \<open>event_machine\<close> of \<open>Replay\<close> states what replaying needs.  Every reachable state is well formed, a snapshot with the rest
    of the log is as good as the log, gaps are refused, and each handler does what it is for.
  \<^item> \<open>Session_Carryover\<close>: the seed of a new session.
  \<^item> \<open>Election\<close>: messages, receivers, connection bookkeeping and campaigns; convergence and the execution invariant.
  \<^item> \<open>Event_Router\<close>: the router as a step relation; what consumers received is the snapshot and the part of the log after it, and
    nothing that arrived in order is held back.
  \<^item> \<open>Disk_Event_Log\<close>, \<open>Disk_Log_Refinement\<close>: the log at the level of bytes, offset cache, compaction, archives and
    failing system calls; the locale \<open>event_store\<close> is what the master relies on, and the log implements it.
  \<^item> \<open>Master_Pipeline\<close>, \<open>Master_Pipeline_Proofs\<close>: event processor, replay worker, snapshots and state sync of the
    master; its broadcasts reproduce its state up to the liveness times and replays repeat them.
  \<^item> \<open>Replication\<close>: master and router together.  What a consumer received, through broadcasts, replays and the snapshot
    the master serves of its own state, replays to the state of the master's log and, once level, of the master itself, up to the
    liveness times: the master applies a reading before it stamps it, so its own times differ from those of its log
    (\<open>master_clock_differs_from_log\<close>).
  \<^item> \<open>Worker_Plan\<close>, \<open>Worker_Plan_Safety\<close>, \<open>Group_Formation\<close>: \<open>plan\<close> and every planner function; what the planner
    dispatches is safe, and the ranks of a distributed instance connect and warm up without deadlock.
  \<^item> \<open>Authority_Types\<close>, \<open>Authority_Consensus\<close>: memberships, certificates, proposer and participant of the operator
    authority.  \<open>Authority_System\<close> lets nodes, networks and proposers interleave, \<open>Authority_Acceptor\<close> and
    \<open>Authority_Invariant\<close> hold the invariants of one node and of the system, \<open>Authority_Agreement\<close> that two nodes never
    commit different entries; the locale \<open>single_decree\<close> states one Paxos instance.  \<open>Authority_Example\<close> is a complete run.
  \<^item> \<open>Floating\<close>: rounding of doubles as a parameter with the laws of IEEE arithmetic.
  \<^item> \<open>Memory_Estimate\<close>, \<open>Placement_Memory\<close>: footprints of shards, context windows, and what placements take off a
    node's memory; a stamped window, and every smaller one, fits.
  \<^item> \<open>Layer_Allocation\<close>, \<open>Cycle_Filter\<close>, \<open>Shard_Assignment\<close>: the memory filter and the split of layers; what the filter
    admits can be assigned, and what it rejects it explains.
  \<^item> \<open>Placement_Hosts\<close>, \<open>Placement_Transition\<close>: addresses of ring, RDMA and RPC groups; events of a transition; repair
    commands.
  \<^item> \<open>Backends\<close>, \<open>Placement_Search\<close>, \<open>Placement\<close>, \<open>Placement_Proofs\<close>, \<open>Placement_Example\<close>: \<open>place_instance\<close> as a whole.
    Each filter over the candidate cycles is an instance of the locale \<open>cycle_phase\<close>.  A placement honours its command,
    and listener ports stay disjoint.
  \<^item> \<open>Master_Liveness\<close>, \<open>Master_Liveness_Proofs\<close>: the liveness part of the plan loop; requests are failed before their
    task is dropped, except video generation, and failure records are bounded.
  \<^item> \<open>Master_Repair\<close>, \<open>Master_Repair_Proofs\<close>: the handler of refused placements and the recovery from failed downloads.
    Replacements end after a bounded number of refusals, serving placements are spared, stale failures are consumed; a
    placement error of the wrong class leaves a refused placement in place.
  \<^item> \<open>Request_Dispatch\<close>, \<open>Request_Proofs\<close>: the inference commands of the master.  Every accepted request gets a task or a
    failure, text goes to the best instance, realtime sessions exclude each other, and a request can always be closed.

  \<^bold>\<open>Idealisations.\<close>  Code outside the repository is a parameter: the rustworkx graph, the codec of log records
  (an injective encoding), the equality of serialised payloads, hashes (injective) and signatures (verify for
  what was signed), random ports and identifiers, the registry and capability profiles of model cards.  Time is an
  argument.  Floating-point results are exact values followed by a rounding function.  The outcome of each file system call is an argument of the log's
  operations, so that every failure is covered.  Scanning loops have as fuel the length of what they scan.
  The topology travels inside a snapshot event as it is: that encoding and rebuilding it gives the same graph is proved in
  \<open>Topology_Graph\<close>, not part of the event.  Where Python iterates over a set (the search for bridge cycles, for instance) the
  model fixes an order.  A product of memory and fraction is rounded once, while Python first converts the number of bytes
  to a double; this differs only above \<open>2\<^sup>5\<^sup>3\<close> bytes.  A tick of the plan loop reads one state, although the code awaits between its
  parts, and a replay reads at once the range that the code reads lazily between paced sends.

  \<^bold>\<open>Not modelled.\<close>  The HTTP API, engines, downloads, process supervision and transports are I/O around this core
  or numerical code on third-party libraries.  Of the master, video requests, explicit placements
  (\<open>add_instance_to_placements\<close>), custom model cards and the steward actions are left out; of the operator authority,
  the runtime that drives proposals, pairing and the encrypted store.
\<close>

end
